(* ===== verification/Prelude.thy ===== *)
theory Prelude imports Main begin

text \<open>
  What every theory of the development shares: the exceptions the Python code can raise,
  results that are either such an exception or a value, and the generic facts on lists,
  options and association lists that the component proofs use.
\<close>

section \<open>Exceptions and results\<close>

datatype exn =
    TypeError
  | ValueError
  | KeyError
  | IndexError
  | AttributeError
  | OverflowError
  | OSError
  | RuntimeError

type_synonym 'a res = "exn + 'a"

definition bind_res :: "'a res \<Rightarrow> ('a \<Rightarrow> 'b res) \<Rightarrow> 'b res" where
  "bind_res m f = (case m of Inl e \<Rightarrow> Inl e | Inr x \<Rightarrow> f x)"

named_theorems res_simps \<open>evaluation of results\<close>

lemma bind_res_simps [simp, res_simps]:
  "bind_res (Inl e) f = Inl e"
  "bind_res (Inr x) f = f x"
  by (simp_all add: bind_res_def)

lemma bind_res_Inr_iff: "bind_res m f = Inr y \<longleftrightarrow> (\<exists>x. m = Inr x \<and> f x = Inr y)"
  by (cases m) auto

fun is_ok :: "'e + 'a \<Rightarrow> bool" where
  "is_ok (Inl _) = False"
| "is_ok (Inr _) = True"

text \<open>Mapping a function that may raise over a list: the first exception wins.\<close>

fun map_res :: "('a \<Rightarrow> 'b res) \<Rightarrow> 'a list \<Rightarrow> 'b list res" where
  "map_res f [] = Inr []"
| "map_res f (x # xs) =
     bind_res (f x) (\<lambda>y. bind_res (map_res f xs) (\<lambda>ys. Inr (y # ys)))"

section \<open>Association lists in insertion order\<close>

text \<open>
  A Python \<^verbatim>\<open>dict\<close> keeps its keys in insertion order; storing under a key that is
  already there keeps the key's place.
\<close>

fun alist_put :: "'k \<Rightarrow> 'v \<Rightarrow> ('k \<times> 'v) list \<Rightarrow> ('k \<times> 'v) list" where
  "alist_put k v [] = [(k, v)]"
| "alist_put k v ((k', v') # xs) =
     (if k' = k then (k, v) # xs else (k', v') # alist_put k v xs)"

definition alist_del :: "'k \<Rightarrow> ('k \<times> 'v) list \<Rightarrow> ('k \<times> 'v) list" where
  "alist_del k xs = filter (\<lambda>p. fst p \<noteq> k) xs"

named_theorems alist_simps \<open>lookup and keys of updated association lists\<close>

lemma map_of_alist_put [simp, alist_simps]:
  "map_of (alist_put k v xs) j = (if j = k then Some v else map_of xs j)"
  by (induction k v xs rule: alist_put.induct) auto

lemma dom_alist_put [simp, alist_simps]:
  "fst ` set (alist_put k v xs) = insert k (fst ` set xs)"
  by (induction k v xs rule: alist_put.induct) auto

lemma keys_alist_put [alist_simps]:
  "map fst (alist_put k v xs) =
     (if k \<in> fst ` set xs then map fst xs else map fst xs @ [k])"
  by (induction k v xs rule: alist_put.induct) auto

lemma distinct_alist_put [simp]:
  "distinct (map fst xs) \<Longrightarrow> distinct (map fst (alist_put k v xs))"
  by (simp add: keys_alist_put image_iff)

lemma map_of_alist_del [simp, alist_simps]:
  "map_of (alist_del k xs) j = (if j = k then None else map_of xs j)"
  by (induction xs) (auto simp: alist_del_def)

lemma dom_alist_del [simp, alist_simps]:
  "fst ` set (alist_del k xs) = fst ` set xs - {k}"
  by (auto simp: alist_del_def image_iff)

lemma distinct_alist_del [simp]:
  "distinct (map fst xs) \<Longrightarrow> distinct (map fst (alist_del k xs))"
  by (induction xs) (auto simp: alist_del_def)

lemma length_alist_del_le: "length (alist_del k xs) \<le> length xs"
  by (simp add: alist_del_def)

lemma alist_del_absent: "k \<notin> fst ` set xs \<Longrightarrow> alist_del k xs = xs"
  by (induction xs) (auto simp: alist_del_def)

section \<open>Lists and options\<close>

fun first_some :: "('a \<Rightarrow> 'b option) \<Rightarrow> 'a list \<Rightarrow> 'b option" where
  "first_some f [] = None"
| "first_some f (x # xs) = (case f x of None \<Rightarrow> first_some f xs | Some y \<Rightarrow> Some y)"

lemma first_some_None [simp]: "first_some f xs = None \<longleftrightarrow> (\<forall>x \<in> set xs. f x = None)"
  by (induction xs) (auto split: option.splits)

lemma first_some_SomeD:
  "first_some f xs = Some y \<Longrightarrow> \<exists>us x vs. xs = us @ x # vs \<and> f x = Some y \<and> (\<forall>u \<in> set us. f u = None)"
proof (induction xs)
  case Nil
  then show ?case by simp
next
  case (Cons a xs)
  show ?case
  proof (cases "f a")
    case None
    with Cons obtain us x vs where "xs = us @ x # vs" "f x = Some y" "\<forall>u \<in> set us. f u = None"
      by auto
    with None have "a # xs = (a # us) @ x # vs \<and> f x = Some y \<and> (\<forall>u \<in> set (a # us). f u = None)"
      by simp
    then show ?thesis by blast
  next
    case (Some z)
    with Cons.prems have "a # xs = [] @ a # xs \<and> f a = Some y \<and> (\<forall>u \<in> set []. f u = None)" by simp
    then show ?thesis by blast
  qed
qed

text \<open>The last element of a list that satisfies a predicate, as a loop that keeps overwriting.\<close>

fun last_some :: "('a \<Rightarrow> 'b option) \<Rightarrow> 'a list \<Rightarrow> 'b option" where
  "last_some f [] = None"
| "last_some f (x # xs) = (case last_some f xs of None \<Rightarrow> f x | Some y \<Rightarrow> Some y)"

lemma last_some_in: "last_some f xs = Some y \<Longrightarrow> \<exists>x \<in> set xs. f x = Some y"
  by (induction xs) (auto split: option.splits)

lemma sum_list_update_int:
  "i < length xs \<Longrightarrow> sum_list (map f (xs[i := x])) = sum_list (map f xs) - f (xs ! i) + (f x :: int)"
  by (induction xs arbitrary: i) (auto split: nat.splits)

end
