(* ===== verification/PyStr.thy ===== *)
theory PyStr
  imports Prelude "HOL-Library.Char_ord" "HOL-Library.List_Lexorder" "HOL-Library.Sublist"
begin

text \<open>
  Python's \<^verbatim>\<open>str\<close> as the source uses it. A string is a list of characters, and a
  character is a code point below 256: text outside Latin-1 is outside the model. Every
  predicate below is Python's, restricted to that range (so the no-break space and the
  next-line control are white space, and the superscript digits are word characters).
\<close>

section \<open>Characters\<close>

abbreviation cp :: "char \<Rightarrow> nat" where
  "cp c \<equiv> of_char c"

definition is_space :: "char \<Rightarrow> bool" where
  "is_space c = (cp c \<in> {9, 10, 11, 12, 13, 28, 29, 30, 31, 32, 133, 160})"

definition is_break :: "char \<Rightarrow> bool" where
  "is_break c = (cp c \<in> {10, 11, 12, 13, 28, 29, 30, 133})"

definition is_digit :: "char \<Rightarrow> bool" where
  "is_digit c = (48 \<le> cp c \<and> cp c \<le> 57)"

definition is_upper_az :: "char \<Rightarrow> bool" where
  "is_upper_az c = (65 \<le> cp c \<and> cp c \<le> 90)"

definition is_lower_az :: "char \<Rightarrow> bool" where
  "is_lower_az c = (97 \<le> cp c \<and> cp c \<le> 122)"

definition is_alpha_az :: "char \<Rightarrow> bool" where
  "is_alpha_az c = (is_upper_az c \<or> is_lower_az c)"

definition is_word :: "char \<Rightarrow> bool" where
  "is_word c = (is_alpha_az c \<or> is_digit c \<or> cp c = 95 \<or>
     cp c \<in> {170, 178, 179, 181, 185, 186, 188, 189, 190} \<or>
     (192 \<le> cp c \<and> cp c \<noteq> 215 \<and> cp c \<noteq> 247))"

definition lower_char :: "char \<Rightarrow> char" where
  "lower_char c =
     (if is_upper_az c \<or> (192 \<le> cp c \<and> cp c \<le> 222 \<and> cp c \<noteq> 215)
      then char_of (cp c + 32) else c)"

definition lower :: "string \<Rightarrow> string" where
  "lower s = map lower_char s"

lemma lower_char_idem [simp]: "lower_char (lower_char c) = lower_char c"
proof (cases "is_upper_az c \<or> (192 \<le> cp c \<and> cp c \<le> 222 \<and> cp c \<noteq> 215)")
  case True
  then have le: "cp c + 32 < 256" by (auto simp: is_upper_az_def)
  then have "cp (lower_char c) = cp c + 32"
    using True by (simp add: lower_char_def)
  moreover from True have "\<not> (65 \<le> cp c + 32 \<and> cp c + 32 \<le> 90)"
    and "\<not> (192 \<le> cp c + 32 \<and> cp c + 32 \<le> 222)"
    by (auto simp: is_upper_az_def)
  ultimately show ?thesis
    by (subst lower_char_def) (auto simp: is_upper_az_def)
next
  case False
  then have "lower_char c = c" unfolding lower_char_def by (rule if_not_P)
  then show ?thesis by simp
qed

lemma lower_idem [simp]: "lower (lower s) = lower s"
  by (simp add: lower_def)

lemma length_lower [simp]: "length (lower s) = length s"
  by (simp add: lower_def)

section \<open>Stripping\<close>

definition lstrip_by :: "(char \<Rightarrow> bool) \<Rightarrow> string \<Rightarrow> string" where
  "lstrip_by P s = dropWhile P s"

definition rstrip_by :: "(char \<Rightarrow> bool) \<Rightarrow> string \<Rightarrow> string" where
  "rstrip_by P s = rev (dropWhile P (rev s))"

definition strip_by :: "(char \<Rightarrow> bool) \<Rightarrow> string \<Rightarrow> string" where
  "strip_by P s = rstrip_by P (lstrip_by P s)"

abbreviation strip :: "string \<Rightarrow> string" where
  "strip s \<equiv> strip_by is_space s"

abbreviation rstrip :: "string \<Rightarrow> string" where
  "rstrip s \<equiv> rstrip_by is_space s"

abbreviation strip_chars :: "string \<Rightarrow> string \<Rightarrow> string" where
  "strip_chars cs s \<equiv> strip_by (\<lambda>c. c \<in> set cs) s"

lemma set_strip_by: "set (strip_by P s) \<subseteq> set s"
  unfolding strip_by_def rstrip_by_def lstrip_by_def
  by (metis (no_types, opaque_lifting) set_dropWhileD set_rev subsetI)

section \<open>Splitting and joining\<close>

fun join :: "string \<Rightarrow> string list \<Rightarrow> string" where
  "join sep [] = []"
| "join sep [s] = s"
| "join sep (s # t # ts) = s @ sep @ join sep (t # ts)"

fun splitlines_aux :: "string \<Rightarrow> string \<Rightarrow> string list" where
  "splitlines_aux cur [] = (if cur = [] then [] else [rev cur])"
| "splitlines_aux cur (c # s) =
     (if is_break c
      then rev cur # splitlines_aux [] (if cp c = 13 \<and> s \<noteq> [] \<and> cp (hd s) = 10 then tl s else s)
      else splitlines_aux (c # cur) s)"

definition splitlines :: "string \<Rightarrow> string list" where
  "splitlines s = splitlines_aux [] s"

fun split_ws_aux :: "string \<Rightarrow> string \<Rightarrow> string list" where
  "split_ws_aux cur [] = (if cur = [] then [] else [rev cur])"
| "split_ws_aux cur (c # s) =
     (if is_space c then (if cur = [] then [] else [rev cur]) @ split_ws_aux [] s
      else split_ws_aux (c # cur) s)"

definition split_ws :: "string \<Rightarrow> string list" where
  "split_ws s = split_ws_aux [] s"

fun split_char_aux :: "char \<Rightarrow> string \<Rightarrow> string \<Rightarrow> string list" where
  "split_char_aux d cur [] = [rev cur]"
| "split_char_aux d cur (c # s) =
     (if c = d then rev cur # split_char_aux d [] s else split_char_aux d (c # cur) s)"

definition split_char :: "char \<Rightarrow> string \<Rightarrow> string list" where
  "split_char d s = split_char_aux d [] s"

text \<open>\<^verbatim>\<open>s.partition(d)\<close> for a one-character separator: what is before, whether it was there, after.\<close>

definition partition_char :: "char \<Rightarrow> string \<Rightarrow> string \<times> bool \<times> string" where
  "partition_char d s =
     (takeWhile (\<lambda>c. c \<noteq> d) s,
      d \<in> set s,
      drop 1 (dropWhile (\<lambda>c. c \<noteq> d) s))"

lemma no_break_in_lines:
  "\<forall>c \<in> set cur. \<not> is_break c \<Longrightarrow> l \<in> set (splitlines_aux cur s) \<Longrightarrow> \<forall>c \<in> set l. \<not> is_break c"
proof (induction cur s rule: splitlines_aux.induct)
  case (1 cur)
  then show ?case by (simp split: if_splits)
next
  case (2 cur c s)
  show ?case
  proof (cases "is_break c")
    case True
    let ?r = "if cp c = 13 \<and> s \<noteq> [] \<and> cp (hd s) = 10 then tl s else s"
    from True "2.prems"(2) have "l = rev cur \<or> l \<in> set (splitlines_aux [] ?r)"
      by (simp only: splitlines_aux.simps if_True list.set insert_iff)
    then show ?thesis
    proof
      assume "l = rev cur"
      with "2.prems"(1) show ?thesis by simp
    next
      assume "l \<in> set (splitlines_aux [] ?r)"
      from "2.IH"(1) [OF True _ this] show ?thesis by simp
    qed
  next
    case False
    from False "2.prems"(2) have l: "l \<in> set (splitlines_aux (c # cur) s)" by simp
    have "\<forall>x \<in> set (c # cur). \<not> is_break x" using False "2.prems"(1) by simp
    from "2.IH"(2) [OF False this l] show ?thesis .
  qed
qed

lemma no_break_in_splitlines: "l \<in> set (splitlines s) \<Longrightarrow> \<forall>c \<in> set l. \<not> is_break c"
  unfolding splitlines_def by (rule no_break_in_lines [of "[]"]) simp_all

lemma split_ws_aux_words:
  "\<forall>c \<in> set cur. \<not> is_space c \<Longrightarrow> w \<in> set (split_ws_aux cur s) \<Longrightarrow>
     w \<noteq> [] \<and> (\<forall>c \<in> set w. \<not> is_space c)"
proof (induction cur s rule: split_ws_aux.induct)
  case (1 cur)
  then show ?case by (simp split: if_splits)
next
  case (2 cur c s)
  show ?case
  proof (cases "is_space c")
    case True
    with "2.prems" have "w \<in> set (split_ws_aux [] s) \<or> (cur \<noteq> [] \<and> w = rev cur)"
      by (auto split: if_splits)
    then show ?thesis
    proof
      assume "w \<in> set (split_ws_aux [] s)"
      from "2.IH"(1) [OF True _ this] show ?thesis by simp
    next
      assume "cur \<noteq> [] \<and> w = rev cur"
      with "2.prems"(1) show ?thesis by simp
    qed
  next
    case False
    from False "2.prems"(2) have w: "w \<in> set (split_ws_aux (c # cur) s)" by simp
    have "\<forall>x \<in> set (c # cur). \<not> is_space x" using False "2.prems"(1) by simp
    from "2.IH"(2) [OF False this w] show ?thesis .
  qed
qed

lemma split_ws_words: "w \<in> set (split_ws s) \<Longrightarrow> w \<noteq> [] \<and> (\<forall>c \<in> set w. \<not> is_space c)"
  unfolding split_ws_def by (rule split_ws_aux_words [of "[]"]) simp_all

section \<open>Searching and replacing\<close>

abbreviation startswith :: "string \<Rightarrow> string \<Rightarrow> bool" where
  "startswith s p \<equiv> take (length p) s = p"

definition endswith :: "string \<Rightarrow> string \<Rightarrow> bool" where
  "endswith s p = (length p \<le> length s \<and> drop (length s - length p) s = p)"

fun contains :: "string \<Rightarrow> string \<Rightarrow> bool" where
  "contains [] p = (p = [])"
| "contains (c # s) p = (startswith (c # s) p \<or> contains s p)"

lemma contains_iff: "contains s p \<longleftrightarrow> (\<exists>u v. s = u @ p @ v)"
proof (induction s)
  case Nil
  then show ?case by auto
next
  case (Cons c s)
  show ?case
  proof
    assume "contains (c # s) p"
    then consider "startswith (c # s) p" | "contains s p" by auto
    then show "\<exists>u v. c # s = u @ p @ v"
    proof cases
      case 1
      then have "c # s = [] @ p @ drop (length p) (c # s)"
        by (metis append_Nil append_take_drop_id)
      then show ?thesis by blast
    next
      case 2
      with Cons.IH obtain u v where "s = u @ p @ v" by blast
      then have "c # s = (c # u) @ p @ v" by simp
      then show ?thesis by blast
    qed
  next
    assume "\<exists>u v. c # s = u @ p @ v"
    then obtain u v where uv: "c # s = u @ p @ v" by blast
    show "contains (c # s) p"
    proof (cases u)
      case Nil
      with uv have "startswith (c # s) p" by (metis append_Nil append_eq_conv_conj)
      then show ?thesis by simp
    next
      case (Cons a u')
      with uv have "s = u' @ p @ v" by simp
      with Cons.IH have "contains s p" by blast
      then show ?thesis by simp
    qed
  qed
qed

lemma contains_self [simp]: "contains s s"
  unfolding contains_iff by (rule exI [of _ "[]"], rule exI [of _ "[]"]) simp

lemma contains_Nil [simp]: "contains s []"
  unfolding contains_iff by (rule exI [of _ "[]"], rule exI [of _ s]) simp

lemma contains_trans: "contains s t \<Longrightarrow> contains t p \<Longrightarrow> contains s p"
  unfolding contains_iff by (metis append.assoc)

text \<open>
  \<^verbatim>\<open>s.replace(old, new)\<close> for a non-empty \<open>old\<close>: leftmost, non-overlapping occurrences.
\<close>

function replace :: "string \<Rightarrow> string \<Rightarrow> string \<Rightarrow> string" where
  "replace old new [] = []"
| "replace old new (c # s) =
     (if old \<noteq> [] \<and> startswith (c # s) old
      then new @ replace old new (drop (length old) (c # s))
      else c # replace old new s)"
  by pat_completeness auto
termination
proof (relation "measure (\<lambda>(old, new, s). length s)")
  fix old new :: string and c s
  assume "old \<noteq> [] \<and> startswith (c # s) old"
  then have "0 < length old" by simp
  then show "((old, new, drop (length old) (c # s)), old, new, c # s)
      \<in> measure (\<lambda>(old, new, s). length s)" by simp
qed simp_all

declare replace.simps(2) [simp del]

section \<open>Decimal numbers\<close>

definition digit_char :: "nat \<Rightarrow> char" where
  "digit_char d = char_of (48 + d)"

fun show_nat :: "nat \<Rightarrow> string" where
  "show_nat n = (if n < 10 then [digit_char n] else show_nat (n div 10) @ [digit_char (n mod 10)])"

declare show_nat.simps [simp del]

definition show_int :: "int \<Rightarrow> string" where
  "show_int i = (if i < 0 then CHR ''-'' # show_nat (nat (- i)) else show_nat (nat i))"

definition digit_val :: "char \<Rightarrow> nat" where
  "digit_val c = cp c - 48"

definition nat_of_digits :: "string \<Rightarrow> nat" where
  "nat_of_digits s = foldl (\<lambda>a c. 10 * a + digit_val c) 0 s"

lemma cp_digit_char [simp]: "d < 10 \<Longrightarrow> cp (digit_char d) = 48 + d"
  by (simp add: digit_char_def)

lemma digit_val_digit_char [simp]: "d < 10 \<Longrightarrow> digit_val (digit_char d) = d"
  by (simp add: digit_val_def)

lemma nat_of_digits_snoc: "nat_of_digits (s @ [c]) = 10 * nat_of_digits s + digit_val c"
  by (simp add: nat_of_digits_def)

lemma nat_of_digits_show: "nat_of_digits (show_nat n) = n"
proof (induction n rule: show_nat.induct)
  case (1 n)
  show ?case
  proof (cases "n < 10")
    case True
    then show ?thesis by (subst show_nat.simps) (simp add: nat_of_digits_def)
  next
    case False
    with 1 have "nat_of_digits (show_nat (n div 10)) = n div 10" by simp
    with False show ?thesis
      by (subst show_nat.simps) (simp add: nat_of_digits_snoc)
  qed
qed

lemma show_nat_inj: "show_nat m = show_nat n \<Longrightarrow> m = n"
  by (metis nat_of_digits_show)

lemma show_nat_digits: "c \<in> set (show_nat n) \<Longrightarrow> is_digit c"
proof (induction n rule: show_nat.induct)
  case (1 n)
  show ?case
  proof (cases "n < 10")
    case True
    with "1.prems" have "c = digit_char n" by (simp add: show_nat.simps [of n])
    with True show ?thesis by (simp add: is_digit_def)
  next
    case False
    with "1.prems" have "c \<in> set (show_nat (n div 10)) \<or> c = digit_char (n mod 10)"
      by (auto simp: show_nat.simps [of n])
    with False "1.IH" show ?thesis by (auto simp: is_digit_def)
  qed
qed

lemma show_nat_ne [simp]: "show_nat n \<noteq> []"
  by (subst show_nat.simps) simp

end
