(* ===== verification/PyVal.thy ===== *)
theory PyVal
  imports PyStr Complex_Main
begin

text \<open>
  Python values that cross a JSON or YAML boundary. A request body, a ledger row, an upstream
  answer or a keys file is a \<open>pyval\<close>; what the source tests with \<^verbatim>\<open>isinstance\<close> is the
  constructor. A \<^verbatim>\<open>dict\<close> is an association list in insertion order. A \<^verbatim>\<open>float\<close> is a rational
  or one of the three special values: rounding to 53 bits is not modelled, the comparisons
  with a not-a-number value are.
\<close>

section \<open>Floats\<close>

datatype pyfloat = Fin rat | PosInf | NegInf | NaN

fun fle :: "pyfloat \<Rightarrow> pyfloat \<Rightarrow> bool" where
  "fle NaN _ = False"
| "fle _ NaN = False"
| "fle NegInf _ = True"
| "fle _ PosInf = True"
| "fle (Fin a) (Fin b) = (a \<le> b)"
| "fle _ _ = False"

definition flt :: "pyfloat \<Rightarrow> pyfloat \<Rightarrow> bool" where
  "flt a b = (fle a b \<and> \<not> fle b a)"

fun fadd :: "pyfloat \<Rightarrow> pyfloat \<Rightarrow> pyfloat" where
  "fadd (Fin a) (Fin b) = Fin (a + b)"
| "fadd NaN _ = NaN"
| "fadd _ NaN = NaN"
| "fadd PosInf NegInf = NaN"
| "fadd NegInf PosInf = NaN"
| "fadd PosInf _ = PosInf"
| "fadd NegInf _ = NegInf"
| "fadd _ PosInf = PosInf"
| "fadd _ NegInf = NegInf"

fun is_finite :: "pyfloat \<Rightarrow> bool" where
  "is_finite (Fin _) = True"
| "is_finite _ = False"

lemma fle_NaN [simp]: "\<not> fle NaN a" "\<not> fle a NaN"
  by (cases a; simp)+

lemma fadd_NaN [simp]: "fadd NaN a = NaN" "fadd a NaN = NaN"
  by (cases a; simp)+

lemma fle_FinD: "fle (fadd (Fin a) x) (Fin b) \<Longrightarrow> x = NegInf \<or> (\<exists>r. x = Fin r \<and> a + r \<le> b)"
  by (cases x) auto

lemma flt_Fin [simp]: "flt (Fin a) (Fin b) = (a < b)"
  by (auto simp: flt_def)

text \<open>
  An integer of this size or beyond raises OverflowError when it is converted to a float. Rounding
  to a number of decimals is half to even.
\<close>

definition float_limit :: int where
  "float_limit = 2 ^ 1024 - 2 ^ 970"

definition round_half_even :: "rat \<Rightarrow> int" where
  "round_half_even x =
     (let f = \<lfloor>x\<rfloor>; d = x - of_int f in
      if d < 1 / 2 then f else if d > 1 / 2 then f + 1 else if even f then f else f + 1)"

definition round_to :: "nat \<Rightarrow> rat \<Rightarrow> rat" where
  "round_to k x = of_int (round_half_even (x * 10 ^ k)) / 10 ^ k"

lemma round_half_even_error: "\<bar>of_int (round_half_even x) - x\<bar> \<le> 1 / 2"
proof -
  have "of_int \<lfloor>x\<rfloor> \<le> x" "x < of_int \<lfloor>x\<rfloor> + 1" by linarith+
  then show ?thesis by (auto simp: round_half_even_def Let_def)
qed

lemma round_to_error: "\<bar>round_to k x - x\<bar> \<le> 1 / (2 * 10 ^ k)"
proof -
  have p: "(0 :: rat) < 10 ^ k" by simp
  have "\<bar>of_int (round_half_even (x * 10 ^ k)) - x * 10 ^ k\<bar> / 10 ^ k \<le> (1 / 2) / 10 ^ k"
    by (rule divide_right_mono [OF round_half_even_error]) simp
  moreover have "\<bar>of_int (round_half_even (x * 10 ^ k)) - x * 10 ^ k\<bar> / 10 ^ k = \<bar>round_to k x - x\<bar>"
  proof -
    have "round_to k x - x = (of_int (round_half_even (x * 10 ^ k)) - x * 10 ^ k) / 10 ^ k"
      by (simp add: round_to_def diff_divide_distrib)
    then show ?thesis by (simp add: abs_divide)
  qed
  ultimately show ?thesis by simp
qed

section \<open>Values\<close>

datatype pyval =
    PNone
  | PBool bool
  | PInt int
  | PFloat pyfloat
  | PStr string
  | PList "pyval list"
  | PDict "(pyval \<times> pyval) list"

type_synonym pydict = "(pyval \<times> pyval) list"

definition dlook :: "pydict \<Rightarrow> string \<Rightarrow> pyval option" where
  "dlook d k = map_of d (PStr k)"

text \<open>\<^verbatim>\<open>d.get(k)\<close>: the value, or None.\<close>

definition dget :: "pydict \<Rightarrow> string \<Rightarrow> pyval" where
  "dget d k = (case dlook d k of None \<Rightarrow> PNone | Some v \<Rightarrow> v)"

definition dget_or :: "pydict \<Rightarrow> string \<Rightarrow> pyval \<Rightarrow> pyval" where
  "dget_or d k v0 = (case dlook d k of None \<Rightarrow> v0 | Some v \<Rightarrow> v)"

definition dput :: "string \<Rightarrow> pyval \<Rightarrow> pydict \<Rightarrow> pydict" where
  "dput k v d = alist_put (PStr k) v d"

text \<open>\<^verbatim>\<open>d.setdefault(k, v)\<close> for its effect on \<open>d\<close>.\<close>

definition dsetdefault :: "string \<Rightarrow> pyval \<Rightarrow> pydict \<Rightarrow> pydict" where
  "dsetdefault k v d = (if dlook d k = None then dput k v d else d)"

definition dhas :: "pydict \<Rightarrow> string \<Rightarrow> bool" where
  "dhas d k = (dlook d k \<noteq> None)"

named_theorems dict_simps \<open>dictionary lookups after updates\<close>

lemma dlook_dput [simp, dict_simps]: "dlook (dput k v d) j = (if j = k then Some v else dlook d j)"
  by (simp add: dlook_def dput_def)

lemma dlook_dsetdefault [simp, dict_simps]:
  "dlook (dsetdefault k v d) j =
     (if j = k \<and> dlook d k = None then Some v else dlook d j)"
  by (simp add: dsetdefault_def)

lemma dlook_Nil [simp, dict_simps]: "dlook [] k = None"
  by (simp add: dlook_def)

lemma dlook_Cons [simp, dict_simps]:
  "dlook ((PStr j, v) # d) k = (if k = j then Some v else dlook d k)"
  by (simp add: dlook_def)

lemma dget_dput [simp, dict_simps]: "dget (dput k v d) j = (if j = k then v else dget d j)"
  by (simp add: dget_def)

lemma dsetdefault_present: "dlook d k = Some x \<Longrightarrow> dsetdefault k v d = d"
  by (simp add: dsetdefault_def)

lemma dsetdefault_idem [simp]: "dsetdefault k v (dsetdefault k w d) = dsetdefault k w d"
  by (simp add: dsetdefault_def)

definition dict_ok :: "pydict \<Rightarrow> bool" where
  "dict_ok d = distinct (map fst d)"

lemma dict_ok_dput [simp]: "dict_ok d \<Longrightarrow> dict_ok (dput k v d)"
  by (simp add: dict_ok_def dput_def)

text \<open>Python's truth value.\<close>

fun truthy :: "pyval \<Rightarrow> bool" where
  "truthy PNone = False"
| "truthy (PBool b) = b"
| "truthy (PInt i) = (i \<noteq> 0)"
| "truthy (PFloat f) = (f \<noteq> Fin 0)"
| "truthy (PStr s) = (s \<noteq> [])"
| "truthy (PList xs) = (xs \<noteq> [])"
| "truthy (PDict d) = (d \<noteq> [])"

fun is_pstr :: "pyval \<Rightarrow> bool" where
  "is_pstr (PStr _) = True"
| "is_pstr _ = False"

fun is_plist :: "pyval \<Rightarrow> bool" where
  "is_plist (PList _) = True"
| "is_plist _ = False"

fun is_pdict :: "pyval \<Rightarrow> bool" where
  "is_pdict (PDict _) = True"
| "is_pdict _ = False"

text \<open>\<^verbatim>\<open>isinstance(v, int)\<close> holds of a bool too.\<close>

fun is_pint :: "pyval \<Rightarrow> bool" where
  "is_pint (PInt _) = True"
| "is_pint (PBool _) = True"
| "is_pint _ = False"

fun is_pbool :: "pyval \<Rightarrow> bool" where
  "is_pbool (PBool _) = True"
| "is_pbool _ = False"

lemma is_pstr_iff: "is_pstr v \<longleftrightarrow> (\<exists>s. v = PStr s)"
  by (cases v) auto

lemma is_pdict_iff: "is_pdict v \<longleftrightarrow> (\<exists>d. v = PDict d)"
  by (cases v) auto

lemma is_plist_iff: "is_plist v \<longleftrightarrow> (\<exists>xs. v = PList xs)"
  by (cases v) auto

text \<open>The string a value holds, if it is a string.\<close>

fun as_str :: "pyval \<Rightarrow> string option" where
  "as_str (PStr s) = Some s"
| "as_str _ = None"

lemma as_str_Some [simp]: "as_str v = Some s \<longleftrightarrow> v = PStr s"
  by (cases v) auto

text \<open>The name \<^verbatim>\<open>type(v).__name__\<close>.\<close>

fun type_name :: "pyval \<Rightarrow> string" where
  "type_name PNone = ''NoneType''"
| "type_name (PBool _) = ''bool''"
| "type_name (PInt _) = ''int''"
| "type_name (PFloat _) = ''float''"
| "type_name (PStr _) = ''str''"
| "type_name (PList _) = ''list''"
| "type_name (PDict _) = ''dict''"

end
