(* ===== verification/PyRegex.thy ===== *)
theory PyRegex
  imports PyStr
begin

text \<open>
  The part of Python's \<^verbatim>\<open>re\<close> the source uses, as a backtracking matcher: \<open>mt\<close> lists
  every way a pattern can match at a position, in the order Python tries them, so the first
  element is Python's match. A state holds the text already passed (reversed), the text still
  ahead, and the captured groups. Patterns in the source are transcribed constructor by
  constructor.
\<close>

section \<open>Patterns and states\<close>

datatype rx =
    Eps
  | Cls "char \<Rightarrow> bool"
  | Cat rx rx
  | Alt rx rx
  | Rep bool nat "nat option" rx
  | Grp nat rx
  | Bos
  | Bol
  | Eos
  | Eol
  | WordB
  | Ahead rx
  | NotBehind "char \<Rightarrow> bool"

record mstate =
  past :: string
  ahead :: string
  caps :: "(nat \<times> string) list"

definition mstart :: "string \<Rightarrow> mstate" where
  "mstart s = \<lparr>past = [], ahead = s, caps = []\<rparr>"

definition at_line_start :: "mstate \<Rightarrow> bool" where
  "at_line_start st = (past st = [] \<or> cp (hd (past st)) = 10)"

text \<open>\<^verbatim>\<open>$\<close> without MULTILINE: at the end, or before a final newline.\<close>

definition at_end_dollar :: "mstate \<Rightarrow> bool" where
  "at_end_dollar st = (ahead st = [] \<or> (length (ahead st) = 1 \<and> cp (hd (ahead st)) = 10))"

definition at_line_end :: "mstate \<Rightarrow> bool" where
  "at_line_end st = (ahead st = [] \<or> cp (hd (ahead st)) = 10)"

definition word_before :: "mstate \<Rightarrow> bool" where
  "word_before st = (past st \<noteq> [] \<and> is_word (hd (past st)))"

definition word_after :: "mstate \<Rightarrow> bool" where
  "word_after st = (ahead st \<noteq> [] \<and> is_word (hd (ahead st)))"

section \<open>The matcher\<close>

text \<open>
  \<open>iter\<close> repeats one iteration \<open>f\<close>: at least \<open>lo\<close> times, at most \<open>hi\<close> times, greedily or
  lazily. An optional iteration that consumes nothing ends the repetition. Each optional
  iteration consumes at least one character, so \<open>lo\<close> plus the length of the text ahead bounds
  the number of iterations, and that is the fuel.
\<close>

fun dec_opt :: "nat option \<Rightarrow> nat option" where
  "dec_opt None = None"
| "dec_opt (Some n) = Some (n - 1)"

fun iter :: "nat \<Rightarrow> (mstate \<Rightarrow> mstate list) \<Rightarrow> bool \<Rightarrow> nat \<Rightarrow> nat option \<Rightarrow> mstate \<Rightarrow> mstate list" where
  "iter 0 f g lo hi st = (if lo = 0 then [st] else [])"
| "iter (Suc k) f g lo hi st =
     (let more = (if hi = Some 0 then []
                  else concat (map (\<lambda>st'. if lo = 0 \<and> ahead st' = ahead st then []
                                          else iter k f g (lo - 1) (dec_opt hi) st') (f st)));
          stop = (if lo = 0 then [st] else [])
      in if g then more @ stop else stop @ more)"

primrec mt :: "rx \<Rightarrow> mstate \<Rightarrow> mstate list" where
  "mt Eps st = [st]"
| "mt (Cls P) st =
     (case ahead st of [] \<Rightarrow> []
      | c # s \<Rightarrow> if P c then [st\<lparr>past := c # past st, ahead := s\<rparr>] else [])"
| "mt (Cat r1 r2) st = concat (map (mt r2) (mt r1 st))"
| "mt (Alt r1 r2) st = mt r1 st @ mt r2 st"
| "mt (Rep g lo hi r) st = iter (lo + length (ahead st)) (mt r) g lo hi st"
| "mt (Grp n r) st =
     map (\<lambda>st'. st'\<lparr>caps := (n, rev (take (length (past st') - length (past st)) (past st'))) # caps st'\<rparr>)
       (mt r st)"
| "mt Bos st = (if past st = [] then [st] else [])"
| "mt Bol st = (if at_line_start st then [st] else [])"
| "mt Eos st = (if at_end_dollar st then [st] else [])"
| "mt Eol st = (if at_line_end st then [st] else [])"
| "mt WordB st = (if word_before st \<noteq> word_after st then [st] else [])"
| "mt (Ahead r) st = (case mt r st of [] \<Rightarrow> [] | st' # _ \<Rightarrow> [st\<lparr>caps := caps st'\<rparr>])"
| "mt (NotBehind P) st = (if past st \<noteq> [] \<and> P (hd (past st)) then [] else [st])"

text \<open>Pattern abbreviations.\<close>

abbreviation ch :: "char \<Rightarrow> rx" where
  "ch c \<equiv> Cls (\<lambda>x. x = c)"

abbreviation chi :: "char \<Rightarrow> rx" where
  "chi c \<equiv> Cls (\<lambda>x. lower_char x = lower_char c)"

fun lit :: "string \<Rightarrow> rx" where
  "lit [] = Eps"
| "lit (c # s) = Cat (ch c) (lit s)"

fun liti :: "string \<Rightarrow> rx" where
  "liti [] = Eps"
| "liti (c # s) = Cat (chi c) (liti s)"

fun cats :: "rx list \<Rightarrow> rx" where
  "cats [] = Eps"
| "cats [r] = r"
| "cats (r # s # rs) = Cat r (cats (s # rs))"

fun alts :: "rx list \<Rightarrow> rx" where
  "alts [] = Cls (\<lambda>_. False)"
| "alts [r] = r"
| "alts (r # s # rs) = Alt r (alts (s # rs))"

abbreviation star :: "rx \<Rightarrow> rx" where
  "star r \<equiv> Rep True 0 None r"

abbreviation plus :: "rx \<Rightarrow> rx" where
  "plus r \<equiv> Rep True 1 None r"

abbreviation opt :: "rx \<Rightarrow> rx" where
  "opt r \<equiv> Rep True 0 (Some 1) r"

abbreviation lazystar :: "rx \<Rightarrow> rx" where
  "lazystar r \<equiv> Rep False 0 None r"

section \<open>match, fullmatch, search, findall, sub\<close>

definition re_match :: "rx \<Rightarrow> string \<Rightarrow> mstate option" where
  "re_match r s = (case mt r (mstart s) of [] \<Rightarrow> None | st # _ \<Rightarrow> Some st)"

definition re_fullmatch :: "rx \<Rightarrow> string \<Rightarrow> mstate option" where
  "re_fullmatch r s =
     (case filter (\<lambda>st. ahead st = []) (mt r (mstart s)) of [] \<Rightarrow> None | st # _ \<Rightarrow> Some st)"

text \<open>
  \<open>search_from\<close> tries each position from left to right and returns the text before the match
  (reversed) with the state after it.
\<close>

fun search_from :: "rx \<Rightarrow> string \<Rightarrow> string \<Rightarrow> (string \<times> mstate) option" where
  "search_from r pre [] =
     (case mt r \<lparr>past = pre, ahead = [], caps = []\<rparr> of [] \<Rightarrow> None | st # _ \<Rightarrow> Some (pre, st))"
| "search_from r pre (c # s) =
     (case mt r \<lparr>past = pre, ahead = c # s, caps = []\<rparr> of
        [] \<Rightarrow> search_from r (c # pre) s | st # _ \<Rightarrow> Some (pre, st))"

definition re_search :: "rx \<Rightarrow> string \<Rightarrow> (string \<times> mstate) option" where
  "re_search r s = search_from r [] s"

definition group :: "nat \<Rightarrow> mstate \<Rightarrow> string option" where
  "group n st = map_of (caps st) n"

text \<open>
  \<open>re.sub\<close> and \<open>re.findall\<close> for patterns that never match the empty string: the scan goes on
  where the match ended. The fuel is the length of the text, and every round consumes.
\<close>

fun sub_fuel :: "nat \<Rightarrow> rx \<Rightarrow> (string \<Rightarrow> mstate \<Rightarrow> string) \<Rightarrow> string \<Rightarrow> string \<Rightarrow> string" where
  "sub_fuel 0 r f pre s = s"
| "sub_fuel (Suc k) r f pre s =
     (case s of [] \<Rightarrow> []
      | c # s' \<Rightarrow>
        (case mt r \<lparr>past = pre, ahead = s, caps = []\<rparr> of
           [] \<Rightarrow> c # sub_fuel k r f (c # pre) s'
         | st # _ \<Rightarrow>
             if ahead st = s then c # sub_fuel k r f (c # pre) s'
             else f (take (length s - length (ahead st)) s) st @ sub_fuel k r f (past st) (ahead st)))"

definition re_sub :: "rx \<Rightarrow> (string \<Rightarrow> mstate \<Rightarrow> string) \<Rightarrow> string \<Rightarrow> string" where
  "re_sub r f s = sub_fuel (length s) r f [] s"

fun findall_fuel :: "nat \<Rightarrow> rx \<Rightarrow> string \<Rightarrow> string \<Rightarrow> mstate list" where
  "findall_fuel 0 r pre s = []"
| "findall_fuel (Suc k) r pre s =
     (case s of [] \<Rightarrow> []
      | c # s' \<Rightarrow>
        (case mt r \<lparr>past = pre, ahead = s, caps = []\<rparr> of
           [] \<Rightarrow> findall_fuel k r (c # pre) s'
         | st # _ \<Rightarrow>
             if ahead st = s then findall_fuel k r (c # pre) s'
             else st # findall_fuel k r (past st) (ahead st)))"

definition re_findall :: "rx \<Rightarrow> string \<Rightarrow> mstate list" where
  "re_findall r s = findall_fuel (length s) r [] s"

section \<open>Every match is a step forward through the text\<close>

text \<open>A state reached from another one has passed a prefix of what was ahead.\<close>

definition advances :: "mstate \<Rightarrow> mstate \<Rightarrow> bool" where
  "advances st st' \<longleftrightarrow> (\<exists>w. ahead st = w @ ahead st' \<and> past st' = rev w @ past st)"

lemma advances_refl [simp]: "advances st st"
  unfolding advances_def by (rule exI [of _ "[]"]) simp

lemma advances_trans: "advances a b \<Longrightarrow> advances b c \<Longrightarrow> advances a c"
  unfolding advances_def by (metis append.assoc rev_append)

lemma advances_caps [simp]: "advances st (st'\<lparr>caps := x\<rparr>) = advances st st'"
  by (simp add: advances_def)

lemma iter_advances:
  assumes f: "\<And>st st'. st' \<in> set (f st) \<Longrightarrow> advances st st'"
  shows "st' \<in> set (iter k f g lo hi st) \<Longrightarrow> advances st st'"
proof (induction k arbitrary: lo hi st)
  case 0
  then show ?case by (simp split: if_splits)
next
  case (Suc k)
  then consider "st' = st" | st1 where "st1 \<in> set (f st)"
      "st' \<in> set (iter k f g (lo - 1) (dec_opt hi) st1)"
    by (auto simp: Let_def split: if_splits)
  then show ?case
  proof cases
    case 1
    then show ?thesis by simp
  next
    case 2
    from Suc.IH [OF 2(2)] f [OF 2(1)] show ?thesis by (blast intro: advances_trans)
  qed
qed

lemma mt_advances: "st' \<in> set (mt r st) \<Longrightarrow> advances st st'"
proof (induction r arbitrary: st st')
  case (Cls P)
  then show ?case
    by (auto simp: advances_def split: list.splits if_splits)
next
  case (Cat r1 r2)
  then obtain st1 where "st1 \<in> set (mt r1 st)" "st' \<in> set (mt r2 st1)" by auto
  with Cat.IH show ?case by (meson advances_trans)
next
  case (Rep g lo hi r)
  then show ?case using iter_advances [of "mt r"] by auto
next
  case (Ahead r)
  then show ?case by (auto simp: advances_def split: list.splits)
qed (auto split: if_splits)

lemma advances_length: "advances st st' \<Longrightarrow> length (ahead st') \<le> length (ahead st)"
  by (auto simp: advances_def)

lemma advances_shorter: "advances st st' \<Longrightarrow> ahead st' \<noteq> ahead st \<Longrightarrow> length (ahead st') < length (ahead st)"
  by (auto simp: advances_def)

lemma advances_text: "advances st st' \<Longrightarrow> rev (past st') @ ahead st' = rev (past st) @ ahead st"
  by (auto simp: advances_def)

text \<open>A search splits the text into what is before the match, the match and what is after it.\<close>

lemma search_from_text:
  "search_from r pre s = Some (p, st) \<Longrightarrow> rev (past st) @ ahead st = rev pre @ s"
proof (induction r pre s rule: search_from.induct)
  case (1 r pre)
  then obtain xs where m: "mt r \<lparr>past = pre, ahead = [], caps = []\<rparr> = st # xs"
    by (auto split: list.splits)
  have "advances \<lparr>past = pre, ahead = [], caps = []\<rparr> st"
    by (rule mt_advances [of _ r]) (simp add: m)
  then show ?case using advances_text by fastforce
next
  case (2 r pre c s)
  show ?case
  proof (cases "mt r \<lparr>past = pre, ahead = c # s, caps = []\<rparr>")
    case Nil
    with 2 show ?thesis by simp
  next
    case (Cons a xs)
    with "2.prems" have "a = st" by simp
    have "advances \<lparr>past = pre, ahead = c # s, caps = []\<rparr> st"
      by (rule mt_advances [of _ r]) (simp add: Cons \<open>a = st\<close>)
    then show ?thesis using advances_text by fastforce
  qed
qed

section \<open>Literals and alternatives of literals\<close>

lemma mt_lit:
  "mt (lit w) st =
     (if startswith (ahead st) w
      then [st\<lparr>past := rev w @ past st, ahead := drop (length w) (ahead st)\<rparr>] else [])"
proof (induction w arbitrary: st)
  case Nil
  then show ?case by simp
next
  case (Cons c w)
  then show ?case by (cases "ahead st") auto
qed

definition same_letters :: "string \<Rightarrow> string \<Rightarrow> bool" where
  "same_letters u w = (lower u = lower w)"

lemma mt_liti:
  "mt (liti w) st =
     (if startswith (lower (ahead st)) (lower w)
      then [st\<lparr>past := rev (take (length w) (ahead st)) @ past st, ahead := drop (length w) (ahead st)\<rparr>]
      else [])"
proof (induction w arbitrary: st)
  case Nil
  then show ?case by (simp add: lower_def)
next
  case (Cons c w)
  then show ?case by (cases "ahead st") (auto simp: lower_def)
qed

lemma mt_alts_Nil_iff: "mt (alts rs) st = [] \<longleftrightarrow> (\<forall>r \<in> set rs. mt r st = [])"
  by (induction rs rule: alts.induct) (auto split: list.splits)

section \<open>A repeated character class\<close>

text \<open>
  \<open>[cls]{lo,hi}\<close> fully matches exactly the strings of that length over that class: what the
  keys-file name, hash and key patterns are used for.
\<close>

fun in_bounds :: "nat \<Rightarrow> nat \<Rightarrow> nat option \<Rightarrow> bool" where
  "in_bounds n lo None = (lo \<le> n)"
| "in_bounds n lo (Some hi) = (lo \<le> n \<and> n \<le> hi)"

lemma in_bounds_Suc: "in_bounds (Suc n) lo hi \<longleftrightarrow> hi \<noteq> Some 0 \<and> in_bounds n (lo - 1) (dec_opt hi)"
  by (cases hi) auto

lemma in_bounds_0: "in_bounds 0 lo hi \<longleftrightarrow> lo = 0"
  by (cases hi) auto

lemma iter_cls_end:
  "length (ahead st) \<le> k \<Longrightarrow>
     (\<exists>st' \<in> set (iter k (mt (Cls P)) g lo hi st). ahead st' = []) \<longleftrightarrow>
       list_all P (ahead st) \<and> in_bounds (length (ahead st)) lo hi"
proof (induction k arbitrary: lo hi st)
  case 0
  then show ?case by (auto simp: in_bounds_0)
next
  case (Suc k)
  show ?case
  proof (cases "ahead st")
    case Nil
    then show ?thesis by (auto simp: Let_def in_bounds_0)
  next
    case (Cons c s)
    let ?st = "st\<lparr>past := c # past st, ahead := s\<rparr>"
    have len: "length (ahead ?st) \<le> k" using Suc.prems Cons by simp
    have ne: "ahead st \<noteq> []" and sh: "s \<noteq> ahead st" using Cons by auto
    have "(\<exists>st' \<in> set (iter (Suc k) (mt (Cls P)) g lo hi st). ahead st' = []) \<longleftrightarrow>
        hi \<noteq> Some 0 \<and> P c \<and>
        (\<exists>st' \<in> set (iter k (mt (Cls P)) g (lo - 1) (dec_opt hi) ?st). ahead st' = [])"
      using Cons ne sh by (auto simp: Let_def)
    also have "\<dots> \<longleftrightarrow> hi \<noteq> Some 0 \<and> P c \<and> list_all P s \<and> in_bounds (length s) (lo - 1) (dec_opt hi)"
      by (simp only: Suc.IH [OF len]) simp
    also have "\<dots> \<longleftrightarrow> list_all P (ahead st) \<and> in_bounds (length (ahead st)) lo hi"
      using Cons by (auto simp: in_bounds_Suc)
    finally show ?thesis .
  qed
qed

definition fullmatches :: "rx \<Rightarrow> string \<Rightarrow> bool" where
  "fullmatches r s = (re_fullmatch r s \<noteq> None)"

lemma fullmatches_iff: "fullmatches r s \<longleftrightarrow> (\<exists>st \<in> set (mt r (mstart s)). ahead st = [])"
proof (cases "filter (\<lambda>st. ahead st = []) (mt r (mstart s))")
  case Nil
  then show ?thesis
    by (simp add: fullmatches_def re_fullmatch_def) (simp add: filter_empty_conv)
next
  case (Cons x xs)
  then have "x \<in> set (mt r (mstart s)) \<and> ahead x = []"
    by (auto dest: filter_eq_ConsD)
  with Cons show ?thesis by (auto simp add: fullmatches_def re_fullmatch_def)
qed

lemma fullmatch_cls:
  "fullmatches (Rep g lo hi (Cls P)) s \<longleftrightarrow> list_all P s \<and> in_bounds (length s) lo hi"
  using iter_cls_end [of "mstart s" "lo + length s" P g lo hi]
  by (simp add: fullmatches_iff mstart_def del: mt.simps(2))

lemma fullmatch_cls_cls:
  "fullmatches (Cat (Cls P) (Rep g lo hi (Cls Q))) s \<longleftrightarrow>
     (\<exists>c t. s = c # t \<and> P c \<and> list_all Q t \<and> in_bounds (length t) lo hi)"
proof (cases s)
  case Nil
  then show ?thesis by (simp add: fullmatches_iff mstart_def)
next
  case (Cons c t)
  let ?st = "\<lparr>past = [c], ahead = t, caps = []\<rparr>"
  have one: "mt (Cls P) (mstart s) = (if P c then [?st] else [])"
    by (simp add: Cons mstart_def)
  have "fullmatches (Cat (Cls P) (Rep g lo hi (Cls Q))) s \<longleftrightarrow>
      P c \<and> (\<exists>st' \<in> set (iter (lo + length t) (mt (Cls Q)) g lo hi ?st). ahead st' = [])"
    by (simp add: fullmatches_iff one del: mt.simps(2))
  also have "\<dots> \<longleftrightarrow> P c \<and> list_all Q t \<and> in_bounds (length t) lo hi"
    using iter_cls_end [of ?st "lo + length t" Q g lo hi] by (simp del: mt.simps(2))
  finally show ?thesis using Cons by auto
qed

end
