(* ===== verification/Admission.thy ===== *)
theory Admission
  imports PyVal
begin

text \<open>
  Admission to the chat server (scripts/files/stream_admission.py): the resizable gate, the
  generator that holds one slot for the whole life of a streamed response, and the system of
  one gate with any number of such generators.

  A coroutine runs without interruption between two awaits, so each piece of code between
  awaits is one function on the state; a waiter that is not yet admitted is a state in which
  the function that admits it returns None.
\<close>

section \<open>AdmissionGate\<close>

record gate =
  g_cap :: int
  g_in_use :: int

definition gate_init :: "int \<Rightarrow> gate" where
  "gate_init capacity = \<lparr>g_cap = max 1 capacity, g_in_use = 0\<rparr>"

definition gate_locked :: "gate \<Rightarrow> bool" where
  "gate_locked g = (g_in_use g \<ge> g_cap g)"

text \<open>The predicate of \<^verbatim>\<open>wait_for\<close>, tested whenever the waiter runs: None leaves it waiting.\<close>

definition gate_acquire :: "gate \<Rightarrow> gate option" where
  "gate_acquire g = (if g_in_use g < g_cap g then Some (g\<lparr>g_in_use := g_in_use g + 1\<rparr>) else None)"

definition gate_release :: "gate \<Rightarrow> gate" where
  "gate_release g = g\<lparr>g_in_use := g_in_use g - 1\<rparr>"

definition gate_set_capacity :: "int \<Rightarrow> gate \<Rightarrow> gate" where
  "gate_set_capacity capacity g = g\<lparr>g_cap := max 1 capacity\<rparr>"

text \<open>
  \<open>refresh_capacity_once\<close>: the slot count read from the chat server is an exception or any
  value at all; the gate moves only for an integer of at least 1 (a Python bool is one).
\<close>

fun slot_count :: "pyval \<Rightarrow> int option" where
  "slot_count (PInt n) = (if n < 1 then None else Some n)"
| "slot_count (PBool b) = (if b then Some 1 else None)"
| "slot_count _ = None"

definition refresh_capacity_once :: "gate \<Rightarrow> pyval res \<Rightarrow> gate \<times> int option" where
  "refresh_capacity_once g fetched =
     (case fetched of
        Inl _ \<Rightarrow> (g, None)
      | Inr v \<Rightarrow>
          (case slot_count v of
             None \<Rightarrow> (g, None)
           | Some n \<Rightarrow> (if n \<noteq> g_cap g then gate_set_capacity n g else g, Some n)))"

section \<open>hold_slot: one streamed response\<close>

text \<open>The acquire task, and where the generator stands.\<close>

datatype acq = APending | AGranted | ARaised | ACancelled

datatype hphase = HWait | HStream | HDone

datatype 'c frame = Ping | Chunk 'c

record 'c hs =
  hs_acq :: acq
  hs_phase :: hphase
  hs_acquired :: bool
  hs_released :: nat
  hs_body_closed :: bool
  hs_out :: "'c frame list"

text \<open>
  What can happen to a response. The first two events are the acquire task's: the gate grants
  it, or its acquire raises. The others resume the generator: the keepalive timer ran out while
  the task was not done, the task is done, the body yields, ends or raises, the client went away
  (the generator is closed at its yield, or its await is cancelled).
\<close>

datatype 'c hs_event =
    Granted
  | AcquireRaises
  | KeepaliveTimeout
  | AcquireDone
  | BodyYields 'c
  | BodyEnds
  | BodyRaises
  | ClientGone

text \<open>
  \<open>hs_init\<close> is the generator after its first resumption: the acquire task exists and the
  generator waits for it. A generator closed before that has run no code and took no slot.
\<close>

definition hs_init :: "'c hs" where
  "hs_init = \<lparr>hs_acq = APending, hs_phase = HWait, hs_acquired = False, hs_released = 0,
      hs_body_closed = False, hs_out = []\<rparr>"

text \<open>
  The \<^verbatim>\<open>finally\<close> block: a slot granted in the same instant as the generator gave up is taken
  over and released; a pending acquire is cancelled; the body is closed.
\<close>

definition hs_finally :: "'c hs \<Rightarrow> 'c hs" where
  "hs_finally h =
     (let h1 = (if \<not> hs_acquired h
                then (if hs_acq h = AGranted then h\<lparr>hs_acquired := True\<rparr>
                      else if hs_acq h = APending then h\<lparr>hs_acq := ACancelled\<rparr> else h)
                else h);
          h2 = (if hs_acquired h1 then h1\<lparr>hs_released := Suc (hs_released h1)\<rparr> else h1)
      in h2\<lparr>hs_body_closed := True, hs_phase := HDone\<rparr>)"

fun hold_slot :: "'c hs \<Rightarrow> 'c hs_event \<Rightarrow> 'c hs" where
  "hold_slot h Granted = (if hs_acq h = APending then h\<lparr>hs_acq := AGranted\<rparr> else h)"
| "hold_slot h AcquireRaises = (if hs_acq h = APending then h\<lparr>hs_acq := ARaised\<rparr> else h)"
| "hold_slot h KeepaliveTimeout =
     (if hs_phase h = HWait \<and> hs_acq h = APending then h\<lparr>hs_out := hs_out h @ [Ping]\<rparr> else h)"
| "hold_slot h AcquireDone =
     (if hs_phase h = HWait then
        (case hs_acq h of
           AGranted \<Rightarrow> h\<lparr>hs_acquired := True, hs_phase := HStream\<rparr>
         | ARaised \<Rightarrow> hs_finally h
         | _ \<Rightarrow> h)
      else h)"
| "hold_slot h (BodyYields c) =
     (if hs_phase h = HStream then h\<lparr>hs_out := hs_out h @ [Chunk c]\<rparr> else h)"
| "hold_slot h BodyEnds = (if hs_phase h = HStream then hs_finally h else h)"
| "hold_slot h BodyRaises = (if hs_phase h = HStream then hs_finally h else h)"
| "hold_slot h ClientGone = (if hs_phase h \<noteq> HDone then hs_finally h else h)"

text \<open>
  \<open>ClosingStreamingResponse\<close> drives the generator and closes it whatever happened: the last
  event is always a close.
\<close>

definition stream_response :: "'c hs_event list \<Rightarrow> 'c hs" where
  "stream_response evs = hold_slot (foldl hold_slot hs_init evs) ClientGone"

text \<open>The slot is out exactly between the grant and the release.\<close>

definition holding :: "'c hs \<Rightarrow> bool" where
  "holding h = (hs_acq h = AGranted \<and> hs_released h = 0)"

definition hs_ok :: "'c hs \<Rightarrow> bool" where
  "hs_ok h \<longleftrightarrow>
     (hs_phase h = HWait \<longrightarrow> \<not> hs_acquired h \<and> hs_released h = 0 \<and> \<not> hs_body_closed h \<and> hs_acq h \<noteq> ACancelled) \<and>
     (hs_phase h = HStream \<longrightarrow> hs_acquired h \<and> hs_acq h = AGranted \<and> hs_released h = 0 \<and> \<not> hs_body_closed h) \<and>
     (hs_phase h = HDone \<longrightarrow> hs_body_closed h \<and> hs_acq h \<noteq> APending \<and>
        hs_released h = (if hs_acq h = AGranted then 1 else 0))"

lemma hs_ok_init [simp]: "hs_ok hs_init"
  by (simp add: hs_ok_def hs_init_def)

lemma hs_ok_finally: "hs_ok h \<Longrightarrow> hs_phase h \<noteq> HDone \<Longrightarrow> hs_ok (hs_finally h)"
  by (cases "hs_phase h"; cases "hs_acq h") (auto simp: hs_ok_def hs_finally_def Let_def)

lemma hs_finally_done [simp]: "hs_phase (hs_finally h) = HDone"
  by (simp add: hs_finally_def Let_def)

lemma hs_acq_finally [simp]:
  "hs_acq (hs_finally h) = (if hs_acq h = APending \<and> \<not> hs_acquired h then ACancelled else hs_acq h)"
  by (simp add: hs_finally_def Let_def)

lemma hs_out_finally [simp]: "hs_out (hs_finally h) = hs_out h"
  by (simp add: hs_finally_def Let_def)

lemma hs_ok_emit: "hs_ok h \<Longrightarrow> hs_ok (h\<lparr>hs_out := x\<rparr>)"
  by (simp add: hs_ok_def)

lemma hs_ok_step: "hs_ok h \<Longrightarrow> hs_ok (hold_slot h e)"
proof (cases e)
  assume h: "hs_ok h"
  case Granted
  with h show ?thesis by (cases "hs_phase h"; cases "hs_acq h") (auto simp: hs_ok_def)
next
  assume h: "hs_ok h"
  case AcquireRaises
  with h show ?thesis by (cases "hs_phase h"; cases "hs_acq h") (auto simp: hs_ok_def)
next
  assume h: "hs_ok h"
  case AcquireDone
  with h show ?thesis
    by (cases "hs_acq h") (auto simp: hs_ok_def hs_finally_def Let_def)
qed (simp_all add: hs_ok_finally hs_ok_emit)

lemma hs_ok_run: "hs_ok h \<Longrightarrow> hs_ok (foldl hold_slot h evs)"
  by (induction evs arbitrary: h) (auto simp: hs_ok_step)

lemma hold_slot_done: "hs_phase h = HDone \<Longrightarrow> hs_phase (hold_slot h e) = HDone"
  by (cases e) auto

text \<open>A slot that has been granted is still out, or has been given back once.\<close>

lemma holding_iff: "hs_ok h \<Longrightarrow> holding h \<longleftrightarrow> hs_acq h = AGranted \<and> hs_phase h \<noteq> HDone"
  by (cases "hs_phase h") (auto simp: hs_ok_def holding_def)

text \<open>The frames a response sends: pings while it waits, then chunks of the body.\<close>

definition is_ping :: "'c frame \<Rightarrow> bool" where
  "is_ping f = (f = Ping)"

fun chunk_of :: "'c frame \<Rightarrow> 'c list" where
  "chunk_of Ping = []"
| "chunk_of (Chunk c) = [c]"

fun yielded :: "'c hs_event \<Rightarrow> 'c list" where
  "yielded (BodyYields c) = [c]"
| "yielded _ = []"

definition frames_ok :: "'c hs \<Rightarrow> bool" where
  "frames_ok h \<longleftrightarrow>
     (\<exists>n cs. hs_out h = replicate n Ping @ map Chunk cs \<and> (hs_phase h = HWait \<longrightarrow> cs = []) \<and>
        (cs \<noteq> [] \<longrightarrow> hs_acq h = AGranted))"

lemma frames_ok_init: "frames_ok hs_init"
  unfolding frames_ok_def hs_init_def by simp

lemma frames_ok_cong:
  "frames_ok h \<Longrightarrow> hs_out h' = hs_out h \<Longrightarrow> (hs_acq h = AGranted \<longrightarrow> hs_acq h' = AGranted) \<Longrightarrow>
     (hs_phase h' = HWait \<longrightarrow> hs_phase h = HWait) \<Longrightarrow> frames_ok h'"
  unfolding frames_ok_def by auto

lemma frames_ok_finally: "frames_ok h \<Longrightarrow> frames_ok (hs_finally h)"
  by (rule frames_ok_cong [of h]) simp_all

lemma frames_ok_step:
  assumes ok: "hs_ok h" and fr: "frames_ok h"
  shows "frames_ok (hold_slot h e)"
proof (cases e)
  case KeepaliveTimeout
  show ?thesis
  proof (cases "hs_phase h = HWait \<and> hs_acq h = APending")
    case True
    with fr obtain n where "hs_out h = replicate n Ping" unfolding frames_ok_def by auto
    then have "hs_out h @ [Ping] = replicate (Suc n) Ping @ map Chunk []"
      by (simp add: replicate_append_same)
    with True KeepaliveTimeout show ?thesis
      unfolding frames_ok_def by (intro exI [of _ "Suc n"] exI [of _ "[]"]) simp
  next
    case False
    with KeepaliveTimeout fr show ?thesis by auto
  qed
next
  case (BodyYields c)
  show ?thesis
  proof (cases "hs_phase h = HStream")
    case True
    from fr obtain n cs where "hs_out h = replicate n Ping @ map Chunk cs"
      unfolding frames_ok_def by blast
    then have "hs_out h @ [Chunk c] = replicate n Ping @ map Chunk (cs @ [c])" by simp
    with True BodyYields ok show ?thesis
      unfolding frames_ok_def by (intro exI [of _ n] exI [of _ "cs @ [c]"]) (simp add: hs_ok_def)
  next
    case False
    with BodyYields fr show ?thesis by auto
  qed
next
  case AcquireDone
  have "frames_ok (h\<lparr>hs_acquired := True, hs_phase := HStream\<rparr>)"
    by (rule frames_ok_cong [OF fr]) simp_all
  with AcquireDone fr show ?thesis
    by (cases "hs_acq h") (simp_all add: frames_ok_finally)
next
  case Granted
  have "frames_ok (h\<lparr>hs_acq := AGranted\<rparr>)" by (rule frames_ok_cong [OF fr]) simp_all
  with Granted fr show ?thesis by simp
next
  case AcquireRaises
  have "hs_acq h = APending \<Longrightarrow> frames_ok (h\<lparr>hs_acq := ARaised\<rparr>)"
    by (rule frames_ok_cong [OF fr]) simp_all
  with AcquireRaises fr show ?thesis by simp
qed (simp_all add: fr frames_ok_finally)

lemma frames_ok_run: "hs_ok h \<Longrightarrow> frames_ok h \<Longrightarrow> frames_ok (foldl hold_slot h evs)"
  by (induction evs arbitrary: h) (auto simp: hs_ok_step frames_ok_step)

section \<open>One gate, many responses\<close>

text \<open>
  The gate is used through two calls, so the system takes them as arguments: \<open>tk\<close> admits one
  waiter if it can, \<open>gv\<close> gives a slot back, and \<open>adj\<close> is what else may happen to the gate while
  the router runs (its capacity is changed). A step is one of: a response arrives, the gate
  grants a pending acquire, a response handles any other event (which gives the slot back
  exactly when the response released it), the gate is adjusted.
\<close>

type_synonym ('g, 'c) slots = "'g \<times> 'c hs list"

inductive slot_step ::
  "('g \<Rightarrow> 'g option) \<Rightarrow> ('g \<Rightarrow> 'g) \<Rightarrow> ('g \<Rightarrow> 'g \<Rightarrow> bool) \<Rightarrow> ('g, 'c) slots \<Rightarrow> ('g, 'c) slots \<Rightarrow> bool"
  for tk gv adj where
  arrive: "slot_step tk gv adj (g, hs) (g, hs @ [hs_init])"
| grant: "i < length hs \<Longrightarrow> hs_acq (hs ! i) = APending \<Longrightarrow> tk g = Some g' \<Longrightarrow>
     slot_step tk gv adj (g, hs) (g', hs[i := hold_slot (hs ! i) Granted])"
| handle: "i < length hs \<Longrightarrow> e \<noteq> Granted \<Longrightarrow> h' = hold_slot (hs ! i) e \<Longrightarrow>
     g' = (if hs_released (hs ! i) < hs_released h' then gv g else g) \<Longrightarrow>
     slot_step tk gv adj (g, hs) (g', hs[i := h'])"
| adjust: "adj g g' \<Longrightarrow> slot_step tk gv adj (g, hs) (g', hs)"

inductive slot_reach ::
  "('g \<Rightarrow> 'g option) \<Rightarrow> ('g \<Rightarrow> 'g) \<Rightarrow> ('g \<Rightarrow> 'g \<Rightarrow> bool) \<Rightarrow> 'g \<Rightarrow> ('g, 'c) slots \<Rightarrow> bool"
  for tk gv adj g0 where
  start: "slot_reach tk gv adj g0 (g0, [])"
| step: "slot_reach tk gv adj g0 s \<Longrightarrow> slot_step tk gv adj s s' \<Longrightarrow> slot_reach tk gv adj g0 s'"

inductive_cases slot_step_cases: "slot_step tk gv adj s s'"

definition held :: "'c hs list \<Rightarrow> int" where
  "held hs = sum_list (map (\<lambda>h. if holding h then 1 else 0) hs)"

lemma held_Nil [simp]: "held [] = 0"
  by (simp add: held_def)

lemma held_snoc [simp]: "held (hs @ [h]) = held hs + (if holding h then 1 else 0)"
  by (simp add: held_def)

lemma held_update:
  "i < length hs \<Longrightarrow>
     held (hs[i := h]) = held hs - (if holding (hs ! i) then 1 else 0) + (if holding h then 1 else 0)"
  unfolding held_def by (rule sum_list_update_int)

lemma held_all_done: "\<forall>h \<in> set hs. hs_ok h \<and> hs_phase h = HDone \<Longrightarrow> held hs = 0"
proof (induction hs)
  case Nil
  then show ?case by simp
next
  case (Cons h hs)
  then have "\<not> holding h" by (auto simp: holding_iff)
  with Cons show ?case by (simp add: held_def)
qed

lemma holding_init [simp]: "\<not> holding hs_init"
  by (simp add: holding_def hs_init_def)

lemma holding_after_grant:
  "hs_ok h \<Longrightarrow> hs_acq h = APending \<Longrightarrow> holding (hold_slot h Granted) \<and> \<not> holding h"
  by (cases "hs_phase h") (auto simp: hs_ok_def holding_def)

text \<open>Any other event keeps the slot, or gives it back once.\<close>

lemma holding_after_event:
  assumes "hs_ok h" and "e \<noteq> Granted"
  shows "(if holding (hold_slot h e) then 1 else 0 :: int) =
     (if holding h then 1 else 0) - (if hs_released h < hs_released (hold_slot h e) then 1 else 0)"
proof -
  have fin: "hs_phase h \<noteq> HDone \<Longrightarrow>
      (if holding (hs_finally h) then 1 else 0 :: int) =
      (if holding h then 1 else 0) - (if hs_released h < hs_released (hs_finally h) then 1 else 0)"
    using assms(1) by (cases "hs_phase h") (auto simp: hs_ok_def holding_def hs_finally_def Let_def)
  show ?thesis
  proof (cases e)
    case AcquireDone
    with assms(1) fin show ?thesis
      by (cases "hs_acq h") (auto simp: holding_def)
  next
    case Granted
    with assms(2) show ?thesis by simp
  next
    case AcquireRaises
    then show ?thesis by (simp add: holding_def)
  next
    case KeepaliveTimeout
    then show ?thesis by (simp add: holding_def)
  next
    case (BodyYields c)
    then show ?thesis by (simp add: holding_def)
  next
    case BodyEnds
    with fin show ?thesis by (cases "hs_phase h") simp_all
  next
    case BodyRaises
    with fin show ?thesis by (cases "hs_phase h") simp_all
  next
    case ClientGone
    with fin show ?thesis by (cases "hs_phase h") simp_all
  qed
qed

section \<open>The contract of a gate, and what the system keeps of it\<close>

locale slot_gate =
  fixes tk :: "'g \<Rightarrow> 'g option"
    and gv :: "'g \<Rightarrow> 'g"
    and adj :: "'g \<Rightarrow> 'g \<Rightarrow> bool"
    and used :: "'g \<Rightarrow> int"
    and limit :: "'g \<Rightarrow> int"
  assumes tk_used: "tk g = Some g' \<Longrightarrow> used g' = used g + 1 \<and> limit g' = limit g"
    and tk_iff: "(\<exists>g'. tk g = Some g') \<longleftrightarrow> used g < limit g"
    and gv_used: "used (gv g) = used g - 1 \<and> limit (gv g) = limit g"
    and adj_used: "adj g g' \<Longrightarrow> used g' = used g"
begin

lemma step_accounts:
  assumes "slot_step tk gv adj (g, hs) (g', hs')"
    and "\<forall>h \<in> set hs. hs_ok h" and "used g = u + held hs"
  shows "(\<forall>h \<in> set hs'. hs_ok h) \<and> used g' = u + held hs'"
  using assms(1)
proof (cases rule: slot_step.cases)
  case arrive
  with assms show ?thesis by simp
next
  case (grant i)
  then have ok: "hs_ok (hs ! i)" using assms(2) by simp
  have "held hs' = held hs + 1"
    using grant holding_after_grant [OF ok] by (simp add: held_update)
  moreover have "used g' = used g + 1" using grant tk_used by simp
  moreover have "\<forall>h \<in> set hs'. hs_ok h"
    using grant assms(2) hs_ok_step [OF ok, of Granted]
    by (metis in_set_conv_nth length_list_update nth_list_update_eq nth_list_update_neq nth_mem)
  ultimately show ?thesis using assms(3) by simp
next
  case (handle i e h')
  then have ok: "hs_ok (hs ! i)" using assms(2) by simp
  have "held hs' = held hs - (if hs_released (hs ! i) < hs_released h' then 1 else 0)"
    using handle holding_after_event [OF ok] by (simp add: held_update)
  moreover have "used g' = used g - (if hs_released (hs ! i) < hs_released h' then 1 else 0)"
    using handle gv_used by simp
  moreover have "\<forall>h \<in> set hs'. hs_ok h"
    using handle assms(2) hs_ok_step [OF ok, of e]
    by (metis in_set_conv_nth length_list_update nth_list_update_eq nth_list_update_neq nth_mem)
  ultimately show ?thesis using assms(3) by simp
next
  case adjust
  with assms adj_used show ?thesis by simp
qed

lemma reach_accounts:
  "slot_reach tk gv adj g0 (g, hs) \<Longrightarrow> (\<forall>h \<in> set hs. hs_ok h) \<and> used g = used g0 + held hs"
proof (induction "(g, hs)" arbitrary: g hs rule: slot_reach.induct)
  case start
  show ?case by simp
next
  case (step s)
  obtain g1 hs1 where s: "s = (g1, hs1)" by (cases s)
  with step show ?case using step_accounts [of g1 hs1 g hs "used g0"] by simp
qed

lemma no_slot_lost:
  assumes "slot_reach tk gv adj g0 (g, hs)" and "\<forall>h \<in> set hs. hs_phase h = HDone"
  shows "used g = used g0"
proof -
  have "held hs = 0" by (rule held_all_done) (use reach_accounts [OF assms(1)] assms(2) in blast)
  with reach_accounts [OF assms(1)] show ?thesis by simp
qed

lemma admits_below_limit:
  assumes "slot_reach tk gv adj g0 (g, hs)" and "used g0 = 0"
  shows "held hs < limit g \<longleftrightarrow> (\<exists>g'. tk g = Some g')"
  using reach_accounts [OF assms(1)] assms(2) tk_iff by simp

end

text \<open>What may happen to the router's gate between events: its capacity is set.\<close>

definition gate_adjust :: "gate \<Rightarrow> gate \<Rightarrow> bool" where
  "gate_adjust g g' = (\<exists>n. g' = gate_set_capacity n g)"

interpretation chat_gate: slot_gate gate_acquire gate_release gate_adjust g_in_use g_cap
  by unfold_locales
    (auto simp: gate_acquire_def gate_release_def gate_adjust_def gate_set_capacity_def split: if_splits)

text \<open>
  \<open>hold_slot\<close> also takes an \<^verbatim>\<open>asyncio.Semaphore\<close>: its value counts the free slots, and the number
  out is the initial value less what is left.
\<close>

definition sem_acquire :: "nat \<Rightarrow> nat option" where
  "sem_acquire v = (if 0 < v then Some (v - 1) else None)"

interpretation semaphore: slot_gate sem_acquire Suc "\<lambda>_ _. False" "\<lambda>v. - int v" "\<lambda>_. 0"
  by unfold_locales (auto simp: sem_acquire_def split: if_splits)

section \<open>Properties\<close>

lemma gate_init_used [simp]: "g_in_use (gate_init n) = 0"
  by (simp add: gate_init_def)

text \<open>
  C1: In every state the router can reach (responses arriving, being granted a slot, handling any
  event in any order, and the capacity being changed at any time) the gate's counter is the
  number of responses that hold a slot, a waiter is admitted exactly while fewer than
  capacity hold one, and once every response is over no slot is lost.
\<close>

theorem chat_slots_accounted:
  assumes "slot_reach gate_acquire gate_release gate_adjust (gate_init n) (g, hs)"
  shows "g_in_use g = held hs \<and>
     (held hs < g_cap g \<longleftrightarrow> (\<exists>g'. gate_acquire g = Some g')) \<and>
     ((\<forall>h \<in> set hs. hs_phase h = HDone) \<longrightarrow> g_in_use g = 0)"
  using chat_gate.reach_accounts [OF assms] chat_gate.admits_below_limit [OF assms]
    chat_gate.no_slot_lost [OF assms] by simp_all

lemma slot_reach_one:
  "slot_reach gate_acquire gate_release gate_adjust (gate_init 1)
     (gate_init 1\<lparr>g_in_use := 1\<rparr>, [hold_slot hs_init Granted :: nat hs])"
proof -
  let ?R = "slot_reach gate_acquire gate_release gate_adjust (gate_init 1)"
  have "?R (gate_init 1, [] @ [hs_init :: nat hs])"
    by (rule slot_reach.step [OF slot_reach.start slot_step.arrive])
  then have a: "?R (gate_init 1, [hs_init :: nat hs])" by simp
  have "slot_step gate_acquire gate_release gate_adjust (gate_init 1, [hs_init :: nat hs])
      (gate_init 1\<lparr>g_in_use := 1\<rparr>, [hs_init][0 := hold_slot ([hs_init] ! 0) Granted])"
    by (rule slot_step.grant) (simp_all add: hs_init_def gate_acquire_def gate_init_def)
  then show ?thesis using slot_reach.step [OF a] by simp
qed

theorem chat_slots_accounted_witness:
  "g_in_use (gate_init 1\<lparr>g_in_use := 1\<rparr>) = held [hold_slot hs_init Granted :: nat hs]"
  using chat_slots_accounted [OF slot_reach_one] by (rule conjunct1)

text \<open>
  C7: However a streamed response goes, when it is over its acquire task is settled, the slot
  was released exactly once if it was ever granted (also when the grant raced the client's
  disconnect) and never otherwise, and the body is closed.
\<close>

theorem stream_releases_once:
  "hs_phase (stream_response evs) = HDone \<and> hs_body_closed (stream_response evs) \<and>
     hs_acq (stream_response evs) \<noteq> APending \<and>
     hs_released (stream_response evs) = (if hs_acq (stream_response evs) = AGranted then 1 else 0)"
proof -
  have ok: "hs_ok (stream_response evs)"
    unfolding stream_response_def by (rule hs_ok_step) (rule hs_ok_run, simp)
  have over: "hs_phase (stream_response evs) = HDone" unfolding stream_response_def by simp
  from ok over show ?thesis unfolding hs_ok_def by simp
qed

definition chunks :: "'c hs \<Rightarrow> 'c list" where
  "chunks h = concat (map chunk_of (hs_out h))"

lemma chunks_step: "\<exists>cs. chunks (hold_slot h e) = chunks h @ cs \<and> subseq cs (yielded e)"
  by (cases e; cases "hs_acq h") (auto simp: chunks_def)

lemma chunks_run: "\<exists>cs. chunks (foldl hold_slot h evs) = chunks h @ cs \<and> subseq cs (concat (map yielded evs))"
proof (induction evs arbitrary: h)
  case Nil
  then show ?case by simp
next
  case (Cons e evs)
  obtain c1 where 1: "chunks (hold_slot h e) = chunks h @ c1" "subseq c1 (yielded e)"
    using chunks_step by blast
  obtain c2 where 2: "chunks (foldl hold_slot (hold_slot h e) evs) = chunks (hold_slot h e) @ c2"
      "subseq c2 (concat (map yielded evs))"
    using Cons.IH by blast
  have "chunks (foldl hold_slot h (e # evs)) = chunks h @ (c1 @ c2)" using 1 2 by simp
  moreover have "subseq (c1 @ c2) (concat (map yielded (e # evs)))"
    using list_emb_append_mono [OF 1(2) 2(2)] by simp
  ultimately show ?case by blast
qed

lemma chunk_of_Ping [simp]: "concat (map chunk_of (replicate n Ping @ map Chunk (cs :: 'a list))) = cs"
proof -
  have "concat (map (chunk_of \<circ> Chunk) cs) = cs" by (induction cs) simp_all
  moreover have "concat (map chunk_of (replicate n Ping)) = ([] :: 'a list)" by (induction n) simp_all
  ultimately show ?thesis by simp
qed

text \<open>
  What a client sees of a streamed response is a run of keepalive comments followed by
  chunks of the upstream body, in the body's order: no ping ever splits the body, and no byte of
  the body is sent unless the slot was granted.
\<close>

theorem stream_pings_then_body:
  "\<exists>n cs. hs_out (stream_response evs) = replicate n Ping @ map Chunk cs \<and>
     subseq cs (concat (map yielded evs)) \<and>
     (cs \<noteq> [] \<longrightarrow> hs_acq (stream_response evs) = AGranted)"
proof -
  have "frames_ok (stream_response evs)"
    unfolding stream_response_def
    by (rule frames_ok_step) (simp_all add: hs_ok_run frames_ok_run frames_ok_init)
  then obtain n cs where
    o: "hs_out (stream_response evs) = replicate n Ping @ map Chunk cs"
    and g: "cs \<noteq> [] \<longrightarrow> hs_acq (stream_response evs) = AGranted"
    unfolding frames_ok_def by blast
  have "stream_response evs = foldl hold_slot hs_init (evs @ [ClientGone])"
    by (simp add: stream_response_def)
  moreover obtain c2 where "chunks (foldl hold_slot hs_init (evs @ [ClientGone])) = chunks hs_init @ c2"
      "subseq c2 (concat (map yielded (evs @ [ClientGone])))"
    using chunks_run by blast
  ultimately have "chunks (stream_response evs) = c2" "subseq c2 (concat (map yielded evs))"
    by (simp_all add: chunks_def hs_init_def)
  moreover have "chunks (stream_response evs) = cs" unfolding chunks_def o by (rule chunk_of_Ping)
  ultimately have "subseq cs (concat (map yielded evs))" by simp
  with o g show ?thesis by blast
qed

text \<open>
  Refreshing the capacity from the chat server never touches the slots in use; a failed read,
  a value that is no integer and a count below one leave the gate as it was; any other count
  becomes the capacity, so the capacity of a gate never drops below one.
\<close>

theorem refresh_keeps_gate_sound:
  "g_in_use (fst (refresh_capacity_once g fetched)) = g_in_use g \<and>
   (case snd (refresh_capacity_once g fetched) of
      None \<Rightarrow> fst (refresh_capacity_once g fetched) = g
    | Some n \<Rightarrow> n \<ge> 1 \<and> g_cap (fst (refresh_capacity_once g fetched)) = n)"
proof -
  have pos: "slot_count v = Some n \<Longrightarrow> n \<ge> 1" for v n
    by (cases v) (auto split: if_splits)
  show ?thesis
    unfolding refresh_capacity_once_def gate_set_capacity_def
    using pos by (auto split: sum.splits option.splits)
qed

end
