(* ===== verification/Lane.thy ===== *)
theory Lane
  imports Admission
begin

text \<open>
  The reserved user lane (scripts/files/workforce_lane.py). Scoped requests take a lane slot
  and then a chat slot; the owner takes a chat slot only. The lane's capacity is the chat
  gate's less the reserve, read anew at each test, so it moves with the chat layout.
\<close>

section \<open>ReservedLane\<close>

record lane =
  ln_reserve :: int
  ln_in_use :: int

definition lane_init :: "int \<Rightarrow> lane" where
  "lane_init reserve = \<lparr>ln_reserve = max 0 reserve, ln_in_use = 0\<rparr>"

definition lane_capacity :: "gate \<Rightarrow> lane \<Rightarrow> int" where
  "lane_capacity g l = max 0 (g_cap g - ln_reserve l)"

text \<open>One turn of the loop in \<open>acquire\<close>: the slot is taken, the lane is closed, or it waits on.\<close>

datatype lane_turn = LaneTaken lane | LaneClosed | LaneWaits

definition lane_acquire :: "gate \<Rightarrow> lane \<Rightarrow> lane_turn" where
  "lane_acquire g l =
     (if ln_in_use l \<ge> lane_capacity g l
      then (if lane_capacity g l = 0 then LaneClosed else LaneWaits)
      else LaneTaken (l\<lparr>ln_in_use := ln_in_use l + 1\<rparr>))"

definition lane_release :: "lane \<Rightarrow> lane" where
  "lane_release l = l\<lparr>ln_in_use := ln_in_use l - 1\<rparr>"

section \<open>The lane and the chat gate together\<close>

text \<open>
  Where a request stands. A scoped one waits for the lane, then for the chat gate with its lane
  slot in hand, then holds both; when its chat slot came after the layout shrank it holds both
  only to give them back; the two releases are two steps, the chat gate's first.
\<close>

datatype sphase = SLaneWait | SChatWait | SHeld | SRefused | SGivesLane | SGone

datatype ophase = OWait | OHeld | OGone

record lanes =
  ls_gate :: gate
  ls_lane :: lane
  ls_scoped :: "sphase list"
  ls_owner :: "ophase list"

definition lanes_init :: "int \<Rightarrow> int \<Rightarrow> lanes" where
  "lanes_init capacity reserve =
     \<lparr>ls_gate = gate_init capacity, ls_lane = lane_init reserve, ls_scoped = [], ls_owner = []\<rparr>"

text \<open>\<open>_LaneThenChat.acquire\<close>, one scoped request's turn while it waits.\<close>

definition set_scoped :: "nat \<Rightarrow> sphase \<Rightarrow> lanes \<Rightarrow> lanes" where
  "set_scoped i p s = s\<lparr>ls_scoped := (ls_scoped s)[i := p]\<rparr>"

definition scoped_acquire :: "nat \<Rightarrow> lanes \<Rightarrow> lanes" where
  "scoped_acquire i s =
     (case ls_scoped s ! i of
        SLaneWait \<Rightarrow>
          (case lane_acquire (ls_gate s) (ls_lane s) of
             LaneTaken l \<Rightarrow> set_scoped i SChatWait (s\<lparr>ls_lane := l\<rparr>)
           | LaneClosed \<Rightarrow> set_scoped i SGone s
           | LaneWaits \<Rightarrow> s)
      | SChatWait \<Rightarrow>
          (case gate_acquire (ls_gate s) of
             None \<Rightarrow> s
           | Some g \<Rightarrow>
               set_scoped i (if ln_in_use (ls_lane s) > lane_capacity g (ls_lane s) then SRefused else SHeld)
                 (s\<lparr>ls_gate := g\<rparr>))
      | _ \<Rightarrow> s)"

text \<open>A cancelled wait: nothing is held before the lane's grant, the lane slot after it.\<close>

definition scoped_cancel :: "nat \<Rightarrow> lanes \<Rightarrow> lanes" where
  "scoped_cancel i s =
     (case ls_scoped s ! i of
        SLaneWait \<Rightarrow> set_scoped i SGone s
      | SChatWait \<Rightarrow> set_scoped i SGivesLane s
      | _ \<Rightarrow> s)"

definition scoped_release :: "nat \<Rightarrow> lanes \<Rightarrow> lanes" where
  "scoped_release i s =
     (case ls_scoped s ! i of
        SHeld \<Rightarrow> set_scoped i SGivesLane (s\<lparr>ls_gate := gate_release (ls_gate s)\<rparr>)
      | SRefused \<Rightarrow> set_scoped i SGivesLane (s\<lparr>ls_gate := gate_release (ls_gate s)\<rparr>)
      | SGivesLane \<Rightarrow> set_scoped i SGone (s\<lparr>ls_lane := lane_release (ls_lane s)\<rparr>)
      | _ \<Rightarrow> s)"

definition owner_acquire :: "nat \<Rightarrow> lanes \<Rightarrow> lanes" where
  "owner_acquire i s =
     (case ls_owner s ! i of
        OWait \<Rightarrow>
          (case gate_acquire (ls_gate s) of
             None \<Rightarrow> s
           | Some g \<Rightarrow> s\<lparr>ls_gate := g, ls_owner := (ls_owner s)[i := OHeld]\<rparr>)
      | _ \<Rightarrow> s)"

definition owner_leave :: "nat \<Rightarrow> lanes \<Rightarrow> lanes" where
  "owner_leave i s =
     (case ls_owner s ! i of
        OHeld \<Rightarrow> s\<lparr>ls_gate := gate_release (ls_gate s), ls_owner := (ls_owner s)[i := OGone]\<rparr>
      | _ \<Rightarrow> s\<lparr>ls_owner := (ls_owner s)[i := OGone]\<rparr>)"

text \<open>
  The steps of the router as far as admission goes; \<open>allow\<close> says which capacity changes may
  happen (old and new value).
\<close>

inductive lane_step :: "(int \<Rightarrow> int \<Rightarrow> bool) \<Rightarrow> lanes \<Rightarrow> lanes \<Rightarrow> bool" for allow where
  scoped_arrives: "lane_step allow s (s\<lparr>ls_scoped := ls_scoped s @ [SLaneWait]\<rparr>)"
| owner_arrives: "lane_step allow s (s\<lparr>ls_owner := ls_owner s @ [OWait]\<rparr>)"
| scoped_turn: "i < length (ls_scoped s) \<Longrightarrow> lane_step allow s (scoped_acquire i s)"
| scoped_cancelled: "i < length (ls_scoped s) \<Longrightarrow> lane_step allow s (scoped_cancel i s)"
| scoped_releases: "i < length (ls_scoped s) \<Longrightarrow> lane_step allow s (scoped_release i s)"
| owner_turn: "i < length (ls_owner s) \<Longrightarrow> lane_step allow s (owner_acquire i s)"
| owner_leaves: "i < length (ls_owner s) \<Longrightarrow> lane_step allow s (owner_leave i s)"
| resize: "allow (g_cap (ls_gate s)) (max 1 n) \<Longrightarrow>
     lane_step allow s (s\<lparr>ls_gate := gate_set_capacity n (ls_gate s)\<rparr>)"

inductive lane_reach :: "(int \<Rightarrow> int \<Rightarrow> bool) \<Rightarrow> lanes \<Rightarrow> lanes \<Rightarrow> bool" for allow s0 where
  lane_start: "lane_reach allow s0 s0"
| lane_next: "lane_reach allow s0 s \<Longrightarrow> lane_step allow s s' \<Longrightarrow> lane_reach allow s0 s'"

section \<open>Accounting\<close>

fun scoped_chat :: "sphase \<Rightarrow> int" where
  "scoped_chat SHeld = 1"
| "scoped_chat SRefused = 1"
| "scoped_chat _ = 0"

fun scoped_lane :: "sphase \<Rightarrow> int" where
  "scoped_lane SLaneWait = 0"
| "scoped_lane SGone = 0"
| "scoped_lane _ = 1"

fun owner_chat :: "ophase \<Rightarrow> int" where
  "owner_chat OHeld = 1"
| "owner_chat _ = 0"

definition scoped_holding :: "lanes \<Rightarrow> int" where
  "scoped_holding s = sum_list (map scoped_chat (ls_scoped s))"

definition lane_holding :: "lanes \<Rightarrow> int" where
  "lane_holding s = sum_list (map scoped_lane (ls_scoped s))"

definition owner_holding :: "lanes \<Rightarrow> int" where
  "owner_holding s = sum_list (map owner_chat (ls_owner s))"

definition lanes_ok :: "lanes \<Rightarrow> bool" where
  "lanes_ok s \<longleftrightarrow>
     g_in_use (ls_gate s) = owner_holding s + scoped_holding s \<and>
     ln_in_use (ls_lane s) = lane_holding s \<and> g_cap (ls_gate s) \<ge> 1"

lemmas lanes_defs = lanes_ok_def scoped_holding_def lane_holding_def owner_holding_def

lemmas gate_ops = gate_acquire_def gate_release_def gate_set_capacity_def lane_release_def

lemma lanes_ok_init: "lanes_ok (lanes_init c r)"
  by (simp add: lanes_defs lanes_init_def gate_init_def lane_init_def)

lemma lane_acquire_Taken:
  "lane_acquire g l = LaneTaken l' \<longleftrightarrow>
     ln_in_use l < lane_capacity g l \<and> l' = l\<lparr>ln_in_use := ln_in_use l + 1\<rparr>"
  by (auto simp: lane_acquire_def)

lemma lanes_ok_scoped_acquire: "lanes_ok s \<Longrightarrow> i < length (ls_scoped s) \<Longrightarrow> lanes_ok (scoped_acquire i s)"
  by (cases "ls_scoped s ! i")
    (auto simp: scoped_acquire_def set_scoped_def lanes_defs sum_list_update_int gate_ops
      lane_acquire_Taken split: lane_turn.splits option.splits if_splits)

lemma lanes_ok_scoped_cancel: "lanes_ok s \<Longrightarrow> i < length (ls_scoped s) \<Longrightarrow> lanes_ok (scoped_cancel i s)"
  by (cases "ls_scoped s ! i")
    (auto simp: scoped_cancel_def set_scoped_def lanes_defs sum_list_update_int)

lemma lanes_ok_scoped_release: "lanes_ok s \<Longrightarrow> i < length (ls_scoped s) \<Longrightarrow> lanes_ok (scoped_release i s)"
  by (cases "ls_scoped s ! i")
    (auto simp: scoped_release_def set_scoped_def lanes_defs sum_list_update_int gate_ops)

lemma lanes_ok_owner_acquire: "lanes_ok s \<Longrightarrow> i < length (ls_owner s) \<Longrightarrow> lanes_ok (owner_acquire i s)"
  by (cases "ls_owner s ! i")
    (auto simp: owner_acquire_def lanes_defs sum_list_update_int gate_ops split: option.splits if_splits)

lemma lanes_ok_owner_leave: "lanes_ok s \<Longrightarrow> i < length (ls_owner s) \<Longrightarrow> lanes_ok (owner_leave i s)"
  by (cases "ls_owner s ! i")
    (auto simp: owner_leave_def lanes_defs sum_list_update_int gate_ops)

lemma lanes_ok_step: "lane_step allow s s' \<Longrightarrow> lanes_ok s \<Longrightarrow> lanes_ok s'"
proof (induction rule: lane_step.induct)
  case (scoped_arrives s)
  then show ?case by (simp add: lanes_defs)
next
  case (owner_arrives s)
  then show ?case by (simp add: lanes_defs)
next
  case (resize s n)
  then show ?case by (simp add: lanes_defs gate_ops)
qed (simp_all add: lanes_ok_scoped_acquire lanes_ok_scoped_cancel lanes_ok_scoped_release
    lanes_ok_owner_acquire lanes_ok_owner_leave)

lemma lanes_ok_reach: "lane_reach allow s0 s \<Longrightarrow> lanes_ok s0 \<Longrightarrow> lanes_ok s"
  by (induction rule: lane_reach.induct) (auto intro: lanes_ok_step)

lemma scoped_chat_le_lane: "sum_list (map scoped_chat ps) \<le> sum_list (map scoped_lane ps)"
proof (induction ps)
  case Nil
  then show ?case by simp
next
  case (Cons p ps)
  then show ?case by (cases p) simp_all
qed

lemma holding_le_lane: "scoped_holding s \<le> lane_holding s"
  unfolding scoped_holding_def lane_holding_def by (rule scoped_chat_le_lane)

section \<open>The reserve\<close>

text \<open>While the capacity is not lowered the lane never holds more than its share.\<close>

definition within_share :: "lanes \<Rightarrow> bool" where
  "within_share s = (ln_in_use (ls_lane s) \<le> lane_capacity (ls_gate s) (ls_lane s))"

lemma within_share_step:
  "lane_step (\<le>) s s' \<Longrightarrow> within_share s \<Longrightarrow> within_share s'"
proof (induction rule: lane_step.induct)
  case (scoped_turn i s)
  then show ?case
    by (cases "ls_scoped s ! i")
      (auto simp: scoped_acquire_def set_scoped_def within_share_def lane_acquire_Taken gate_ops
        lane_capacity_def split: lane_turn.splits option.splits if_splits)
next
  case (scoped_cancelled i s)
  then show ?case
    by (cases "ls_scoped s ! i") (auto simp: scoped_cancel_def set_scoped_def within_share_def)
next
  case (scoped_releases i s)
  then show ?case
    by (cases "ls_scoped s ! i")
      (auto simp: scoped_release_def set_scoped_def within_share_def gate_ops lane_capacity_def)
next
  case (owner_turn i s)
  then show ?case
    by (cases "ls_owner s ! i")
      (auto simp: owner_acquire_def within_share_def gate_ops lane_capacity_def
        split: option.splits if_splits)
next
  case (owner_leaves i s)
  then show ?case
    by (cases "ls_owner s ! i")
      (auto simp: owner_leave_def within_share_def gate_ops lane_capacity_def)
next
  case (resize s n)
  then show ?case by (auto simp: within_share_def gate_ops lane_capacity_def)
qed (auto simp: within_share_def)

lemma within_share_reach: "lane_reach (\<le>) s0 s \<Longrightarrow> within_share s0 \<Longrightarrow> within_share s"
  by (induction rule: lane_reach.induct) (auto intro: within_share_step)

lemma reserve_const_step: "lane_step allow s s' \<Longrightarrow> ln_reserve (ls_lane s') = ln_reserve (ls_lane s)"
  by (induction rule: lane_step.induct)
    (auto simp: scoped_acquire_def scoped_cancel_def scoped_release_def owner_acquire_def
      owner_leave_def set_scoped_def lane_release_def lane_acquire_Taken
      split: sphase.splits ophase.splits lane_turn.splits option.splits)

lemma reserve_const: "lane_reach allow s0 s \<Longrightarrow> ln_reserve (ls_lane s) = ln_reserve (ls_lane s0)"
  by (induction rule: lane_reach.induct) (auto dest: reserve_const_step)

text \<open>The lane's half of the contract of a gate: any change of the chat gate moves its limit only.\<close>

definition lane_take :: "gate \<times> lane \<Rightarrow> (gate \<times> lane) option" where
  "lane_take = (\<lambda>(g, l). case lane_acquire g l of LaneTaken l' \<Rightarrow> Some (g, l') | _ \<Rightarrow> None)"

interpretation lane_gate: slot_gate lane_take "\<lambda>(g, l). (g, lane_release l)"
  "\<lambda>s s'. snd s' = snd s" "\<lambda>(g, l). ln_in_use l" "\<lambda>(g, l). lane_capacity g l"
  by unfold_locales
    (auto simp: lane_take_def lane_release_def lane_acquire_Taken lane_capacity_def lane_acquire_def
      split: lane_turn.splits if_splits)

section \<open>Around a request: admitted and refuse_on_lane_closed\<close>

datatype gate_kind = ChatGate | LaneThenChat

definition gate_for :: "bool \<Rightarrow> gate_kind" where
  "gate_for is_owner = (if is_owner then ChatGate else LaneThenChat)"

datatype 'e acquire_result = Acquired | RaisedLaneClosed | RaisedOther 'e

datatype ('e, 'r) outcome = Returns 'r | Refused | Raises 'e

text \<open>
  \<open>admitted\<close>: the result of the gate's acquire and of the block; how often the gate is released
  and what the caller sees.
\<close>

fun admitted :: "'e acquire_result \<Rightarrow> 'e + 'r \<Rightarrow> nat \<times> ('e, 'r) outcome" where
  "admitted RaisedLaneClosed _ = (0, Refused)"
| "admitted (RaisedOther e) _ = (0, Raises e)"
| "admitted Acquired block = (1, (case block of Inl e \<Rightarrow> Raises e | Inr r \<Rightarrow> Returns r))"

text \<open>
  \<open>refuse_on_lane_closed\<close>: a stream is its chunks and how it ends; the result is the frames that
  come out and the exception that leaves the generator, if one does.
\<close>

datatype 'e stream_end = StreamEnds | StreamLaneClosed | StreamRaises 'e

fun refuse_on_lane_closed :: "'c list \<Rightarrow> 'e stream_end \<Rightarrow> 'c \<Rightarrow> 'c list \<times> 'e option" where
  "refuse_on_lane_closed [] StreamEnds closing = ([], None)"
| "refuse_on_lane_closed [] StreamLaneClosed closing = ([closing], None)"
| "refuse_on_lane_closed [] (StreamRaises e) closing = ([], Some e)"
| "refuse_on_lane_closed (ch # chs) fin closing =
     (let r = refuse_on_lane_closed chs fin closing in (ch # fst r, snd r))"

text \<open>The stream of a refused request is what it had sent, with the closing frame after it.\<close>

lemma refuse_on_lane_closed_frames:
  "refuse_on_lane_closed chs fin closing =
     (chs @ (if fin = StreamLaneClosed then [closing] else []),
      case fin of StreamRaises e \<Rightarrow> Some e | _ \<Rightarrow> None)"
  by (induction chs fin closing rule: refuse_on_lane_closed.induct) simp_all

section \<open>Properties\<close>

lemma scoped_admission:
  assumes ok: "lanes_ok s" and step: "lane_step allow s s'" and i: "i < length (ls_scoped s)"
    and new: "ls_scoped s ! i \<noteq> SHeld" "ls_scoped s' ! i = SHeld"
  shows "ln_in_use (ls_lane s') \<le> lane_capacity (ls_gate s') (ls_lane s')"
  using step
proof (cases rule: lane_step.cases)
  case (scoped_turn j)
  with new i have j: "j = i"
    by (cases "ls_scoped s ! j")
      (auto simp: scoped_acquire_def set_scoped_def nth_list_update
        split: lane_turn.splits option.splits if_splits)
  with scoped_turn new i show ?thesis
    by (cases "ls_scoped s ! i")
      (auto simp: scoped_acquire_def set_scoped_def gate_ops
        split: lane_turn.splits option.splits if_splits)
next
  case (scoped_cancelled j)
  with new i show ?thesis
    by (cases "ls_scoped s ! j")
      (auto simp: scoped_cancel_def set_scoped_def nth_list_update split: if_splits)
next
  case (scoped_releases j)
  with new i show ?thesis
    by (cases "ls_scoped s ! j")
      (auto simp: scoped_release_def set_scoped_def nth_list_update split: if_splits)
next
  case (owner_turn j)
  with new show ?thesis
    by (auto simp: owner_acquire_def split: ophase.splits option.splits)
next
  case (owner_leaves j)
  with new show ?thesis by (auto simp: owner_leave_def split: ophase.splits)
qed (use new i in \<open>auto simp: nth_append\<close>)

text \<open>
  C3: At the moment a scoped request is admitted, under any interleaving and any change of the chat
  layout before it, the scoped requests together hold no more chat slots than the capacity less
  the reserve; in a layout without room for the reserve none is admitted.
\<close>

theorem scoped_never_over_reserve:
  assumes "lane_reach allow (lanes_init c r) s" and "lane_step allow s s'"
    and "i < length (ls_scoped s)" and "ls_scoped s ! i \<noteq> SHeld" and "ls_scoped s' ! i = SHeld"
  shows "scoped_holding s' \<le> max 0 (g_cap (ls_gate s') - max 0 r)"
proof -
  have ok: "lanes_ok s" by (rule lanes_ok_reach [OF assms(1) lanes_ok_init])
  have ok': "lanes_ok s'" by (rule lanes_ok_step [OF assms(2) ok])
  have "lane_reach allow (lanes_init c r) s'" by (rule lane_next [OF assms(1,2)])
  then have r: "ln_reserve (ls_lane s') = max 0 r"
    using reserve_const by (fastforce simp: lanes_init_def lane_init_def)
  have "ln_in_use (ls_lane s') \<le> lane_capacity (ls_gate s') (ls_lane s')"
    by (rule scoped_admission [OF ok assms(2-5)])
  with holding_le_lane [of s'] ok' r show ?thesis
    by (simp add: lanes_ok_def lane_capacity_def)
qed

lemma lane_reach_waiting:
  "lane_reach allow (lanes_init c r) (lanes_init c r\<lparr>ls_scoped := [SLaneWait]\<rparr>)"
  using lane_next [OF lane_start scoped_arrives, of allow "lanes_init c r"]
  by (simp add: lanes_init_def)

theorem scoped_never_over_reserve_witness:
  "scoped_holding (scoped_acquire 0 (scoped_acquire 0 (lanes_init 3 1\<lparr>ls_scoped := [SLaneWait]\<rparr>)))
     \<le> max 0 (3 - max 0 1)"
proof -
  let ?s = "scoped_acquire 0 (lanes_init 3 1\<lparr>ls_scoped := [SLaneWait]\<rparr>)"
  have "lane_step (\<le>) (lanes_init 3 1\<lparr>ls_scoped := [SLaneWait]\<rparr>) ?s"
    by (rule scoped_turn) simp
  from lane_next [OF lane_reach_waiting this] have r: "lane_reach (\<le>) (lanes_init 3 1) ?s" .
  have e: "ls_scoped ?s = [SChatWait]" "ls_scoped (scoped_acquire 0 ?s) = [SHeld]"
    "g_cap (ls_gate (scoped_acquire 0 ?s)) = 3"
    by (simp_all add: scoped_acquire_def lanes_init_def gate_init_def lane_init_def set_scoped_def
        lane_acquire_def lane_capacity_def gate_acquire_def)
  have st: "lane_step (\<le>) ?s (scoped_acquire 0 ?s)" by (rule scoped_turn) (simp add: e)
  show ?thesis
    using scoped_never_over_reserve [OF r st, of 0] by (simp add: e)
qed

text \<open>
  C2: As long as the capacity is not lowered, the owner finds a free slot: with fewer owner requests
  in progress than the reserve and the capacity allow, an owner request that takes its turn is
  admitted, whatever the scoped requests are doing.
\<close>

theorem owner_finds_slot:
  assumes "lane_reach (\<le>) (lanes_init c r) s" and "i < length (ls_owner s)"
    and "ls_owner s ! i = OWait" and "owner_holding s < min r (g_cap (ls_gate s))"
  shows "ls_owner (owner_acquire i s) ! i = OHeld"
proof -
  have ok: "lanes_ok s" by (rule lanes_ok_reach [OF assms(1) lanes_ok_init])
  have "within_share (lanes_init c r)"
    by (simp add: within_share_def lanes_init_def lane_init_def lane_capacity_def)
  then have share: "within_share s" by (rule within_share_reach [OF assms(1)])
  have res: "ln_reserve (ls_lane s) = max 0 r"
    using reserve_const [OF assms(1)] by (simp add: lanes_init_def lane_init_def)
  have "g_in_use (ls_gate s) < g_cap (ls_gate s)"
    using ok share res holding_le_lane [of s] assms(4)
    by (auto simp: lanes_ok_def within_share_def lane_capacity_def max_def min_def split: if_splits)
  with assms(2,3) show ?thesis by (simp add: owner_acquire_def gate_acquire_def)
qed

theorem owner_finds_slot_witness:
  "ls_owner (owner_acquire 0 (lanes_init 2 1\<lparr>ls_owner := [OWait]\<rparr>)) ! 0 = OHeld"
proof -
  have "lane_reach (\<le>) (lanes_init 2 1) (lanes_init 2 1\<lparr>ls_owner := [OWait]\<rparr>)"
    using lane_next [OF lane_start owner_arrives, of "(\<le>)" "lanes_init 2 1"]
    by (simp add: lanes_init_def)
  from owner_finds_slot [OF this, of 0] show ?thesis
    by (simp add: owner_holding_def lanes_init_def gate_init_def)
qed

text \<open>
  C10: No slot of either gate is lost: in every reachable state, whatever was cancelled, refused or
  resized on the way, both counters are what the requests hold, and both are zero once all are gone.
\<close>

theorem lane_slots_accounted:
  assumes "lane_reach allow (lanes_init c r) s"
  shows "g_in_use (ls_gate s) = owner_holding s + scoped_holding s \<and>
     ln_in_use (ls_lane s) = lane_holding s \<and>
     (set (ls_scoped s) \<subseteq> {SGone} \<and> set (ls_owner s) \<subseteq> {OGone} \<longrightarrow>
        g_in_use (ls_gate s) = 0 \<and> ln_in_use (ls_lane s) = 0)"
proof -
  have ok: "lanes_ok s" by (rule lanes_ok_reach [OF assms lanes_ok_init])
  have "set ps \<subseteq> {SGone} \<Longrightarrow> sum_list (map scoped_chat ps) = 0 \<and> sum_list (map scoped_lane ps) = 0"
    for ps by (induction ps) simp_all
  then have "set (ls_scoped s) \<subseteq> {SGone} \<Longrightarrow> scoped_holding s = 0 \<and> lane_holding s = 0"
    unfolding scoped_holding_def lane_holding_def by blast
  moreover have "set ps \<subseteq> {OGone} \<Longrightarrow> sum_list (map owner_chat ps) = 0" for ps
    by (induction ps) simp_all
  then have "set (ls_owner s) \<subseteq> {OGone} \<Longrightarrow> owner_holding s = 0"
    unfolding owner_holding_def by blast
  ultimately show ?thesis using ok by (simp add: lanes_ok_def)
qed

theorem lane_slots_accounted_witness:
  "ln_in_use (ls_lane (lanes_init 3 1\<lparr>ls_scoped := [SLaneWait]\<rparr>)) =
     lane_holding (lanes_init 3 1\<lparr>ls_scoped := [SLaneWait]\<rparr>)"
  using lane_slots_accounted [OF lane_reach_waiting] by blast

text \<open>
  A streamed response whose generator waits on the lane alone counts against the lane exactly
  while it holds, and the lane admits one more exactly below its share, read at that moment.
\<close>

theorem lane_streams_accounted:
  assumes "slot_reach lane_take (\<lambda>(g, l). (g, lane_release l)) (\<lambda>s s'. snd s' = snd s)
      (g0, lane_init r) ((g, l), hs)"
  shows "ln_in_use l = held hs \<and> (held hs < lane_capacity g l \<longleftrightarrow> (\<exists>x. lane_take (g, l) = Some x))"
  using lane_gate.reach_accounts [OF assms] lane_gate.admits_below_limit [OF assms]
  by (simp add: lane_init_def)

lemma lane_streams_start:
  "slot_reach lane_take (\<lambda>(g, l). (g, lane_release l)) (\<lambda>s s'. snd s' = snd s)
     (gate_init 2, lane_init 1) ((gate_init 2, lane_init 1), [hs_init :: nat hs])"
  using slot_reach.step [OF slot_reach.start slot_step.arrive] by fastforce

end
