(* ===== verification/TtlCache.thy ===== *)
theory TtlCache
  imports PyVal "HOL-Library.Multiset"
begin

text \<open>
  The cache of search responses (scripts/files/tavily_cache.py) and its client, the search route
  of the router (scripts/files/router-app.py, \<open>tavily_search\<close>). SHA-256, the text of a float and the
  answers of the search service are parameters.
\<close>

section \<open>json.dumps\<close>

definition hex_digit :: "nat \<Rightarrow> char" where
  "hex_digit d = (if d < 10 then char_of (48 + d) else char_of (87 + d))"

definition json_char :: "char \<Rightarrow> string" where
  "json_char c =
     (if cp c = 34 then [CHR 0x5C, CHR 0x22]
      else if cp c = 92 then [CHR 0x5C, CHR 0x5C]
      else if cp c = 10 then [CHR 0x5C, CHR ''n'']
      else if cp c = 13 then [CHR 0x5C, CHR ''r'']
      else if cp c = 9 then [CHR 0x5C, CHR ''t'']
      else if cp c = 12 then [CHR 0x5C, CHR ''f'']
      else if cp c = 8 then [CHR 0x5C, CHR ''b'']
      else if 32 \<le> cp c \<and> cp c \<le> 126 then [c]
      else [CHR 0x5C, CHR ''u'', CHR ''0'', CHR ''0'', hex_digit (cp c div 16), hex_digit (cp c mod 16)])"

definition json_str :: "string \<Rightarrow> string" where
  "json_str s = CHR 0x22 # concat (map json_char s) @ [CHR 0x22]"

text \<open>
  The text of a value with the two separators; \<open>srt\<close> sorts the keys of every object. \<open>sf\<close> is the
  text of a float. Keys of parsed JSON are strings.
\<close>

fun key_text :: "(pyfloat \<Rightarrow> string) \<Rightarrow> pyval \<Rightarrow> string" where
  "key_text sf (PStr s) = s"
| "key_text sf (PBool b) = (if b then ''true'' else ''false'')"
| "key_text sf (PInt i) = show_int i"
| "key_text sf (PFloat f) = sf f"
| "key_text sf _ = ''null''"

function json_text :: "bool \<Rightarrow> string \<Rightarrow> string \<Rightarrow> (pyfloat \<Rightarrow> string) \<Rightarrow> pyval \<Rightarrow> string" where
  "json_text srt isep ksep sf PNone = ''null''"
| "json_text srt isep ksep sf (PBool b) = (if b then ''true'' else ''false'')"
| "json_text srt isep ksep sf (PInt i) = show_int i"
| "json_text srt isep ksep sf (PFloat f) = sf f"
| "json_text srt isep ksep sf (PStr s) = json_str s"
| "json_text srt isep ksep sf (PList xs) =
     ''['' @ join isep (map (json_text srt isep ksep sf) xs) @ '']''"
| "json_text srt isep ksep sf (PDict d) =
     (let items = map (\<lambda>p. (key_text sf (fst p), json_text srt isep ksep sf (snd p))) d;
          items = (if srt then sort_key fst items else items)
      in ''{'' @ join isep (map (\<lambda>p. json_str (fst p) @ ksep @ snd p) items) @ ''}'')"
  by pat_completeness auto
termination
proof (relation "measure (\<lambda>(srt, isep, ksep, sf, v). size v)")
  fix srt isep ksep and sf :: "pyfloat \<Rightarrow> string" and xs x
  assume "x \<in> set (xs :: pyval list)"
  then have "size x < size (PList xs)" by (induction xs) auto
  then show "((srt, isep, ksep, sf, x), srt, isep, ksep, sf, PList xs)
      \<in> measure (\<lambda>(srt :: bool, isep :: string, ksep :: string, sf :: pyfloat \<Rightarrow> string, v). size v)"
    by simp
next
  fix srt isep ksep and sf :: "pyfloat \<Rightarrow> string" and d p
  assume "p \<in> set (d :: (pyval \<times> pyval) list)"
  then have "size (snd p) < size (PDict d)" by (induction d) (auto simp: size_prod_simp)
  then show "((srt, isep, ksep, sf, snd p), srt, isep, ksep, sf, PDict d)
      \<in> measure (\<lambda>(srt :: bool, isep :: string, ksep :: string, sf :: pyfloat \<Rightarrow> string, v). size v)"
    by simp
qed simp_all

definition canon :: "(pyfloat \<Rightarrow> string) \<Rightarrow> pyval \<Rightarrow> string" where
  "canon sf v = json_text True '','' '':'' sf v"

definition cache_key :: "(string \<Rightarrow> string) \<Rightarrow> (pyfloat \<Rightarrow> string) \<Rightarrow> pydict \<Rightarrow> string" where
  "cache_key sha sf body = sha (canon sf (PDict body))"

text \<open>The length in bytes of \<^verbatim>\<open>json.dumps(value)\<close>, whose text is ASCII.\<close>

definition dumps_size :: "(pyfloat \<Rightarrow> string) \<Rightarrow> pyval \<Rightarrow> nat" where
  "dumps_size sf v = length (json_text False '', '' '': '' sf v)"

definition should_cache :: "int \<Rightarrow> bool" where
  "should_cache status_code = (status_code = 200)"

section \<open>TTLCache\<close>

record cache_stats =
  st_hits :: nat
  st_misses :: nat
  st_evictions :: nat
  st_skipped_large :: nat

record 'v cache =
  c_ttl :: rat
  c_max_entries :: int
  c_max_value_bytes :: int
  c_entries :: "(string \<times> rat \<times> 'v) list"
  c_stats :: cache_stats

definition cache_init :: "rat \<Rightarrow> int \<Rightarrow> int \<Rightarrow> 'v cache" where
  "cache_init ttl_s max_entries max_value_bytes =
     \<lparr>c_ttl = ttl_s, c_max_entries = max_entries, c_max_value_bytes = max_value_bytes, c_entries = [],
      c_stats = \<lparr>st_hits = 0, st_misses = 0, st_evictions = 0, st_skipped_large = 0\<rparr>\<rparr>"

definition miss :: "'v cache \<Rightarrow> 'v cache" where
  "miss c = c\<lparr>c_stats := (c_stats c)\<lparr>st_misses := Suc (st_misses (c_stats c))\<rparr>\<rparr>"

definition cache_get :: "string \<Rightarrow> rat \<Rightarrow> 'v cache \<Rightarrow> 'v option \<times> 'v cache" where
  "cache_get key now c =
     (case map_of (c_entries c) key of
        None \<Rightarrow> (None, miss c)
      | Some (stored_at, v) \<Rightarrow>
          if now - stored_at \<ge> c_ttl c
          then (None, miss (c\<lparr>c_entries := alist_del key (c_entries c)\<rparr>))
          else (Some v, c\<lparr>c_entries := alist_del key (c_entries c) @ [(key, stored_at, v)],
                  c_stats := (c_stats c)\<lparr>st_hits := Suc (st_hits (c_stats c))\<rparr>\<rparr>))"

text \<open>The eviction loop: the oldest entry goes until the limit holds; an empty one cannot give one.\<close>

fun evict :: "int \<Rightarrow> 'e list \<Rightarrow> nat \<Rightarrow> ('e list \<times> nat) res" where
  "evict m [] n = (if 0 > m then Inl KeyError else Inr ([], n))"
| "evict m (e # es) n = (if int (length (e # es)) > m then evict m es (Suc n) else Inr (e # es, n))"

text \<open>\<open>size\<close> is what \<^verbatim>\<open>json.dumps\<close> gives: None when it raises.\<close>

definition cache_put :: "('v \<Rightarrow> nat option) \<Rightarrow> string \<Rightarrow> 'v \<Rightarrow> rat \<Rightarrow> 'v cache \<Rightarrow> (bool \<times> 'v cache) res" where
  "cache_put sz key v now c =
     (case sz v of
        None \<Rightarrow> Inr (False, c)
      | Some n \<Rightarrow>
          if int n > c_max_value_bytes c
          then Inr (False, c\<lparr>c_stats := (c_stats c)\<lparr>st_skipped_large := Suc (st_skipped_large (c_stats c))\<rparr>\<rparr>)
          else bind_res (evict (c_max_entries c) (alist_del key (c_entries c) @ [(key, now, v)]) 0)
            (\<lambda>(es, k). Inr (True, c\<lparr>c_entries := es,
               c_stats := (c_stats c)\<lparr>st_evictions := st_evictions (c_stats c) + k\<rparr>\<rparr>)))"

definition cache_len :: "'v cache \<Rightarrow> nat" where
  "cache_len c = length (c_entries c)"

definition cache_ok :: "'v cache \<Rightarrow> bool" where
  "cache_ok c \<longleftrightarrow> distinct (map fst (c_entries c)) \<and> int (length (c_entries c)) \<le> c_max_entries c"

lemma evict_ok:
  "0 \<le> m \<Longrightarrow> \<exists>k. evict m es n = Inr (drop k es, n + k) \<and> k = length es - nat m"
proof (induction m es n rule: evict.induct)
  case (1 m n)
  then show ?case by simp
next
  case (2 m e es n)
  show ?case
  proof (cases "int (length (e # es)) > m")
    case True
    from "2.IH" [OF True "2.prems"] True "2.prems" show ?thesis
      by (auto intro: arg_cong2 [where f = "\<lambda>x y. drop x (e # y)"] simp: Suc_diff_le nat_le_iff)
  next
    case False
    with "2.prems" show ?thesis by auto
  qed
qed

lemma miss_simps [simp]:
  "c_entries (miss c) = c_entries c" "c_ttl (miss c) = c_ttl c"
  "c_max_entries (miss c) = c_max_entries c" "c_max_value_bytes (miss c) = c_max_value_bytes c"
  by (simp_all add: miss_def)

lemma length_alist_del_present:
  "distinct (map fst xs) \<Longrightarrow> map_of xs k \<noteq> None \<Longrightarrow> Suc (length (alist_del k xs)) = length xs"
proof (induction xs)
  case Nil
  then show ?case by simp
next
  case (Cons p xs)
  show ?case
  proof (cases "fst p = k")
    case True
    with Cons.prems have "k \<notin> fst ` set xs" by auto
    with True show ?thesis
      by (cases p) (simp add: alist_del_def, metis (mono_tags, lifting) alist_del_absent alist_del_def)
  next
    case False
    with Cons show ?thesis by (cases p) (auto simp: alist_del_def)
  qed
qed

section \<open>The contract of the store\<close>

text \<open>
  What a client may rely on: a hit is an entry younger than the time to live, and entries only come
  from what was put.
\<close>

locale ttl_store =
  fixes get :: "string \<Rightarrow> rat \<Rightarrow> 'c \<Rightarrow> 'v option \<times> 'c"
    and put :: "string \<Rightarrow> 'v \<Rightarrow> rat \<Rightarrow> 'c \<Rightarrow> (bool \<times> 'c) res"
    and entries :: "'c \<Rightarrow> (string \<times> rat \<times> 'v) set"
    and ttl :: "'c \<Rightarrow> rat"
  assumes get_hit: "get k now c = (Some v, c') \<Longrightarrow> \<exists>t. (k, t, v) \<in> entries c \<and> now - t < ttl c"
    and get_entries: "get k now c = (r, c') \<Longrightarrow> entries c' \<subseteq> entries c \<and> ttl c' = ttl c"
    and put_entries: "put k v now c = Inr (b, c') \<Longrightarrow>
          entries c' \<subseteq> insert (k, now, v) (entries c) \<and> ttl c' = ttl c"
begin

lemma hit_earned:
  "entries c \<subseteq> past \<Longrightarrow> get k now c = (Some v, c') \<Longrightarrow> \<exists>t. (k, t, v) \<in> past \<and> now - t < ttl c"
  using get_hit by blast

lemma earned_get: "entries c \<subseteq> past \<Longrightarrow> get k now c = (r, c') \<Longrightarrow> entries c' \<subseteq> past"
  using get_entries by blast

lemma earned_put:
  "entries c \<subseteq> past \<Longrightarrow> put k v now c = Inr (b, c') \<Longrightarrow> entries c' \<subseteq> insert (k, now, v) past"
  using put_entries by blast

end

lemma distinct_move_end:
  "distinct (map fst xs) \<Longrightarrow> distinct (map fst (alist_del k xs @ [(k, e)]))"
  by (auto simp: alist_del_def distinct_map_filter)

text \<open>An insertion that is accepted: the new entry last, and the oldest beyond the limit gone.\<close>

lemma evict_drop: "evict m es n = Inr (es', n') \<Longrightarrow> \<exists>k. es' = drop k es"
proof (induction m es n rule: evict.induct)
  case (1 m n)
  then show ?case by (auto split: if_splits)
next
  case (2 m e es n)
  show ?case
  proof (cases "int (length (e # es)) > m")
    case True
    with 2 obtain k where "es' = drop k es" by auto
    then have "es' = drop (Suc k) (e # es)" by simp
    then show ?thesis by blast
  next
    case False
    with "2.prems" have "es' = drop 0 (e # es)" by auto
    then show ?thesis by blast
  qed
qed

lemma cache_put_cases:
  assumes "cache_put sz k v now c = Inr (b, c')"
  obtains "c_entries c' = c_entries c" "c_ttl c' = c_ttl c" "\<not> b"
  | n where "c_entries c' = drop n (alist_del k (c_entries c) @ [(k, now, v)])" "c_ttl c' = c_ttl c" "b"
  using assms by (auto simp: cache_put_def bind_res_Inr_iff split: option.splits if_splits dest!: evict_drop)

lemma cache_get_distinct:
  "cache_get k now c = (r, c') \<Longrightarrow> distinct (map fst (c_entries c)) \<Longrightarrow> distinct (map fst (c_entries c'))"
  using distinct_move_end
  by (fastforce simp: cache_get_def split: option.splits prod.splits if_splits)

lemma set_alist_del: "set (alist_del k xs) \<subseteq> set xs"
  by (auto simp: alist_del_def)

interpretation tavily_store: ttl_store cache_get "cache_put sz" "\<lambda>c. set (c_entries c)" c_ttl for sz
proof unfold_locales
  fix k now v and c c' :: "'v cache"
  assume "cache_get k now c = (Some v, c')"
  then show "\<exists>t. (k, t, v) \<in> set (c_entries c) \<and> now - t < c_ttl c"
    by (auto simp: cache_get_def split: option.splits if_splits)
      (meson map_of_SomeD not_le)
next
  fix k now r and c c' :: "'v cache"
  assume "cache_get k now c = (r, c')"
  then show "set (c_entries c') \<subseteq> set (c_entries c) \<and> c_ttl c' = c_ttl c"
    using set_alist_del [of k "c_entries c"]
    by (auto simp: cache_get_def map_of_SomeD subset_iff split: option.splits if_splits)
next
  fix sz and v :: 'v and k now b and c c' :: "'v cache"
  assume "cache_put sz k v now c = Inr (b, c')"
  then show "set (c_entries c') \<subseteq> insert (k, now, v) (set (c_entries c)) \<and> c_ttl c' = c_ttl c"
  proof (cases rule: cache_put_cases)
    case 1
    then show ?thesis by auto
  next
    case (2 n)
    then show ?thesis
      using set_drop_subset [of n "alist_del k (c_entries c) @ [(k, now, v)]"] set_alist_del [of k "c_entries c"]
      by auto
  qed
qed

lemma cache_ok_get: "cache_ok c \<Longrightarrow> cache_ok (snd (cache_get k now c))"
proof -
  assume ok: "cache_ok c"
  obtain r c' where e: "cache_get k now c = (r, c')" by (cases "cache_get k now c")
  have d: "distinct (map fst (c_entries c))" using ok by (simp add: cache_ok_def)
  have "length (c_entries c') \<le> length (c_entries c) \<and> c_max_entries c' = c_max_entries c"
  proof (cases "map_of (c_entries c) k")
    case None
    with e show ?thesis by (auto simp: cache_get_def miss_def)
  next
    case (Some p)
    then have "Suc (length (alist_del k (c_entries c))) = length (c_entries c)"
      using length_alist_del_present [OF d] by simp
    with e Some show ?thesis by (cases p) (auto simp: cache_get_def miss_def split: if_splits)
  qed
  with cache_get_distinct [OF e d] e ok show ?thesis by (auto simp: cache_ok_def)
qed

lemma cache_ok_put:
  assumes ok: "cache_ok c"
  shows "\<exists>b c'. cache_put sz k v now c = Inr (b, c') \<and> cache_ok c' \<and> c_max_entries c' = c_max_entries c"
proof -
  let ?es = "alist_del k (c_entries c) @ [(k, now, v)]"
  have "distinct (map fst (c_entries c))" using ok by (simp add: cache_ok_def)
  then have d: "distinct (map fst ?es)" by (rule distinct_move_end)
  have m: "0 \<le> c_max_entries c" using ok by (simp add: cache_ok_def)
  obtain j where j: "evict (c_max_entries c) ?es 0 = Inr (drop j ?es, j)" "j = length ?es - nat (c_max_entries c)"
    using evict_ok [OF m, of ?es 0] by auto
  have "distinct (map fst (drop j ?es))" using d by (metis distinct_drop drop_map)
  moreover have "int (length (drop j ?es)) \<le> c_max_entries c" using j(2) m by simp
  ultimately have stored: "cache_ok (c\<lparr>c_entries := drop j ?es, c_stats := st\<rparr>)" for st
    by (simp add: cache_ok_def)
  have skipped: "cache_ok (c\<lparr>c_stats := st\<rparr>)" for st using ok by (simp add: cache_ok_def)
  show ?thesis
  proof (cases "sz v")
    case None
    with ok show ?thesis unfolding cache_put_def by simp blast
  next
    case (Some n)
    show ?thesis
    proof (cases "int n > c_max_value_bytes c")
      case True
      with Some skipped show ?thesis unfolding cache_put_def by simp blast
    next
      case False
      then show ?thesis unfolding cache_put_def using Some stored by (simp add: j(1)) blast
    qed
  qed
qed

section \<open>The search route\<close>

text \<open>
  \<open>tavily_search\<close>: the configured key, the body (or the status its reading raised), the clock at
  the lookup, what the service answers, and the clock at the store. The answer is a response with
  its status, body and cache header, or the HTTP exception that is passed on.
\<close>

datatype upstream =
    UpRaises string
  | UpAnswer int string "pyval option"

datatype rbody = RError string string | RPayload pyval

datatype search_out = Reply int rbody "string option" | RaiseHTTP int

record sreq =
  rq_body :: "int + pydict"
  rq_t_get :: rat
  rq_up :: upstream
  rq_t_put :: rat

definition allowed_fields :: "string list" where
  "allowed_fields =
     [''query'', ''search_depth'', ''chunks_per_source'', ''max_results'', ''topic'', ''time_range'',
      ''start_date'', ''end_date'', ''days'', ''include_answer'', ''include_raw_content'',
      ''include_domains'', ''exclude_domains'', ''country'', ''auto_parameters'', ''exact_match'']"

definition forwarded :: "pydict \<Rightarrow> pydict" where
  "forwarded body = filter (\<lambda>p. \<exists>s \<in> set allowed_fields. fst p = PStr s) body"

definition tavily_upstream ::
    "(pyfloat \<Rightarrow> string) \<Rightarrow> string \<Rightarrow> upstream \<Rightarrow> rat \<Rightarrow> pyval cache \<Rightarrow> (search_out \<times> pyval cache) res" where
  "tavily_upstream sf key up t_put c =
     (case up of
        UpRaises name \<Rightarrow> Inr (Reply 502 (RError ''tavily_unreachable'' (''upstream: '' @ name)) None, c)
      | UpAnswer st txt js \<Rightarrow>
          if st \<ge> 400
          then Inr (Reply (if st \<in> {401, 403, 429} then st else 502)
                 (RError ''tavily_error'' (''Tavily returned '' @ show_int st @ '': '' @ take 500 txt)) None, c)
          else (case js of
                  None \<Rightarrow> Inr (Reply 502 (RError ''tavily_invalid_json'' (take 500 txt)) None, c)
                | Some payload \<Rightarrow>
                    if should_cache st
                    then bind_res (cache_put (\<lambda>v. Some (dumps_size sf v)) key payload t_put c)
                           (\<lambda>(_, c'). Inr (Reply 200 (RPayload payload) (Some ''MISS''), c'))
                    else Inr (Reply 200 (RPayload payload) (Some ''MISS''), c)))"

definition tavily_search ::
    "(string \<Rightarrow> string) \<Rightarrow> (pyfloat \<Rightarrow> string) \<Rightarrow> string \<Rightarrow> sreq \<Rightarrow> pyval cache \<Rightarrow> (search_out \<times> pyval cache) res" where
  "tavily_search sha sf api_key rq c =
     (if api_key = [] then Inr (Reply 503 (RError ''tavily_unconfigured''
            ''TAVILY_API_KEY not set in /etc/router.env - add it and restart llm-router'') None, c)
      else (case rq_body rq of
        Inl st \<Rightarrow> if st = 413 then Inr (RaiseHTTP 413, c)
                  else Inr (Reply 400 (RError ''bad_request'' ''request body must be JSON'') None, c)
      | Inr body \<Rightarrow>
          if \<not> truthy (dget body ''query'')
          then Inr (Reply 400 (RError ''bad_request'' ''missing required field: query'') None, c)
          else (let bypass_cache = truthy (dget body ''no_cache'');
                    key = cache_key sha sf (forwarded body);
                    (hit, c1) = (if bypass_cache then (None, c) else cache_get key (rq_t_get rq) c)
                in case hit of
                     Some v \<Rightarrow> if v \<noteq> PNone then Inr (Reply 200 (RPayload v) (Some ''HIT''), c1)
                               else tavily_upstream sf key (rq_up rq) (rq_t_put rq) c1
                   | None \<Rightarrow> tavily_upstream sf key (rq_up rq) (rq_t_put rq) c1)))"

fun search_run ::
    "(string \<Rightarrow> string) \<Rightarrow> (pyfloat \<Rightarrow> string) \<Rightarrow> string \<Rightarrow> sreq list \<Rightarrow> pyval cache \<Rightarrow>
       (search_out list \<times> pyval cache) res" where
  "search_run sha sf api_key [] c = Inr ([], c)"
| "search_run sha sf api_key (rq # rqs) c =
     bind_res (tavily_search sha sf api_key rq c) (\<lambda>(out, c1).
       bind_res (search_run sha sf api_key rqs c1) (\<lambda>(outs, c2). Inr (out # outs, c2)))"

section \<open>Runs of the search route\<close>

definition rq_key :: "(string \<Rightarrow> string) \<Rightarrow> (pyfloat \<Rightarrow> string) \<Rightarrow> sreq \<Rightarrow> string" where
  "rq_key sha sf rq = (case rq_body rq of Inl _ \<Rightarrow> [] | Inr body \<Rightarrow> cache_key sha sf (forwarded body))"

text \<open>The entry a request earns: a payload that the service answered with status 200.\<close>

definition earns :: "(string \<Rightarrow> string) \<Rightarrow> (pyfloat \<Rightarrow> string) \<Rightarrow> sreq \<Rightarrow> string \<times> rat \<times> pyval \<Rightarrow> bool" where
  "earns sha sf rq e \<longleftrightarrow>
     (\<exists>txt. rq_up rq = UpAnswer 200 txt (Some (snd (snd e)))) \<and> fst e = rq_key sha sf rq \<and> fst (snd e) = rq_t_put rq"

lemma tavily_upstream_effect:
  assumes "tavily_upstream sf key (rq_up rq) (rq_t_put rq) c = Inr (out, c')"
    and "key = rq_key sha sf rq"
  shows "c_ttl c' = c_ttl c \<and> set (c_entries c') \<subseteq> set (c_entries c) \<union> {e. earns sha sf rq e} \<and>
     (\<forall>st b. out \<noteq> Reply st b (Some ''HIT''))"
proof (cases "rq_up rq")
  case (UpRaises name)
  with assms show ?thesis by (auto simp: tavily_upstream_def)
next
  case (UpAnswer st tx js)
  note up = this
  show ?thesis
  proof (cases "\<exists>p. js = Some p \<and> st = 200")
    case True
    then obtain p where p: "js = Some p" "st = 200" by blast
    with assms(1) up obtain b where
      put: "cache_put (\<lambda>v. Some (dumps_size sf v)) key p (rq_t_put rq) c = Inr (b, c')"
      and out: "out = Reply 200 (RPayload p) (Some ''MISS'')"
      by (auto simp: tavily_upstream_def should_cache_def bind_res_Inr_iff)
    have "earns sha sf rq (key, rq_t_put rq, p)" using up p assms(2) by (simp add: earns_def)
    with tavily_store.put_entries [OF put] out show ?thesis by auto
  next
    case False
    with assms up show ?thesis
      by (auto simp: tavily_upstream_def should_cache_def split: if_splits option.splits)
  qed
qed

lemma tavily_search_cases:
  assumes "tavily_search sha sf api_key rq c = Inr (out, c')"
  obtains (plain) "c' = c" "\<forall>st b. out \<noteq> Reply st b (Some ''HIT'')"
  | (hit) v where "cache_get (rq_key sha sf rq) (rq_t_get rq) c = (Some v, c')" "out = Reply 200 (RPayload v) (Some ''HIT'')"
  | (fetched) c1 where "c1 = c \<or> (\<exists>h. cache_get (rq_key sha sf rq) (rq_t_get rq) c = (h, c1))"
      "tavily_upstream sf (rq_key sha sf rq) (rq_up rq) (rq_t_put rq) c1 = Inr (out, c')"
proof (cases "rq_body rq")
  case (Inl st)
  with assms plain show ?thesis by (auto simp: tavily_search_def split: if_splits)
next
  case (Inr body)
  then have key: "rq_key sha sf rq = cache_key sha sf (forwarded body)" by (simp add: rq_key_def)
  show ?thesis
  proof (cases "api_key = [] \<or> \<not> truthy (dget body ''query'')")
    case True
    with assms Inr plain show ?thesis by (auto simp: tavily_search_def split: if_splits)
  next
    case False
    obtain h c1 where g: "cache_get (rq_key sha sf rq) (rq_t_get rq) c = (h, c1)"
      by (cases "cache_get (rq_key sha sf rq) (rq_t_get rq) c")
    show ?thesis
    proof (cases "truthy (dget body ''no_cache'')")
      case True
      with assms Inr False key have "tavily_upstream sf (rq_key sha sf rq) (rq_up rq) (rq_t_put rq) c = Inr (out, c')"
        by (simp add: tavily_search_def Let_def)
      with fetched show ?thesis by blast
    next
      case no_bypass: False
      with assms Inr False key g have r:
        "(case h of Some v \<Rightarrow> if v \<noteq> PNone then Inr (Reply 200 (RPayload v) (Some ''HIT''), c1)
              else tavily_upstream sf (rq_key sha sf rq) (rq_up rq) (rq_t_put rq) c1
          | None \<Rightarrow> tavily_upstream sf (rq_key sha sf rq) (rq_up rq) (rq_t_put rq) c1) = Inr (out, c')"
        unfolding key by (simp add: tavily_search_def Let_def)
      show ?thesis
      proof (cases "\<exists>v. h = Some v \<and> v \<noteq> PNone")
        case True
        with r g hit show ?thesis by auto
      next
        case False
        with r have "tavily_upstream sf (rq_key sha sf rq) (rq_up rq) (rq_t_put rq) c1 = Inr (out, c')"
          by (auto split: option.splits)
        with g fetched show ?thesis by blast
      qed
    qed
  qed
qed

lemma tavily_search_effect:
  assumes "tavily_search sha sf api_key rq c = Inr (out, c')"
  shows "c_ttl c' = c_ttl c \<and> set (c_entries c') \<subseteq> set (c_entries c) \<union> {e. earns sha sf rq e} \<and>
     (\<forall>v. out = Reply 200 (RPayload v) (Some ''HIT'') \<longrightarrow>
        (\<exists>t. (rq_key sha sf rq, t, v) \<in> set (c_entries c) \<and> rq_t_get rq - t < c_ttl c))"
  using assms
proof (cases rule: tavily_search_cases)
  case plain
  then show ?thesis by blast
next
  case (hit v)
  with tavily_store.get_entries [OF hit(1)] tavily_store.get_hit [OF hit(1)] show ?thesis by auto
next
  case (fetched c1)
  have "c_ttl c1 = c_ttl c \<and> set (c_entries c1) \<subseteq> set (c_entries c)"
    using fetched(1) tavily_store.get_entries by blast
  with tavily_upstream_effect [OF fetched(2) refl] show ?thesis by auto
qed

lemma search_run_hits:
  assumes "search_run sha sf api_key rqs c = Inr (outs, c')" and "set (c_entries c) \<subseteq> past"
    and "i < length rqs" and "outs ! i = Reply 200 (RPayload v) (Some ''HIT'')"
  shows "\<exists>t. rq_t_get (rqs ! i) - t < c_ttl c \<and>
     ((rq_key sha sf (rqs ! i), t, v) \<in> past \<or> (\<exists>j < i. earns sha sf (rqs ! j) (rq_key sha sf (rqs ! i), t, v)))"
  using assms
proof (induction rqs arbitrary: c outs past i)
  case Nil
  then show ?case by simp
next
  case (Cons rq rqs)
  from Cons.prems(1) obtain out c1 outs' where
    s: "tavily_search sha sf api_key rq c = Inr (out, c1)"
    and r: "search_run sha sf api_key rqs c1 = Inr (outs', c')" and o: "outs = out # outs'"
    by (auto simp: bind_res_Inr_iff)
  note eff = tavily_search_effect [OF s]
  show ?case
  proof (cases i)
    case 0
    with Cons.prems(2,4) o eff show ?thesis by auto
  next
    case (Suc n)
    have sub: "set (c_entries c1) \<subseteq> past \<union> {e. earns sha sf rq e}" using eff Cons.prems(2) by blast
    obtain t where t: "rq_t_get (rqs ! n) - t < c_ttl c1"
      "(rq_key sha sf (rqs ! n), t, v) \<in> past \<union> {e. earns sha sf rq e} \<or>
         (\<exists>j < n. earns sha sf (rqs ! j) (rq_key sha sf (rqs ! n), t, v))"
      using Cons.IH [OF r sub, of n] Cons.prems(3,4) Suc o by auto
    from t(2) have "(rq_key sha sf (rqs ! n), t, v) \<in> past \<or>
        (\<exists>j < i. earns sha sf ((rq # rqs) ! j) (rq_key sha sf (rqs ! n), t, v))"
      using Suc by (auto intro: exI [of _ 0])
    with t(1) eff Suc show ?thesis by auto
  qed
qed

lemma tavily_upstream_total:
  assumes "cache_ok c"
  shows "\<exists>out c'. tavily_upstream sf key u t c = Inr (out, c') \<and> cache_ok c' \<and> c_max_entries c' = c_max_entries c"
proof (cases u)
  case (UpRaises name)
  with assms show ?thesis by (simp add: tavily_upstream_def)
next
  case (UpAnswer st tx js)
  show ?thesis
  proof (cases js)
    case None
    with assms UpAnswer show ?thesis by (simp add: tavily_upstream_def)
  next
    case (Some v)
    obtain b c' where "cache_put (\<lambda>v. Some (dumps_size sf v)) key v t c = Inr (b, c')"
      "cache_ok c'" "c_max_entries c' = c_max_entries c"
      using cache_ok_put [OF assms] by blast
    with assms UpAnswer Some show ?thesis by (simp add: tavily_upstream_def)
  qed
qed

lemma tavily_search_total:
  assumes "cache_ok c"
  shows "\<exists>out c'. tavily_search sha sf api_key rq c = Inr (out, c') \<and> cache_ok c' \<and> c_max_entries c' = c_max_entries c"
proof -
  have up: "cache_ok c1 \<Longrightarrow> \<exists>out c'. tavily_upstream sf key u t c1 = Inr (out, c') \<and> cache_ok c' \<and>
      c_max_entries c' = c_max_entries c1" for c1 key u t
    by (rule tavily_upstream_total)
  have get: "cache_ok (snd (cache_get k t c)) \<and> c_max_entries (snd (cache_get k t c)) = c_max_entries c" for k t
    using cache_ok_get [OF assms]
    by (auto simp: cache_get_def split: option.splits)
  obtain h c1 where g: "cache_get (rq_key sha sf rq) (rq_t_get rq) c = (h, c1)"
    by (cases "cache_get (rq_key sha sf rq) (rq_t_get rq) c")
  have c1: "cache_ok c1 \<and> c_max_entries c1 = c_max_entries c" using get g by (metis snd_conv)
  show ?thesis
  proof (cases "rq_body rq")
    case (Inl st)
    with assms show ?thesis by (simp add: tavily_search_def)
  next
    case (Inr body)
    then have key: "cache_key sha sf (forwarded body) = rq_key sha sf rq" by (simp add: rq_key_def)
    show ?thesis
      unfolding tavily_search_def key Inr sum.case Let_def
      using up [OF assms] up [of c1] c1 assms g by (auto split: option.splits)
  qed
qed

section \<open>Properties\<close>

text \<open>
  C25: Whatever requests came before, a search answered from the cache is answered with a payload that
  the service itself gave, with status 200, to an earlier request with the same canonical body, and that
  was stored less than the time to live before.
\<close>

theorem search_hits_are_earned:
  assumes "search_run sha sf api_key rqs (cache_init ttl m b) = Inr (outs, c)"
    and "i < length rqs" and "outs ! i = Reply 200 (RPayload v) (Some ''HIT'')"
  shows "\<exists>j < i. \<exists>tx. rq_up (rqs ! j) = UpAnswer 200 tx (Some v) \<and>
     rq_key sha sf (rqs ! j) = rq_key sha sf (rqs ! i) \<and> rq_t_get (rqs ! i) - rq_t_put (rqs ! j) < ttl"
  using search_run_hits [OF assms(1) _ assms(2,3), of "{}"] by (auto simp: cache_init_def earns_def)

definition sample_rq :: "pydict \<Rightarrow> rat \<Rightarrow> sreq" where
  "sample_rq body t = \<lparr>rq_body = Inr body, rq_t_get = t, rq_up = UpAnswer 200 [] (Some (PInt 7)), rq_t_put = t\<rparr>"

lemma sample_run:
  "search_run id (\<lambda>_. []) ''k''
     [sample_rq [(PStr ''query'', PStr ''q''), (PStr ''days'', PInt 3)] 1,
      sample_rq [(PStr ''days'', PInt 3), (PStr ''query'', PStr ''q'')] 2] (cache_init 10 4 100) =
   Inr ([Reply 200 (RPayload (PInt 7)) (Some ''MISS''), Reply 200 (RPayload (PInt 7)) (Some ''HIT'')],
      (cache_init 10 4 100)\<lparr>c_entries := [(''{\"days\":3,\"query\":\"q\"}'', 1, PInt 7)],
         c_stats := \<lparr>st_hits = 1, st_misses = 1, st_evictions = 0, st_skipped_large = 0\<rparr>\<rparr>)"
  by code_simp

theorem search_hits_are_earned_witness:
  "\<exists>j < 1. \<exists>tx. rq_up ([sample_rq [(PStr ''query'', PStr ''q''), (PStr ''days'', PInt 3)] 1] ! j) =
     UpAnswer 200 tx (Some (PInt 7))"
  using search_hits_are_earned [OF sample_run, of 1 "PInt 7"] by auto

text \<open>
  With a limit of at least zero the search route always answers, whatever the clock, the bodies
  and the service do, and the cache never holds more than its limit, nor a key twice.
\<close>

theorem search_cache_bounded:
  assumes "0 \<le> m"
  shows "\<exists>outs c. search_run sha sf api_key rqs (cache_init ttl m b) = Inr (outs, c) \<and>
     int (cache_len c) \<le> m \<and> distinct (map fst (c_entries c)) \<and> length outs = length rqs"
proof -
  have run: "cache_ok c0 \<Longrightarrow> \<exists>outs c. search_run sha sf api_key rqs c0 = Inr (outs, c) \<and> cache_ok c \<and>
      c_max_entries c = c_max_entries c0 \<and> length outs = length rqs" for c0
  proof (induction rqs arbitrary: c0)
    case Nil
    then show ?case by simp
  next
    case (Cons rq rqs)
    obtain out c1 where s: "tavily_search sha sf api_key rq c0 = Inr (out, c1)" "cache_ok c1"
        "c_max_entries c1 = c_max_entries c0"
      using tavily_search_total [OF Cons.prems] by blast
    with Cons.IH [OF s(2)] show ?case by auto
  qed
  have "cache_ok (cache_init ttl m b)" using assms by (simp add: cache_ok_def cache_init_def)
  from run [OF this] show ?thesis by (auto simp: cache_ok_def cache_len_def cache_init_def)
qed

text \<open>Two values that differ in the order of the keys of their objects, at any depth.\<close>

inductive reordered :: "pyval \<Rightarrow> pyval \<Rightarrow> bool" where
  same: "reordered v v"
| list: "list_all2 reordered xs ys \<Longrightarrow> reordered (PList xs) (PList ys)"
| dict: "list_all2 (\<lambda>p q. fst p = fst q \<and> reordered (snd p) (snd q)) d d' \<Longrightarrow> mset d' = mset d'' \<Longrightarrow>
     (\<forall>p \<in> set d. is_pstr (fst p)) \<Longrightarrow> dict_ok d \<Longrightarrow> reordered (PDict d) (PDict d'')"

lemma canon_reordered: "reordered v w \<Longrightarrow> canon sf v = canon sf w"
  unfolding canon_def
proof (induction rule: reordered.induct)
  case (same v)
  then show ?case by simp
next
  case (list xs ys)
  then have "map (json_text True '','' '':'' sf) xs = map (json_text True '','' '':'' sf) ys"
    by (induction rule: list_all2_induct) simp_all
  then show ?case by simp
next
  case (dict d d' d'')
  let ?f = "\<lambda>p. (key_text sf (fst p), json_text True '','' '':'' sf (snd p))"
  have m: "map ?f d = map ?f d'" using dict(1) by (induction rule: list_all2_induct) simp_all
  have k: "map fst d = map fst d'" using dict(1) by (induction rule: list_all2_induct) simp_all
  have inj_keys: "\<forall>p \<in> set xs. is_pstr (fst p) \<Longrightarrow> distinct (map fst xs) \<Longrightarrow> distinct (map (\<lambda>p. key_text sf (fst p)) xs)"
    for xs :: pydict
  proof (induction xs)
    case Nil
    then show ?case by simp
  next
    case (Cons p xs)
    have "key_text sf (fst p) \<noteq> key_text sf (fst q)" if q: "q \<in> set xs" for q
    proof -
      obtain a b where ab: "fst p = PStr a" "fst q = PStr b"
        using Cons.prems(1) q by (auto simp: is_pstr_iff)
      have "fst q \<in> fst ` set xs" using q by simp
      moreover have "fst p \<notin> fst ` set xs" using Cons.prems(2) by simp
      ultimately have "fst p \<noteq> fst q" by metis
      with ab show ?thesis by simp
    qed
    with Cons show ?case by auto
  qed
  have "distinct (map (\<lambda>p. key_text sf (fst p)) d)" using inj_keys dict(3,4) by (simp add: dict_ok_def)
  then have "distinct (map fst (map ?f d))" by (simp add: comp_def)
  then have "distinct (map fst (map ?f d'))" by (simp only: m)
  then have inj: "inj_on fst (set (map ?f d'))" by (simp only: distinct_map)
  have ms: "mset (map ?f d') = mset (map ?f d'')" using dict(2) by simp
  have "sort_key fst (map ?f d') = sort_key fst (map ?f d'')"
  proof (rule sort_key_inj_key_eq)
    show "mset (map ?f d') = mset (sort_key fst (map ?f d''))" using ms by simp
    show "inj_on fst (set (map ?f d'))" by (rule inj)
    show "sorted (map fst (sort_key fst (map ?f d'')))" by (rule sorted_sort_key)
  qed
  then show ?case using m by (simp add: Let_def)
qed

text \<open>
  The order in which a client writes the fields of its request, at the top or in a nested object,
  does not change the cache key.
\<close>

theorem cache_key_order_independent:
  assumes "reordered (PDict body) (PDict body')"
  shows "cache_key sha sf body = cache_key sha sf body'"
  using canon_reordered [OF assms] by (simp add: cache_key_def)

lemma reordered_swap:
  "reordered (PDict [(PStr ''a'', PInt 1), (PStr ''b'', PInt 2)]) (PDict [(PStr ''b'', PInt 2), (PStr ''a'', PInt 1)])"
  by (rule reordered.dict [where d' = "[(PStr ''a'', PInt 1), (PStr ''b'', PInt 2)]"])
    (auto intro: reordered.same simp: dict_ok_def)

end
