(* ===== verification/VisionGuard.thy ===== *)
theory VisionGuard
  imports PyVal
begin

text \<open>
  What the router forwards to the chat server's multimodal paths, and bounded body reads
  (scripts/files/vision_guard.py), with the per-input budget of the embeddings route
  (scripts/files/embed_admission.py). The checks are functions on parsed JSON; each has a
  specification that says, without order or early exit, which bodies are accepted.
\<close>

section \<open>Results\<close>

record media_check =
  mc_images :: int
  mc_error :: "string option"
  mc_status :: int

definition media_ok :: "int \<Rightarrow> media_check" where
  "media_ok n = \<lparr>mc_images = n, mc_error = None, mc_status = 200\<rparr>"

definition refuse :: "string \<Rightarrow> media_check" where
  "refuse msg = \<lparr>mc_images = 0, mc_error = Some msg, mc_status = 400\<rparr>"

lemma media_simps [simp]:
  "mc_error (media_ok n) = None" "mc_images (media_ok n) = n" "mc_error (refuse msg) = Some msg"
  "mc_status (refuse msg) = 400" "media_ok n \<noteq> refuse msg" "refuse msg \<noteq> media_ok n"
  "media_ok k = media_ok n \<longleftrightarrow> k = n"
  by (simp_all add: media_ok_def refuse_def)

definition chat_part_types :: "string list" where
  "chat_part_types = [''text'', ''refusal'', ''image_url'']"

definition chat_refused_keys :: "string list" where
  "chat_refused_keys = [''multimodal_data'', ''image_data'', ''prompt_string'']"

definition anthropic_plain_blocks :: "string list" where
  "anthropic_plain_blocks = [''text'', ''thinking'', ''redacted_thinking'', ''tool_use'']"

lemma vision_consts [simp]:
  "k \<in> set chat_part_types \<longleftrightarrow> k = ''text'' \<or> k = ''refusal'' \<or> k = ''image_url''"
  "k \<in> set anthropic_plain_blocks \<longleftrightarrow>
     k = ''text'' \<or> k = ''thinking'' \<or> k = ''redacted_thinking'' \<or> k = ''tool_use''"
  by (auto simp: chat_part_types_def anthropic_plain_blocks_def)

section \<open>OpenAI chat\<close>

definition image_url :: "pydict \<Rightarrow> string" where
  "image_url part =
     (let raw = (case dget part ''image_url'' of PDict d \<Rightarrow> dget d ''url'' | v \<Rightarrow> v)
      in case raw of PStr s \<Rightarrow> s | _ \<Rightarrow> [])"

text \<open>One part of a content list: skipped, counted, or refused.\<close>

definition check_part :: "bool \<Rightarrow> pyval \<Rightarrow> string + int" where
  "check_part vision_enabled part =
     (case part of
        PDict d \<Rightarrow>
          (case dget d ''type'' of
             PStr kind \<Rightarrow>
               if kind \<notin> set chat_part_types
               then Inl (''content part type '' @ [CHR 0x27] @ kind @ [CHR 0x27] @ '' is not accepted by this router (allowed: image_url, refusal, text)'')
               else if kind \<noteq> ''image_url'' then Inr 0
               else if \<not> vision_enabled
               then Inl ''the loaded chat model has no vision projector; images are not accepted''
               else if \<not> startswith (image_url d) ''data:image/''
               then Inl ''images must be sent inline as data: URIs (data:image/...;base64,...); remote image URLs are not fetched''
               else Inr 1
           | v \<Rightarrow> Inl (''content part type '' @ [CHR 0x27] @ type_name v @ [CHR 0x27] @ '' is not accepted by this router (allowed: image_url, refusal, text)''))
      | _ \<Rightarrow> Inr 0)"

fun check_parts :: "bool \<Rightarrow> pyval list \<Rightarrow> int \<Rightarrow> string + int" where
  "check_parts vision_enabled [] images = Inr images"
| "check_parts vision_enabled (part # parts) images =
     (case check_part vision_enabled part of
        Inl msg \<Rightarrow> Inl msg
      | Inr n \<Rightarrow> check_parts vision_enabled parts (images + n))"

fun content_list :: "pyval \<Rightarrow> pyval list option" where
  "content_list (PDict m) = (case dget m ''content'' of PList xs \<Rightarrow> Some xs | _ \<Rightarrow> None)"
| "content_list _ = None"

fun check_messages :: "bool \<Rightarrow> pyval list \<Rightarrow> int \<Rightarrow> string + int" where
  "check_messages vision_enabled [] images = Inr images"
| "check_messages vision_enabled (m # ms) images =
     (case content_list m of
        None \<Rightarrow> check_messages vision_enabled ms images
      | Some parts \<Rightarrow>
          (case check_parts vision_enabled parts images of
             Inl msg \<Rightarrow> Inl msg
           | Inr n \<Rightarrow> check_messages vision_enabled ms n))"

definition as_list :: "pyval \<Rightarrow> pyval list" where
  "as_list v = (case v of PList xs \<Rightarrow> xs | _ \<Rightarrow> [])"

definition check_media :: "pyval \<Rightarrow> bool \<Rightarrow> media_check" where
  "check_media messages vision_enabled =
     (case check_messages vision_enabled (as_list messages) 0 of
        Inl msg \<Rightarrow> refuse msg | Inr n \<Rightarrow> media_ok n)"

definition refused_fields :: "pydict \<Rightarrow> string list" where
  "refused_fields body =
     sort (List.map_filter (\<lambda>p. case fst p of PStr k \<Rightarrow> if k \<in> set chat_refused_keys then Some k else None | _ \<Rightarrow> None) body)"

definition check_chat_body :: "pyval \<Rightarrow> media_check" where
  "check_chat_body body =
     (case body of
        PDict d \<Rightarrow>
          if refused_fields d \<noteq> []
          then refuse (''fields not accepted by this router: '' @ join '', '' (refused_fields d))
          else media_ok 0
      | _ \<Rightarrow> refuse ''request body must be a JSON object'')"

section \<open>Anthropic messages\<close>

definition image_source_ok :: "pydict \<Rightarrow> bool" where
  "image_source_ok b =
     (case dget b ''source'' of
        PDict src \<Rightarrow> dget src ''type'' = PStr ''base64'' \<and> is_pstr (dget src ''data'') \<and>
          (case dget src ''media_type'' of PStr t \<Rightarrow> startswith t ''image/'' | _ \<Rightarrow> False)
      | _ \<Rightarrow> False)"

text \<open>
  The recursion of \<open>_anthropic_blocks\<close> is one level deep: inside a tool result none is allowed.
  \<open>inner\<close> is what the branch for a tool result does with its list.
\<close>

definition check_block :: "bool \<Rightarrow> (pyval list \<Rightarrow> string + int) option \<Rightarrow> pyval \<Rightarrow> string + int" where
  "check_block vision_enabled inner b =
     (case b of
        PDict d \<Rightarrow>
          (case dget d ''type'' of
             PStr kind \<Rightarrow>
               if kind \<in> set anthropic_plain_blocks then Inr 0
               else if kind = ''tool_result'' \<and> inner \<noteq> None
               then (case dget d ''content'' of
                       PList xs \<Rightarrow> the inner xs
                     | PNone \<Rightarrow> Inr 0
                     | PStr _ \<Rightarrow> Inr 0
                     | _ \<Rightarrow> Inl ''tool_result content must be a string or a list of blocks'')
               else if kind = ''image''
               then (if \<not> vision_enabled
                     then Inl ''the loaded chat model has no vision projector; images are not accepted''
                     else if \<not> image_source_ok d
                     then Inl ''images must be base64 sources with an image/* media_type; url and file sources are not fetched''
                     else Inr 1)
               else Inl (''content block type '' @ [CHR 0x27] @ kind @ [CHR 0x27] @ '' is not accepted by this router'')
           | v \<Rightarrow> Inl (''content block type '' @ [CHR 0x27] @ type_name v @ [CHR 0x27] @ '' is not accepted''))
      | _ \<Rightarrow> Inl ''content blocks must be JSON objects'')"

fun blocks_loop :: "(pyval \<Rightarrow> string + int) \<Rightarrow> pyval list \<Rightarrow> int \<Rightarrow> string + int" where
  "blocks_loop chk [] images = Inr images"
| "blocks_loop chk (b # bs) images =
     (case chk b of Inl msg \<Rightarrow> Inl msg | Inr n \<Rightarrow> blocks_loop chk bs (images + n))"

definition anthropic_blocks :: "pyval list \<Rightarrow> bool \<Rightarrow> bool \<Rightarrow> string + int" where
  "anthropic_blocks blocks vision_enabled allow_tool_result =
     blocks_loop
       (check_block vision_enabled
          (if allow_tool_result then Some (\<lambda>xs. blocks_loop (check_block vision_enabled None) xs 0) else None))
       blocks 0"

definition is_text_block :: "pyval \<Rightarrow> bool" where
  "is_text_block b = (case b of PDict d \<Rightarrow> dget d ''type'' = PStr ''text'' | _ \<Rightarrow> False)"

fun anthropic_messages :: "bool \<Rightarrow> pyval list \<Rightarrow> int \<Rightarrow> string + int" where
  "anthropic_messages vision_enabled [] images = Inr images"
| "anthropic_messages vision_enabled (m # ms) images =
     (case content_list m of
        None \<Rightarrow> anthropic_messages vision_enabled ms images
      | Some blocks \<Rightarrow>
          (case anthropic_blocks blocks vision_enabled True of
             Inl msg \<Rightarrow> Inl msg
           | Inr n \<Rightarrow> anthropic_messages vision_enabled ms (images + n)))"

definition check_media_anthropic :: "pyval \<Rightarrow> bool \<Rightarrow> media_check" where
  "check_media_anthropic body vision_enabled =
     (case body of
        PDict d \<Rightarrow>
          (let go = (case anthropic_messages vision_enabled (as_list (dget d ''messages'')) 0 of
                       Inl msg \<Rightarrow> refuse msg | Inr n \<Rightarrow> media_ok n)
           in case dget d ''system'' of
                PList bs \<Rightarrow> if list_all is_text_block bs then go else refuse ''system blocks must be text''
              | PNone \<Rightarrow> go
              | PStr _ \<Rightarrow> go
              | _ \<Rightarrow> refuse ''system must be a string or a list of text blocks'')
      | _ \<Rightarrow> refuse ''request body must be a JSON object'')"

section \<open>Completions\<close>

fun is_token :: "pyval \<Rightarrow> bool" where
  "is_token (PInt _) = True"
| "is_token _ = False"

definition prompt_ok :: "pyval \<Rightarrow> bool" where
  "prompt_ok p =
     (case p of
        PStr _ \<Rightarrow> True
      | PList xs \<Rightarrow> list_all is_pstr xs \<or> list_all is_token xs \<or>
          list_all (\<lambda>x. case x of PList ys \<Rightarrow> list_all is_token ys | _ \<Rightarrow> False) xs
      | _ \<Rightarrow> False)"

definition check_completions_body :: "pyval \<Rightarrow> media_check" where
  "check_completions_body body =
     (case body of
        PDict d \<Rightarrow>
          if refused_fields d \<noteq> []
          then refuse (''fields not accepted by this router: '' @ join '', '' (refused_fields d))
          else if prompt_ok (dget_or d ''prompt'' (PStr [])) then media_ok 0
          else refuse ''prompt must be a string, a list of strings, or token ids''
      | _ \<Rightarrow> refuse ''request body must be a JSON object'')"

section \<open>Helpers of the router\<close>

definition image_token_estimate :: "int \<Rightarrow> int \<Rightarrow> int" where
  "image_token_estimate images per_image = max 0 images * max 0 per_image"

fun part_text :: "pyval \<Rightarrow> string option" where
  "part_text (PDict d) = (if dget d ''type'' = PStr ''text'' then as_str (dget d ''text'') else None)"
| "part_text _ = None"

definition message_text :: "pyval \<Rightarrow> string" where
  "message_text message =
     (case message of
        PDict m \<Rightarrow>
          (case dget m ''content'' of
             PStr s \<Rightarrow> s
           | PList parts \<Rightarrow> join [CHR 0x0A] (List.map_filter part_text parts)
           | _ \<Rightarrow> [])
      | _ \<Rightarrow> [])"

text \<open>
  \<open>read_body_capped\<close>: the header, if there is one, and the chunks of the stream. The result is
  the body with the bytes held at the end, or the exception with the bytes held when it was raised.
  \<^verbatim>\<open>int\<close> refuses a string of more than 4300 digits.
\<close>

datatype body_error = BodyTooLarge | BadRequestBody string | HeaderValueError

fun read_chunks :: "nat \<Rightarrow> char list list \<Rightarrow> char list list \<Rightarrow> nat \<Rightarrow> (body_error \<times> nat) + char list" where
  "read_chunks max_bytes [] held got = Inr (concat held)"
| "read_chunks max_bytes (ch # chs) held got =
     (if got + length ch > max_bytes then Inl (BodyTooLarge, length (concat held))
      else read_chunks max_bytes chs (held @ [ch]) (got + length ch))"

definition read_body_capped :: "string option \<Rightarrow> char list list \<Rightarrow> nat \<Rightarrow> (body_error \<times> nat) + char list" where
  "read_body_capped content_length chs max_bytes =
     (case content_length of
        None \<Rightarrow> read_chunks max_bytes chs [] 0
      | Some cl \<Rightarrow>
          if cl = [] \<or> \<not> list_all is_digit cl then Inl (BadRequestBody ''malformed Content-Length'', 0)
          else if length cl > 4300 then Inl (HeaderValueError, 0)
          else if nat_of_digits cl > max_bytes then Inl (BodyTooLarge, 0)
          else read_chunks max_bytes chs [] 0)"

section \<open>Embeddings\<close>

definition embed_texts :: "pyval \<Rightarrow> string list" where
  "embed_texts inp =
     (case inp of PStr s \<Rightarrow> [s] | PList xs \<Rightarrow> List.map_filter as_str xs | _ \<Rightarrow> [])"

fun first_oversized_from :: "nat \<Rightarrow> int list \<Rightarrow> int \<Rightarrow> (nat \<times> int) option" where
  "first_oversized_from i [] limit = None"
| "first_oversized_from i (n # ns) limit =
     (if n \<noteq> -1 \<and> n > limit then Some (i, n) else first_oversized_from (Suc i) ns limit)"

definition first_oversized :: "int list \<Rightarrow> int \<Rightarrow> (nat \<times> int) option" where
  "first_oversized counts limit = first_oversized_from 0 counts limit"

section \<open>What is accepted\<close>

text \<open>A part of a chat message that may pass, and whether it is an image.\<close>

definition good_part :: "bool \<Rightarrow> pyval \<Rightarrow> bool" where
  "good_part vision_enabled part =
     (case part of
        PDict d \<Rightarrow> dget d ''type'' \<in> {PStr ''text'', PStr ''refusal''} \<or>
          (dget d ''type'' = PStr ''image_url'' \<and> vision_enabled \<and> startswith (image_url d) ''data:image/'')
      | _ \<Rightarrow> True)"

definition is_image_part :: "pyval \<Rightarrow> bool" where
  "is_image_part part = (case part of PDict d \<Rightarrow> dget d ''type'' = PStr ''image_url'' | _ \<Rightarrow> False)"

lemma check_part_iff:
  "check_part vis part =
     (if good_part vis part then Inr (if is_image_part part then 1 else 0)
      else Inl (projl (check_part vis part)))"
proof (cases part)
  case (PDict d)
  then show ?thesis
    by (cases "dget d ''type''") (simp_all add: check_part_def good_part_def is_image_part_def)
qed (simp_all add: check_part_def good_part_def is_image_part_def)

text \<open>A loop that adds up and stops at the first refusal accepts exactly when no element is refused.\<close>

lemma check_parts_iff:
  "(\<exists>msg. \<not> list_all (good_part vis) parts \<and> check_parts vis parts n = Inl msg) \<or>
   (list_all (good_part vis) parts \<and>
      check_parts vis parts n = Inr (n + int (length (filter is_image_part parts))))"
proof (induction parts arbitrary: n)
  case Nil
  then show ?case by simp
next
  case (Cons part parts)
  show ?case
  proof (cases "good_part vis part")
    case True
    then have "check_part vis part = Inr (if is_image_part part then 1 else 0)"
      using check_part_iff [of vis part] by simp
    with Cons.IH [of "n + (if is_image_part part then 1 else 0)"] True show ?thesis by auto
  next
    case False
    then obtain msg where "check_part vis part = Inl msg" using check_part_iff [of vis part] by metis
    with False show ?thesis by simp
  qed
qed

definition parts_of :: "pyval \<Rightarrow> pyval list" where
  "parts_of messages =
     concat (map (\<lambda>m. case content_list m of None \<Rightarrow> [] | Some ps \<Rightarrow> ps) (as_list messages))"

lemma check_messages_iff:
  fixes ms :: "pyval list" and vis :: bool and n :: int
  defines "ps \<equiv> concat (map (\<lambda>m. case content_list m of None \<Rightarrow> [] | Some ps \<Rightarrow> ps) ms)"
  shows "(\<exists>msg. \<not> list_all (good_part vis) ps \<and> check_messages vis ms n = Inl msg) \<or>
   (list_all (good_part vis) ps \<and> check_messages vis ms n = Inr (n + int (length (filter is_image_part ps))))"
  unfolding ps_def
proof (induction ms arbitrary: n)
  case Nil
  then show ?case by simp
next
  case (Cons m ms)
  show ?case
  proof (cases "content_list m")
    case None
    with Cons.IH [of n] show ?thesis by simp
  next
    case (Some parts)
    from check_parts_iff [of vis parts n] show ?thesis
    proof
      assume "\<exists>msg. \<not> list_all (good_part vis) parts \<and> check_parts vis parts n = Inl msg"
      with Some show ?thesis by auto
    next
      assume "list_all (good_part vis) parts \<and>
        check_parts vis parts n = Inr (n + int (length (filter is_image_part parts)))"
      with Some Cons.IH [of "n + int (length (filter is_image_part parts))"] show ?thesis by auto
    qed
  qed
qed

text \<open>
  The chat guard lets a body through exactly when every part of every message is text, a
  refusal, or (with a projector loaded) an image given inline as a data URI; it then reports the number of
  images. Everything else, in particular any image the chat server would have to fetch, is refused with 400.
\<close>

theorem chat_media_allowlist:
  "(if list_all (good_part vision_enabled) (parts_of messages)
    then check_media messages vision_enabled = media_ok (int (length (filter is_image_part (parts_of messages))))
    else mc_error (check_media messages vision_enabled) \<noteq> None \<and>
      mc_status (check_media messages vision_enabled) = 400)"
  using check_messages_iff [where ms = "as_list messages" and vis = vision_enabled and n = 0]
  unfolding check_media_def parts_of_def [symmetric] by auto

text \<open>The blocks of an Anthropic message: \<open>deep\<close> says whether tool results may occur.\<close>

definition good_leaf :: "bool \<Rightarrow> pydict \<Rightarrow> bool" where
  "good_leaf vision_enabled d \<longleftrightarrow>
     dget d ''type'' \<in> {PStr ''text'', PStr ''thinking'', PStr ''redacted_thinking'', PStr ''tool_use''} \<or>
     (dget d ''type'' = PStr ''image'' \<and> vision_enabled \<and> image_source_ok d)"

definition good_inner :: "bool \<Rightarrow> pyval \<Rightarrow> bool" where
  "good_inner vision_enabled b = (case b of PDict d \<Rightarrow> good_leaf vision_enabled d | _ \<Rightarrow> False)"

definition good_block :: "bool \<Rightarrow> pyval \<Rightarrow> bool" where
  "good_block vision_enabled b =
     (case b of
        PDict d \<Rightarrow> good_leaf vision_enabled d \<or>
          (dget d ''type'' = PStr ''tool_result'' \<and>
             (case dget d ''content'' of
                PList xs \<Rightarrow> list_all (good_inner vision_enabled) xs
              | PNone \<Rightarrow> True | PStr _ \<Rightarrow> True | _ \<Rightarrow> False))
      | _ \<Rightarrow> False)"

definition is_image_block :: "pyval \<Rightarrow> bool" where
  "is_image_block b = (case b of PDict d \<Rightarrow> dget d ''type'' = PStr ''image'' | _ \<Rightarrow> False)"

definition block_images :: "pyval \<Rightarrow> int" where
  "block_images b =
     (case b of
        PDict d \<Rightarrow> if dget d ''type'' = PStr ''tool_result''
          then (case dget d ''content'' of PList xs \<Rightarrow> int (length (filter is_image_block xs)) | _ \<Rightarrow> 0)
          else if is_image_block b then 1 else 0
      | _ \<Rightarrow> 0)"

text \<open>A result that is a value exactly when a predicate holds.\<close>

definition decides :: "(string + int) \<Rightarrow> bool \<Rightarrow> int \<Rightarrow> bool" where
  "decides r P n = (if P then r = Inr n else (\<exists>msg. r = Inl msg))"

lemma blocks_loop_decides:
  assumes "\<And>b. b \<in> set bs \<Longrightarrow> decides (chk b) (P b) (f b)"
  shows "decides (blocks_loop chk bs n) (list_all P bs) (n + sum_list (map f bs))"
  using assms
proof (induction bs arbitrary: n)
  case Nil
  then show ?case by (simp add: decides_def)
next
  case (Cons b bs)
  have b: "decides (chk b) (P b) (f b)" using Cons.prems by simp
  have "decides (blocks_loop chk bs (n + f b)) (list_all P bs) (n + f b + sum_list (map f bs))"
    using Cons by simp
  with b show ?case by (cases "P b") (auto simp: decides_def add.assoc)
qed

lemma check_block_inner:
  "decides (check_block vis None b) (good_inner vis b) (if is_image_block b then 1 else 0)"
proof (cases b)
  case (PDict d)
  then show ?thesis
    by (cases "dget d ''type''") (auto simp: check_block_def good_inner_def good_leaf_def is_image_block_def decides_def)
qed (simp_all add: check_block_def good_inner_def is_image_block_def decides_def)

lemma sum_list_count: "sum_list (map (\<lambda>b. if P b then 1 else 0 :: int) bs) = int (length (filter P bs))"
  by (induction bs) simp_all

lemma inner_loop:
  "decides (blocks_loop (check_block vis None) xs 0) (list_all (good_inner vis) xs)
     (int (length (filter is_image_block xs)))"
  using blocks_loop_decides [of xs "check_block vis None" "good_inner vis" "\<lambda>b. if is_image_block b then 1 else 0" 0]
    check_block_inner by (simp add: sum_list_count)

lemma check_block_outer:
  "decides (check_block vis (Some (\<lambda>xs. blocks_loop (check_block vis None) xs 0)) b) (good_block vis b) (block_images b)"
proof (cases b)
  case (PDict d)
  show ?thesis
  proof (cases "dget d ''type'' = PStr ''tool_result''")
    case True
    show ?thesis
    proof (cases "dget d ''content''")
      case (PList xs)
      with PDict True inner_loop [of vis xs] show ?thesis
        by (simp add: check_block_def good_block_def good_leaf_def block_images_def)
    qed (use PDict True in \<open>simp_all add: check_block_def good_block_def good_leaf_def block_images_def decides_def\<close>)
  next
    case False
    with PDict show ?thesis
      by (cases "dget d ''type''")
        (auto simp: check_block_def good_block_def good_leaf_def block_images_def is_image_block_def decides_def)
  qed
qed (simp_all add: check_block_def good_block_def block_images_def decides_def)

lemma anthropic_blocks_decides:
  "decides (anthropic_blocks bs vis True) (list_all (good_block vis) bs) (sum_list (map block_images bs))"
  using blocks_loop_decides [of bs _ "good_block vis" block_images 0] check_block_outer
  by (simp add: anthropic_blocks_def)

lemma anthropic_messages_decides:
  "decides (anthropic_messages vis ms n)
     (list_all (good_block vis) (concat (map (\<lambda>m. case content_list m of None \<Rightarrow> [] | Some ps \<Rightarrow> ps) ms)))
     (n + sum_list (map block_images (concat (map (\<lambda>m. case content_list m of None \<Rightarrow> [] | Some ps \<Rightarrow> ps) ms))))"
proof (induction ms arbitrary: n)
  case Nil
  then show ?case by (simp add: decides_def)
next
  case (Cons m ms)
  show ?case
  proof (cases "content_list m")
    case None
    with Cons.IH [of n] show ?thesis by simp
  next
    case (Some bs)
    note b = anthropic_blocks_decides [of bs vis]
    show ?thesis
    proof (cases "list_all (good_block vis) bs")
      case True
      with b have "anthropic_blocks bs vis True = Inr (sum_list (map block_images bs))" by (simp add: decides_def)
      with Cons.IH [of "n + sum_list (map block_images bs)"] Some True show ?thesis by (simp add: add.assoc)
    next
      case False
      with b Some show ?thesis by (auto simp: decides_def)
    qed
  qed
qed

definition good_system :: "pyval \<Rightarrow> bool" where
  "good_system v = (case v of PNone \<Rightarrow> True | PStr _ \<Rightarrow> True | PList bs \<Rightarrow> list_all is_text_block bs | _ \<Rightarrow> False)"

text \<open>
  The Anthropic guard accepts exactly the objects whose system prompt is text and whose blocks are
  text, thinking, tool use, base64 images with an image media type (with a projector loaded) or tool
  results made of such blocks, never of tool results; it counts the images of both levels.
\<close>

theorem anthropic_media_allowlist:
  "(case body of
      PDict d \<Rightarrow>
        if good_system (dget d ''system'') \<and> list_all (good_block vision_enabled) (parts_of (dget d ''messages''))
        then check_media_anthropic body vision_enabled =
               media_ok (sum_list (map block_images (parts_of (dget d ''messages''))))
        else mc_status (check_media_anthropic body vision_enabled) = 400
    | _ \<Rightarrow> mc_status (check_media_anthropic body vision_enabled) = 400)"
proof (cases body)
  case (PDict d)
  have m: "decides (anthropic_messages vision_enabled (as_list (dget d ''messages'')) 0)
      (list_all (good_block vision_enabled) (parts_of (dget d ''messages'')))
      (sum_list (map block_images (parts_of (dget d ''messages''))))"
    using anthropic_messages_decides [of vision_enabled _ 0] by (simp add: parts_of_def)
  show ?thesis
  proof (cases "list_all (good_block vision_enabled) (parts_of (dget d ''messages''))")
    case True
    with m PDict show ?thesis
      by (cases "dget d ''system''") (simp_all add: check_media_anthropic_def good_system_def decides_def)
  next
    case False
    with m PDict show ?thesis
      by (cases "dget d ''system''") (auto simp: check_media_anthropic_def good_system_def decides_def)
  qed
qed (simp_all add: check_media_anthropic_def)

lemma read_chunks_spec:
  "length (concat held) = got \<Longrightarrow> got \<le> max_bytes \<Longrightarrow>
     (if got + length (concat chs) \<le> max_bytes
      then read_chunks max_bytes chs held got = Inr (concat held @ concat chs)
      else (\<exists>k \<le> max_bytes. read_chunks max_bytes chs held got = Inl (BodyTooLarge, k)))"
proof (induction max_bytes chs held got rule: read_chunks.induct)
  case (1 max_bytes held got)
  then show ?case by simp
next
  case (2 max_bytes ch chs held got)
  show ?case
  proof (cases "got + length ch > max_bytes")
    case True
    with "2.prems" show ?thesis by auto
  next
    case False
    with "2.IH" "2.prems" show ?thesis by (simp add: add.assoc)
  qed
qed

text \<open>
  A request body is handed on exactly when it fits: then it is the whole stream, and no longer than the
  cap. A declared or an actual length beyond the cap is refused, and at no refusal does the router hold more
  than the cap.
\<close>

theorem body_read_capped:
  "case read_body_capped cl chs max_bytes of
     Inr body \<Rightarrow> body = concat chs \<and> length body \<le> max_bytes
   | Inl (e, held) \<Rightarrow> held \<le> max_bytes \<and>
       (e = BodyTooLarge \<longrightarrow> length (concat chs) > max_bytes \<or> (\<exists>h. cl = Some h \<and> nat_of_digits h > max_bytes))"
  using read_chunks_spec [of "[]" 0 max_bytes chs]
  by (auto simp: read_body_capped_def split: option.splits if_splits sum.splits)

lemma first_oversized_from_spec:
  "(case first_oversized_from i ns limit of
      None \<Rightarrow> \<forall>n \<in> set ns. n = -1 \<or> n \<le> limit
    | Some (j, n) \<Rightarrow> i \<le> j \<and> j - i < length ns \<and> n = ns ! (j - i) \<and> n \<noteq> -1 \<and> n > limit \<and>
        (\<forall>m \<in> set (take (j - i) ns). m = -1 \<or> m \<le> limit))"
proof (induction i ns limit rule: first_oversized_from.induct)
  case (1 i limit)
  then show ?case by simp
next
  case (2 i n ns limit)
  show ?case
  proof (cases "n \<noteq> -1 \<and> n > limit")
    case True
    then show ?thesis by simp
  next
    case False
    with "2" have ih: "case first_oversized_from (Suc i) ns limit of
        None \<Rightarrow> \<forall>n \<in> set ns. n = -1 \<or> n \<le> limit
      | Some (j, n) \<Rightarrow> Suc i \<le> j \<and> j - Suc i < length ns \<and> n = ns ! (j - Suc i) \<and> n \<noteq> -1 \<and> n > limit \<and>
          (\<forall>m \<in> set (take (j - Suc i) ns). m = -1 \<or> m \<le> limit)" by blast
    show ?thesis
    proof (cases "first_oversized_from (Suc i) ns limit")
      case None
      with False ih show ?thesis by auto
    next
      case (Some p)
      obtain j m where p: "p = (j, m)" by (cases p)
      with Some ih have h: "Suc i \<le> j" "j - Suc i < length ns" "m = ns ! (j - Suc i)" "m \<noteq> -1" "m > limit"
        "\<forall>m \<in> set (take (j - Suc i) ns). m = -1 \<or> m \<le> limit" by simp_all
      then have "j - i = Suc (j - Suc i)" by simp
      with Some p False h show ?thesis by auto
    qed
  qed
qed

lemma first_oversized_None:
  "first_oversized ns limit = None \<longleftrightarrow> (\<forall>n \<in> set ns. n = -1 \<or> n \<le> limit)"
proof (cases "first_oversized_from 0 ns limit")
  case None
  with first_oversized_from_spec [where i = 0 and ns = ns and limit = limit] show ?thesis by (simp add: first_oversized_def)
next
  case (Some p)
  obtain j m where "p = (j, m)" by (cases p)
  with Some first_oversized_from_spec [where i = 0 and ns = ns and limit = limit] show ?thesis
    by (auto simp: first_oversized_def intro!: bexI [of _ "ns ! j"])
qed

end
