(* ===== verification/AccessKeys.thy ===== *)
theory AccessKeys
  imports PyVal PyRegex
begin

text \<open>
  Who is calling the router and what they may do: scripts/files/access_keys.py, and the bearer
  middleware of scripts/files/router-app.py that uses it. SHA-256, the clock and the keys file are
  parameters; reading the file gives its signature and what \<^verbatim>\<open>json.load\<close> makes of it.
\<close>

section \<open>Principals and keys-kf entries\<close>

datatype pkind = Owner | Scoped

record principal =
  p_name :: string
  p_kind :: pkind
  p_aliases :: "string list"
  p_expires :: "pyfloat option"

definition is_owner :: "principal \<Rightarrow> bool" where
  "is_owner p = (p_kind p = Owner)"

definition owner :: principal where
  "owner = \<lparr>p_name = ''owner'', p_kind = Owner, p_aliases = [], p_expires = None\<rparr>"

definition scoped_endpoints :: "(string \<times> string) list" where
  "scoped_endpoints = [(''POST'', ''/v1/chat/completions''), (''GET'', ''/v1/models'')]"

definition name_start :: "char \<Rightarrow> bool" where
  "name_start c = (is_lower_az c \<or> is_digit c)"

definition name_char :: "char \<Rightarrow> bool" where
  "name_char c = (name_start c \<or> c = CHR ''.'' \<or> c = CHR ''_'' \<or> c = CHR ''-'')"

definition name_re :: rx where
  "name_re = Cat (Cls name_start) (Rep True 0 (Some 63) (Cls name_char))"

definition hex_char :: "char \<Rightarrow> bool" where
  "hex_char c = (is_digit c \<or> (97 \<le> cp c \<and> cp c \<le> 102))"

definition sha256_re :: rx where
  "sha256_re = Rep True 64 (Some 64) (Cls hex_char)"

text \<open>Subscription with a string key, as \<^verbatim>\<open>e["name"]\<close> on any value.\<close>

fun subscript :: "pyval \<Rightarrow> string \<Rightarrow> pyval res" where
  "subscript (PDict d) k = (case dlook d k of None \<Rightarrow> Inl KeyError | Some v \<Rightarrow> Inr v)"
| "subscript _ k = Inl TypeError"

text \<open>\<^verbatim>\<open>math.isfinite\<close> and \<^verbatim>\<open>float\<close> convert an integer first, which can overflow.\<close>

definition finite_number :: "pyval \<Rightarrow> pyfloat res" where
  "finite_number v =
     (case v of
        PInt i \<Rightarrow> if \<bar>i\<bar> < float_limit then Inr (Fin (of_int i)) else Inl OverflowError
      | PFloat f \<Rightarrow> if is_finite f then Inr f else Inl ValueError
      | _ \<Rightarrow> Inl ValueError)"

fun nonempty_str :: "pyval \<Rightarrow> bool" where
  "nonempty_str (PStr s) = (s \<noteq> [])"
| "nonempty_str _ = False"

definition name_valid :: "pyval \<Rightarrow> bool" where
  "name_valid v = (case v of PStr s \<Rightarrow> fullmatches name_re s \<and> s \<noteq> p_name owner | _ \<Rightarrow> False)"

definition digest_valid :: "pyval \<Rightarrow> bool" where
  "digest_valid v = (case v of PStr s \<Rightarrow> fullmatches sha256_re (lower s) | _ \<Rightarrow> False)"

definition aliases_valid :: "pyval \<Rightarrow> bool" where
  "aliases_valid v = (case v of PList xs \<Rightarrow> xs \<noteq> [] \<and> list_all nonempty_str xs | _ \<Rightarrow> False)"

definition strs_of :: "pyval \<Rightarrow> string list" where
  "strs_of v = (case v of PList xs \<Rightarrow> List.map_filter as_str xs | _ \<Rightarrow> [])"

definition str_of :: "pyval \<Rightarrow> string" where
  "str_of v = (case v of PStr s \<Rightarrow> s | _ \<Rightarrow> [])"

definition parse_entry :: "pyval \<Rightarrow> (string \<times> principal) res" where
  "parse_entry e =
     bind_res (subscript e ''name'') (\<lambda>name.
     bind_res (subscript e ''sha256'') (\<lambda>digest.
     bind_res (subscript e ''aliases'') (\<lambda>aliases.
     bind_res (subscript e ''expires'') (\<lambda>expires.
       if \<not> name_valid name then Inl ValueError
       else if \<not> digest_valid digest then Inl ValueError
       else if \<not> aliases_valid aliases then Inl ValueError
       else bind_res (finite_number expires) (\<lambda>t.
         Inr (lower (str_of digest),
              \<lparr>p_name = str_of name, p_kind = Scoped, p_aliases = strs_of aliases, p_expires = Some t\<rparr>))))))"

section \<open>KeyStore\<close>

type_synonym file_sig = "int \<times> int \<times> int"

record keystore =
  ks_owner :: string
  ks_sig :: "file_sig option"
  ks_entries :: "(string \<times> principal) list"

definition keystore_init :: "string \<Rightarrow> keystore" where
  "keystore_init owner_key = \<lparr>ks_owner = owner_key, ks_sig = None, ks_entries = []\<rparr>"

text \<open>What is on disk: no file, or its signature and the parsed text (or the error of reading it).\<close>

type_synonym keyfile = "(file_sig \<times> pyval res) option"

text \<open>The loop over the entries: a malformed one is skipped, any other exception leaves the loop.\<close>

fun parse_entries :: "pyval list \<Rightarrow> (string \<times> principal) list res" where
  "parse_entries [] = Inr []"
| "parse_entries (e # es) =
     (case parse_entry e of
        Inr x \<Rightarrow> bind_res (parse_entries es) (\<lambda>xs. Inr (x # xs))
      | Inl ex \<Rightarrow> if ex \<in> {KeyError, TypeError, ValueError} then parse_entries es else Inl ex)"

definition keys_list :: "pyval \<Rightarrow> pyval list" where
  "keys_list raw =
     (case raw of PDict d \<Rightarrow> (case dget_or d ''keys'' (PList []) of PList xs \<Rightarrow> xs | _ \<Rightarrow> []) | _ \<Rightarrow> [])"

text \<open>
  \<open>_reload_if_changed\<close> with the exception that leaves it, if one does: the signature is stored
  before the kf is read, the entries after all of them are parsed.
\<close>

definition reload_if_changed :: "keyfile \<Rightarrow> keystore \<Rightarrow> exn option \<times> keystore" where
  "reload_if_changed kf ks =
     (case kf of
        None \<Rightarrow> (None, ks\<lparr>ks_sig := None, ks_entries := []\<rparr>)
      | Some (sg, content) \<Rightarrow>
          if Some sg = ks_sig ks then (None, ks)
          else (let ks1 = ks\<lparr>ks_sig := Some sg\<rparr>
                in case content of
                     Inl _ \<Rightarrow> (None, ks1\<lparr>ks_entries := []\<rparr>)
                   | Inr raw \<Rightarrow>
                       if \<not> is_pdict raw then (None, ks1\<lparr>ks_entries := []\<rparr>)
                       else (case parse_entries (keys_list raw) of
                               Inl ex \<Rightarrow> (Some ex, ks1)
                             | Inr es \<Rightarrow> (None, ks1\<lparr>ks_entries := es\<rparr>))))"

text \<open>The scan keeps the last match.\<close>

definition scan_entries :: "string \<Rightarrow> (string \<times> principal) list \<Rightarrow> principal option" where
  "scan_entries digest es =
     foldl (\<lambda>m e. if digest = fst e then Some (snd e) else m) None es"

definition expired :: "pyfloat \<Rightarrow> principal \<Rightarrow> bool" where
  "expired now p = (case p_expires p of None \<Rightarrow> False | Some t \<Rightarrow> fle t now)"

definition authenticate ::
    "(string \<Rightarrow> string) \<Rightarrow> pyfloat \<Rightarrow> keyfile \<Rightarrow> string \<Rightarrow> keystore \<Rightarrow> principal option res \<times> keystore" where
  "authenticate sha now kf presented ks =
     (if presented = [] then (Inr None, ks)
      else if ks_owner ks \<noteq> [] \<and> presented = ks_owner ks then (Inr (Some owner), ks)
      else (let (ex, ks1) = reload_if_changed kf ks in
            case ex of
              Some e \<Rightarrow> (Inl e, ks1)
            | None \<Rightarrow>
                (case scan_entries (sha presented) (ks_entries ks1) of
                   None \<Rightarrow> (Inr None, ks1)
                 | Some p \<Rightarrow> (Inr (if expired now p then None else Some p), ks1))))"

section \<open>Policy\<close>

text \<open>\<^verbatim>\<open>str.upper\<close>; the two letters whose upper case lies beyond Latin-1 are left as they are.\<close>

definition upper_char :: "char \<Rightarrow> string" where
  "upper_char c =
     (if cp c = 223 then ''SS''
      else if is_lower_az c \<or> (224 \<le> cp c \<and> cp c \<le> 254 \<and> cp c \<noteq> 247) then [char_of (cp c - 32)] else [c])"

definition upper :: "string \<Rightarrow> string" where
  "upper s = concat (map upper_char s)"

definition endpoint_allowed :: "principal \<Rightarrow> string \<Rightarrow> string \<Rightarrow> bool" where
  "endpoint_allowed p meth path = (is_owner p \<or> (upper meth, path) \<in> set scoped_endpoints)"

definition chat_violation :: "principal \<Rightarrow> pydict \<Rightarrow> string option" where
  "chat_violation p body =
     (if is_owner p then None
      else case dget body ''model'' of
        PStr m \<Rightarrow> if m \<notin> set (p_aliases p) then Some ''model_not_allowed''
                  else if dget body ''tool_execution'' = PStr ''server'' then Some ''server_tools_not_allowed''
                  else None
      | _ \<Rightarrow> Some ''model_not_allowed'')"

definition apply_chat_policy :: "principal \<Rightarrow> pydict \<Rightarrow> pydict" where
  "apply_chat_policy p body = (if is_owner p then body else dput ''tool_execution'' (PStr ''client'') body)"

definition may_swap :: "principal \<Rightarrow> bool" where
  "may_swap p = is_owner p"

section \<open>The bearer middleware\<close>

datatype admission =
    Through "principal option"
  | Denied int string string
  | Crashed exn

definition require_bearer ::
    "(string \<Rightarrow> string) \<Rightarrow> pyfloat \<Rightarrow> keyfile \<Rightarrow> string \<Rightarrow> string \<Rightarrow> string \<Rightarrow> keystore \<Rightarrow> admission \<times> keystore" where
  "require_bearer sha now kf meth path auth ks =
     (if meth = ''OPTIONS'' then (Through None, ks)
      else if path = ''/healthz'' \<or> path = ''/metrics'' then (Through None, ks)
      else if ks_owner ks = [] then (Denied 503 ''router_misconfigured'' ''ROUTER_API_KEY not set in /etc/router.env'', ks)
      else if \<not> startswith (lower auth) ''bearer '' then (Denied 403 ''unauthorized'' ''missing Bearer token'', ks)
      else (case authenticate sha now kf (strip (drop 7 auth)) ks of
              (Inl e, ks1) \<Rightarrow> (Crashed e, ks1)
            | (Inr None, ks1) \<Rightarrow> (Denied 403 ''unauthorized'' ''invalid Bearer token'', ks1)
            | (Inr (Some p), ks1) \<Rightarrow>
                if \<not> endpoint_allowed p meth path
                then (Denied 403 ''forbidden'' ''this key may not call this endpoint'', ks1)
                else (Through (Some p), ks1)))"

section \<open>Well-formed entries\<close>

definition entry_ok :: "string \<times> principal \<Rightarrow> bool" where
  "entry_ok e \<longleftrightarrow>
     length (fst e) = 64 \<and> list_all hex_char (fst e) \<and> p_kind (snd e) = Scoped \<and>
     p_name (snd e) \<noteq> ''owner'' \<and> p_name (snd e) \<noteq> [] \<and> length (p_name (snd e)) \<le> 64 \<and>
     list_all name_char (p_name (snd e)) \<and> p_aliases (snd e) \<noteq> [] \<and>
     (\<exists>t. p_expires (snd e) = Some (Fin t))"

lemma name_re_fullmatch:
  "fullmatches name_re s \<longleftrightarrow> (\<exists>c t. s = c # t \<and> name_start c \<and> list_all name_char t \<and> length t \<le> 63)"
  unfolding name_re_def by (simp add: fullmatch_cls_cls)

lemma sha256_re_fullmatch: "fullmatches sha256_re s \<longleftrightarrow> list_all hex_char s \<and> length s = 64"
  unfolding sha256_re_def by (auto simp: fullmatch_cls)

lemma map_filter_as_str: "list_all nonempty_str xs \<Longrightarrow> length (List.map_filter as_str xs) = length xs"
proof (induction xs)
  case Nil
  then show ?case by (simp add: List.map_filter_def)
next
  case (Cons x xs)
  then show ?case by (cases x) (auto simp: List.map_filter_def)
qed

lemma finite_numberD: "finite_number v = Inr t \<Longrightarrow> \<exists>r. t = Fin r"
  by (cases v; cases t) (auto simp: finite_number_def split: if_splits)

lemma parse_entry_ok:
  assumes "parse_entry e = Inr x"
  shows "entry_ok x"
proof -
  from assms obtain name digest aliases expires t where
    v: "name_valid name" "digest_valid digest" "aliases_valid aliases" "finite_number expires = Inr t"
    and x: "x = (lower (str_of digest),
        \<lparr>p_name = str_of name, p_kind = Scoped, p_aliases = strs_of aliases, p_expires = Some t\<rparr>)"
    by (auto simp: parse_entry_def bind_res_Inr_iff split: if_splits)
  from v(1) obtain s where s: "name = PStr s" "fullmatches name_re s" "s \<noteq> ''owner''"
    by (cases name) (auto simp: name_valid_def owner_def)
  from v(2) obtain d where d: "digest = PStr d" "fullmatches sha256_re (lower d)"
    by (cases digest) (auto simp: digest_valid_def)
  from v(3) obtain xs where xs: "aliases = PList xs" "xs \<noteq> []" "list_all nonempty_str xs"
    by (cases aliases) (auto simp: aliases_valid_def)
  have "strs_of aliases \<noteq> []" using xs map_filter_as_str [of xs] by (auto simp: strs_of_def)
  moreover have "\<exists>r. t = Fin r" using finite_numberD [OF v(4)] .
  ultimately show ?thesis
    using s d unfolding entry_ok_def x
    by (auto simp: str_of_def name_re_fullmatch sha256_re_fullmatch name_char_def)
qed

lemma parse_entries_ok: "parse_entries es = Inr xs \<Longrightarrow> list_all entry_ok xs"
proof (induction es arbitrary: xs)
  case Nil
  then show ?case by simp
next
  case (Cons e es)
  then show ?case
    by (auto simp: bind_res_Inr_iff parse_entry_ok split: sum.splits if_splits)
qed

definition keystore_ok :: "keystore \<Rightarrow> bool" where
  "keystore_ok ks = list_all entry_ok (ks_entries ks)"

lemma keystore_ok_reload: "keystore_ok ks \<Longrightarrow> reload_if_changed kf ks = (ex, ks') \<Longrightarrow> keystore_ok ks'"
  by (auto simp: reload_if_changed_def keystore_ok_def Let_def parse_entries_ok
      split: option.splits prod.splits sum.splits if_splits)

lemma reload_owner: "reload_if_changed kf ks = (ex, ks') \<Longrightarrow> ks_owner ks' = ks_owner ks"
  by (auto simp: reload_if_changed_def Let_def split: option.splits prod.splits sum.splits if_splits)

lemma scan_foldl:
  "foldl (\<lambda>m e. if digest = fst e then Some (snd e) else m) m es = Some p \<Longrightarrow> m = Some p \<or> (digest, p) \<in> set es"
proof (induction es arbitrary: m)
  case (Cons e es)
  from Cons.prems have "foldl (\<lambda>m e. if digest = fst e then Some (snd e) else m) (if digest = fst e then Some (snd e) else m) es = Some p"
    by simp
  from Cons.IH [OF this] show ?case by (cases e) (auto split: if_splits)
qed simp

lemma scan_entries_Some: "scan_entries digest es = Some p \<Longrightarrow> (digest, p) \<in> set es"
  unfolding scan_entries_def using scan_foldl by fastforce

lemma scan_entries_None: "(\<forall>e \<in> set es. fst e \<noteq> digest) \<Longrightarrow> scan_entries digest es = None"
proof -
  have "(\<forall>e \<in> set es. fst e \<noteq> digest) \<Longrightarrow> foldl (\<lambda>m e. if digest = fst e then Some (snd e) else m) m es = m" for m
    by (induction es arbitrary: m) auto
  then show "(\<forall>e \<in> set es. fst e \<noteq> digest) \<Longrightarrow> scan_entries digest es = None"
    by (simp add: scan_entries_def)
qed

section \<open>Properties\<close>

text \<open>The requests the middleware has served before, with the clock and the file each of them saw.\<close>

record bearer_rq =
  b_now :: pyfloat
  b_file :: keyfile
  b_meth :: string
  b_path :: string
  b_auth :: string

definition served :: "(string \<Rightarrow> string) \<Rightarrow> bearer_rq list \<Rightarrow> keystore \<Rightarrow> keystore" where
  "served sha rs ks =
     foldl (\<lambda>k r. snd (require_bearer sha (b_now r) (b_file r) (b_meth r) (b_path r) (b_auth r) k)) ks rs"

lemma authenticate_keeps:
  "keystore_ok ks \<Longrightarrow> keystore_ok (snd (authenticate sha now kf presented ks)) \<and>
     ks_owner (snd (authenticate sha now kf presented ks)) = ks_owner ks"
proof -
  assume ok: "keystore_ok ks"
  obtain ex ks1 where r: "reload_if_changed kf ks = (ex, ks1)" by (cases "reload_if_changed kf ks")
  from keystore_ok_reload [OF ok r] reload_owner [OF r] ok show ?thesis
    by (simp add: authenticate_def r split: option.split)
qed

lemma require_bearer_keeps:
  "keystore_ok ks \<Longrightarrow> keystore_ok (snd (require_bearer sha now kf meth path auth ks)) \<and>
     ks_owner (snd (require_bearer sha now kf meth path auth ks)) = ks_owner ks"
  using authenticate_keeps [of ks sha now kf "strip (drop 7 auth)"]
  by (auto simp: require_bearer_def split: prod.splits sum.splits option.splits)

lemma served_keeps:
  "keystore_ok ks \<Longrightarrow> keystore_ok (served sha rs ks) \<and> ks_owner (served sha rs ks) = ks_owner ks"
  unfolding served_def
proof (induction rs arbitrary: ks)
  case Nil
  then show ?case by simp
next
  case (Cons r rs)
  from require_bearer_keeps [OF Cons.prems]
  have "keystore_ok (snd (require_bearer sha (b_now r) (b_file r) (b_meth r) (b_path r) (b_auth r) ks))"
    and "ks_owner (snd (require_bearer sha (b_now r) (b_file r) (b_meth r) (b_path r) (b_auth r) ks)) = ks_owner ks"
    by blast+
  with Cons.IH show ?case by simp
qed

lemma authenticate_Some:
  assumes "keystore_ok ks" and "authenticate sha now kf presented ks = (Inr (Some p), ks')"
  shows "(p = owner \<and> ks_owner ks \<noteq> [] \<and> presented = ks_owner ks) \<or>
     (entry_ok (sha presented, p) \<and> (sha presented, p) \<in> set (ks_entries ks') \<and> \<not> expired now p)"
proof (cases "presented \<noteq> [] \<and> ks_owner ks \<noteq> [] \<and> presented = ks_owner ks")
  case True
  with assms(2) show ?thesis by (simp add: authenticate_def)
next
  case False
  obtain ex ks1 where r: "reload_if_changed kf ks = (ex, ks1)" by (cases "reload_if_changed kf ks")
  from False assms(2) r have "scan_entries (sha presented) (ks_entries ks1) = Some p" "\<not> expired now p" "ks' = ks1"
    by (auto simp: authenticate_def split: if_splits option.splits)
  with scan_entries_Some keystore_ok_reload [OF assms(1) r] show ?thesis
    by (auto simp: keystore_ok_def list_all_iff)
qed

text \<open>
  C5: Whatever the router served before and whatever stood in the keys file, a request that gets through is a
  preflight or one of the two open paths, or carries the owner's key, or carries a key whose hash is in the
  store with a well-formed, unexpired entry that is not named owner, and then it calls one of the two endpoints
  scoped keys may call.
\<close>

theorem bearer_sound:
  assumes "require_bearer sha now kf meth path auth (served sha rs (keystore_init key)) = (Through w, ks')"
  shows "(w = None \<and> (meth = ''OPTIONS'' \<or> path = ''/healthz'' \<or> path = ''/metrics'')) \<or>
     (w = Some owner \<and> key \<noteq> [] \<and> strip (drop 7 auth) = key) \<or>
     (\<exists>p. w = Some p \<and> entry_ok (sha (strip (drop 7 auth)), p) \<and>
        (sha (strip (drop 7 auth)), p) \<in> set (ks_entries ks') \<and> \<not> expired now p \<and>
        (upper meth, path) \<in> set scoped_endpoints)"
proof -
  let ?ks = "served sha rs (keystore_init key)"
  have "keystore_ok (keystore_init key)" by (simp add: keystore_ok_def keystore_init_def)
  from served_keeps [OF this] have ok: "keystore_ok ?ks" and key: "ks_owner ?ks = key"
    by (simp_all add: keystore_init_def)
  consider "w = None" "meth = ''OPTIONS'' \<or> path = ''/healthz'' \<or> path = ''/metrics''"
    | p where "authenticate sha now kf (strip (drop 7 auth)) ?ks = (Inr (Some p), ks')" "w = Some p"
      "endpoint_allowed p meth path"
    using assms by (auto simp: require_bearer_def split: if_splits prod.splits sum.splits option.splits)
  then show ?thesis
  proof cases
    case 1
    then show ?thesis by blast
  next
    case 2
    from authenticate_Some [OF ok 2(1)] 2(2,3) key show ?thesis
      by (auto simp: endpoint_allowed_def is_owner_def entry_ok_def)
  qed
qed

definition sample_entry :: "pyval \<Rightarrow> pyval" where
  "sample_entry expires =
     PDict [(PStr ''name'', PStr ''wf-1''), (PStr ''sha256'', PStr (replicate 64 (CHR ''a''))),
       (PStr ''aliases'', PList [PStr ''qwen3.8-nothink'']), (PStr ''expires'', expires)]"

definition sample_file :: "int \<Rightarrow> pyval list \<Rightarrow> keyfile" where
  "sample_file inode es = Some ((inode, 0, 0), Inr (PDict [(PStr ''keys'', PList es)]))"

definition sample_sha :: "string \<Rightarrow> string" where
  "sample_sha s = (if s = ''k1'' then replicate 64 (CHR ''a'') else replicate 64 (CHR ''b''))"

definition sample_principal :: principal where
  "sample_principal = \<lparr>p_name = ''wf-1'', p_kind = Scoped, p_aliases = [''qwen3.8-nothink''], p_expires = Some (Fin 100)\<rparr>"

lemma sample_parse: "parse_entry (sample_entry (PInt 100)) = Inr (replicate 64 (CHR ''a''), sample_principal)"
proof -
  have "name_valid (PStr ''wf-1'')"
    by (simp add: name_valid_def owner_def name_re_fullmatch name_start_def name_char_def is_lower_az_def is_digit_def)
  moreover have lower_a: "lower (replicate 64 (CHR ''a'')) = replicate 64 (CHR ''a'')"
    by (simp add: lower_def lower_char_def is_upper_az_def)
  have "digest_valid (PStr (replicate 64 (CHR ''a'')))"
    unfolding digest_valid_def pyval.case lower_a
    by (simp add: sha256_re_fullmatch hex_char_def is_digit_def list_all_iff)
  moreover have "aliases_valid (PList [PStr ''qwen3.8-nothink''])" by (simp add: aliases_valid_def)
  moreover have "finite_number (PInt 100) = Inr (Fin 100)"
    by (simp add: finite_number_def float_limit_def)
  ultimately show ?thesis
    unfolding parse_entry_def sample_entry_def
    by (simp add: str_of_def strs_of_def sample_principal_def List.map_filter_def lower_a)
qed

definition huge_int :: int where
  "huge_int = 2 ^ 1024"

lemma sample_parse_huge: "parse_entry (sample_entry (PInt huge_int)) = Inl OverflowError"
proof -
  have "name_valid (PStr ''wf-1'')"
    by (simp add: name_valid_def owner_def name_re_fullmatch name_start_def name_char_def is_lower_az_def is_digit_def)
  moreover have lower_a: "lower (replicate 64 (CHR ''a'')) = replicate 64 (CHR ''a'')"
    by (simp add: lower_def lower_char_def is_upper_az_def)
  have "digest_valid (PStr (replicate 64 (CHR ''a'')))"
    unfolding digest_valid_def pyval.case lower_a
    by (simp add: sha256_re_fullmatch hex_char_def is_digit_def list_all_iff)
  moreover have "aliases_valid (PList [PStr ''qwen3.8-nothink''])" by (simp add: aliases_valid_def)
  moreover have "finite_number (PInt huge_int) = Inl OverflowError"
    by (simp add: finite_number_def float_limit_def huge_int_def)
  ultimately show ?thesis
    unfolding parse_entry_def sample_entry_def by simp
qed

lemma sample_load:
  "parse_entries [sample_entry (PInt 100)] = Inr [(replicate 64 (CHR ''a''), sample_principal)]"
  by (simp add: sample_parse)

lemma sample_auth:
  assumes "key \<noteq> ''k1''" and "ks_sig ks \<noteq> Some (1, 0, 0)" and "ks_owner ks = key"
  shows "authenticate sample_sha (Fin 5) (sample_file 1 [sample_entry (PInt 100)]) ''k1'' ks =
     (Inr (Some sample_principal),
      ks\<lparr>ks_sig := Some (1, 0, 0), ks_entries := [(replicate 64 (CHR ''a''), sample_principal)]\<rparr>)"
  using assms
  by (auto simp: authenticate_def reload_if_changed_def sample_file_def keys_list_def dget_or_def
      sample_parse scan_entries_def sample_sha_def expired_def sample_principal_def)

theorem bearer_sound_witness:
  "entry_ok (sample_sha ''k1'', sample_principal) \<and> \<not> expired (Fin 5) sample_principal"
proof -
  have st: "strip (drop 7 ''Bearer k1'') = ''k1''" by code_simp
  have lo: "lower ''Bearer k1'' = ''bearer k1''" by code_simp
  have up: "upper ''GET'' = ''GET''" by code_simp
  let ?ks = "served sample_sha [] (keystore_init ''root'')"
  have k: "?ks = keystore_init ''root''" by (simp add: served_def)
  have a: "authenticate sample_sha (Fin 5) (sample_file 1 [sample_entry (PInt 100)]) ''k1'' ?ks =
     (Inr (Some sample_principal),
      ?ks\<lparr>ks_sig := Some (1, 0, 0), ks_entries := [(replicate 64 (CHR ''a''), sample_principal)]\<rparr>)"
    by (rule sample_auth [where key = "''root''"]) (simp_all add: served_def keystore_init_def)
  have "endpoint_allowed sample_principal ''GET'' ''/v1/models''"
    by (simp add: endpoint_allowed_def scoped_endpoints_def up)
  with a have "require_bearer sample_sha (Fin 5) (sample_file 1 [sample_entry (PInt 100)]) ''GET'' ''/v1/models''
      ''Bearer k1'' ?ks = (Through (Some sample_principal),
      ?ks\<lparr>ks_sig := Some (1, 0, 0), ks_entries := [(replicate 64 (CHR ''a''), sample_principal)]\<rparr>)"
    unfolding require_bearer_def st lo k by (simp add: keystore_init_def)
  from bearer_sound [OF this, unfolded st] show ?thesis
    by (auto simp: sample_principal_def owner_def)
qed

text \<open>
  C18: A revoked key stops working at the next request: once the file is gone, or has a new signature and
  is unreadable or has no valid entry with the key's hash, the key is refused, provided reading the entries
  raises no exception of its own.
\<close>

theorem revoked_key_refused:
  assumes "presented \<noteq> ks_owner ks"
    and "case kf of
           None \<Rightarrow> True
         | Some (sg, content) \<Rightarrow> ks_sig ks \<noteq> Some sg \<and>
             (case content of
                Inl _ \<Rightarrow> True
              | Inr raw \<Rightarrow> is_ok (parse_entries (keys_list raw)) \<and>
                  (\<forall>e \<in> set (keys_list raw). \<forall>x. parse_entry e = Inr x \<longrightarrow> fst x \<noteq> sha presented))"
  shows "fst (authenticate sha now kf presented ks) = Inr None"
proof -
  have from_file: "parse_entries es = Inr xs \<Longrightarrow> x \<in> set xs \<Longrightarrow> \<exists>e \<in> set es. parse_entry e = Inr x" for es xs x
    by (induction es arbitrary: xs) (fastforce simp: bind_res_Inr_iff split: sum.splits if_splits)+
  have reload: "\<exists>es. reload_if_changed kf ks = (None, ks\<lparr>ks_sig := map_option fst kf, ks_entries := es\<rparr>) \<and>
      (\<forall>x \<in> set es. fst x \<noteq> sha presented)"
  proof (cases kf)
    case None
    then have "reload_if_changed kf ks = (None, ks\<lparr>ks_sig := map_option fst kf, ks_entries := []\<rparr>)"
      by (simp add: reload_if_changed_def)
    then show ?thesis by auto
  next
    case (Some f)
    obtain sg content where f: "f = (sg, content)" by (cases f)
    with Some assms(2) have new: "ks_sig ks \<noteq> Some sg" by simp
    show ?thesis
    proof (cases "\<exists>raw es. content = Inr raw \<and> is_pdict raw \<and> parse_entries (keys_list raw) = Inr es")
      case True
      then obtain raw es where c: "content = Inr raw" "is_pdict raw" "parse_entries (keys_list raw) = Inr es" by blast
      with Some f new assms(2) from_file [OF c(3)] show ?thesis
        by (fastforce simp: reload_if_changed_def)
    next
      case False
      with Some f new assms(2) show ?thesis
        by (cases content) (auto simp: reload_if_changed_def Let_def split: sum.splits)
    qed
  qed
  then show ?thesis
    using assms(1) scan_entries_None by (fastforce simp: authenticate_def)
qed

theorem revoked_key_refused_witness:
  "fst (authenticate sample_sha (Fin 5) (sample_file 2 []) ''k1''
     \<lparr>ks_owner = ''root'', ks_sig = Some (1, 0, 0), ks_entries = [(replicate 64 (CHR ''a''), sample_principal)]\<rparr>) =
   Inr None"
  by (rule revoked_key_refused) (simp_all add: sample_file_def keys_list_def dget_or_def)

text \<open>
  An entry whose expiry is an integer beyond the range of a float raises OverflowError, which the loop over the
  entries does not catch: the request fails, and since the signature is already stored the entries of the file
  that was replaced stay in force, so a key that the new file no longer has goes on being accepted.
\<close>

theorem huge_expiry_keeps_revoked_key:
  "let ks1 = \<lparr>ks_owner = ''root'', ks_sig = Some (1, 0, 0), ks_entries = [(replicate 64 (CHR ''a''), sample_principal)]\<rparr>;
       kf = Some ((2, 0, 0), Inr (PDict [(PStr ''keys'', PList [sample_entry (PInt huge_int)])]));
       (r2, ks2) = authenticate sample_sha (Fin 5) kf ''k1'' ks1;
       (r3, ks3) = authenticate sample_sha (Fin 5) kf ''k1'' ks2
   in r2 = Inl OverflowError \<and> r3 = Inr (Some sample_principal)"
  by (simp add: authenticate_def reload_if_changed_def keys_list_def dget_or_def sample_parse_huge
      scan_entries_def sample_sha_def expired_def sample_principal_def)

end
