(* ===== verification/Brief.thy ===== *)
theory Brief
  imports PyVal PyRegex
begin

text \<open>
  The text half of the escalation broker (scripts/files/escalation.py): messages that no client
  takes for a retryable failure, and the check of a brief (its sections, its size, what to change).
\<close>

section \<open>Aliases and sections\<close>

record alias_spec =
  al_origin :: string
  al_tier :: string
  al_max_brief :: int
  al_max_answer :: int

definition answer_max_tokens :: int where
  "answer_max_tokens = 128000"

definition reserve_answer_tokens :: int where
  "reserve_answer_tokens = 16384"

definition esc_aliases :: "(string \<times> alias_spec) list" where
  "esc_aliases =
     [(''claude-ask'', \<lparr>al_origin = ''user'', al_tier = ''sonnet'', al_max_brief = 8192, al_max_answer = answer_max_tokens\<rparr>),
      (''claude-auto'', \<lparr>al_origin = ''model'', al_tier = ''sonnet'', al_max_brief = 8192, al_max_answer = answer_max_tokens\<rparr>),
      (''claude-hard'', \<lparr>al_origin = ''user'', al_tier = ''opus'', al_max_brief = 16384, al_max_answer = answer_max_tokens\<rparr>)]"

definition sections :: "string list" where
  "sections = [''Goal'', ''Context'', ''Reproduce'', ''Exact error'', ''Code'', ''What was tried'', ''Question'']"

definition never_na :: "string list" where
  "never_na = [''Goal'', ''Exact error'', ''Question'']"

definition handles :: "pyval \<Rightarrow> bool" where
  "handles model = (case model of PStr m \<Rightarrow> map_of esc_aliases m \<noteq> None | _ \<Rightarrow> False)"

abbreviation nl :: string where
  "nl \<equiv> [CHR 0x0A]"

section \<open>Messages without a retry trigger\<close>

definition retry_digits :: "string list" where
  "retry_digits = [''408'', ''409'', ''429'', ''500'', ''502'', ''503'', ''504'', ''524'']"

definition retry_phrases :: "string list" where
  "retry_phrases = [''rate limit'', ''service unavailable'', ''try again'']"

definition retry_digits_re :: rx where
  "retry_digits_re = alts (map lit retry_digits)"

definition retry_phrases_re :: rx where
  "retry_phrases_re = alts (map liti retry_phrases)"

text \<open>
  The loop that breaks digit runs: \<^verbatim>\<open>m.start()\<close> is the length of the text before the match. Its
  termination is proved below, so no fuel is needed.
\<close>

definition digits_at :: "string \<Rightarrow> bool" where
  "digits_at s = (\<exists>w \<in> set retry_digits. startswith s w)"

fun digit_hits :: "string \<Rightarrow> nat" where
  "digit_hits [] = 0"
| "digit_hits (c # s) = (if digits_at (c # s) then 1 else 0) + digit_hits s"

definition break_at :: "nat \<Rightarrow> string \<Rightarrow> string" where
  "break_at i s = take (i + 1) s @ [CHR 0x27] @ drop (i + 1) s"

lemma digits_at_Nil [simp]: "\<not> digits_at []"
  by (simp add: digits_at_def retry_digits_def)

lemma retry_digits_re_Nil: "mt retry_digits_re st = [] \<longleftrightarrow> \<not> digits_at (ahead st)"
  by (simp add: retry_digits_re_def mt_alts_Nil_iff mt_lit digits_at_def)

text \<open>A search finds the leftmost position at which a digit run starts.\<close>

lemma search_digits:
  "search_from retry_digits_re pre s = Some (p, st) \<Longrightarrow>
     \<exists>u t. s = u @ t \<and> p = rev u @ pre \<and> digits_at t"
proof (induction s arbitrary: pre)
  case Nil
  then show ?case using retry_digits_re_Nil [of "\<lparr>past = pre, ahead = [], caps = []\<rparr>"] by simp
next
  case (Cons c s)
  show ?case
  proof (cases "digits_at (c # s)")
    case True
    then have "mt retry_digits_re \<lparr>past = pre, ahead = c # s, caps = []\<rparr> \<noteq> []"
      by (simp add: retry_digits_re_Nil)
    with Cons.prems have "p = pre" by (auto split: list.splits)
    with True show ?thesis by (intro exI [of _ "[]"] exI [of _ "c # s"]) simp
  next
    case False
    then have "mt retry_digits_re \<lparr>past = pre, ahead = c # s, caps = []\<rparr> = []"
      by (simp add: retry_digits_re_Nil)
    with Cons.prems have "search_from retry_digits_re (c # pre) s = Some (p, st)" by simp
    from Cons.IH [OF this] obtain u t where "s = u @ t" "p = rev u @ c # pre" "digits_at t" by blast
    then show ?thesis by (intro exI [of _ "c # u"] exI [of _ t]) simp
  qed
qed

lemma search_digits_None: "search_from retry_digits_re pre s = None \<Longrightarrow> digit_hits s = 0"
proof (induction s arbitrary: pre)
  case Nil
  then show ?case by simp
next
  case (Cons c s)
  then have "mt retry_digits_re \<lparr>past = pre, ahead = c # s, caps = []\<rparr> = []"
    by (auto split: list.splits)
  then have "\<not> digits_at (c # s)" by (simp add: retry_digits_re_Nil)
  moreover from Cons.prems \<open>mt _ _ = []\<close> have "search_from retry_digits_re (c # pre) s = None" by simp
  ultimately show ?case using Cons.IH by simp
qed

lemma retry_digits_three: "w \<in> set retry_digits \<Longrightarrow> length w = 3 \<and> CHR 0x27 \<notin> set w"
  by (auto simp: retry_digits_def)

text \<open>
  An apostrophe put behind the first character of a run removes that run and makes no new one.
\<close>

lemma startswith_apostrophe:
  assumes "startswith (q @ a # CHR 0x27 # u) w" and "CHR 0x27 \<notin> set w"
  shows "startswith (q @ a # u) w"
proof -
  have "length w \<le> length q + 1"
  proof (rule ccontr)
    assume "\<not> length w \<le> length q + 1"
    then have i: "Suc (length q) < length w" by simp
    have "take (length w) (q @ a # CHR 0x27 # u) ! Suc (length q) = (q @ a # CHR 0x27 # u) ! Suc (length q)"
      by (rule nth_take [OF i])
    with assms(1) have "w ! Suc (length q) = CHR 0x27" by (simp add: nth_append)
    with i assms(2) show False by (metis nth_mem)
  qed
  then have "take (length w) (q @ a # CHR 0x27 # u) = take (length w) (q @ [a])" by (cases "length w - length q") auto
  moreover from \<open>length w \<le> length q + 1\<close>
  have "take (length w) (q @ a # u) = take (length w) (q @ [a])" by (cases "length w - length q") auto
  ultimately show ?thesis using assms(1) by simp
qed

lemma digits_at_apostrophe: "digits_at (q @ a # CHR 0x27 # u) \<Longrightarrow> digits_at (q @ a # u)"
  unfolding digits_at_def using startswith_apostrophe retry_digits_three by blast

lemma digit_hits_apostrophe:
  "digits_at (a # u) \<Longrightarrow> digit_hits (q @ a # CHR 0x27 # u) < digit_hits (q @ a # u)"
proof (induction q)
  case Nil
  have "\<not> digits_at (a # CHR 0x27 # u)" "\<not> digits_at (CHR 0x27 # u)"
    by (auto simp: digits_at_def retry_digits_def)
  with Nil show ?case by simp
next
  case (Cons c q)
  then show ?case using digits_at_apostrophe [of "c # q" a u] by auto
qed

lemma break_at_split:
  assumes "re_search retry_digits_re s = Some (p, st)"
  obtains u a v where "s = u @ a # v" "digits_at (a # v)" "break_at (length p) s = u @ a # CHR 0x27 # v"
proof -
  have "search_from retry_digits_re [] s = Some (p, st)" using assms by (simp add: re_search_def)
  from search_digits [OF this] obtain u t where u: "s = u @ t" "p = rev u @ []" "digits_at t" by blast
  obtain a v where t: "t = a # v" using u(3) by (cases t) auto
  have "break_at (length p) s = u @ a # CHR 0x27 # v" by (simp add: break_at_def u t)
  with u t that show ?thesis by blast
qed

lemma break_at_hits:
  assumes "re_search retry_digits_re s = Some (p, st)"
  shows "digit_hits (break_at (length p) s) < digit_hits s"
  using assms by (rule break_at_split) (simp add: digit_hits_apostrophe)

function break_digits :: "string \<Rightarrow> string" where
  "break_digits text =
     (case re_search retry_digits_re text of
        None \<Rightarrow> text
      | Some (pre, _) \<Rightarrow> break_digits (break_at (length pre) text))"
  by pat_completeness auto
termination
proof (relation "measure digit_hits")
  fix s x p st
  assume "re_search retry_digits_re s = Some x" and "(p, st) = x"
  then have "re_search retry_digits_re s = Some (p, st)" by simp
  from break_at_hits [OF this] show "(break_at (length p) s, s) \<in> measure digit_hits" by simp
qed simp

declare break_digits.simps [simp del]

definition safe_message :: "string \<Rightarrow> string" where
  "safe_message text = break_digits (re_sub retry_phrases_re (\<lambda>_ _. ''[...]'') text)"

text \<open>What the client looks for: a digit run, or a phrase in any letter case.\<close>

definition retry_trigger :: "string \<Rightarrow> bool" where
  "retry_trigger s \<longleftrightarrow>
     (\<exists>w \<in> set retry_digits. contains s w) \<or> (\<exists>w \<in> set retry_phrases. contains (lower s) w)"

lemma digit_hits_contains: "digit_hits s = 0 \<Longrightarrow> w \<in> set retry_digits \<Longrightarrow> \<not> contains s w"
proof (induction s)
  case Nil
  then show ?case by (auto simp: retry_digits_def)
next
  case (Cons c s)
  then show ?case by (auto simp: digits_at_def split: if_splits)
qed

lemma break_digits_no_digits: "digit_hits (break_digits s) = 0"
proof (induction s rule: break_digits.induct)
  case (1 s)
  show ?case
  proof (cases "re_search retry_digits_re s")
    case None
    then show ?thesis
      using search_digits_None [of "[]" s] by (subst break_digits.simps) (simp add: re_search_def)
  next
    case (Some x)
    obtain p st where "x = (p, st)" by (cases x)
    with Some 1 show ?thesis by (subst break_digits.simps) simp
  qed
qed

text \<open>A phrase without an apostrophe that occurs after the break was there before it.\<close>

lemma contains_break:
  assumes "contains (lower (q @ a # CHR 0x27 # u)) w" and "CHR 0x27 \<notin> set w"
  shows "contains (lower (q @ a # u)) w"
  using assms
proof (induction q)
  case Nil
  have ap: "lower_char (CHR 0x27) = CHR 0x27" by (simp add: lower_char_def is_upper_az_def)
  from Nil consider "startswith (lower_char a # CHR 0x27 # lower u) w" | "startswith (CHR 0x27 # lower u) w"
    | "contains (lower u) w"
    by (auto simp: lower_def ap)
  then show ?case
  proof cases
    case 1
    with startswith_apostrophe [where q = "[]" and a = "lower_char a" and u = "lower u" and w = w] Nil(2) show ?thesis
      by (auto simp: lower_def)
  next
    case 2
    with Nil(2) have "w = []" by (cases w) auto
    then show ?thesis by simp
  next
    case 3
    then show ?thesis by (simp add: lower_def)
  qed
next
  case (Cons c q)
  have ap: "lower_char (CHR 0x27) = CHR 0x27" by (simp add: lower_char_def is_upper_az_def)
  from Cons.prems(1) consider "startswith (lower (c # q) @ lower_char a # CHR 0x27 # lower u) w"
    | "contains (lower (q @ a # CHR 0x27 # u)) w"
    by (auto simp: lower_def ap)
  then show ?case
  proof cases
    case 1
    with startswith_apostrophe [OF 1 Cons.prems(2)] show ?thesis by (simp add: lower_def)
  next
    case 2
    with Cons show ?thesis by (simp add: lower_def)
  qed
qed

lemma break_digits_contains:
  "CHR 0x27 \<notin> set w \<Longrightarrow> contains (lower (break_digits s)) w \<Longrightarrow> contains (lower s) w"
proof (induction s rule: break_digits.induct)
  case (1 s)
  show ?case
  proof (cases "re_search retry_digits_re s")
    case None
    with "1.prems" show ?thesis by (simp add: break_digits.simps [of s])
  next
    case (Some x)
    obtain p st where x: "x = (p, st)" by (cases x)
    have r: "re_search retry_digits_re s = Some (p, st)" using Some x by simp
    obtain u a v where u: "s = u @ a # v" "break_at (length p) s = u @ a # CHR 0x27 # v"
      using r by (rule break_at_split)
    from "1.prems"(2) r have "contains (lower (break_digits (break_at (length p) s))) w"
      by (simp add: break_digits.simps [of s])
    from "1.IH" [OF Some x [symmetric] "1.prems"(1) this] have "contains (lower (u @ a # CHR 0x27 # v)) w"
      by (simp only: u(2))
    from contains_break [OF this "1.prems"(1)] show ?thesis by (simp add: u)
  qed
qed

text \<open>Where a phrase starts, and what the substitution leaves.\<close>

definition phrase_at :: "string \<Rightarrow> bool" where
  "phrase_at s = (\<exists>w \<in> set retry_phrases. startswith (lower s) w)"

lemma retry_phrases_lower: "w \<in> set retry_phrases \<Longrightarrow> lower w = w"
proof -
  have "list_all (\<lambda>w. lower w = w) retry_phrases" by code_simp
  then show "w \<in> set retry_phrases \<Longrightarrow> lower w = w" by (simp add: list_all_iff)
qed

lemma retry_phrases_chars:
  "w \<in> set retry_phrases \<Longrightarrow> w \<noteq> [] \<and> hd w \<noteq> CHR ''.'' \<and> CHR ''['' \<notin> set w \<and> hd w \<noteq> CHR '']'' \<and> CHR 0x27 \<notin> set w"
  by (auto simp: retry_phrases_def)

lemma retry_phrases_re_Nil: "mt retry_phrases_re st = [] \<longleftrightarrow> \<not> phrase_at (ahead st)"
proof -
  have "mt retry_phrases_re st = [] \<longleftrightarrow> (\<forall>w \<in> set retry_phrases. \<not> startswith (lower (ahead st)) (lower w))"
    by (simp add: retry_phrases_re_def mt_alts_Nil_iff mt_liti)
  then show ?thesis by (auto simp: phrase_at_def retry_phrases_lower)
qed

lemma mt_alts_in: "x \<in> set (mt (alts rs) st) \<Longrightarrow> \<exists>r \<in> set rs. x \<in> set (mt r st)"
  by (induction rs rule: alts.induct) (auto split: list.splits)

lemma retry_phrases_consume:
  assumes "x \<in> set (mt retry_phrases_re st)"
  shows "length (ahead x) < length (ahead st)"
proof -
  from mt_alts_in assms obtain w where w: "w \<in> set retry_phrases" "x \<in> set (mt (liti w) st)"
    unfolding retry_phrases_re_def by fastforce
  then have sw: "startswith (lower (ahead st)) (lower w)" and a: "ahead x = drop (length w) (ahead st)"
    by (auto simp: mt_liti split: if_splits)
  have "0 < length w" using retry_phrases_chars [OF w(1)] by simp
  moreover have "length w \<le> length (ahead st)"
    using arg_cong [OF sw, of length] by simp
  moreover have "length (ahead x) = length (ahead st) - length w" by (simp add: a)
  ultimately show ?thesis by linarith
qed

definition phrase_sub :: "nat \<Rightarrow> string \<Rightarrow> string \<Rightarrow> string" where
  "phrase_sub k pre s = sub_fuel k retry_phrases_re (\<lambda>_ _. ''[...]'') pre s"

lemma phrase_sub_cases:
  assumes "length s \<le> k"
  obtains "s = []" "phrase_sub k pre s = []"
  | c s' k' pre' where "s = c # s'" "\<not> phrase_at s" "length s' \<le> k'" "phrase_sub k pre s = c # phrase_sub k' pre' s'"
  | s' k' pre' where "s \<noteq> []" "length s' < length s" "length s' \<le> k'" "phrase_sub k pre s = ''[...]'' @ phrase_sub k' pre' s'"
proof (cases s)
  case Nil
  then show ?thesis using that(1) by (cases k) (simp_all add: phrase_sub_def)
next
  case (Cons c s')
  with assms obtain k' where k: "k = Suc k'" by (cases k) auto
  show ?thesis
  proof (cases "mt retry_phrases_re \<lparr>past = pre, ahead = s, caps = []\<rparr>")
    case Nil
    then have "\<not> phrase_at s" using retry_phrases_re_Nil [of "\<lparr>past = pre, ahead = s, caps = []\<rparr>"] by simp
    with Nil Cons k assms that(2) [of c s' k' "c # pre"] show ?thesis by (simp add: phrase_sub_def)
  next
    case (Cons st xs)
    have "length (ahead st) < length s"
      using retry_phrases_consume [of st "\<lparr>past = pre, ahead = s, caps = []\<rparr>"] Cons by simp
    moreover from this have "ahead st \<noteq> s" by auto
    ultimately show ?thesis
      using Cons \<open>s = c # s'\<close> k assms that(3) [of "ahead st" k' "past st"] by (simp add: phrase_sub_def)
  qed
qed

lemma phrase_sub_prefix:
  "length s \<le> k \<Longrightarrow> take n (phrase_sub k pre s) = take n s \<or> CHR ''['' \<in> set (take n (phrase_sub k pre s))"
proof (induction "length s" arbitrary: s k pre n rule: less_induct)
  case less
  from less.prems show ?case
  proof (cases rule: phrase_sub_cases [where pre = pre])
    case 1
    then show ?thesis by simp
  next
    case (2 c s' k' pre')
    then show ?thesis using less.hyps [of s' k' _ pre'] by (cases n) auto
  next
    case (3 s' k' pre')
    then show ?thesis by (cases n) auto
  qed
qed

lemma bracket_lower: "CHR ''['' \<in> set (take n s) \<Longrightarrow> CHR ''['' \<in> set (take n (lower s))"
proof -
  assume "CHR ''['' \<in> set (take n s)"
  then have "lower_char (CHR ''['') \<in> set (map lower_char (take n s))" by auto
  moreover have "lower_char (CHR ''['') = CHR ''[''" by (simp add: lower_char_def is_upper_az_def)
  ultimately show ?thesis by (simp add: lower_def take_map)
qed

lemma phrase_sub_gone:
  "length s \<le> k \<Longrightarrow> w \<in> set retry_phrases \<Longrightarrow> \<not> contains (lower (phrase_sub k pre s)) w"
proof (induction "length s" arbitrary: s k pre rule: less_induct)
  case less
  note chars = retry_phrases_chars [OF less.prems(2)]
  from less.prems(1) show ?case
  proof (cases rule: phrase_sub_cases [where pre = pre])
    case 1
    with chars show ?thesis by (simp add: lower_def)
  next
    case (2 c s' k' pre')
    have "\<not> startswith (lower (phrase_sub k pre s)) w"
    proof
      assume sw: "startswith (lower (phrase_sub k pre s)) w"
      from phrase_sub_prefix [OF less.prems(1), of "length w" pre] show False
      proof
        assume "take (length w) (phrase_sub k pre s) = take (length w) s"
        with sw have "startswith (lower s) w" by (simp add: lower_def take_map)
        with less.prems(2) 2(2) show False by (auto simp: phrase_at_def)
      next
        assume "CHR ''['' \<in> set (take (length w) (phrase_sub k pre s))"
        from bracket_lower [OF this] sw chars show False by simp
      qed
    qed
    moreover have "\<not> contains (lower (phrase_sub k' pre' s')) w"
      using less.hyps [of s' k' pre'] 2 less.prems(2) by simp
    ultimately show ?thesis using 2(4) by (simp add: lower_def)
  next
    case (3 s' k' pre')
    have br: "map lower_char ''[...]'' = ''[...]''" by (simp add: lower_char_def is_upper_az_def)
    have "\<not> contains (lower (phrase_sub k' pre' s')) w"
      using less.hyps [of s' k' pre'] 3 less.prems(2) by simp
    moreover obtain a v where w: "w = a # v" "a \<noteq> CHR ''.''" "a \<noteq> CHR ''[''" "a \<noteq> CHR '']''"
      using chars by (cases w) auto
    ultimately show ?thesis using br 3(4) by (simp add: lower_def)
  qed
qed

lemma safe_message_quiet: "\<not> retry_trigger (safe_message msg)"
proof -
  let ?p = "phrase_sub (length msg) [] msg"
  have s: "safe_message msg = break_digits ?p"
    by (simp add: safe_message_def re_sub_def phrase_sub_def)
  have "\<not> contains (break_digits ?p) w" if "w \<in> set retry_digits" for w
    using digit_hits_contains [OF break_digits_no_digits that] .
  moreover have "\<not> contains (lower (break_digits ?p)) w" if "w \<in> set retry_phrases" for w
    using break_digits_contains [of w ?p] phrase_sub_gone [of msg "length msg" w "[]"] that
      retry_phrases_chars [OF that] by auto
  ultimately show ?thesis unfolding retry_trigger_def s by blast
qed

text \<open>
  The loop that breaks digit runs ends for every text, and no message the broker sends contains a text
  that makes the client resend: no retryable status code as a run of digits, none of the phrases in any case.
\<close>

theorem safe_message_no_retry: "\<not> retry_trigger (safe_message msg)"
  by (rule safe_message_quiet)

section \<open>The brief\<close>

text \<open>UTF-8 bytes over 2.4, rounded up; a Latin-1 character is one byte or two.\<close>

definition utf8_len :: "string \<Rightarrow> nat" where
  "utf8_len s = sum_list (map (\<lambda>c. if cp c < 128 then 1 else 2) s)"

definition estimate_tokens :: "string \<Rightarrow> int" where
  "estimate_tokens s = (int (utf8_len s) * 5 + 11) div 12"

fun text_part :: "pyval \<Rightarrow> string option" where
  "text_part (PDict p) = (if dget p ''type'' = PStr ''text'' then as_str (dget p ''text'') else None)"
| "text_part _ = None"

text \<open>The last user message decides; \<open>first_user\<close> runs over the messages from the last one on.\<close>

fun first_user :: "pyval list \<Rightarrow> string option" where
  "first_user [] = None"
| "first_user (m # ms) =
     (case m of
        PDict d \<Rightarrow>
          if dget d ''role'' = PStr ''user''
          then (case dget d ''content'' of
                  PStr c \<Rightarrow> Some c
                | PList ps \<Rightarrow> Some (join nl (List.map_filter text_part ps))
                | _ \<Rightarrow> None)
          else first_user ms
      | _ \<Rightarrow> first_user ms)"

definition brief_text :: "pydict \<Rightarrow> string option" where
  "brief_text body = (case dget body ''messages'' of PList ms \<Rightarrow> first_user (rev ms) | _ \<Rightarrow> None)"

definition heading :: "string \<Rightarrow> string" where
  "heading name = ''## '' @ name"

definition headings :: "string list" where
  "headings = map heading sections"

definition is_fence :: "string \<Rightarrow> bool" where
  "is_fence line = startswith (strip line) ''```''"

type_synonym secs = "(string \<times> string list) list"

fun sections_loop :: "string list \<Rightarrow> secs \<Rightarrow> string option \<Rightarrow> bool \<Rightarrow> secs" where
  "sections_loop [] out cur in_fence = out"
| "sections_loop (line # ls) out cur in_fence =
     (if \<not> in_fence \<and> rstrip line \<in> set headings
      then (let name = drop 3 (strip line);
                out' = (if map_of out name = None then out @ [(name, [])] else out)
            in sections_loop ls out' (Some name) in_fence)
      else (let out' = (case cur of None \<Rightarrow> out
                        | Some n \<Rightarrow> alist_put n (the (map_of out n) @ [line]) out);
                in_fence' = (if is_fence line then \<not> in_fence else in_fence)
            in sections_loop ls out' cur in_fence'))"

definition parse_sections :: "string \<Rightarrow> (string \<times> string) list" where
  "parse_sections s =
     map (\<lambda>(k, v). (k, strip (join nl v))) (sections_loop (splitlines s) [] None False)"

definition na_edge :: string where
  "na_edge = [CHR '' '', CHR 0x09, CHR 0x0D, CHR 0x0A, CHR ''*'', CHR ''_'', CHR 0x60, CHR ''-'', CHR ''('', CHR '')'', CHR ''>'']"

definition na_re :: rx where
  "na_re = cats [Bos, liti ''n/a'', Alt (ch (CHR '':'')) Eos]"

definition is_na :: "string \<Rightarrow> bool" where
  "is_na content = (re_match na_re (strip_chars na_edge content) \<noteq> None)"

definition near_edge :: string where
  "near_edge = [CHR '' '', CHR 0x09, CHR ''#'', CHR ''*'', CHR ''_'', CHR '':'']"

fun near_miss_loop :: "string \<Rightarrow> string list \<Rightarrow> bool \<Rightarrow> string option" where
  "near_miss_loop name [] in_fence = None"
| "near_miss_loop name (line # ls) in_fence =
     (if is_fence line then near_miss_loop name ls (\<not> in_fence)
      else if \<not> in_fence \<and> rstrip line \<noteq> heading name \<and> lower (strip_chars near_edge line) = lower name
      then Some (strip line)
      else near_miss_loop name ls in_fence)"

definition near_miss :: "string \<Rightarrow> string \<Rightarrow> string option" where
  "near_miss s name = near_miss_loop name (splitlines s) False"

definition quot :: "string \<Rightarrow> string" where
  "quot s = [CHR 0x27] @ s @ [CHR 0x27]"

text \<open>A near miss that strips to the empty text is no hint.\<close>

definition brief_hint :: "string \<Rightarrow> string \<Rightarrow> string" where
  "brief_hint s name =
     (case near_miss s name of
        Some (c # near) \<Rightarrow> ''- found '' @ quot (c # near) @ '' -- write the heading exactly as '' @ quot (heading name)
      | _ \<Rightarrow>
          if name \<in> set never_na
          then ''- '' @ quot (heading name) @ '' is missing, empty or n/a; it needs real content''
          else ''- '' @ quot (heading name) @ '' is missing or empty (write '' @ quot ''n/a: <why>'' @ '' if it truly does not apply)'')"

definition brief_guidance :: "string \<Rightarrow> string list \<Rightarrow> string" where
  "brief_guidance s missing =
     join nl (map (brief_hint s) missing) @ nl @
     ''A brief has these headings, each alone on its own line and followed by content '' @
     ''(Goal, Exact error and Question may not be n/a; the others may say n/a: <why>):'' @ nl @
     join nl headings"

definition sec_get :: "(string \<times> string) list \<Rightarrow> string \<Rightarrow> string" where
  "sec_get secs name = (case map_of secs name of None \<Rightarrow> [] | Some v \<Rightarrow> v)"

definition missing_sections :: "string \<Rightarrow> string list" where
  "missing_sections s =
     (let secs = parse_sections s
      in filter (\<lambda>name. sec_get secs name = [] \<or> (name \<in> set never_na \<and> is_na (sec_get secs name))) sections)"

definition max_brief :: "string \<Rightarrow> int" where
  "max_brief al = (case map_of esc_aliases al of None \<Rightarrow> 0 | Some sp \<Rightarrow> al_max_brief sp)"

definition validate_brief :: "string \<Rightarrow> string \<Rightarrow> (int \<times> string \<times> string) option" where
  "validate_brief s al =
     (let missing = missing_sections s in
      if missing \<noteq> []
      then Some (422, ''brief_section'',
             (if length missing = 1 then ''brief: missing or empty section '' @ hd missing
              else ''brief: missing or empty sections '' @ join '', '' missing) @ nl @ brief_guidance s missing)
      else (let cap = max_brief al; n = estimate_tokens s in
            if n > cap
            then Some (413, ''brief_too_large'',
                   ''brief: about '' @ show_int ((n + 1023) div 1024) @ ''k tokens, over the '' @
                   show_int (cap div 1024) @ ''k limit -- trim it'')
            else None))"

section \<open>What a brief is\<close>

text \<open>
  The lines a section may hold: code fences are closed again, and outside them no line is a
  heading. \<open>render_brief\<close> writes sections the way the template asks for.
\<close>

fun body_lines_ok :: "bool \<Rightarrow> string list \<Rightarrow> bool" where
  "body_lines_ok in_fence [] = (\<not> in_fence)"
| "body_lines_ok in_fence (line # ls) =
     (list_all (\<lambda>c. \<not> is_break c) line \<and> (in_fence \<or> rstrip line \<notin> set headings) \<and>
      body_lines_ok (if is_fence line then \<not> in_fence else in_fence) ls)"

definition render_brief :: "secs \<Rightarrow> string" where
  "render_brief secs = join nl (concat (map (\<lambda>(name, ls). heading name # ls) secs))"

lemma nl_break: "is_break (CHR 0x0A)"
  by (simp add: is_break_def)

lemma splitlines_aux_cons:
  "list_all (\<lambda>c. \<not> is_break c) l \<Longrightarrow>
     splitlines_aux cur (l @ CHR 0x0A # s) = (rev cur @ l) # splitlines_aux [] s"
proof (induction l arbitrary: cur)
  case Nil
  then show ?case by (simp add: nl_break)
next
  case (Cons c l)
  then show ?case by simp
qed

lemma splitlines_aux_last:
  "list_all (\<lambda>c. \<not> is_break c) l \<Longrightarrow> rev cur @ l \<noteq> [] \<Longrightarrow> splitlines_aux cur l = [rev cur @ l]"
proof (induction l arbitrary: cur)
  case Nil
  then show ?case by simp
next
  case (Cons c l)
  from Cons.IH [of "c # cur"] Cons.prems show ?case by simp
qed

lemma splitlines_join:
  "list_all (list_all (\<lambda>c. \<not> is_break c)) ls \<Longrightarrow> ls \<noteq> [] \<Longrightarrow> last ls \<noteq> [] \<Longrightarrow>
     splitlines_aux [] (join nl ls) = ls"
proof (induction ls rule: induct_list012)
  case 1
  then show ?case by simp
next
  case (2 l)
  then show ?case using splitlines_aux_last [of l "[]"] by simp
next
  case (3 l m ls)
  then have "splitlines_aux [] (join nl (m # ls)) = m # ls" by simp
  with 3 show ?case using splitlines_aux_cons [of l "[]" "join nl (m # ls)"] by simp
qed

lemma sections_loop_body:
  "body_lines_ok in_fence ls \<Longrightarrow> map_of out name = Some xs \<Longrightarrow>
     sections_loop (ls @ rest) out (Some name) in_fence =
     sections_loop rest (alist_put name (xs @ ls) out) (Some name) False"
proof (induction ls arbitrary: in_fence out xs)
  case Nil
  then have "alist_put name xs out = out"
  proof (induction out)
    case Nil
    then show ?case by simp
  next
    case (Cons p out)
    then show ?case by (cases p) (auto split: if_splits)
  qed
  with Nil show ?case by simp
next
  case (Cons line ls)
  have put_put: "alist_put name a (alist_put name b out) = alist_put name a out" for a b
    by (induction out) auto
  from Cons.prems have h: "\<not> (\<not> in_fence \<and> rstrip line \<in> set headings)" by auto
  have "sections_loop ((line # ls) @ rest) out (Some name) in_fence =
      sections_loop (ls @ rest) (alist_put name (xs @ [line]) out) (Some name)
        (if is_fence line then \<not> in_fence else in_fence)"
    unfolding append_Cons sections_loop.simps if_not_P [OF h] by (simp add: Let_def Cons.prems(2))
  also have "\<dots> = sections_loop rest (alist_put name (xs @ line # ls) out) (Some name) False"
    using Cons.IH [of "if is_fence line then \<not> in_fence else in_fence" "alist_put name (xs @ [line]) out" "xs @ [line]"]
      Cons.prems by (simp add: put_put)
  finally show ?case .
qed

lemma heading_facts:
  "name \<in> set sections \<Longrightarrow> rstrip (heading name) \<in> set headings \<and> drop 3 (strip (heading name)) = name \<and>
     list_all (\<lambda>c. \<not> is_break c) (heading name) \<and> heading name \<noteq> []"
proof -
  have "list_all (\<lambda>name. rstrip (heading name) \<in> set headings \<and> drop 3 (strip (heading name)) = name \<and>
     list_all (\<lambda>c. \<not> is_break c) (heading name) \<and> heading name \<noteq> []) sections" by code_simp
  then show "name \<in> set sections \<Longrightarrow> ?thesis" by (simp add: list_all_iff)
qed

lemma alist_put_last: "name \<notin> fst ` set out \<Longrightarrow> alist_put name v (out @ [(name, w)]) = out @ [(name, v)]"
  by (induction out) auto

lemma map_of_last: "name \<notin> fst ` set out \<Longrightarrow> map_of (out @ [(name, w)]) name = Some w"
  by (induction out) auto

lemma sections_loop_render:
  "distinct (map fst out @ map fst secs) \<Longrightarrow> set (map fst secs) \<subseteq> set sections \<Longrightarrow>
     (\<forall>p \<in> set secs. body_lines_ok False (snd p)) \<Longrightarrow>
     sections_loop (concat (map (\<lambda>(name, ls). heading name # ls) secs)) out cur False = out @ secs"
proof (induction secs arbitrary: out cur)
  case Nil
  then show ?case by simp
next
  case (Cons p secs)
  obtain name ls where p: "p = (name, ls)" by (cases p)
  have h: "rstrip (heading name) \<in> set headings" "drop 3 (strip (heading name)) = name"
    using heading_facts [of name] Cons.prems(2) p by simp_all
  have new: "name \<notin> fst ` set out" using Cons.prems(1) p by auto
  then have none: "map_of out name = None" by (simp add: map_of_eq_None_iff)
  let ?rest = "concat (map (\<lambda>(name, ls). heading name # ls) secs)"
  have "sections_loop (heading name # ls @ ?rest) out cur False =
      sections_loop (ls @ ?rest) (out @ [(name, [])]) (Some name) False"
    using h none by (simp add: Let_def)
  also have "\<dots> = sections_loop ?rest (alist_put name ([] @ ls) (out @ [(name, [])])) (Some name) False"
    by (rule sections_loop_body) (use Cons.prems(3) p map_of_last [OF new] in simp_all)
  also have "\<dots> = sections_loop ?rest (out @ [(name, ls)]) (Some name) False"
    by (simp add: alist_put_last [OF new])
  also have "\<dots> = (out @ [(name, ls)]) @ secs"
    using Cons.IH [of "out @ [(name, ls)]" "Some name"] Cons.prems p by simp
  finally show ?case using p by simp
qed

lemma body_lines_no_break: "body_lines_ok f ls \<Longrightarrow> list_all (list_all (\<lambda>c. \<not> is_break c)) ls"
  by (induction ls arbitrary: f) auto

definition secs_ok :: "secs \<Rightarrow> bool" where
  "secs_ok secs \<longleftrightarrow>
     secs \<noteq> [] \<and> distinct (map fst secs) \<and> set (map fst secs) \<subseteq> set sections \<and>
     (\<forall>p \<in> set secs. body_lines_ok False (snd p) \<and> snd p \<noteq> [] \<and> last (snd p) \<noteq> [])"

lemma parse_render:
  assumes "secs_ok secs"
  shows "parse_sections (render_brief secs) = map (\<lambda>(name, ls). (name, strip (join nl ls))) secs"
proof -
  let ?ls = "concat (map (\<lambda>(name, ls). heading name # ls) secs)"
  have ne: "?ls \<noteq> []" using assms by (cases secs) (auto simp: secs_ok_def)
  have "last ?ls \<noteq> []"
  proof -
    obtain ps name ls where s: "secs = ps @ [(name, ls)]"
      using assms by (metis secs_ok_def rev_exhaust surj_pair)
    with assms have "ls \<noteq> []" "last ls \<noteq> []" by (auto simp: secs_ok_def)
    with s show ?thesis by simp
  qed
  moreover have "list_all (list_all (\<lambda>c. \<not> is_break c)) ?ls"
    using assms heading_facts body_lines_no_break
    by (fastforce simp: secs_ok_def list_all_iff)
  ultimately have "splitlines (render_brief secs) = ?ls"
    unfolding splitlines_def render_brief_def using splitlines_join ne by blast
  moreover have "sections_loop ?ls [] None False = secs"
    using sections_loop_render [of "[]" secs None] assms by (auto simp: secs_ok_def)
  ultimately show ?thesis by (simp add: parse_sections_def case_prod_beta)
qed

text \<open>
  C40: Sections written under the template's headings are read back: the parser gives every section with its
  text, whatever the text holds, code fences included, as long as it opens no heading of its own
  outside a fence.
\<close>

theorem parse_rendered_brief:
  assumes "secs_ok secs"
  shows "parse_sections (render_brief secs) = map (\<lambda>(name, ls). (name, strip (join nl ls))) secs"
  by (rule parse_render [OF assms])

definition sample_secs :: secs where
  "sample_secs = map (\<lambda>name. (name, [''see below'', ''```'', ''## Goal'', ''```'', name])) sections"

lemma sample_secs_ok: "secs_ok sample_secs"
proof -
  have "list_all (\<lambda>p. body_lines_ok False (snd p) \<and> snd p \<noteq> [] \<and> last (snd p) \<noteq> []) sample_secs" by code_simp
  moreover have "distinct sections \<and> sample_secs \<noteq> [] \<and> map fst sample_secs = sections" by code_simp
  ultimately show ?thesis by (simp add: secs_ok_def list_all_iff)
qed

theorem parse_rendered_brief_witness:
  "map fst (parse_sections (render_brief sample_secs)) = sections"
proof -
  have "map fst sample_secs = sections" by code_simp
  then show ?thesis by (simp add: parse_rendered_brief [OF sample_secs_ok] case_prod_beta comp_def)
qed

lemma map_of_map_pair: "map_of (map (\<lambda>(k, v). (k, f v)) xs) k = map_option f (map_of xs k)"
  by (induction xs) auto

text \<open>
  A brief that follows the template is accepted: if it has all seven sections, each with some
  text, real text where n/a is not allowed, and its estimate is within the alias's limit, nothing is wrong
  with it; with a section missing or empty it is refused as unprocessable, and over the limit as too large.
\<close>

theorem template_brief_verdict:
  assumes "secs_ok secs"
  shows "(let bad = filter (\<lambda>name. case map_of secs name of
                       None \<Rightarrow> True
                     | Some ls \<Rightarrow> strip (join nl ls) = [] \<or> (name \<in> set never_na \<and> is_na (strip (join nl ls)))) sections
          in case validate_brief (render_brief secs) al of
               None \<Rightarrow> bad = [] \<and> estimate_tokens (render_brief secs) \<le> max_brief al
             | Some (st, code, msg) \<Rightarrow>
                 (bad \<noteq> [] \<and> st = 422 \<and> code = ''brief_section'') \<or>
                 (bad = [] \<and> estimate_tokens (render_brief secs) > max_brief al \<and> st = 413 \<and> code = ''brief_too_large''))"
proof -
  have get: "sec_get (parse_sections (render_brief secs)) name =
      (case map_of secs name of None \<Rightarrow> [] | Some ls \<Rightarrow> strip (join nl ls))" for name
    unfolding parse_render [OF assms] sec_get_def map_of_map_pair
    by (cases "map_of secs name") simp_all
  have "missing_sections (render_brief secs) = filter (\<lambda>name. case map_of secs name of
                       None \<Rightarrow> True
                     | Some ls \<Rightarrow> strip (join nl ls) = [] \<or> (name \<in> set never_na \<and> is_na (strip (join nl ls)))) sections"
    unfolding missing_sections_def Let_def get
    by (rule filter_cong [OF refl]) (auto split: option.splits)
  then show ?thesis unfolding validate_brief_def Let_def by auto
qed

lemma sample_brief_valid:
  "validate_brief (render_brief sample_secs) ''claude-ask'' = None"
proof -
  have "filter (\<lambda>name. case map_of sample_secs name of
           None \<Rightarrow> True
         | Some ls \<Rightarrow> strip (join nl ls) = [] \<or> (name \<in> set never_na \<and> is_na (strip (join nl ls)))) sections = []"
    by code_simp
  moreover have "\<not> estimate_tokens (render_brief sample_secs) > max_brief ''claude-ask''" by code_simp
  ultimately show ?thesis
    using template_brief_verdict [OF sample_secs_ok, of "''claude-ask''"]
    by (auto simp: Let_def split: option.splits prod.splits)
qed

end
