(* ===== verification/Ledger.thy ===== *)
theory Ledger
  imports Brief TtlCache
begin

text \<open>
  The budget half of the escalation broker (scripts/files/escalation.py): its configuration, the ledger of
  attempts with the reservations of calls in flight, and the check of the caps. Money and times are
  rationals, rounded where the source rounds. Parameters: the text forms of numbers and JSON
  (\<open>float\<close>, \<open>int\<close>, \<open>json.loads\<close> of a string), the day and month that contain a moment, fresh tokens.
\<close>

section \<open>Configuration\<close>

record config =
  cf_models :: pydict
  cf_prices :: "(string \<times> rat \<times> rat) list"
  cf_month_cap :: rat
  cf_day_cap :: rat
  cf_shared_daily_calls :: "int option"
  cf_auto_daily_calls :: "int option"
  cf_hard_daily_calls :: "int option"
  cf_tz :: string
  cf_keep_briefs :: int
  cf_timeout_s :: rat
  cf_retry_delay_s :: rat
  cf_dedupe_s :: rat

text \<open>\<^verbatim>\<open>float(v)\<close>; \<open>fparse\<close> reads a string.\<close>

definition to_float :: "(string \<Rightarrow> pyfloat option) \<Rightarrow> pyval \<Rightarrow> pyfloat res" where
  "to_float fparse v =
     (case v of
        PFloat f \<Rightarrow> Inr f
      | PBool b \<Rightarrow> Inr (Fin (if b then 1 else 0))
      | PInt i \<Rightarrow> if \<bar>i\<bar> < float_limit then Inr (Fin (of_int i)) else Inl OverflowError
      | PStr s \<Rightarrow> (case fparse s of None \<Rightarrow> Inl ValueError | Some f \<Rightarrow> Inr f)
      | _ \<Rightarrow> Inl TypeError)"

text \<open>Only a TypeError and a ValueError are turned into the configuration error.\<close>

definition money :: "(string \<Rightarrow> pyfloat option) \<Rightarrow> pyval \<Rightarrow> rat res" where
  "money fparse raw =
     (case to_float fparse raw of
        Inl OverflowError \<Rightarrow> Inl OverflowError
      | Inl _ \<Rightarrow> Inl ValueError
      | Inr (Fin r) \<Rightarrow> if r < 0 then Inl ValueError else Inr r
      | Inr _ \<Rightarrow> Inl ValueError)"

definition count :: "(string \<Rightarrow> int option) \<Rightarrow> string \<Rightarrow> int res" where
  "count iparse raw =
     (case iparse raw of None \<Rightarrow> Inl ValueError | Some v \<Rightarrow> if v < 0 then Inl ValueError else Inr v)"

definition limit_of :: "(string \<Rightarrow> int option) \<Rightarrow> string \<Rightarrow> int option res" where
  "limit_of iparse raw =
     (if lower (strip raw) \<in> {[], ''none''} then Inr None
      else bind_res (count iparse raw) (\<lambda>v. Inr (Some v)))"

definition seconds :: "(string \<Rightarrow> pyfloat option) \<Rightarrow> string \<Rightarrow> bool \<Rightarrow> rat res" where
  "seconds fparse raw positive =
     (case fparse raw of
        Some (Fin r) \<Rightarrow> if r < 0 \<or> (positive \<and> r = 0) then Inl ValueError else Inr r
      | _ \<Rightarrow> Inl ValueError)"

definition json_object :: "(string \<Rightarrow> pyval option) \<Rightarrow> string \<Rightarrow> pydict res" where
  "json_object jparse raw = (case jparse raw of Some (PDict d) \<Rightarrow> Inr d | _ \<Rightarrow> Inl ValueError)"

fun is_number :: "pyval \<Rightarrow> bool" where
  "is_number (PInt _) = True"
| "is_number (PFloat _) = True"
| "is_number _ = False"

fun prices_of :: "pydict \<Rightarrow> (string \<times> rat \<times> rat) list res" where
  "prices_of [] = Inr []"
| "prices_of ((m, p) # rest) =
     (case p of
        PList [a, b] \<Rightarrow>
          if is_number a \<and> is_number b
          then bind_res (money (\<lambda>_. None) a) (\<lambda>x. bind_res (money (\<lambda>_. None) b) (\<lambda>y.
                 bind_res (prices_of rest) (\<lambda>ps. Inr ((case m of PStr s \<Rightarrow> s | _ \<Rightarrow> [], x, y) # ps))))
          else Inl ValueError
      | _ \<Rightarrow> Inl ValueError)"

definition models_of :: "pydict \<Rightarrow> pydict res" where
  "models_of d =
     (if list_all (\<lambda>tier. case dget d tier of PStr s \<Rightarrow> s \<noteq> [] | _ \<Rightarrow> False) [''sonnet'', ''opus'']
      then Inr d else Inl ValueError)"

type_synonym env = "(string \<times> string) list"

definition env_get :: "env \<Rightarrow> string \<Rightarrow> string \<Rightarrow> string" where
  "env_get env k v0 = (case map_of env k of None \<Rightarrow> v0 | Some v \<Rightarrow> v)"

definition or_else :: "string \<Rightarrow> string \<Rightarrow> string" where
  "or_else s t = (if s = [] then t else s)"

definition load_config ::
    "(string \<Rightarrow> pyfloat option) \<Rightarrow> (string \<Rightarrow> int option) \<Rightarrow> (string \<Rightarrow> pyval option) \<Rightarrow> (string \<Rightarrow> bool) \<Rightarrow> env \<Rightarrow> config res" where
  "load_config fparse iparse jparse zone_ok env =
     bind_res (bind_res (json_object jparse (or_else (env_get env ''ESCALATION_MODELS'' [])
         (''{\"sonnet\": \"claude-sonnet-5-5\", \"opus\": \"claude-opus-5-5\"}''))) models_of) (\<lambda>models.
     bind_res (bind_res (json_object jparse (or_else (env_get env ''ESCALATION_PRICES'' ''{}'') ''{}'')) prices_of) (\<lambda>prices.
     bind_res (money fparse (PStr (env_get env ''ESCALATION_MONTH_CAP_USD'' ''150''))) (\<lambda>month_cap.
     bind_res (money fparse (PStr (env_get env ''ESCALATION_DAY_CAP_USD'' ''7''))) (\<lambda>day_cap.
     bind_res (limit_of iparse (env_get env ''ESCALATION_DAILY_CALLS'' ''none'')) (\<lambda>shared.
     bind_res (limit_of iparse (env_get env ''ESCALATION_AUTO_DAILY_CALLS'' ''5'')) (\<lambda>auto.
     bind_res (limit_of iparse (env_get env ''ESCALATION_HARD_DAILY_CALLS'' ''none'')) (\<lambda>hard.
     bind_res (let tz = env_get env ''ESCALATION_TZ'' [] in
               if tz = [] \<or> zone_ok tz then Inr tz else Inl ValueError) (\<lambda>tz.
     bind_res (count iparse (env_get env ''ESCALATION_KEEP_BRIEFS'' ''0'')) (\<lambda>keep.
     bind_res (seconds fparse (env_get env ''ESCALATION_TIMEOUT_S'' ''900'') True) (\<lambda>timeout.
     bind_res (seconds fparse (env_get env ''ESCALATION_RETRY_DELAY_S'' ''2'') False) (\<lambda>delay.
     bind_res (seconds fparse (env_get env ''ESCALATION_DEDUPE_S'' ''120'') False) (\<lambda>dedupe.
       Inr \<lparr>cf_models = models, cf_prices = prices, cf_month_cap = month_cap, cf_day_cap = day_cap,
            cf_shared_daily_calls = shared, cf_auto_daily_calls = auto, cf_hard_daily_calls = hard,
            cf_tz = tz, cf_keep_briefs = keep, cf_timeout_s = timeout, cf_retry_delay_s = delay,
            cf_dedupe_s = dedupe\<rparr>))))))))))))"

section \<open>The ledger file\<close>

text \<open>
  A file is its text. Reading splits it into lines at newlines and keeps the lines that parse to an
  object; appending first ends a torn last line.
\<close>

definition ledger_line :: "(pyfloat \<Rightarrow> string) \<Rightarrow> pydict \<Rightarrow> string" where
  "ledger_line sf row = json_text True '', '' '': '' sf (PDict row) @ nl"

definition file_append :: "(pyfloat \<Rightarrow> string) \<Rightarrow> pydict \<Rightarrow> string \<Rightarrow> string" where
  "file_append sf row file_text =
     file_text @ (if file_text \<noteq> [] \<and> last file_text \<noteq> CHR 0x0A then nl else []) @ ledger_line sf row"

text \<open>Iterating a text file: each line with its newline, which the last may lack.\<close>

fun file_lines_aux :: "string \<Rightarrow> string \<Rightarrow> string list" where
  "file_lines_aux cur [] = (if cur = [] then [] else [rev cur])"
| "file_lines_aux cur (c # s) =
     (if c = CHR 0x0A then rev (c # cur) # file_lines_aux [] s else file_lines_aux (c # cur) s)"

definition row_of :: "(string \<Rightarrow> pyval option) \<Rightarrow> string \<Rightarrow> pydict option" where
  "row_of jparse line = (case jparse line of Some (PDict d) \<Rightarrow> Some d | _ \<Rightarrow> None)"

definition file_rows :: "(string \<Rightarrow> pyval option) \<Rightarrow> string \<Rightarrow> pydict list" where
  "file_rows jparse file_text = List.map_filter (row_of jparse) (file_lines_aux [] file_text)"

section \<open>Usage\<close>

record period =
  pd_day :: rat
  pd_month :: rat
  pd_next_day :: string
  pd_next_month :: string

record usage =
  us_day_cost :: rat
  us_month_cost :: rat
  us_calls :: "string \<Rightarrow> int"

record ledger =
  lg_rows :: "pydict list"
  lg_pending :: "(string \<times> string \<times> rat) list"

definition ledger_init :: ledger where
  "ledger_init = \<lparr>lg_rows = [], lg_pending = []\<rparr>"

definition finite_of :: "(string \<Rightarrow> pyfloat option) \<Rightarrow> pyval \<Rightarrow> rat option" where
  "finite_of fparse v = (case to_float fparse v of Inr (Fin r) \<Rightarrow> Some r | _ \<Rightarrow> None)"

text \<open>\<^verbatim>\<open>str(v)\<close> of anything but a string starts with no letter of an outcome.\<close>

definition outcome_of :: "pydict \<Rightarrow> string" where
  "outcome_of r = (case dget r ''outcome'' of PStr s \<Rightarrow> s | _ \<Rightarrow> [])"

definition row_ts :: "(string \<Rightarrow> pyfloat option) \<Rightarrow> rat \<Rightarrow> pydict \<Rightarrow> rat" where
  "row_ts fparse now r = (case finite_of fparse (dget r ''ts'') of None \<Rightarrow> now | Some t \<Rightarrow> t)"

definition row_cost :: "(string \<Rightarrow> pyfloat option) \<Rightarrow> config \<Rightarrow> pydict \<Rightarrow> rat" where
  "row_cost fparse cfg r =
     (case finite_of fparse (dget r ''cost_usd'') of
        None \<Rightarrow> cf_day_cap cfg | Some c \<Rightarrow> if c < 0 then cf_day_cap cfg else c)"

definition call_inc :: "string \<Rightarrow> (string \<Rightarrow> int) \<Rightarrow> string \<Rightarrow> int" where
  "call_inc al f = f(al := f al + 1)"

definition usage_row :: "(string \<Rightarrow> pyfloat option) \<Rightarrow> config \<Rightarrow> period \<Rightarrow> rat \<Rightarrow> usage \<Rightarrow> pydict \<Rightarrow> usage" where
  "usage_row fparse cfg pd now u r =
     (let t = row_ts fparse now r;
          cost = row_cost fparse cfg r;
          u1 = (if t \<ge> pd_month pd then u\<lparr>us_month_cost := us_month_cost u + cost\<rparr> else u)
      in if t \<ge> pd_day pd
         then (let u2 = u1\<lparr>us_day_cost := us_day_cost u1 + cost\<rparr>
               in case dget r ''alias'' of
                    PStr al \<Rightarrow> if map_of esc_aliases al \<noteq> None \<and> \<not> startswith (outcome_of r) ''refused''
                               then u2\<lparr>us_calls := call_inc al (us_calls u2)\<rparr> else u2
                  | _ \<Rightarrow> u2)
         else u1)"

definition usage_pending :: "usage \<Rightarrow> string \<times> string \<times> rat \<Rightarrow> usage" where
  "usage_pending u p =
     u\<lparr>us_day_cost := us_day_cost u + snd (snd p), us_month_cost := us_month_cost u + snd (snd p),
       us_calls := call_inc (fst (snd p)) (us_calls u)\<rparr>"

definition usage_zero :: usage where
  "usage_zero = \<lparr>us_day_cost = 0, us_month_cost = 0, us_calls = (\<lambda>_. 0)\<rparr>"

definition usage_exact :: "(string \<Rightarrow> pyfloat option) \<Rightarrow> config \<Rightarrow> period \<Rightarrow> rat \<Rightarrow> ledger \<Rightarrow> usage" where
  "usage_exact fparse cfg pd now lg =
     foldl usage_pending (foldl (usage_row fparse cfg pd now) usage_zero (lg_rows lg)) (lg_pending lg)"

definition ledger_usage :: "(string \<Rightarrow> pyfloat option) \<Rightarrow> config \<Rightarrow> period \<Rightarrow> rat \<Rightarrow> ledger \<Rightarrow> usage" where
  "ledger_usage fparse cfg pd now lg =
     (let u = usage_exact fparse cfg pd now lg
      in u\<lparr>us_day_cost := round_to 6 (us_day_cost u), us_month_cost := round_to 6 (us_month_cost u)\<rparr>)"

section \<open>Caps and reservations\<close>

text \<open>\<^verbatim>\<open>{:.2f}\<close> of a non-negative amount.\<close>

definition pad_left :: "nat \<Rightarrow> char \<Rightarrow> string \<Rightarrow> string" where
  "pad_left n c s = replicate (n - length s) c @ s"

definition fmt_fixed :: "nat \<Rightarrow> rat \<Rightarrow> string" where
  "fmt_fixed d x =
     (let n = nat (round_half_even (x * 10 ^ d))
      in show_nat (n div 10 ^ d) @ ''.'' @ pad_left d (CHR ''0'') (show_nat (n mod 10 ^ d)))"

definition call_cost :: "config \<Rightarrow> string \<Rightarrow> int \<Rightarrow> int \<Rightarrow> rat option" where
  "call_cost cfg model it ot =
     (case map_of (cf_prices cfg) model of
        None \<Rightarrow> None
      | Some (pin, pout) \<Rightarrow> Some ((of_int it * pin + of_int ot * pout) / 1000000))"

definition system_tokens :: int where
  "system_tokens = 200"

definition worst_cost :: "config \<Rightarrow> string \<Rightarrow> int \<Rightarrow> int \<Rightarrow> rat option" where
  "worst_cost cfg model brief_tokens max_answer = call_cost cfg model (brief_tokens + system_tokens) max_answer"

definition over :: "int option \<Rightarrow> int \<Rightarrow> bool" where
  "over bound n = (case bound of None \<Rightarrow> False | Some l \<Rightarrow> n \<ge> l)"

definition check_budget :: "config \<Rightarrow> usage \<Rightarrow> string \<Rightarrow> rat \<Rightarrow> string option" where
  "check_budget cfg u al worst =
     (let calls = us_calls u in
      if \<not> us_month_cost u + worst \<le> cf_month_cap cfg
      then Some (''monthly cap reached ($'' @ fmt_fixed 2 (cf_month_cap cfg) @ '')'')
      else if \<not> us_day_cost u + worst \<le> cf_day_cap cfg
      then Some (''daily cap reached ($'' @ fmt_fixed 2 (cf_day_cap cfg) @ '')'')
      else if al = ''claude-hard''
      then (if over (cf_hard_daily_calls cfg) (calls ''claude-hard'')
            then Some (''Opus calls for today used ('' @ show_int (the (cf_hard_daily_calls cfg)) @ '')'') else None)
      else if over (cf_shared_daily_calls cfg) (calls ''claude-ask'' + calls ''claude-auto'')
      then Some (''daily calls used ('' @ show_int (the (cf_shared_daily_calls cfg)) @ '')'')
      else if al = ''claude-auto'' \<and> over (cf_auto_daily_calls cfg) (calls ''claude-auto'')
      then Some (''automatic calls for today used ('' @ show_int (the (cf_auto_daily_calls cfg)) @ '')'')
      else None)"

text \<open>\<open>reserve\<close>: the token, or why not. \<open>token\<close> is the next \<^verbatim>\<open>uuid4\<close>.\<close>

definition reserve ::
    "(string \<Rightarrow> pyfloat option) \<Rightarrow> config \<Rightarrow> period \<Rightarrow> rat \<Rightarrow> string \<Rightarrow> string \<Rightarrow> pyfloat \<Rightarrow> ledger \<Rightarrow>
       (string + string) \<times> ledger" where
  "reserve fparse cfg pd now token al worst lg =
     (if map_of esc_aliases al = None then (Inl ''budget: unknown alias'', lg)
      else (case worst of
        Fin w \<Rightarrow>
          if w < 0 then (Inl ''budget: invalid cost estimate'', lg)
          else (case check_budget cfg (ledger_usage fparse cfg pd now lg) al w of
                  Some reason \<Rightarrow>
                    (Inl (''budget: '' @ reason @ ''; resets '' @
                       (if startswith reason ''monthly'' then pd_next_month pd else pd_next_day pd)), lg)
                | None \<Rightarrow> (Inr token, lg\<lparr>lg_pending := alist_put token (al, w) (lg_pending lg)\<rparr>))
      | _ \<Rightarrow> (Inl ''budget: invalid cost estimate'', lg)))"

definition release :: "string \<Rightarrow> ledger \<Rightarrow> ledger" where
  "release token lg = lg\<lparr>lg_pending := alist_del token (lg_pending lg)\<rparr>"

text \<open>\<open>ok\<close> says whether the write of the row succeeds.\<close>

definition append_row :: "bool \<Rightarrow> pydict \<Rightarrow> ledger \<Rightarrow> ledger res" where
  "append_row ok row lg = (if ok then Inr (lg\<lparr>lg_rows := lg_rows lg @ [row]\<rparr>) else Inl OSError)"

definition settle :: "bool \<Rightarrow> string \<Rightarrow> pydict \<Rightarrow> ledger \<Rightarrow> ledger res" where
  "settle ok token row lg = bind_res (append_row ok row lg) (\<lambda>l. Inr (release token l))"

section \<open>Reports\<close>

definition left :: "int option \<Rightarrow> int \<Rightarrow> int option" where
  "left bound used = (case bound of None \<Rightarrow> None | Some l \<Rightarrow> Some (max 0 (l - used)))"

definition calls_left :: "config \<Rightarrow> usage \<Rightarrow> (string \<times> int option) list" where
  "calls_left cfg u =
     (let c = us_calls u;
          shared_left = left (cf_shared_daily_calls cfg) (c ''claude-ask'' + c ''claude-auto'');
          auto_left = left (cf_auto_daily_calls cfg) (c ''claude-auto'');
          auto_left = (case shared_left of None \<Rightarrow> auto_left
                       | Some sl \<Rightarrow> (case auto_left of None \<Rightarrow> Some sl | Some x \<Rightarrow> Some (min x sl)))
      in [(''claude-ask'', shared_left), (''claude-auto'', auto_left),
          (''claude-hard'', left (cf_hard_daily_calls cfg) (c ''claude-hard''))])"

definition mid_dot :: string where
  "mid_dot = [CHR '' '', CHR 0xB7, CHR '' '']"

definition footer :: "config \<Rightarrow> string \<Rightarrow> rat \<Rightarrow> usage \<Rightarrow> string" where
  "footer cfg model cost u =
     (let auto = (case the (map_of (calls_left cfg u) ''claude-auto'') of
                    None \<Rightarrow> ''auto: no call limit''
                  | Some n \<Rightarrow> ''auto '' @ show_int n @ ''/'' @
                      (case cf_auto_daily_calls cfg of None \<Rightarrow> ''None'' | Some l \<Rightarrow> show_int l) @ '' left today'')
      in nl @ nl @ ''---'' @ nl @ ''Claude '' @ model @ '': $'' @ fmt_fixed 3 cost @ '' this call'' @ mid_dot @ ''$'' @
         fmt_fixed 2 (us_day_cost u) @ '' today of $'' @ fmt_fixed 2 (cf_day_cap cfg) @ mid_dot @ ''$'' @
         fmt_fixed 2 (us_month_cost u) @ '' this month of $'' @ fmt_fixed 2 (cf_month_cap cfg) @ mid_dot @ auto)"

section \<open>Usage as sums\<close>

definition day_share :: "(string \<Rightarrow> pyfloat option) \<Rightarrow> config \<Rightarrow> period \<Rightarrow> rat \<Rightarrow> pydict \<Rightarrow> rat" where
  "day_share fparse cfg pd now r = (if row_ts fparse now r \<ge> pd_day pd then row_cost fparse cfg r else 0)"

definition month_share :: "(string \<Rightarrow> pyfloat option) \<Rightarrow> config \<Rightarrow> period \<Rightarrow> rat \<Rightarrow> pydict \<Rightarrow> rat" where
  "month_share fparse cfg pd now r = (if row_ts fparse now r \<ge> pd_month pd then row_cost fparse cfg r else 0)"

definition is_call :: "string \<Rightarrow> pydict \<Rightarrow> bool" where
  "is_call al r \<longleftrightarrow>
     dget r ''alias'' = PStr al \<and> map_of esc_aliases al \<noteq> None \<and> \<not> startswith (outcome_of r) ''refused''"

definition call_share :: "(string \<Rightarrow> pyfloat option) \<Rightarrow> string \<Rightarrow> period \<Rightarrow> rat \<Rightarrow> pydict \<Rightarrow> int" where
  "call_share fparse al pd now r = (if row_ts fparse now r \<ge> pd_day pd \<and> is_call al r then 1 else 0)"

lemma usage_row_sums:
  "us_day_cost (usage_row fparse cfg pd now u r) = us_day_cost u + day_share fparse cfg pd now r"
  "us_month_cost (usage_row fparse cfg pd now u r) = us_month_cost u + month_share fparse cfg pd now r"
  "us_calls (usage_row fparse cfg pd now u r) al = us_calls u al + call_share fparse al pd now r"
  by (auto simp: usage_row_def Let_def day_share_def month_share_def call_share_def is_call_def call_inc_def
      split: pyval.splits)

lemma usage_rows_sums:
  "us_day_cost (foldl (usage_row fparse cfg pd now) u rs) = us_day_cost u + sum_list (map (day_share fparse cfg pd now) rs)"
  "us_month_cost (foldl (usage_row fparse cfg pd now) u rs) = us_month_cost u + sum_list (map (month_share fparse cfg pd now) rs)"
  "us_calls (foldl (usage_row fparse cfg pd now) u rs) al = us_calls u al + sum_list (map (call_share fparse al pd now) rs)"
  by (induction rs arbitrary: u) (simp_all add: usage_row_sums)

definition pend_calls :: "string \<Rightarrow> string \<times> string \<times> rat \<Rightarrow> int" where
  "pend_calls al p = (if fst (snd p) = al then 1 else 0)"

lemma usage_pending_sums:
  "us_day_cost (foldl usage_pending u ps) = us_day_cost u + sum_list (map (\<lambda>p. snd (snd p)) ps)"
  "us_month_cost (foldl usage_pending u ps) = us_month_cost u + sum_list (map (\<lambda>p. snd (snd p)) ps)"
  "us_calls (foldl usage_pending u ps) al = us_calls u al + sum_list (map (pend_calls al) ps)"
  by (induction ps arbitrary: u) (simp_all add: usage_pending_def call_inc_def pend_calls_def)

lemma usage_exact_sums:
  "us_day_cost (usage_exact fparse cfg pd now lg) =
     sum_list (map (day_share fparse cfg pd now) (lg_rows lg)) + sum_list (map (\<lambda>p. snd (snd p)) (lg_pending lg))"
  "us_month_cost (usage_exact fparse cfg pd now lg) =
     sum_list (map (month_share fparse cfg pd now) (lg_rows lg)) + sum_list (map (\<lambda>p. snd (snd p)) (lg_pending lg))"
  "us_calls (usage_exact fparse cfg pd now lg) al =
     sum_list (map (call_share fparse al pd now) (lg_rows lg)) + sum_list (map (pend_calls al) (lg_pending lg))"
  by (simp_all add: usage_exact_def usage_rows_sums usage_pending_sums usage_zero_def)

lemma sum_list_alist_put:
  fixes f :: "'k \<times> 'v \<Rightarrow> 'n :: ab_group_add"
  shows "map_of ps k = None \<Longrightarrow> sum_list (map f (alist_put k v ps)) = sum_list (map f ps) + f (k, v)"
  by (induction ps) (auto simp: algebra_simps split: if_splits)

lemma sum_list_alist_del:
  fixes f :: "'k \<times> 'v \<Rightarrow> 'n :: ab_group_add"
  assumes "distinct (map fst ps)" and "map_of ps k = Some v"
  shows "sum_list (map f (alist_del k ps)) = sum_list (map f ps) - f (k, v)"
  using assms
proof (induction ps)
  case Nil
  then show ?case by simp
next
  case (Cons p ps)
  show ?case
  proof (cases "fst p = k")
    case True
    then have "p = (k, v)" using Cons.prems(2) by (cases p) simp
    moreover have "alist_del k ps = ps" using Cons.prems(1) True by (auto intro: alist_del_absent)
    ultimately show ?thesis by (simp add: alist_del_def)
  next
    case False
    with Cons show ?thesis by (cases p) (auto simp: alist_del_def algebra_simps)
  qed
qed

section \<open>What reservations promise\<close>

text \<open>
  A client of the ledger reserves, settles a reservation with a row, notes a row without one, and
  may lose all reservations in a restart; the clock moves on between. The trace keeps every row that was
  written, with the reservation it settled.
\<close>

inductive spend_reach ::
  "('c \<Rightarrow> 'k \<Rightarrow> 'a \<Rightarrow> rat \<Rightarrow> 's \<Rightarrow> 's option) \<Rightarrow> ('k \<Rightarrow> 'row \<Rightarrow> 's \<Rightarrow> 's option) \<Rightarrow> ('row \<Rightarrow> 's \<Rightarrow> 's option) \<Rightarrow>
     ('s \<Rightarrow> 's) \<Rightarrow> ('s \<Rightarrow> 'k \<Rightarrow> ('a \<times> rat) option) \<Rightarrow> ('c \<Rightarrow> 'c \<Rightarrow> bool) \<Rightarrow> 'c \<Rightarrow> 's \<Rightarrow>
     'c \<Rightarrow> 's \<Rightarrow> (('a \<times> rat) option \<times> 'row) list \<Rightarrow> bool"
  for rsv stl app rst held later c0 s0 where
  spend_start: "spend_reach rsv stl app rst held later c0 s0 c0 s0 []"
| spend_tick: "spend_reach rsv stl app rst held later c0 s0 c s tr \<Longrightarrow> later c c' \<Longrightarrow>
     spend_reach rsv stl app rst held later c0 s0 c' s tr"
| spend_reserve: "spend_reach rsv stl app rst held later c0 s0 c s tr \<Longrightarrow> held s k = None \<Longrightarrow>
     rsv c k a w s = Some s' \<Longrightarrow> spend_reach rsv stl app rst held later c0 s0 c s' tr"
| spend_settle: "spend_reach rsv stl app rst held later c0 s0 c s tr \<Longrightarrow> held s k = Some (a, w) \<Longrightarrow>
     stl k row s = Some s' \<Longrightarrow> spend_reach rsv stl app rst held later c0 s0 c s' ((Some (a, w), row) # tr)"
| spend_note: "spend_reach rsv stl app rst held later c0 s0 c s tr \<Longrightarrow> app row s = Some s' \<Longrightarrow>
     spend_reach rsv stl app rst held later c0 s0 c s' ((None, row) # tr)"
| spend_restart: "spend_reach rsv stl app rst held later c0 s0 c s tr \<Longrightarrow>
     spend_reach rsv stl app rst held later c0 s0 c (rst s) tr"

text \<open>What the rows of a trace cost beyond what was reserved for them.\<close>

definition excess :: "('a \<Rightarrow> rat \<Rightarrow> rat) \<Rightarrow> ('row \<Rightarrow> rat) \<Rightarrow> (('a \<times> rat) option \<times> 'row) list \<Rightarrow> rat" where
  "excess wt cost tr =
     sum_list (map (\<lambda>(o', row). max 0 (cost row - (case o' of None \<Rightarrow> 0 | Some (a, w) \<Rightarrow> wt a w))) tr)"

text \<open>
  The contract: a quantity (dollars of the day, dollars of the month, calls) that a reservation
  raises by its weight, and only below the cap, that settling replaces by the cost of the row, and that time
  does not raise.
\<close>

locale capped =
  fixes rsv :: "'c \<Rightarrow> 'k \<Rightarrow> 'a \<Rightarrow> rat \<Rightarrow> 's \<Rightarrow> 's option"
    and stl :: "'k \<Rightarrow> 'row \<Rightarrow> 's \<Rightarrow> 's option"
    and app :: "'row \<Rightarrow> 's \<Rightarrow> 's option"
    and rst :: "'s \<Rightarrow> 's"
    and held :: "'s \<Rightarrow> 'k \<Rightarrow> ('a \<times> rat) option"
    and later :: "'c \<Rightarrow> 'c \<Rightarrow> bool"
    and sane :: "'s \<Rightarrow> bool"
    and amount :: "'c \<Rightarrow> 's \<Rightarrow> rat"
    and wt :: "'a \<Rightarrow> rat \<Rightarrow> rat"
    and cost :: "'row \<Rightarrow> rat"
    and cap :: "rat option"
    and eps :: rat
  assumes sane_rsv: "sane s \<Longrightarrow> rsv c k a w s = Some s' \<Longrightarrow> sane s'"
    and sane_stl: "sane s \<Longrightarrow> stl k row s = Some s' \<Longrightarrow> sane s'"
    and sane_app: "sane s \<Longrightarrow> app row s = Some s' \<Longrightarrow> sane s'"
    and sane_rst: "sane s \<Longrightarrow> sane (rst s)"
    and rsv_law: "sane s \<Longrightarrow> rsv c k a w s = Some s' \<Longrightarrow> held s k = None \<Longrightarrow>
      amount c s' = amount c s + wt a w \<and>
      (wt a w \<noteq> 0 \<longrightarrow> (case cap of None \<Rightarrow> True | Some l \<Rightarrow> amount c s + wt a w \<le> l + eps))"
    and stl_law: "sane s \<Longrightarrow> stl k row s = Some s' \<Longrightarrow> held s k = Some (a, w) \<Longrightarrow>
      amount c s' \<le> amount c s - wt a w + max 0 (cost row)"
    and app_law: "sane s \<Longrightarrow> app row s = Some s' \<Longrightarrow> amount c s' \<le> amount c s + max 0 (cost row)"
    and rst_law: "sane s \<Longrightarrow> amount c (rst s) \<le> amount c s"
    and later_law: "later c c' \<Longrightarrow> amount c' s \<le> amount c s"
    and wt_pos: "sane s \<Longrightarrow> held s k = Some (a, w) \<Longrightarrow> 0 \<le> wt a w"
begin

lemma excess_Cons:
  "excess wt cost ((o', row) # tr) =
     max 0 (cost row - (case o' of None \<Rightarrow> 0 | Some (a, w) \<Rightarrow> wt a w)) + excess wt cost tr"
  by (simp add: excess_def)

lemma excess_nonneg: "0 \<le> excess wt cost tr"
  unfolding excess_def by (induction tr) auto

lemma sane_reach:
  "spend_reach rsv stl app rst held later c0 s0 c s tr \<Longrightarrow> sane s0 \<Longrightarrow> sane s"
  by (induction rule: spend_reach.induct) (auto intro: sane_rsv sane_stl sane_app sane_rst)

lemma within_cap:
  assumes "spend_reach rsv stl app rst held later c0 s0 c s tr"
    and "sane s0" and "cap = Some l" and "amount c0 s0 \<le> l + eps"
  shows "amount c s \<le> l + eps + excess wt cost tr"
  using assms(1)
proof (induction rule: spend_reach.induct)
  case spend_start
  with assms(4) show ?case by (simp add: excess_def)
next
  case (spend_tick c s tr c')
  with later_law [of c c' s] show ?case by linarith
next
  case (spend_reserve c s tr k a w s')
  have "sane s" by (rule sane_reach [OF spend_reserve(1) assms(2)])
  with rsv_law [of s c k a w s'] spend_reserve assms(3) excess_nonneg [of tr] show ?case
    by (cases "wt a w = 0") auto
next
  case (spend_settle c s tr k a w row s')
  have "sane s" by (rule sane_reach [OF spend_settle(1) assms(2)])
  with stl_law [of s k row s' a w c] wt_pos [of s k a w] spend_settle show ?case
    by (simp add: excess_Cons max_def split: if_splits)
next
  case (spend_note c s tr row s')
  have "sane s" by (rule sane_reach [OF spend_note(1) assms(2)])
  with app_law [of s row s' c] spend_note show ?case by (simp add: excess_Cons)
next
  case (spend_restart c s tr)
  have "sane s" by (rule sane_reach [OF spend_restart(1) assms(2)])
  with rst_law [of s c] spend_restart show ?case by linarith
qed

end

section \<open>The ledger keeps the contract\<close>

text \<open>
  The clock is a moment with the day and the month that contain it; it moves forward, and so do the
  starts of its day and month.
\<close>

type_synonym clock = "rat \<times> period"

definition clock_ok :: "clock \<Rightarrow> bool" where
  "clock_ok c \<longleftrightarrow> pd_day (snd c) \<le> fst c \<and> pd_month (snd c) \<le> fst c"

definition clock_later :: "config \<Rightarrow> clock \<Rightarrow> clock \<Rightarrow> bool" where
  "clock_later cfg c c' \<longleftrightarrow>
     0 \<le> cf_day_cap cfg \<and> clock_ok c \<and> clock_ok c' \<and> fst c \<le> fst c' \<and>
     pd_day (snd c) \<le> pd_day (snd c') \<and> pd_month (snd c) \<le> pd_month (snd c')"

definition try_reserve ::
    "(string \<Rightarrow> pyfloat option) \<Rightarrow> config \<Rightarrow> clock \<Rightarrow> string \<Rightarrow> string \<Rightarrow> rat \<Rightarrow> ledger \<Rightarrow> ledger option" where
  "try_reserve fparse cfg c token al w lg =
     (case reserve fparse cfg (snd c) (fst c) token al (Fin w) lg of (Inr _, l) \<Rightarrow> Some l | _ \<Rightarrow> None)"

definition try_settle :: "string \<Rightarrow> pydict \<Rightarrow> ledger \<Rightarrow> ledger option" where
  "try_settle token row lg = (case settle True token row lg of Inr l \<Rightarrow> Some l | Inl _ \<Rightarrow> None)"

definition try_append :: "pydict \<Rightarrow> ledger \<Rightarrow> ledger option" where
  "try_append row lg = (case append_row True row lg of Inr l \<Rightarrow> Some l | Inl _ \<Rightarrow> None)"

definition restart :: "ledger \<Rightarrow> ledger" where
  "restart lg = lg\<lparr>lg_pending := []\<rparr>"

definition pending_of :: "ledger \<Rightarrow> string \<Rightarrow> (string \<times> rat) option" where
  "pending_of lg token = map_of (lg_pending lg) token"

definition ledger_sane :: "ledger \<Rightarrow> bool" where
  "ledger_sane lg \<longleftrightarrow> distinct (map fst (lg_pending lg)) \<and> (\<forall>p \<in> set (lg_pending lg). 0 \<le> snd (snd p))"

text \<open>The quantity \<open>rows\<close> plus \<open>pend\<close>, summed over the rows and over the reservations.\<close>

definition measured :: "(clock \<Rightarrow> pydict \<Rightarrow> rat) \<Rightarrow> (string \<Rightarrow> rat \<Rightarrow> rat) \<Rightarrow> clock \<Rightarrow> ledger \<Rightarrow> rat" where
  "measured share wt c lg =
     sum_list (map (share c) (lg_rows lg)) + sum_list (map (\<lambda>p. wt (fst (snd p)) (snd (snd p))) (lg_pending lg))"

lemma try_reserve_Some:
  assumes "try_reserve fparse cfg c token al w lg = Some lg'"
  shows "lg' = lg\<lparr>lg_pending := alist_put token (al, w) (lg_pending lg)\<rparr> \<and> 0 \<le> w \<and>
     check_budget cfg (ledger_usage fparse cfg (snd c) (fst c) lg) al w = None"
  using assms by (auto simp: try_reserve_def reserve_def split: if_splits option.splits)

lemma set_alist_put: "set (alist_put k v ps) \<subseteq> insert (k, v) (set ps)"
  by (induction ps) (auto split: if_splits)

lemma sane_reserve:
  assumes "ledger_sane lg" and "try_reserve fparse cfg c token al w lg = Some lg'"
  shows "ledger_sane lg'"
proof -
  have l: "lg' = lg\<lparr>lg_pending := alist_put token (al, w) (lg_pending lg)\<rparr>" "0 \<le> w"
    using try_reserve_Some [OF assms(2)] by blast+
  show ?thesis
    using assms(1) set_alist_put [of token "(al, w)" "lg_pending lg"] l by (fastforce simp: ledger_sane_def)
qed

lemma set_alist_del': "p \<in> set (alist_del k ps) \<Longrightarrow> p \<in> set ps"
  by (simp add: alist_del_def)

lemma try_settle_Some:
  "try_settle token row lg = Some lg' \<longleftrightarrow>
     lg' = lg\<lparr>lg_rows := lg_rows lg @ [row], lg_pending := alist_del token (lg_pending lg)\<rparr>"
  by (auto simp: try_settle_def settle_def append_row_def release_def)

lemma try_append_Some: "try_append row lg = Some lg' \<longleftrightarrow> lg' = lg\<lparr>lg_rows := lg_rows lg @ [row]\<rparr>"
  by (auto simp: try_append_def append_row_def)

lemma ledger_capped:
  assumes share_le: "\<And>c r. share c r \<le> max 0 (cost r)"
    and share_later: "\<And>c c' r. clock_later cfg c c' \<Longrightarrow> share c' r \<le> share c r"
    and wt0: "\<And>a w. 0 \<le> w \<Longrightarrow> 0 \<le> wt a w"
    and fits: "\<And>c lg a w l. cap = Some l \<Longrightarrow> 0 \<le> w \<Longrightarrow> wt a w \<noteq> 0 \<Longrightarrow>
        check_budget cfg (ledger_usage fparse cfg (snd c) (fst c) lg) a w = None \<Longrightarrow>
        measured share wt c lg + wt a w \<le> l + eps"
  shows "capped (try_reserve fparse cfg) try_settle try_append restart pending_of (clock_later cfg) ledger_sane
     (measured share wt) wt cost cap eps"
proof unfold_locales
  fix lg lg' :: ledger and c token al w
  assume "ledger_sane lg" and "try_reserve fparse cfg c token al w lg = Some lg'"
  then show "ledger_sane lg'" by (rule sane_reserve)
next
  fix lg lg' :: ledger and token row
  assume "ledger_sane lg" and "try_settle token row lg = Some lg'"
  then show "ledger_sane lg'" by (auto simp: try_settle_Some ledger_sane_def dest: set_alist_del')
next
  fix lg lg' :: ledger and row
  assume "ledger_sane lg" and "try_append row lg = Some lg'"
  then show "ledger_sane lg'" by (simp add: try_append_Some ledger_sane_def)
next
  fix lg :: ledger
  assume "ledger_sane lg"
  show "ledger_sane (restart lg)" by (simp add: restart_def ledger_sane_def)
next
  fix lg lg' :: ledger and c token al w
  assume r: "try_reserve fparse cfg c token al w lg = Some lg'" and h: "pending_of lg token = None"
  note s = try_reserve_Some [OF r]
  have "measured share wt c lg' = measured share wt c lg + wt al w"
    using s h by (simp add: measured_def sum_list_alist_put pending_of_def)
  moreover have "wt al w \<noteq> 0 \<longrightarrow> (case cap of None \<Rightarrow> True | Some l \<Rightarrow> measured share wt c lg + wt al w \<le> l + eps)"
    using fits [of _ w al c lg] s by (auto split: option.splits)
  ultimately show "measured share wt c lg' = measured share wt c lg + wt al w \<and>
      (wt al w \<noteq> 0 \<longrightarrow> (case cap of None \<Rightarrow> True | Some l \<Rightarrow> measured share wt c lg + wt al w \<le> l + eps))" by blast
next
  fix lg lg' :: ledger and token row al w c
  assume "ledger_sane lg" and "try_settle token row lg = Some lg'" and "pending_of lg token = Some (al, w)"
  then have "measured share wt c lg' = measured share wt c lg + share c row - wt al w"
    by (simp add: measured_def try_settle_Some ledger_sane_def pending_of_def sum_list_alist_del)
  with share_le [of c row] show "measured share wt c lg' \<le> measured share wt c lg - wt al w + max 0 (cost row)"
    by linarith
next
  fix lg lg' :: ledger and row c
  assume "try_append row lg = Some lg'"
  then have "measured share wt c lg' = measured share wt c lg + share c row"
    by (simp add: measured_def try_append_Some)
  with share_le [of c row] show "measured share wt c lg' \<le> measured share wt c lg + max 0 (cost row)" by linarith
next
  fix lg :: ledger and c
  assume "ledger_sane lg"
  then have "0 \<le> sum_list (map (\<lambda>p. wt (fst (snd p)) (snd (snd p))) (lg_pending lg))"
    by (intro sum_list_nonneg) (auto simp: ledger_sane_def intro: wt0)
  then show "measured share wt c (restart lg) \<le> measured share wt c lg" by (simp add: measured_def restart_def)
next
  fix lg :: ledger and c c'
  assume "clock_later cfg c c'"
  then have "sum_list (map (share c') (lg_rows lg)) \<le> sum_list (map (share c) (lg_rows lg))"
    by (intro sum_list_mono share_later)
  then show "measured share wt c' lg \<le> measured share wt c lg" by (simp add: measured_def)
next
  fix lg :: ledger and token al w
  assume "ledger_sane lg" and "pending_of lg token = Some (al, w)"
  then show "0 \<le> wt al w" by (auto simp: ledger_sane_def pending_of_def dest!: map_of_SomeD intro!: wt0)
qed

definition day_amount :: "(string \<Rightarrow> pyfloat option) \<Rightarrow> config \<Rightarrow> clock \<Rightarrow> ledger \<Rightarrow> rat" where
  "day_amount fparse cfg = measured (\<lambda>c r. day_share fparse cfg (snd c) (fst c) r) (\<lambda>_ w. w)"

definition month_amount :: "(string \<Rightarrow> pyfloat option) \<Rightarrow> config \<Rightarrow> clock \<Rightarrow> ledger \<Rightarrow> rat" where
  "month_amount fparse cfg = measured (\<lambda>c r. month_share fparse cfg (snd c) (fst c) r) (\<lambda>_ w. w)"

definition counts_in :: "string list \<Rightarrow> pydict \<Rightarrow> rat" where
  "counts_in als r = (if \<exists>al \<in> set als. is_call al r then 1 else 0)"

definition counted :: "string list \<Rightarrow> string \<Rightarrow> rat \<Rightarrow> rat" where
  "counted als a w = (if a \<in> set als then 1 else 0)"

definition calls_amount :: "(string \<Rightarrow> pyfloat option) \<Rightarrow> string list \<Rightarrow> clock \<Rightarrow> ledger \<Rightarrow> rat" where
  "calls_amount fparse als =
     measured (\<lambda>c r. if row_ts fparse (fst c) r \<ge> pd_day (snd c) then counts_in als r else 0) (counted als)"

lemma row_ts_later:
  "clock_later cfg c c' \<Longrightarrow> row_ts fparse (fst c') r \<ge> pd_day (snd c') \<Longrightarrow> row_ts fparse (fst c) r \<ge> pd_day (snd c)"
  "clock_later cfg c c' \<Longrightarrow> row_ts fparse (fst c') r \<ge> pd_month (snd c') \<Longrightarrow> row_ts fparse (fst c) r \<ge> pd_month (snd c)"
  by (auto simp: clock_later_def clock_ok_def row_ts_def split: option.splits)

lemma row_cost_nonneg: "0 \<le> cf_day_cap cfg \<Longrightarrow> 0 \<le> row_cost fparse cfg r"
  by (auto simp: row_cost_def split: option.splits)

lemma clock_later_cap: "clock_later cfg c c' \<Longrightarrow> 0 \<le> cf_day_cap cfg"
  by (simp add: clock_later_def)

lemma usage_amounts:
  "us_day_cost (usage_exact fparse cfg (snd c) (fst c) lg) = day_amount fparse cfg c lg"
  "us_month_cost (usage_exact fparse cfg (snd c) (fst c) lg) = month_amount fparse cfg c lg"
  by (simp_all add: usage_exact_sums day_amount_def month_amount_def measured_def)

lemma check_budget_costs:
  assumes "check_budget cfg (ledger_usage fparse cfg (snd c) (fst c) lg) a w = None"
  shows "round_to 6 (day_amount fparse cfg c lg) + w \<le> cf_day_cap cfg"
    "round_to 6 (month_amount fparse cfg c lg) + w \<le> cf_month_cap cfg"
  using assms by (simp_all add: check_budget_def ledger_usage_def Let_def usage_amounts split: if_splits)

lemma round6_le: "round_to 6 x + w \<le> l \<Longrightarrow> x + w \<le> l + 1 / 2000000"
proof -
  assume "round_to 6 x + w \<le> l"
  moreover have "\<bar>round_to 6 x - x\<bar> \<le> 1 / 2000000" using round_to_error [of 6 x] by simp
  then have "x - round_to 6 x \<le> 1 / 2000000" by linarith
  ultimately show ?thesis by linarith
qed

interpretation day_dollars: capped "try_reserve fparse cfg" try_settle try_append restart pending_of
  "clock_later cfg" ledger_sane "day_amount fparse cfg" "\<lambda>_ w. w" "row_cost fparse cfg" "Some (cf_day_cap cfg)" "1 / 2000000"
  for fparse cfg
  unfolding day_amount_def
proof (rule ledger_capped)
  show "day_share fparse cfg (snd c') (fst c') r \<le> day_share fparse cfg (snd c) (fst c) r"
    if "clock_later cfg c c'" for c c' r
    using row_ts_later(1) [OF that, of fparse r] row_cost_nonneg [OF clock_later_cap [OF that]]
    by (auto simp: day_share_def)
  show "measured (\<lambda>c r. day_share fparse cfg (snd c) (fst c) r) (\<lambda>_ w. w) c lg + w \<le> l + 1 / 2000000"
    if "Some (cf_day_cap cfg) = Some l"
      "check_budget cfg (ledger_usage fparse cfg (snd c) (fst c) lg) a w = None" for c lg a w l
    using check_budget_costs(1) [OF that(2)] that(1) by (simp add: round6_le day_amount_def)
qed (auto simp: day_share_def)

interpretation month_dollars: capped "try_reserve fparse cfg" try_settle try_append restart pending_of
  "clock_later cfg" ledger_sane "month_amount fparse cfg" "\<lambda>_ w. w" "row_cost fparse cfg" "Some (cf_month_cap cfg)" "1 / 2000000"
  for fparse cfg
  unfolding month_amount_def
proof (rule ledger_capped)
  show "month_share fparse cfg (snd c') (fst c') r \<le> month_share fparse cfg (snd c) (fst c) r"
    if "clock_later cfg c c'" for c c' r
    using row_ts_later(2) [OF that, of fparse r] row_cost_nonneg [OF clock_later_cap [OF that]]
    by (auto simp: month_share_def)
  show "measured (\<lambda>c r. month_share fparse cfg (snd c) (fst c) r) (\<lambda>_ w. w) c lg + w \<le> l + 1 / 2000000"
    if "Some (cf_month_cap cfg) = Some l"
      "check_budget cfg (ledger_usage fparse cfg (snd c) (fst c) lg) a w = None" for c lg a w l
    using check_budget_costs(2) [OF that(2)] that(1) by (simp add: round6_le month_amount_def)
qed (auto simp: month_share_def)

lemma usage_calls_one:
  "of_int (us_calls (usage_exact fparse cfg (snd c) (fst c) lg) al) = calls_amount fparse [al] c lg"
proof -
  have "of_int (sum_list (map (call_share fparse al (snd c) (fst c)) rs)) =
      sum_list (map (\<lambda>r. if row_ts fparse (fst c) r \<ge> pd_day (snd c) then counts_in [al] r else 0) rs)" for rs
    by (induction rs) (auto simp: call_share_def counts_in_def)
  moreover have "of_int (sum_list (map (pend_calls al) ps)) = sum_list (map (\<lambda>p. counted [al] (fst (snd p)) (snd (snd p))) ps)"
    for ps by (induction ps) (auto simp: pend_calls_def counted_def)
  ultimately show ?thesis by (simp add: usage_exact_sums calls_amount_def measured_def)
qed

lemma is_call_alias: "is_call a r \<Longrightarrow> is_call b r \<Longrightarrow> a = b"
  by (simp add: is_call_def)

lemma calls_amount_two:
  assumes "a \<noteq> b"
  shows "calls_amount fparse [a, b] c lg = calls_amount fparse [a] c lg + calls_amount fparse [b] c lg"
proof -
  have "sum_list (map (\<lambda>r. if row_ts fparse (fst c) r \<ge> pd_day (snd c) then counts_in [a, b] r else 0) rs) =
      sum_list (map (\<lambda>r. if row_ts fparse (fst c) r \<ge> pd_day (snd c) then counts_in [a] r else 0) rs) +
      sum_list (map (\<lambda>r. if row_ts fparse (fst c) r \<ge> pd_day (snd c) then counts_in [b] r else 0) rs)" for rs
    using is_call_alias [of a _ b] assms by (induction rs) (auto simp: counts_in_def)
  moreover have "sum_list (map (\<lambda>p. counted [a, b] (fst (snd p)) (snd (snd p))) ps) =
      sum_list (map (\<lambda>p. counted [a] (fst (snd p)) (snd (snd p))) ps) +
      sum_list (map (\<lambda>p. counted [b] (fst (snd p)) (snd (snd p))) ps)" for ps :: "(string \<times> string \<times> rat) list"
    using assms by (induction ps) (auto simp: counted_def)
  ultimately show ?thesis by (simp add: calls_amount_def measured_def)
qed

definition of_limit :: "int option \<Rightarrow> rat option" where
  "of_limit l = map_option of_int l"

lemma calls_capped:
  assumes "\<And>c lg a w l. cap = Some l \<Longrightarrow> a \<in> set als \<Longrightarrow>
      check_budget cfg (ledger_usage fparse cfg (snd c) (fst c) lg) a w = None \<Longrightarrow>
      calls_amount fparse als c lg + 1 \<le> l"
  shows "capped (try_reserve fparse cfg) try_settle try_append restart pending_of (clock_later cfg) ledger_sane
     (calls_amount fparse als) (counted als) (counts_in als) cap 0"
  unfolding calls_amount_def
proof (rule ledger_capped)
  show "(if row_ts fparse (fst c') r \<ge> pd_day (snd c') then counts_in als r else 0)
      \<le> (if row_ts fparse (fst c) r \<ge> pd_day (snd c) then counts_in als r else 0)" if "clock_later cfg c c'" for c c' r
    using row_ts_later(1) [OF that, of fparse r] by (auto simp: counts_in_def)
  show "measured (\<lambda>c r. if row_ts fparse (fst c) r \<ge> pd_day (snd c) then counts_in als r else 0) (counted als) c lg +
      counted als a w \<le> l + 0"
    if "cap = Some l" "counted als a w \<noteq> 0"
      "check_budget cfg (ledger_usage fparse cfg (snd c) (fst c) lg) a w = None" for c lg a w l
    using assms [OF that(1) _ that(3)] that(2) by (auto simp: counted_def calls_amount_def split: if_splits)
qed (auto simp: counts_in_def counted_def)

lemma ledger_usage_calls: "us_calls (ledger_usage fparse cfg pd now lg) = us_calls (usage_exact fparse cfg pd now lg)"
  by (simp add: ledger_usage_def Let_def)

lemma over_Some: "\<not> over (Some l) n \<longleftrightarrow> n + 1 \<le> l"
  by (auto simp: over_def)

interpretation auto_calls: capped "try_reserve fparse cfg" try_settle try_append restart pending_of
  "clock_later cfg" ledger_sane "calls_amount fparse [''claude-auto'']" "counted [''claude-auto'']"
  "counts_in [''claude-auto'']" "of_limit (cf_auto_daily_calls cfg)" 0
  for fparse cfg
proof (rule calls_capped)
  fix c lg a w l
  assume l: "of_limit (cf_auto_daily_calls cfg) = Some l" and a: "a \<in> set [''claude-auto'']"
    and b: "check_budget cfg (ledger_usage fparse cfg (snd c) (fst c) lg) a w = None"
  from l obtain n where n: "cf_auto_daily_calls cfg = Some n" "l = of_int n" by (auto simp: of_limit_def)
  have "us_calls (usage_exact fparse cfg (snd c) (fst c) lg) ''claude-auto'' + 1 \<le> n"
    using a b n by (auto simp: check_budget_def ledger_usage_calls Let_def over_Some split: if_splits)
  then show "calls_amount fparse [''claude-auto''] c lg + 1 \<le> l"
    unfolding usage_calls_one [where cfg = cfg, symmetric] n(2) by linarith
qed

interpretation hard_calls: capped "try_reserve fparse cfg" try_settle try_append restart pending_of
  "clock_later cfg" ledger_sane "calls_amount fparse [''claude-hard'']" "counted [''claude-hard'']"
  "counts_in [''claude-hard'']" "of_limit (cf_hard_daily_calls cfg)" 0
  for fparse cfg
proof (rule calls_capped)
  fix c lg a w l
  assume l: "of_limit (cf_hard_daily_calls cfg) = Some l" and a: "a \<in> set [''claude-hard'']"
    and b: "check_budget cfg (ledger_usage fparse cfg (snd c) (fst c) lg) a w = None"
  from l obtain n where n: "cf_hard_daily_calls cfg = Some n" "l = of_int n" by (auto simp: of_limit_def)
  have "us_calls (usage_exact fparse cfg (snd c) (fst c) lg) ''claude-hard'' + 1 \<le> n"
    using a b n by (auto simp: check_budget_def ledger_usage_calls Let_def over_Some split: if_splits)
  then show "calls_amount fparse [''claude-hard''] c lg + 1 \<le> l"
    unfolding usage_calls_one [where cfg = cfg, symmetric] n(2) by linarith
qed

interpretation shared_calls: capped "try_reserve fparse cfg" try_settle try_append restart pending_of
  "clock_later cfg" ledger_sane "calls_amount fparse [''claude-ask'', ''claude-auto'']"
  "counted [''claude-ask'', ''claude-auto'']" "counts_in [''claude-ask'', ''claude-auto'']"
  "of_limit (cf_shared_daily_calls cfg)" 0
  for fparse cfg
proof (rule calls_capped)
  fix c lg a w l
  assume l: "of_limit (cf_shared_daily_calls cfg) = Some l" and a: "a \<in> set [''claude-ask'', ''claude-auto'']"
    and b: "check_budget cfg (ledger_usage fparse cfg (snd c) (fst c) lg) a w = None"
  from l obtain n where n: "cf_shared_daily_calls cfg = Some n" "l = of_int n" by (auto simp: of_limit_def)
  have "us_calls (usage_exact fparse cfg (snd c) (fst c) lg) ''claude-ask'' +
      us_calls (usage_exact fparse cfg (snd c) (fst c) lg) ''claude-auto'' + 1 \<le> n"
    using a b n by (auto simp: check_budget_def ledger_usage_calls Let_def over_Some split: if_splits)
  moreover have "calls_amount fparse [''claude-ask'', ''claude-auto''] c lg =
      calls_amount fparse [''claude-ask''] c lg + calls_amount fparse [''claude-auto''] c lg"
    by (rule calls_amount_two) simp
  ultimately show "calls_amount fparse [''claude-ask'', ''claude-auto''] c lg + 1 \<le> l"
    unfolding usage_calls_one [where cfg = cfg, symmetric] n(2) by simp
qed

section \<open>Properties\<close>

abbreviation spending where
  "spending fparse cfg \<equiv>
     spend_reach (try_reserve fparse cfg) try_settle try_append restart pending_of (clock_later cfg)"

lemmas spending_rules = spend_reach.intros
  [where rsv = "try_reserve fparse cfg" and stl = try_settle and app = try_append and rst = restart and
    held = pending_of and later = "clock_later cfg" for fparse cfg]

lemma measured_init [simp]: "measured share wt c ledger_init = 0"
  by (simp add: measured_def ledger_init_def)

lemma ledger_sane_init [simp]: "ledger_sane ledger_init"
  by (simp add: ledger_sane_def ledger_init_def)

text \<open>
  C16: However concurrent calls reserve, settle, are refused or are lost in a restart, and however the days
  and months pass, what the ledger shows for the day plus what is reserved stays within the day's cap,
  and likewise for the month, up to half a millionth of a dollar of rounding and what answers cost beyond
  their reservation.
\<close>

theorem spend_within_caps:
  assumes "spending fparse cfg c0 ledger_init c lg tr" and "0 \<le> cf_day_cap cfg" and "0 \<le> cf_month_cap cfg"
  shows "us_day_cost (usage_exact fparse cfg (snd c) (fst c) lg) \<le>
       cf_day_cap cfg + 1 / 2000000 + excess (\<lambda>_ w. w) (row_cost fparse cfg) tr \<and>
     us_month_cost (usage_exact fparse cfg (snd c) (fst c) lg) \<le>
       cf_month_cap cfg + 1 / 2000000 + excess (\<lambda>_ w. w) (row_cost fparse cfg) tr"
  using day_dollars.within_cap [OF assms(1) ledger_sane_init refl]
    month_dollars.within_cap [OF assms(1) ledger_sane_init refl] assms(2,3)
  by (simp add: usage_amounts) (simp add: day_amount_def month_amount_def)

definition sample_cfg :: config where
  "sample_cfg = \<lparr>cf_models = [(PStr ''sonnet'', PStr ''m'')], cf_prices = [(''m'', 3, 15)], cf_month_cap = 150, cf_day_cap = 7,
     cf_shared_daily_calls = None, cf_auto_daily_calls = Some 5, cf_hard_daily_calls = None, cf_tz = [],
     cf_keep_briefs = 0, cf_timeout_s = 900, cf_retry_delay_s = 2, cf_dedupe_s = 120\<rparr>"

definition sample_clock :: clock where
  "sample_clock = (100, \<lparr>pd_day = 0, pd_month = 0, pd_next_day = [], pd_next_month = []\<rparr>)"

lemma sample_reserved:
  "try_reserve (\<lambda>_. None) sample_cfg sample_clock ''t'' ''claude-auto'' 2 ledger_init =
     Some (ledger_init\<lparr>lg_pending := [(''t'', ''claude-auto'', 2)]\<rparr>)"
  by code_simp

lemma sample_spending:
  "spending (\<lambda>_. None) sample_cfg sample_clock ledger_init sample_clock
     (ledger_init\<lparr>lg_pending := [(''t'', ''claude-auto'', 2)]\<rparr>) []"
  by (rule spend_reserve [where s = ledger_init and k = "''t''" and a = "''claude-auto''" and w = 2])
    (simp_all add: spend_start sample_reserved, simp add: pending_of_def ledger_init_def)

theorem spend_within_caps_witness:
  "us_day_cost (usage_exact (\<lambda>_. None) sample_cfg (snd sample_clock) (fst sample_clock)
     (ledger_init\<lparr>lg_pending := [(''t'', ''claude-auto'', 2)]\<rparr>)) \<le> 7 + 1 / 2000000"
  using spend_within_caps [OF sample_spending] by (simp add: sample_cfg_def excess_def)

text \<open>A trace in which every settled row carries the alias it was reserved for, and the rest are refusals.\<close>

definition honest :: "((string \<times> rat) option \<times> pydict) list \<Rightarrow> bool" where
  "honest tr = list_all (\<lambda>(o', row). case o' of
       None \<Rightarrow> startswith (outcome_of row) ''refused''
     | Some (al, _) \<Rightarrow> dget row ''alias'' = PStr al) tr"

lemma honest_excess: "honest tr \<Longrightarrow> excess (counted als) (counts_in als) tr = 0"
proof (induction tr)
  case Nil
  then show ?case by (simp add: excess_def)
next
  case (Cons p tr)
  obtain o' row where p: "p = (o', row)" by (cases p)
  have "max 0 (counts_in als row - (case o' of None \<Rightarrow> 0 | Some (a, w) \<Rightarrow> counted als a w)) = 0"
    using Cons.prems p by (auto simp: honest_def counts_in_def counted_def is_call_def split: option.splits)
  with Cons p show ?case by (simp add: excess_def honest_def)
qed

text \<open>
  C29: The daily limits on the number of calls hold exactly, under the same concurrency: automatic calls,
  Opus calls, and the two Sonnet aliases together never exceed theirs.
\<close>

theorem calls_within_limits:
  assumes "spending fparse cfg c0 ledger_init c lg tr" and "honest tr"
    and "list_all (\<lambda>l. case l of None \<Rightarrow> True | Some n \<Rightarrow> 0 \<le> n)
           [cf_auto_daily_calls cfg, cf_hard_daily_calls cfg, cf_shared_daily_calls cfg]"
  shows "(let calls = us_calls (usage_exact fparse cfg (snd c) (fst c) lg) in
     (case cf_auto_daily_calls cfg of None \<Rightarrow> True | Some n \<Rightarrow> calls ''claude-auto'' \<le> n) \<and>
     (case cf_hard_daily_calls cfg of None \<Rightarrow> True | Some n \<Rightarrow> calls ''claude-hard'' \<le> n) \<and>
     (case cf_shared_daily_calls cfg of None \<Rightarrow> True | Some n \<Rightarrow> calls ''claude-ask'' + calls ''claude-auto'' \<le> n))"
proof -
  have init: "calls_amount fparse als c0 ledger_init = 0" for als by (simp add: calls_amount_def)
  have one: "of_int (us_calls (usage_exact fparse cfg (snd c) (fst c) lg) al) = calls_amount fparse [al] c lg" for al
    by (rule usage_calls_one)
  have auto: "calls_amount fparse [''claude-auto''] c lg \<le> of_int n" if "cf_auto_daily_calls cfg = Some n" for n
    using auto_calls.within_cap [OF assms(1) ledger_sane_init, of "of_int n"] that assms(3)
    by (simp add: of_limit_def init honest_excess [OF assms(2)])
  have hard: "calls_amount fparse [''claude-hard''] c lg \<le> of_int n" if "cf_hard_daily_calls cfg = Some n" for n
    using hard_calls.within_cap [OF assms(1) ledger_sane_init, of "of_int n"] that assms(3)
    by (simp add: of_limit_def init honest_excess [OF assms(2)])
  have shared: "calls_amount fparse [''claude-ask''] c lg + calls_amount fparse [''claude-auto''] c lg \<le> of_int n"
    if "cf_shared_daily_calls cfg = Some n" for n
    using shared_calls.within_cap [OF assms(1) ledger_sane_init, of "of_int n"] that assms(3)
      calls_amount_two [of "''claude-ask''" "''claude-auto''" fparse c lg]
    by (simp add: of_limit_def init honest_excess [OF assms(2)])
  show ?thesis
    using auto hard shared unfolding Let_def one [symmetric]
    by (auto split: option.splits simp del: of_int_add simp flip: of_int_add)
qed

theorem calls_within_limits_witness:
  "us_calls (usage_exact (\<lambda>_. None) sample_cfg (snd sample_clock) (fst sample_clock)
     (ledger_init\<lparr>lg_pending := [(''t'', ''claude-auto'', 2)]\<rparr>)) ''claude-auto'' \<le> 5"
  using calls_within_limits [OF sample_spending] by (simp add: sample_cfg_def honest_def Let_def)

section \<open>The file\<close>

lemma file_lines_torn:
  "file_lines_aux cur (s @ nl @ t) = file_lines_aux cur (s @ nl) @ file_lines_aux [] t"
  by (induction s arbitrary: cur) simp_all

lemma file_lines_line: "CHR 0x0A \<notin> set l \<Longrightarrow> file_lines_aux cur (l @ nl) = [rev cur @ l @ nl]"
  by (induction l arbitrary: cur) auto

text \<open>The text of a row has no newline, if the text of a float has none.\<close>

lemma json_char_no_nl: "CHR 0x0A \<notin> set (json_char c)"
proof -
  have "list_all (\<lambda>d. hex_digit d \<noteq> CHR 0x0A) [0..<16]" by code_simp
  then have h: "hex_digit d \<noteq> CHR 0x0A" if "d < 16" for d using that by (simp add: list_all_iff)
  have "cp c < 256" by simp
  then have "cp c div 16 < 16" "cp c mod 16 < 16" by (simp_all add: less_mult_imp_div_less del: nat_of_char_less_256)
  then have "hex_digit (cp c div 16) \<noteq> CHR 0x0A" "hex_digit (cp c mod 16) \<noteq> CHR 0x0A" using h by blast+
  then show ?thesis by (auto simp: json_char_def)
qed

lemma join_no_nl: "c \<notin> set sep \<Longrightarrow> (\<forall>s \<in> set ss. c \<notin> set s) \<Longrightarrow> c \<notin> set (join sep ss)"
  by (induction sep ss rule: join.induct) auto

lemma json_str_no_nl: "CHR 0x0A \<notin> set (json_str s)"
  using json_char_no_nl by (auto simp: json_str_def)

lemma show_int_no_nl: "CHR 0x0A \<notin> set (show_int i)"
  using show_nat_digits [of "CHR 0x0A"] by (auto simp: show_int_def is_digit_def)

lemma json_text_no_nl:
  "CHR 0x0A \<notin> set isep \<Longrightarrow> CHR 0x0A \<notin> set ksep \<Longrightarrow> (\<And>f. CHR 0x0A \<notin> set (sf f)) \<Longrightarrow>
     CHR 0x0A \<notin> set (json_text srt isep ksep sf v)"
proof (induction srt isep ksep sf v rule: json_text.induct)
  case (6 srt isep ksep sf xs)
  have "CHR 0x0A \<notin> set (join isep (map (json_text srt isep ksep sf) xs))"
    by (rule join_no_nl) (use 6 in auto)
  then show ?case by simp
next
  case (7 srt isep ksep sf d)
  let ?items = "map (\<lambda>p. (key_text sf (fst p), json_text srt isep ksep sf (snd p))) d"
  let ?out = "if srt then sort_key fst ?items else ?items"
  have "\<forall>p \<in> set ?out. CHR 0x0A \<notin> set (snd p)" using 7 by auto
  then have "CHR 0x0A \<notin> set (join isep (map (\<lambda>p. json_str (fst p) @ ksep @ snd p) ?out))"
    using 7(3) json_str_no_nl 7(2) by (intro join_no_nl) auto
  then show ?case by (simp add: Let_def)
qed (auto simp: show_int_no_nl json_str_no_nl)

text \<open>
  Appending a row to the ledger file adds exactly that row to what is read back, also when a crash left
  the last line torn: the torn line is ended first, and stays what it was. This holds for any reader of JSON that
  does not mind a newline after the text.
\<close>

theorem ledger_file_append:
  assumes "\<And>l. jparse (l @ nl) = jparse l" and "\<And>f. CHR 0x0A \<notin> set (sf f)"
    and "jparse (json_text True '', '' '': '' sf (PDict row)) = Some (PDict row')"
  shows "file_rows jparse (file_append sf row file_text) = file_rows jparse file_text @ [row']"
proof -
  define j where "j = json_text True '', '' '': '' sf (PDict row)"
  have parse: "jparse j = Some (PDict row')" using assms(3) by (simp only: j_def)
  have app: "file_append sf row file_text =
      file_text @ (if file_text \<noteq> [] \<and> last file_text \<noteq> CHR 0x0A then nl else []) @ j @ nl"
    by (simp only: file_append_def ledger_line_def j_def)
  have no: "CHR 0x0A \<notin> set j" unfolding j_def by (rule json_text_no_nl) (use assms(2) in auto)
  have line: "List.map_filter (row_of jparse) (file_lines_aux [] (j @ nl)) = [row']"
    using file_lines_line [OF no, of "[]"] assms(1) parse by (simp add: row_of_def List.map_filter_def)
  show ?thesis
  proof (cases "file_text = [] \<or> last file_text = CHR 0x0A")
    case True
    show ?thesis
    proof (cases "file_text = []")
      case True
      then have "file_append sf row file_text = j @ nl" "file_rows jparse file_text = []"
        unfolding app by (simp_all add: file_rows_def List.map_filter_def)
      with line show ?thesis by (simp add: file_rows_def)
    next
      case False
      with True obtain u where u: "file_text = u @ nl" by (metis append_butlast_last_id)
      have "file_lines_aux [] (u @ nl @ j @ nl) = file_lines_aux [] (u @ nl) @ file_lines_aux [] (j @ nl)"
        by (rule file_lines_torn)
      moreover have "file_append sf row file_text = u @ nl @ j @ nl" by (subst app) (simp add: u)
      ultimately show ?thesis
        using line unfolding u file_rows_def by (simp add: List.map_filter_def)
    qed
  next
    case False
    have torn: "List.map_filter (row_of jparse) (file_lines_aux cur (s @ nl)) =
        List.map_filter (row_of jparse) (file_lines_aux cur s)" if "rev cur @ s \<noteq> []" "s = [] \<or> last s \<noteq> CHR 0x0A" for cur s
      using that
    proof (induction s arbitrary: cur)
      case Nil
      have "jparse (rev cur @ nl) = jparse (rev cur)" by (rule assms(1))
      with Nil show ?case by (simp add: row_of_def List.map_filter_def)
    next
      case (Cons c s)
      have "row_of jparse (rev cur @ c # nl) = row_of jparse (rev cur @ [c])"
        using assms(1) [of "rev cur @ [c]"] by (simp add: row_of_def)
      with Cons show ?case by (cases "s = []") (auto simp: List.map_filter_def)
    qed
    have "file_lines_aux [] (file_text @ nl @ j @ nl) = file_lines_aux [] (file_text @ nl) @ file_lines_aux [] (j @ nl)"
      by (rule file_lines_torn)
    with line torn [of "[]" file_text] False show ?thesis
      by (simp add: file_rows_def app List.map_filter_def)
  qed
qed

text \<open>A reader that knows one text, and does not look behind a newline.\<close>

definition one_reader :: "string \<Rightarrow> pydict \<Rightarrow> string \<Rightarrow> pyval option" where
  "one_reader j row l = (if takeWhile (\<lambda>c. c \<noteq> CHR 0x0A) l = j then Some (PDict row) else None)"

end
