(* ===== verification/Escalation.thy ===== *)
theory Escalation
  imports Ledger
begin

text \<open>
  The escalation handler (scripts/files/escalation.py): the call to the upstream API with its one retry, the
  checks that come before it, and the settlement after it. \<open>handle\<close> is two functions, cut where the
  source awaits the answer, so that calls can interleave at the ledger.
\<close>

section \<open>The upstream call\<close>

text \<open>One attempt: the outer timeout, an exception of the HTTP library by class name, or a response.\<close>

datatype attempt =
    TotalTimeout
  | HttpError string
  | Response int "pyval option"

record post_result =
  po_status :: int
  po_data :: "pydict option"
  po_err :: string

definition never_sent :: "string list" where
  "never_sent = [''ConnectError'', ''ConnectTimeout'', ''PoolTimeout'']"

definition failed :: "int \<Rightarrow> string \<Rightarrow> post_result" where
  "failed st err = \<lparr>po_status = st, po_data = None, po_err = err\<rparr>"

text \<open>What an attempt settles: a final result, or (Inr) a failure that may be tried once more.\<close>

definition attempt_result :: "attempt \<Rightarrow> post_result + post_result" where
  "attempt_result a =
     (case a of
        TotalTimeout \<Rightarrow> Inl (failed 502 ''transport:TotalTimeout'')
      | HttpError cls \<Rightarrow>
          if cls \<in> set never_sent then Inr (failed 502 (''transport:'' @ cls))
          else Inl (failed 502 (''transport:'' @ cls))
      | Response st js \<Rightarrow>
          if st = 200
          then (case js of
                  Some (PDict d) \<Rightarrow> Inl \<lparr>po_status = 200, po_data = Some d, po_err = []\<rparr>
                | _ \<Rightarrow> Inl (failed 502 ''transport:bad_response''))
          else if st = 429 \<or> st \<ge> 500 then Inr (failed st (''http_'' @ show_int st))
          else Inl (failed st (''http_'' @ show_int st)))"

text \<open>\<open>_post\<close> on the attempts the network would give; the result and how many requests were sent.\<close>

definition post_call :: "(nat \<Rightarrow> attempt) \<Rightarrow> post_result \<times> nat" where
  "post_call net =
     (case attempt_result (net 0) of
        Inl r \<Rightarrow> (r, 1)
      | Inr _ \<Rightarrow> (case attempt_result (net 1) of Inl r \<Rightarrow> (r, 2) | Inr r \<Rightarrow> (r, 2)))"

section \<open>Looking back in the ledger\<close>

definition spent_or_budget_refused :: "(string \<Rightarrow> pyfloat option) \<Rightarrow> pydict \<Rightarrow> bool" where
  "spent_or_budget_refused fparse r =
     (let outcome = outcome_of r in
      outcome = ''ok'' \<or> outcome = ''refused:budget'' \<or>
      (startswith outcome ''error:'' \<and>
         (case finite_of fparse (dget r ''cost_usd'') of None \<Rightarrow> False | Some c \<Rightarrow> c > 0)))"

definition dup_age_of :: "(string \<Rightarrow> pyfloat option) \<Rightarrow> config \<Rightarrow> string \<Rightarrow> rat \<Rightarrow> pydict \<Rightarrow> rat option" where
  "dup_age_of fparse cfg sha now r =
     (if dget r ''brief_sha256'' \<noteq> PStr sha \<or> \<not> spent_or_budget_refused fparse r then None
      else case finite_of fparse (dget r ''ts'') of
        None \<Rightarrow> None
      | Some ts \<Rightarrow>
          if ts > now then None
          else (let ref = (case finite_of fparse (dget r ''done_ts'') of None \<Rightarrow> ts | Some d \<Rightarrow> max ts d)
                in if ref \<ge> now - cf_dedupe_s cfg then Some (max 0 (now - ref)) else None))"

definition duplicate_age :: "(string \<Rightarrow> pyfloat option) \<Rightarrow> config \<Rightarrow> ledger \<Rightarrow> string \<Rightarrow> rat \<Rightarrow> rat option" where
  "duplicate_age fparse cfg lg sha now =
     (if cf_dedupe_s cfg \<le> 0 then None
      else (case List.map_filter (dup_age_of fparse cfg sha now) (lg_rows lg) of
              [] \<Rightarrow> None | a # as \<Rightarrow> Some (fold min as a)))"

definition brief_refusals :: "string list" where
  "brief_refusals = [''brief_missing'', ''brief_section'', ''brief_too_large'', ''duplicate'', ''brief_loop'']"

definition breaker_window_s :: int where
  "breaker_window_s = 600"

definition breaker_count :: int where
  "breaker_count = 3"

fun streak_from :: "(string \<Rightarrow> pyfloat option) \<Rightarrow> rat \<Rightarrow> pydict list \<Rightarrow> int" where
  "streak_from fparse now [] = 0"
| "streak_from fparse now (r # rs) =
     (case finite_of fparse (dget r ''ts'') of
        None \<Rightarrow> streak_from fparse now rs
      | Some t \<Rightarrow>
          if t > now then streak_from fparse now rs
          else if now - t > of_int breaker_window_s \<or>
            outcome_of r \<notin> set (map (\<lambda>c. ''refused:'' @ c) brief_refusals) then 0
          else 1 + streak_from fparse now rs)"

definition rejection_streak :: "(string \<Rightarrow> pyfloat option) \<Rightarrow> ledger \<Rightarrow> rat \<Rightarrow> int" where
  "rejection_streak fparse lg now = streak_from fparse now (rev (lg_rows lg))"

definition ago :: "rat \<Rightarrow> string" where
  "ago age = (if age < 60 then ''under a minute ago''
     else ''under '' @ show_int (\<lfloor>age / 60\<rfloor> + 1) @ '' minutes ago'')"

section \<open>Answers\<close>

definition error_body :: "string \<Rightarrow> string \<Rightarrow> pydict" where
  "error_body code message =
     [(PStr ''error'', PDict [(PStr ''type'', PStr ''escalation''), (PStr ''code'', PStr code),
        (PStr ''message'', PStr (safe_message message))])]"

definition completion :: "string \<Rightarrow> string \<Rightarrow> string \<Rightarrow> int \<Rightarrow> int \<Rightarrow> pyval \<Rightarrow> rat \<Rightarrow> pydict" where
  "completion uid al txt it ot stop_reason now =
     [(PStr ''id'', PStr (''esc-'' @ uid)), (PStr ''object'', PStr ''chat.completion''),
      (PStr ''created'', PInt \<lfloor>now\<rfloor>), (PStr ''model'', PStr al),
      (PStr ''choices'', PList [PDict [(PStr ''index'', PInt 0),
         (PStr ''message'', PDict [(PStr ''role'', PStr ''assistant''), (PStr ''content'', PStr txt)]),
         (PStr ''finish_reason'', PStr (if stop_reason = PStr ''max_tokens'' then ''length'' else ''stop''))]]),
      (PStr ''usage'', PDict [(PStr ''prompt_tokens'', PInt it), (PStr ''completion_tokens'', PInt ot),
         (PStr ''total_tokens'', PInt (it + ot))])]"

text \<open>An \<open>http_<status>\<close> class is read back as its number.\<close>

definition upstream_message :: "string \<Rightarrow> string" where
  "upstream_message err =
     (let what = (if startswith err ''http_''
                  then (let ds = drop 5 err;
                            code = (if ds \<noteq> [] \<and> list_all is_digit ds then int (nat_of_digits ds) else 0)
                        in if code = 429 then ''Anthropic was busy''
                           else if code \<ge> 500 then ''Anthropic server error''
                           else ''Anthropic rejected the request'')
                  else err)
      in ''escalation: Anthropic call failed ('' @ what @ '')'')"

definition visible :: "char \<Rightarrow> bool" where
  "visible c = (33 \<le> cp c \<and> cp c \<le> 126)"

definition read_key :: "string option \<Rightarrow> string option" where
  "read_key content =
     (case content of
        None \<Rightarrow> None
      | Some c \<Rightarrow> if fullmatches (plus (Cls visible)) (strip c) then Some (strip c) else None)"

section \<open>handle, up to the call\<close>

text \<open>
  The moment, the parts of the world the handler reads (hash, key file, fresh tokens), and whether
  a write to the ledger succeeds.
\<close>

record world =
  w_fparse :: "string \<Rightarrow> pyfloat option"
  w_iparse :: "string \<Rightarrow> int option"
  w_sha :: "string \<Rightarrow> string"
  w_now :: rat
  w_period :: period
  w_key_file :: "string option"
  w_token :: string
  w_append_ok :: bool

datatype handled = Answer int pydict | Unwind | Raises exn

record call =
  ca_alias :: string
  ca_model :: string
  ca_row :: pydict
  ca_token :: string
  ca_worst :: rat
  ca_brief :: string
  ca_now :: rat

definition base_row :: "world \<Rightarrow> string \<Rightarrow> pyval \<Rightarrow> string \<Rightarrow> string \<Rightarrow> pydict" where
  "base_row w al model origin brief =
     [(PStr ''ts'', PFloat (Fin (w_now w))), (PStr ''alias'', PStr al), (PStr ''model'', model),
      (PStr ''origin'', PStr origin), (PStr ''input_tokens'', PInt 0), (PStr ''output_tokens'', PInt 0),
      (PStr ''cost_usd'', PFloat (Fin 0)), (PStr ''brief_sha256'', PStr (w_sha w brief)),
      (PStr ''brief_tokens_est'', PInt (estimate_tokens brief))]"

definition refuse_call :: "world \<Rightarrow> pydict \<Rightarrow> ledger \<Rightarrow> int \<times> string \<times> string \<Rightarrow> handled \<times> ledger" where
  "refuse_call w row lg r =
     (case r of (st, code0, msg0) \<Rightarrow>
        let n = rejection_streak (w_fparse w) lg (w_now w) + 1;
            stop = (code0 \<in> set brief_refusals \<and> n \<ge> breaker_count);
            code = (if stop then ''brief_loop'' else code0);
            msg = (if stop
                   then ''STOP: '' @ show_int n @ '' briefs rejected in a row in the last '' @
                     show_int (breaker_window_s div 60) @ '' minutes. Do not send another brief; show '' @
                     ''the user the brief and the reason below, and let them decide.'' @ nl @ msg0
                   else msg0)
        in case append_row (w_append_ok w) (dput ''outcome'' (PStr (''refused:'' @ code)) row) lg of
             Inl e \<Rightarrow> (Raises e, lg)
           | Inr lg' \<Rightarrow> (Answer st (error_body code msg), lg'))"

definition priced :: "config \<Rightarrow> pyval \<Rightarrow> string option" where
  "priced cfg model =
     (case model of PStr m \<Rightarrow> if m \<noteq> [] \<and> map_of (cf_prices cfg) m \<noteq> None then Some m else None | _ \<Rightarrow> None)"

definition model_text :: "pyval \<Rightarrow> string" where
  "model_text model = (case model of PStr m \<Rightarrow> m | _ \<Rightarrow> ''None'')"

definition handle_start :: "config \<Rightarrow> world \<Rightarrow> string \<Rightarrow> alias_spec \<Rightarrow> pydict \<Rightarrow> ledger \<Rightarrow> (handled + call) \<times> ledger" where
  "handle_start cfg w al spec body lg =
     (let model = dget (cf_models cfg) (al_tier spec);
          brief0 = brief_text body;
          brief = (case brief0 of None \<Rightarrow> [] | Some b \<Rightarrow> b);
          row = base_row w al model (al_origin spec) brief;
          no = (\<lambda>r. case refuse_call w row lg r of (h, l) \<Rightarrow> (Inl h, l))
      in if brief0 = None then no (422, ''brief_missing'', ''brief: no user message'')
         else case validate_brief brief al of
           Some bad \<Rightarrow> no bad
         | None \<Rightarrow>
         (case priced cfg model of
            None \<Rightarrow> no (424, ''unpriced'', ''escalation: no price configured for '' @ model_text model)
          | Some m \<Rightarrow>
         (case read_key (w_key_file w) of
            None \<Rightarrow> no (424, ''no_key'', ''escalation: no Anthropic key configured'')
          | Some _ \<Rightarrow>
         (case duplicate_age (w_fparse w) cfg lg (w_sha w brief) (w_now w) of
            Some age \<Rightarrow> no (400, ''duplicate'', ''brief: identical brief already sent '' @ ago age @ '' -- change it or wait'')
          | None \<Rightarrow>
              (let worst = the (worst_cost cfg m (estimate_tokens brief) (min (al_max_answer spec) reserve_answer_tokens))
               in case reserve (w_fparse w) cfg (w_period w) (w_now w) (w_token w) al (Fin worst) lg of
                    (Inl reason, _) \<Rightarrow> no (402, ''budget'', reason)
                  | (Inr token, lg') \<Rightarrow>
                      (Inr \<lparr>ca_alias = al, ca_model = m, ca_row = row, ca_token = token, ca_worst = worst,
                            ca_brief = brief, ca_now = w_now w\<rparr>, lg'))))))"

section \<open>handle, after the call\<close>

datatype call_end = Cancelled | Unexpected | Posted post_result

text \<open>\<^verbatim>\<open>int(v or 0)\<close>.\<close>

definition int_or_zero :: "(string \<Rightarrow> int option) \<Rightarrow> pyval \<Rightarrow> int option" where
  "int_or_zero iparse v =
     (if \<not> truthy v then Some 0
      else case v of
        PInt i \<Rightarrow> Some i | PBool b \<Rightarrow> Some 1
      | PFloat (Fin r) \<Rightarrow> Some (if r < 0 then - \<lfloor>- r\<rfloor> else \<lfloor>r\<rfloor>)
      | PStr s \<Rightarrow> iparse s
      | _ \<Rightarrow> None)"

definition usage_of :: "(string \<Rightarrow> int option) \<Rightarrow> pydict \<Rightarrow> (int \<times> int) option" where
  "usage_of iparse data =
     (let u = dget data ''usage'' in
      case (if truthy u then u else PDict []) of
        PDict d \<Rightarrow>
          (case (int_or_zero iparse (dget d ''input_tokens''), int_or_zero iparse (dget d ''output_tokens'')) of
             (Some it, Some ot) \<Rightarrow>
               if \<bar>it\<bar> < float_limit \<and> \<bar>ot\<bar> < float_limit \<and> 0 \<le> it \<and> 0 \<le> ot then Some (it, ot) else None
           | _ \<Rightarrow> None)
      | _ \<Rightarrow> None)"

definition answer_text :: "pydict \<Rightarrow> string" where
  "answer_text data =
     (case dget data ''content'' of
        PList bs \<Rightarrow> concat (List.map_filter text_part bs) | _ \<Rightarrow> [])"

definition final_row :: "call \<Rightarrow> rat \<Rightarrow> pydict \<Rightarrow> pydict" where
  "final_row ca elapsed row = dput ''done_ts'' (PFloat (Fin (round_to 3 (ca_now ca + elapsed)))) row"

definition charge :: "call \<Rightarrow> rat \<Rightarrow> string \<Rightarrow> pydict" where
  "charge ca cost outcome =
     dput ''outcome'' (PStr outcome) (dput ''cost_usd'' (PFloat (Fin (round_to 6 cost))) (ca_row ca))"

text \<open>\<open>settle\<close> inside the handler: the row is written and the reservation dropped, or it stays held.\<close>

definition settle_or :: "bool \<Rightarrow> rat \<Rightarrow> call \<Rightarrow> pydict \<Rightarrow> ledger \<Rightarrow> handled \<Rightarrow> handled \<times> ledger" where
  "settle_or ok elapsed ca row lg h =
     (case settle ok (ca_token ca) (final_row ca elapsed row) lg of
        Inr lg' \<Rightarrow> (h, lg')
      | Inl _ \<Rightarrow> ((case h of Unwind \<Rightarrow> Unwind
                   | _ \<Rightarrow> Answer 424 (error_body ''ledger'' ''escalation: could not record the call; budget held until restart'')), lg))"

definition failure_cost :: "call \<Rightarrow> string \<Rightarrow> rat" where
  "failure_cost ca err =
     (if startswith err ''transport'' \<and> err \<notin> set (map (\<lambda>c. ''transport:'' @ c) never_sent) then ca_worst ca else 0)"

definition handle_finish :: "config \<Rightarrow> world \<Rightarrow> string \<Rightarrow> rat \<Rightarrow> call \<Rightarrow> call_end \<Rightarrow> ledger \<Rightarrow> handled \<times> ledger" where
  "handle_finish cfg w uid elapsed ca e lg =
     (let ok = w_append_ok w;
          fail = (\<lambda>err. settle_or ok elapsed ca (charge ca (failure_cost ca err) (''error:'' @ err)) lg
                    (Answer 424 (error_body ''upstream'' (upstream_message err))))
      in case e of
        Cancelled \<Rightarrow> settle_or ok elapsed ca (charge ca (ca_worst ca) ''error:cancelled'') lg Unwind
      | Unexpected \<Rightarrow> fail ''transport:unexpected''
      | Posted r \<Rightarrow>
          (case po_data r of
             None \<Rightarrow> fail (po_err r)
           | Some data \<Rightarrow>
               (case usage_of (w_iparse w) data of
                  None \<Rightarrow> fail ''transport:bad_usage''
                | Some (it, ot) \<Rightarrow>
                    (let cost = the (call_cost cfg (ca_model ca) it ot);
                         row = dput ''output_tokens'' (PInt ot) (dput ''input_tokens'' (PInt it) (charge ca cost ''ok''));
                         answer = (\<lambda>l. Answer 200 (completion uid (ca_alias ca)
                           (answer_text data @ footer cfg (ca_model ca) cost
                              (ledger_usage (w_fparse w) cfg (w_period w) (ca_now ca) l))
                           it ot (dget data ''stop_reason'') (ca_now ca)))
                     in settle_or ok elapsed ca row lg (answer (release (ca_token ca)
                          (lg\<lparr>lg_rows := lg_rows lg @ [final_row ca elapsed row]\<rparr>)))))))"

section \<open>Statuses\<close>

definition quiet :: "int \<Rightarrow> bool" where
  "quiet st = (st \<in> {200, 400, 402, 413, 422, 424})"

lemma quiet_not_retried: "quiet st \<Longrightarrow> st \<noteq> 408 \<and> st \<noteq> 409 \<and> st \<noteq> 429 \<and> st < 500"
  by (auto simp: quiet_def)

text \<open>The message of an error payload.\<close>

definition error_message :: "pydict \<Rightarrow> string option" where
  "error_message d =
     (case dget d ''error'' of PDict e \<Rightarrow> as_str (dget e ''message'') | _ \<Rightarrow> None)"

lemma error_message_body [simp]: "error_message (error_body code msg) = Some (safe_message msg)"
  by (simp add: error_message_def error_body_def dget_def)

definition answer_ok :: "handled \<Rightarrow> bool" where
  "answer_ok h =
     (case h of
        Answer st d \<Rightarrow> quiet st \<and> (st = 200 \<or> (\<exists>msg. error_message d = Some msg \<and> \<not> retry_trigger msg))
      | _ \<Rightarrow> True)"

lemma answer_ok_error: "quiet st \<Longrightarrow> answer_ok (Answer st (error_body code msg))"
  by (simp add: answer_ok_def safe_message_quiet)

lemma refuse_call_ok:
  "refuse_call w row lg (st, code, msg) = (h, lg') \<Longrightarrow> quiet st \<Longrightarrow>
     answer_ok h \<and> (lg' = lg \<or> (\<exists>row'. append_row True row' lg = Inr lg' \<and> startswith (outcome_of row') ''refused''))"
  by (cases "w_append_ok w")
    (auto simp: refuse_call_def Let_def append_row_def answer_ok_error, auto simp: answer_ok_def outcome_of_def)

lemma validate_brief_status: "validate_brief b al = Some (st, code, msg) \<Longrightarrow> quiet st"
  by (auto simp: validate_brief_def Let_def quiet_def split: if_splits)

text \<open>The two ways the first half ends, with what it did to the ledger.\<close>

lemma handle_start_cases:
  assumes "handle_start cfg w al spec body lg = (r, lg')"
  obtains (refused) h st code msg row where "r = Inl h" "quiet st" "refuse_call w row lg (st, code, msg) = (h, lg')"
  | (placed) brief m worst where
      "brief_text body = Some brief" "validate_brief brief al = None"
      "priced cfg (dget (cf_models cfg) (al_tier spec)) = Some m" "read_key (w_key_file w) \<noteq> None"
      "duplicate_age (w_fparse w) cfg lg (w_sha w brief) (w_now w) = None"
      "worst = the (worst_cost cfg m (estimate_tokens brief) (min (al_max_answer spec) reserve_answer_tokens))"
      "reserve (w_fparse w) cfg (w_period w) (w_now w) (w_token w) al (Fin worst) lg = (Inr (w_token w), lg')"
      "r = Inr \<lparr>ca_alias = al, ca_model = m,
         ca_row = base_row w al (dget (cf_models cfg) (al_tier spec)) (al_origin spec) brief,
         ca_token = w_token w, ca_worst = worst, ca_brief = brief, ca_now = w_now w\<rparr>"
proof -
  let ?model = "dget (cf_models cfg) (al_tier spec)"
  have q: "quiet 422" "quiet 424" "quiet 400" "quiet 402" by (simp_all add: quiet_def)
  show thesis
  proof (cases "brief_text body")
    case None
    obtain h l where rc: "refuse_call w (base_row w al ?model (al_origin spec) []) lg
        (422, ''brief_missing'', ''brief: no user message'') = (h, l)" by fastforce
    with assms None have "r = Inl h" "lg' = l" by (auto simp: handle_start_def Let_def)
    with rc q(1) refused show thesis by blast
  next
    case (Some brief)
    let ?row = "base_row w al ?model (al_origin spec) brief"
    have no: thesis if "handle_start cfg w al spec body lg =
        (case refuse_call w ?row lg (st, code, msg) of (h, l) \<Rightarrow> (Inl h, l))" "quiet st" for st code msg
    proof -
      obtain h l where rc: "refuse_call w ?row lg (st, code, msg) = (h, l)" by fastforce
      with assms that have "r = Inl h" "lg' = l" by auto
      with rc that(2) refused show thesis by blast
    qed
    show thesis
    proof (cases "validate_brief brief al")
      case bad: (Some b)
      obtain st code msg where b: "b = (st, code, msg)" by (cases b)
      show thesis
        by (rule no [of st code msg])
          (use Some bad b validate_brief_status in \<open>auto simp: handle_start_def Let_def\<close>)
    next
      case valid: None
      show thesis
      proof (cases "priced cfg ?model")
        case None
        show thesis
          by (rule no [of 424 "''unpriced''" "''escalation: no price configured for '' @ model_text ?model"])
            (use Some valid None q(2) in \<open>simp_all add: handle_start_def Let_def\<close>)
      next
        case priced: (Some m)
        show thesis
        proof (cases "read_key (w_key_file w)")
          case None
          show thesis
            by (rule no [of 424 "''no_key''" "''escalation: no Anthropic key configured''"])
              (use Some valid priced None q(2) in \<open>simp_all add: handle_start_def Let_def\<close>)
        next
          case key: (Some k)
          show thesis
          proof (cases "duplicate_age (w_fparse w) cfg lg (w_sha w brief) (w_now w)")
            case dup: (Some age)
            show thesis
              by (rule no [of 400 "''duplicate''"
                    "''brief: identical brief already sent '' @ ago age @ '' -- change it or wait''"])
                (use Some valid priced key dup q(3) in \<open>simp_all add: handle_start_def Let_def\<close>)
          next
            case fresh: None
            let ?worst = "the (worst_cost cfg m (estimate_tokens brief) (min (al_max_answer spec) reserve_answer_tokens))"
            obtain o' l where rs: "reserve (w_fparse w) cfg (w_period w) (w_now w) (w_token w) al (Fin ?worst) lg = (o', l)"
              by fastforce
            show thesis
            proof (cases o')
              case (Inl reason)
              show thesis
                by (rule no [of 402 "''budget''" reason])
                  (use Some valid priced key fresh rs Inl q(4) in \<open>simp_all add: handle_start_def Let_def\<close>)
            next
              case (Inr token)
              have "token = w_token w"
                using rs Inr by (auto simp: reserve_def split: if_splits option.splits)
              with assms Some valid priced key fresh rs Inr placed show thesis
                by (auto simp: handle_start_def Let_def)
            qed
          qed
        qed
      qed
    qed
  qed
qed

lemma answer_ok_200: "answer_ok (Answer 200 d)"
  by (simp add: answer_ok_def quiet_def)

lemma settle_or_ok: "answer_ok h \<Longrightarrow> answer_ok (fst (settle_or ok elapsed ca row lg h))"
  by (cases h) (auto simp: settle_or_def quiet_def answer_ok_error answer_ok_def safe_message_quiet split: sum.splits)

lemma upstream_ok: "answer_ok (Answer 424 (error_body ''upstream'' msg))"
  by (rule answer_ok_error) (simp add: quiet_def)

text \<open>
  Every answer of the broker, before or after the call, has one of the statuses 200, 400, 402, 413,
  422, 424, never one the client resends, and no error message contains a text that makes it resend.
\<close>

theorem handler_never_triggers_retry:
  "(case fst (handle_start cfg w al spec body lg) of Inl h \<Rightarrow> answer_ok h | Inr _ \<Rightarrow> True) \<and>
   answer_ok (fst (handle_finish cfg w2 uid elapsed ca e lg2))"
proof
  obtain r lg' where r: "handle_start cfg w al spec body lg = (r, lg')" by fastforce
  then show "case fst (handle_start cfg w al spec body lg) of Inl h \<Rightarrow> answer_ok h | Inr _ \<Rightarrow> True"
  proof (cases rule: handle_start_cases)
    case (refused h st code msg row)
    with r refuse_call_ok show ?thesis by simp
  next
    case placed
    with r show ?thesis by simp
  qed
next
  have ok: "answer_ok Unwind" by (simp add: answer_ok_def)
  show "answer_ok (fst (handle_finish cfg w2 uid elapsed ca e lg2))"
    unfolding handle_finish_def Let_def
    by (auto simp: settle_or_ok ok upstream_ok answer_ok_200 split: call_end.split option.split prod.split)
qed

text \<open>
  At most two requests are sent for a call, and the second only when the first provably never left the
  host or was answered 429 or with a server error, which bill nothing; a timeout or a broken answer is final.
\<close>

theorem post_retries_only_unbilled:
  "let (r, sends) = post_call net in
     1 \<le> sends \<and> sends \<le> 2 \<and>
     (sends = 2 \<longleftrightarrow> (case net 0 of
        HttpError cls \<Rightarrow> cls \<in> set never_sent
      | Response st _ \<Rightarrow> st \<noteq> 200 \<and> (st = 429 \<or> st \<ge> 500)
      | TotalTimeout \<Rightarrow> False)) \<and>
     (po_data r \<noteq> None \<longleftrightarrow> (\<exists>d. net (sends - 1) = Response 200 (Some (PDict d))))"
proof -
  have data: "(\<exists>d. a = Response 200 (Some (PDict d))) \<longleftrightarrow>
      (case attempt_result a of Inl r \<Rightarrow> po_data r \<noteq> None | Inr r \<Rightarrow> po_data r \<noteq> None)" for a
    by (cases a) (auto simp: attempt_result_def failed_def split: option.splits pyval.splits)
  have again: "(case attempt_result a of Inl _ \<Rightarrow> False | Inr _ \<Rightarrow> True) \<longleftrightarrow> (case a of
        HttpError cls \<Rightarrow> cls \<in> set never_sent
      | Response st _ \<Rightarrow> st \<noteq> 200 \<and> (st = 429 \<or> st \<ge> 500)
      | TotalTimeout \<Rightarrow> False)" for a
    by (cases a) (auto simp: attempt_result_def split: option.splits pyval.splits)
  show ?thesis
    using data [of "net 0"] data [of "net 1"] again [of "net 0"]
    by (cases "attempt_result (net 0)"; cases "attempt_result (net 1)") (simp_all add: post_call_def)
qed

section \<open>What a finished call leaves in the ledger\<close>

definition settled_cost :: "config \<Rightarrow> (string \<Rightarrow> int option) \<Rightarrow> call \<Rightarrow> attempt \<Rightarrow> rat" where
  "settled_cost cfg iparse ca a =
     (case a of
        TotalTimeout \<Rightarrow> ca_worst ca
      | HttpError cls \<Rightarrow> if cls \<in> set never_sent then 0 else ca_worst ca
      | Response st js \<Rightarrow>
          if st \<noteq> 200 then 0
          else (case js of
                  Some (PDict d) \<Rightarrow>
                    (case usage_of iparse d of
                       None \<Rightarrow> ca_worst ca
                     | Some (it, ot) \<Rightarrow> the (call_cost cfg (ca_model ca) it ot))
                | _ \<Rightarrow> ca_worst ca))"

lemma dget_charge [simp]:
  "dget (charge ca c out) ''cost_usd'' = PFloat (Fin (round_to 6 c))"
  "dget (charge ca c out) ''alias'' = dget (ca_row ca) ''alias''"
  by (simp_all add: charge_def)

lemma dget_final [simp]: "k \<noteq> ''done_ts'' \<Longrightarrow> dget (final_row ca el row) k = dget row k"
  by (simp add: final_row_def)

definition records :: "bool \<Rightarrow> call \<Rightarrow> rat \<Rightarrow> ledger \<Rightarrow> ledger \<Rightarrow> bool" where
  "records ok ca cost lg lg' \<longleftrightarrow>
     (if ok
      then \<exists>row. lg_rows lg' = lg_rows lg @ [row] \<and> lg_pending lg' = alist_del (ca_token ca) (lg_pending lg) \<and>
             dget row ''cost_usd'' = PFloat (Fin (round_to 6 cost)) \<and> dget row ''alias'' = dget (ca_row ca) ''alias''
      else lg' = lg)"

lemma settle_or_records:
  assumes "dget row ''cost_usd'' = PFloat (Fin (round_to 6 cost))" and "dget row ''alias'' = dget (ca_row ca) ''alias''"
  shows "records ok ca cost lg (snd (settle_or ok elapsed ca row lg h))"
  using assms by (auto simp: records_def settle_or_def settle_def append_row_def release_def)

lemma failure_cost_simps:
  "failure_cost ca ''transport:unexpected'' = ca_worst ca"
  "failure_cost ca ''transport:bad_usage'' = ca_worst ca"
  "failure_cost ca ''transport:bad_response'' = ca_worst ca"
  "failure_cost ca ''transport:TotalTimeout'' = ca_worst ca"
  "failure_cost ca (''transport:'' @ cls) = (if cls \<in> set never_sent then 0 else ca_worst ca)"
  "failure_cost ca (''http_'' @ s) = 0"
  by (auto simp: failure_cost_def never_sent_def)

lemma attempt_result_cost:
  assumes "attempt_result a = Inl r \<or> attempt_result a = Inr r"
  shows "settled_cost cfg iparse ca a =
     (case po_data r of
        None \<Rightarrow> failure_cost ca (po_err r)
      | Some d \<Rightarrow> (case usage_of iparse d of None \<Rightarrow> ca_worst ca | Some (it, ot) \<Rightarrow> the (call_cost cfg (ca_model ca) it ot)))"
proof (cases a)
  case TotalTimeout
  with assms show ?thesis by (auto simp: attempt_result_def failed_def settled_cost_def failure_cost_simps)
next
  case (HttpError cls)
  with assms have "r = failed 502 (''transport:'' @ cls)" by (auto simp: attempt_result_def split: if_splits)
  moreover have "failure_cost ca (''transport:'' @ cls) = (if cls \<in> set never_sent then 0 else ca_worst ca)"
    by (rule failure_cost_simps(5))
  ultimately show ?thesis using HttpError by (simp add: failed_def settled_cost_def)
next
  case (Response st js)
  show ?thesis
  proof (cases "st = 200")
    case True
    show ?thesis
    proof (cases "\<exists>d. js = Some (PDict d)")
      case True
      with \<open>st = 200\<close> Response assms show ?thesis by (auto simp: attempt_result_def settled_cost_def)
    next
      case False
      with \<open>st = 200\<close> Response assms show ?thesis
        by (auto simp: attempt_result_def settled_cost_def failed_def failure_cost_simps split: option.splits pyval.splits)
    qed
  next
    case False
    with Response assms have "r = failed st (''http_'' @ show_int st)"
      by (auto simp: attempt_result_def split: if_splits)
    moreover have "failure_cost ca (''http_'' @ show_int st) = 0" by (rule failure_cost_simps(6))
    ultimately show ?thesis using Response False by (simp add: failed_def settled_cost_def)
  qed
qed

lemma finish_posted:
  "records (w_append_ok w) ca
     (case po_data r of
        None \<Rightarrow> failure_cost ca (po_err r)
      | Some d \<Rightarrow> (case usage_of (w_iparse w) d of None \<Rightarrow> ca_worst ca | Some (it, ot) \<Rightarrow> the (call_cost cfg (ca_model ca) it ot)))
     lg (snd (handle_finish cfg w uid elapsed ca (Posted r) lg))"
proof (cases "po_data r")
  case None
  then show ?thesis unfolding handle_finish_def Let_def by (simp add: settle_or_records)
next
  case (Some d)
  show ?thesis
  proof (cases "usage_of (w_iparse w) d")
    case None
    with Some show ?thesis unfolding handle_finish_def Let_def
      by (simp add: settle_or_records failure_cost_simps)
  next
    case (Some p)
    obtain it ot where p: "p = (it, ot)" by (cases p)
    show ?thesis unfolding handle_finish_def Let_def
      using \<open>po_data r = Some d\<close> Some p by (simp add: settle_or_records charge_def)
  qed
qed

lemma finish_unposted:
  "records (w_append_ok w) ca (ca_worst ca) lg (snd (handle_finish cfg w uid elapsed ca Cancelled lg))"
  "records (w_append_ok w) ca (ca_worst ca) lg (snd (handle_finish cfg w uid elapsed ca Unexpected lg))"
  unfolding handle_finish_def Let_def by (simp_all add: settle_or_records failure_cost_simps)

lemma post_call_attempt: "\<exists>r. (r = fst (post_call net)) \<and>
    (attempt_result (net (snd (post_call net) - 1)) = Inl r \<or> attempt_result (net (snd (post_call net) - 1)) = Inr r)"
  by (cases "attempt_result (net 0)"; cases "attempt_result (net 1)") (simp_all add: post_call_def)

text \<open>
  A finished call leaves exactly one row and gives its reservation back, in one step: the row carries
  the reported cost of an answer, the worst case of anything that may have reached the API without a readable
  answer, and nothing for a request that was never sent or was answered with an error. If the row cannot be written
  the ledger stays as it is, the reservation held.
\<close>

theorem finished_call_settles_once:
  "(let (r, sends) = post_call net in
      records (w_append_ok w) ca (settled_cost cfg (w_iparse w) ca (net (sends - 1))) lg
        (snd (handle_finish cfg w uid elapsed ca (Posted r) lg))) \<and>
   (\<forall>e \<in> {Cancelled, Unexpected}.
      records (w_append_ok w) ca (ca_worst ca) lg (snd (handle_finish cfg w uid elapsed ca e lg)))"
proof
  obtain r sends where p: "post_call net = (r, sends)" by fastforce
  then have "attempt_result (net (sends - 1)) = Inl r \<or> attempt_result (net (sends - 1)) = Inr r"
    using post_call_attempt [of net] by simp
  note cost = attempt_result_cost [OF this, of cfg "w_iparse w" ca]
  show "let (r, sends) = post_call net in
      records (w_append_ok w) ca (settled_cost cfg (w_iparse w) ca (net (sends - 1))) lg
        (snd (handle_finish cfg w uid elapsed ca (Posted r) lg))"
    unfolding p Let_def prod.case cost by (rule finish_posted)
next
  show "\<forall>e \<in> {Cancelled, Unexpected}.
      records (w_append_ok w) ca (ca_worst ca) lg (snd (handle_finish cfg w uid elapsed ca e lg))"
    by (simp add: finish_unposted)
qed

definition sample_world :: world where
  "sample_world = \<lparr>w_fparse = (\<lambda>_. None), w_iparse = (\<lambda>_. None), w_sha = id, w_now = 100,
     w_period = \<lparr>pd_day = 0, pd_month = 0, pd_next_day = [], pd_next_month = []\<rparr>, w_key_file = Some ''k'',
     w_token = ''t'', w_append_ok = True\<rparr>"

definition sample_call :: call where
  "sample_call = \<lparr>ca_alias = ''claude-ask'', ca_model = ''m'', ca_row = [(PStr ''alias'', PStr ''claude-ask'')],
     ca_token = ''t'', ca_worst = 2, ca_brief = [], ca_now = 100\<rparr>"

section \<open>Duplicates and loops of bad briefs\<close>

definition no_recent_duplicate :: "(string \<Rightarrow> pyfloat option) \<Rightarrow> config \<Rightarrow> ledger \<Rightarrow> string \<Rightarrow> rat \<Rightarrow> bool" where
  "no_recent_duplicate fparse cfg lg sha now \<longleftrightarrow>
     (\<forall>r \<in> set (lg_rows lg).
        dget r ''brief_sha256'' = PStr sha \<and> spent_or_budget_refused fparse r \<longrightarrow>
        (case finite_of fparse (dget r ''ts'') of
           None \<Rightarrow> True
         | Some ts \<Rightarrow> ts > now \<or>
             (ts < now - cf_dedupe_s cfg \<and>
              (case finite_of fparse (dget r ''done_ts'') of None \<Rightarrow> True | Some d \<Rightarrow> d < now - cf_dedupe_s cfg))))"

lemma duplicate_age_None:
  assumes "duplicate_age fparse cfg lg sha now = None"
  shows "cf_dedupe_s cfg \<le> 0 \<or> no_recent_duplicate fparse cfg lg sha now"
proof (cases "cf_dedupe_s cfg \<le> 0")
  case True
  then show ?thesis by simp
next
  case False
  with assms have none: "List.map_filter (dup_age_of fparse cfg sha now) (lg_rows lg) = []"
    by (auto simp: duplicate_age_def split: list.splits)
  have "case finite_of fparse (dget r ''ts'') of
           None \<Rightarrow> True
         | Some ts \<Rightarrow> ts > now \<or>
             (ts < now - cf_dedupe_s cfg \<and>
              (case finite_of fparse (dget r ''done_ts'') of None \<Rightarrow> True | Some d \<Rightarrow> d < now - cf_dedupe_s cfg))"
    if "r \<in> set (lg_rows lg)" "dget r ''brief_sha256'' = PStr sha" "spent_or_budget_refused fparse r" for r
  proof -
    from none that(1) have "dup_age_of fparse cfg sha now r = None"
      by (auto simp: List.map_filter_def filter_empty_conv)
    with that(2,3) show ?thesis
      by (auto simp: dup_age_of_def Let_def max_def split: option.splits if_splits)
  qed
  then show ?thesis by (simp add: no_recent_duplicate_def)
qed

text \<open>
  A call is placed only for a brief that passes the check, with a priced model, a key, a reservation
  that fitted the budget, and no identical brief that was answered, charged or refused for budget
  within the deduplication window, counted from when that call finished.
\<close>

theorem placed_call_was_checked:
  assumes "handle_start cfg w al spec body lg = (Inr ca, lg')"
  shows "brief_text body = Some (ca_brief ca) \<and> validate_brief (ca_brief ca) al = None \<and>
     map_of (cf_prices cfg) (ca_model ca) \<noteq> None \<and> read_key (w_key_file w) \<noteq> None \<and>
     check_budget cfg (ledger_usage (w_fparse w) cfg (w_period w) (w_now w) lg) al (ca_worst ca) = None \<and>
     pending_of lg' (ca_token ca) = Some (al, ca_worst ca) \<and> lg_rows lg' = lg_rows lg \<and>
     (cf_dedupe_s cfg \<le> 0 \<or> no_recent_duplicate (w_fparse w) cfg lg (w_sha w (ca_brief ca)) (w_now w))"
  using assms
proof (cases rule: handle_start_cases)
  case refused
  then show ?thesis by simp
next
  case (placed brief m worst)
  have "map_of (cf_prices cfg) m \<noteq> None" using placed(3) by (auto simp: priced_def split: pyval.splits if_splits)
  moreover have "pending_of lg' (w_token w) = Some (al, worst)" "lg_rows lg' = lg_rows lg"
    "check_budget cfg (ledger_usage (w_fparse w) cfg (w_period w) (w_now w) lg) al worst = None"
    using placed(7) by (auto simp: reserve_def pending_of_def split: if_splits option.splits)
  moreover have "ca_brief ca = brief" "ca_model ca = m" "ca_token ca = w_token w" "ca_worst ca = worst"
    using placed(8) by simp_all
  ultimately show ?thesis
    using placed(1,2,4) duplicate_age_None [OF placed(5)] by simp
qed

definition sample_body :: pydict where
  "sample_body = [(PStr ''messages'', PList [PDict [(PStr ''role'', PStr ''user''),
     (PStr ''content'', PStr (render_brief sample_secs))]])]"

definition ask_spec :: alias_spec where
  "ask_spec = \<lparr>al_origin = ''user'', al_tier = ''sonnet'', al_max_brief = 8192, al_max_answer = answer_max_tokens\<rparr>"

lemma sample_start:
  "\<exists>ca lg'. handle_start sample_cfg sample_world ''claude-ask'' ask_spec sample_body ledger_init = (Inr ca, lg')"
proof -
  have b: "brief_text sample_body = Some (render_brief sample_secs)"
    by (simp add: brief_text_def sample_body_def dget_def)
  have p: "priced sample_cfg (dget (cf_models sample_cfg) (al_tier ask_spec)) = Some ''m''" by code_simp
  have k: "read_key (w_key_file sample_world) = Some ''k''" by code_simp
  have d: "duplicate_age (w_fparse sample_world) sample_cfg ledger_init sha (w_now sample_world) = None" for sha
    by (simp add: duplicate_age_def ledger_init_def List.map_filter_def)
  have r: "fst (reserve (w_fparse sample_world) sample_cfg (w_period sample_world) (w_now sample_world) (w_token sample_world)
      ''claude-ask'' (Fin (the (worst_cost sample_cfg ''m'' (estimate_tokens (render_brief sample_secs))
        (min (al_max_answer ask_spec) reserve_answer_tokens)))) ledger_init) = Inr ''t''" by code_simp
  show ?thesis
    using r unfolding handle_start_def Let_def b option.case sample_brief_valid p k d
    by (cases "reserve (w_fparse sample_world) sample_cfg (w_period sample_world) (w_now sample_world) (w_token sample_world)
      ''claude-ask'' (Fin (the (worst_cost sample_cfg ''m'' (estimate_tokens (render_brief sample_secs))
        (min (al_max_answer ask_spec) reserve_answer_tokens)))) ledger_init") auto
qed

section \<open>Concurrent requests\<close>

text \<open>
  The broker with any number of requests in flight: a request begins (and is refused, or is placed), the call of
  a request ends in any way, the clock moves, the router restarts and forgets the calls in flight.
\<close>

inductive esc_reach ::
  "(string \<Rightarrow> pyfloat option) \<Rightarrow> config \<Rightarrow> clock \<Rightarrow> clock \<Rightarrow> ledger \<Rightarrow> call list \<Rightarrow> bool"
  for fparse cfg c0 where
  esc_start: "esc_reach fparse cfg c0 c0 ledger_init []"
| esc_tick: "esc_reach fparse cfg c0 c lg fl \<Longrightarrow> clock_later cfg c c' \<Longrightarrow> esc_reach fparse cfg c0 c' lg fl"
| esc_begin: "esc_reach fparse cfg c0 c lg fl \<Longrightarrow> w_fparse w = fparse \<Longrightarrow> (w_now w, w_period w) = c \<Longrightarrow>
     pending_of lg (w_token w) = None \<Longrightarrow> map_of esc_aliases al = Some spec \<Longrightarrow>
     handle_start cfg w al spec body lg = (r, lg') \<Longrightarrow>
     esc_reach fparse cfg c0 c lg' (case r of Inl _ \<Rightarrow> fl | Inr ca \<Rightarrow> ca # fl)"
| esc_end: "esc_reach fparse cfg c0 c lg fl \<Longrightarrow> ca \<in> set fl \<Longrightarrow>
     handle_finish cfg w uid elapsed ca e lg = (h, lg') \<Longrightarrow> esc_reach fparse cfg c0 c lg' (remove1 ca fl)"
| esc_restart: "esc_reach fparse cfg c0 c lg fl \<Longrightarrow> esc_reach fparse cfg c0 c (restart lg) []"

definition calls_held :: "ledger \<Rightarrow> call list \<Rightarrow> bool" where
  "calls_held lg fl \<longleftrightarrow>
     distinct (map ca_token fl) \<and>
     (\<forall>ca \<in> set fl. pending_of lg (ca_token ca) = Some (ca_alias ca, ca_worst ca) \<and>
        dget (ca_row ca) ''alias'' = PStr (ca_alias ca))"

lemma calls_held_remove:
  assumes "calls_held lg fl" and "ca \<in> set fl" and "lg_pending lg' = alist_del (ca_token ca) (lg_pending lg)"
  shows "calls_held lg' (remove1 ca fl)"
proof -
  have d: "distinct (map ca_token fl)" using assms(1) by (simp add: calls_held_def)
  then have inj: "inj_on ca_token (set fl)" and df: "distinct fl" by (simp_all add: distinct_map)
  have "x \<in> set fl \<and> ca_token x \<noteq> ca_token ca" if "x \<in> set (remove1 ca fl)" for x
    using that df inj assms(2) by (auto simp: set_remove1_eq inj_on_eq_iff)
  moreover have "distinct (map ca_token (remove1 ca fl))"
    using inj df by (auto simp: distinct_map set_remove1_eq intro: inj_on_subset)
  ultimately show ?thesis
    using assms(1,3) by (auto simp: calls_held_def pending_of_def)
qed

lemma calls_held_remove_same: "calls_held lg fl \<Longrightarrow> calls_held lg (remove1 ca fl)"
  by (auto simp: calls_held_def distinct_map set_remove1_eq intro: inj_on_subset)

text \<open>
  C14: The handler refines the budget's contract: whatever requests run at once, however their calls end and
  whatever writes fail, the ledger is one the reservation contract allows, with every row settled under the alias
  it was reserved for. So the caps and limits that hold of the contract hold of the running broker.
\<close>

theorem handler_refines_budget:
  assumes "esc_reach fparse cfg c0 c lg fl"
  shows "\<exists>tr. spending fparse cfg c0 ledger_init c lg tr \<and> honest tr \<and> calls_held lg fl"
  using assms
proof (induction rule: esc_reach.induct)
  case esc_start
  have "spending fparse cfg c0 ledger_init c0 ledger_init []" by (rule spending_rules(1))
  then show ?case by (auto simp: honest_def calls_held_def)
next
  case (esc_tick c lg fl c')
  then obtain tr where "spending fparse cfg c0 ledger_init c lg tr" "honest tr" "calls_held lg fl" by blast
  with spending_rules(2) [OF _ esc_tick(2)] show ?case by blast
next
  case (esc_begin c lg fl w al spec body r lg')
  then obtain tr where tr: "spending fparse cfg c0 ledger_init c lg tr" "honest tr" "calls_held lg fl" by blast
  from esc_begin(6) show ?case
  proof (cases rule: handle_start_cases)
    case (refused h st code msg row)
    from refuse_call_ok [OF refused(3,2)]
    consider "lg' = lg" | row' where "append_row True row' lg = Inr lg'" "startswith (outcome_of row') ''refused''"
      by blast
    then show ?thesis
    proof cases
      case 1
      with tr refused(1) show ?thesis by auto
    next
      case 2
      then have app: "try_append row' lg = Some lg'" by (simp add: try_append_def)
      from spending_rules(5) [OF tr(1) app] have "spending fparse cfg c0 ledger_init c lg' ((None, row') # tr)" .
      moreover have "honest ((None, row') # tr)" using tr(2) 2(2) by (simp add: honest_def)
      moreover have "calls_held lg' fl" using tr(3) app by (simp add: calls_held_def pending_of_def try_append_Some)
      ultimately show ?thesis using refused(1) by auto
    qed
  next
    case (placed brief m worst)
    have cl: "w_fparse w = fparse" "w_now w = fst c" "w_period w = snd c" using esc_begin(2,3) by auto
    have rs: "try_reserve fparse cfg c (w_token w) al worst lg = Some lg'"
      using placed(7) by (simp add: try_reserve_def cl)
    have lg': "lg' = lg\<lparr>lg_pending := alist_put (w_token w) (al, worst) (lg_pending lg)\<rparr>"
      using try_reserve_Some [OF rs] by blast
    have "calls_held lg' (the_elem (set_option (case r of Inl _ \<Rightarrow> None | Inr ca \<Rightarrow> Some ca)) # fl)"
      using tr(3) esc_begin(4) lg' placed(8)
      by (auto simp: calls_held_def pending_of_def base_row_def dget_def)
    with spending_rules(3) [OF tr(1) esc_begin(4) rs] tr(2) placed(8) show ?thesis by auto
  qed
next
  case (esc_end c lg fl ca w uid elapsed e h lg')
  then obtain tr where tr: "spending fparse cfg c0 ledger_init c lg tr" "honest tr" "calls_held lg fl" by blast
  have held: "pending_of lg (ca_token ca) = Some (ca_alias ca, ca_worst ca)" "dget (ca_row ca) ''alias'' = PStr (ca_alias ca)"
    using tr(3) esc_end(2) by (auto simp: calls_held_def)
  have lg': "lg' = snd (handle_finish cfg w uid elapsed ca e lg)" using esc_end(3) by simp
  have "\<exists>cost. records (w_append_ok w) ca cost lg lg'"
    unfolding lg' by (cases e) (auto intro: finish_posted finish_unposted)
  then obtain cost where rc: "records (w_append_ok w) ca cost lg lg'" by blast
  show ?case
  proof (cases "w_append_ok w")
    case True
    with rc obtain row where row: "lg_rows lg' = lg_rows lg @ [row]"
      "lg_pending lg' = alist_del (ca_token ca) (lg_pending lg)" "dget row ''alias'' = PStr (ca_alias ca)"
      using held(2) by (auto simp: records_def)
    then have st: "try_settle (ca_token ca) row lg = Some lg'" by (simp add: try_settle_Some)
    from spending_rules(4) [OF tr(1) held(1) st]
    have "spending fparse cfg c0 ledger_init c lg' ((Some (ca_alias ca, ca_worst ca), row) # tr)" .
    moreover have "honest ((Some (ca_alias ca, ca_worst ca), row) # tr)" using tr(2) row(3) by (simp add: honest_def)
    ultimately show ?thesis using calls_held_remove [OF tr(3) esc_end(2) row(2)] by blast
  next
    case False
    with rc have "lg' = lg" by (simp add: records_def)
    with tr calls_held_remove_same show ?thesis by blast
  qed
next
  case (esc_restart c lg fl)
  then obtain tr where "spending fparse cfg c0 ledger_init c lg tr" "honest tr" by blast
  with spending_rules(6) [of fparse cfg c0 ledger_init c lg tr] show ?case by (auto simp: calls_held_def)
qed

theorem handler_refines_budget_witness:
  "\<exists>ca lg' tr. spending (\<lambda>_. None) sample_cfg sample_clock ledger_init sample_clock lg' tr \<and> calls_held lg' [ca]"
proof -
  obtain ca lg' where st: "handle_start sample_cfg sample_world ''claude-ask'' ask_spec sample_body ledger_init = (Inr ca, lg')"
    using sample_start by blast
  have al: "map_of esc_aliases ''claude-ask'' = Some ask_spec" by (simp add: esc_aliases_def ask_spec_def)
  have "esc_reach (\<lambda>_. None) sample_cfg sample_clock sample_clock lg' [ca]"
    using esc_begin [where w = sample_world and al = "''claude-ask''" and spec = ask_spec and r = "Inr ca"
        and body = sample_body and lg' = lg' and cfg = sample_cfg and ?c0.0 = sample_clock and fparse = "\<lambda>_. None",
        OF esc_start] st al
    by (simp add: sample_world_def sample_clock_def pending_of_def ledger_init_def)
  from handler_refines_budget [OF this] show ?thesis by blast
qed

end
