(* ===== verification/Aliases.thy ===== *)
theory Aliases
  imports PyVal PyRegex VisionGuard AccessKeys
begin

text \<open>
  Client-facing chat aliases: the sampling tables and defaults of
  \<^verbatim>\<open>scripts/files/alias_defaults.py\<close>, and from \<^verbatim>\<open>scripts/files/router-app.py\<close> the table of
  aliases, their resolution, the swap profiles, the rewriting of the answers' text, and the
  error envelope. Each definition names the function it models; a body is a dictionary.
\<close>

section \<open>Sampling defaults (alias_defaults.py)\<close>

definition dec2 :: "int \<Rightarrow> pyval" where
  "dec2 n = PFloat (Fin (of_int n / 100))"

definition qwen38_think_sampling :: pydict where
  "qwen38_think_sampling =
     [(PStr ''temperature'', dec2 100), (PStr ''top_p'', dec2 95), (PStr ''top_k'', PInt 20),
      (PStr ''min_p'', dec2 0), (PStr ''presence_penalty'', dec2 0)]"

definition qwen38_nothink_sampling :: pydict where
  "qwen38_nothink_sampling =
     [(PStr ''temperature'', dec2 70), (PStr ''top_p'', dec2 80), (PStr ''top_k'', PInt 20),
      (PStr ''min_p'', dec2 0), (PStr ''presence_penalty'', dec2 150)]"

definition qwen36_think_sampling :: pydict where
  "qwen36_think_sampling =
     [(PStr ''temperature'', dec2 100), (PStr ''top_p'', dec2 95), (PStr ''top_k'', PInt 20),
      (PStr ''min_p'', dec2 0), (PStr ''presence_penalty'', dec2 150)]"

definition qwen36_nothink_sampling :: pydict where
  "qwen36_nothink_sampling =
     [(PStr ''temperature'', dec2 70), (PStr ''top_p'', dec2 80), (PStr ''top_k'', PInt 20),
      (PStr ''min_p'', dec2 0), (PStr ''presence_penalty'', dec2 150)]"

definition obliterated_sampling :: pydict where
  "obliterated_sampling =
     [(PStr ''temperature'', dec2 20), (PStr ''repetition_penalty'', dec2 115)]"

record alias_info =
  ai_backend :: string
  ai_thinking :: "bool option"
  ai_strip :: bool
  ai_effort :: "string option"
  ai_sampling :: pydict

text \<open>The template arguments an alias asks for; an empty effort counts as none.\<close>

definition template_defaults :: "alias_info \<Rightarrow> pydict" where
  "template_defaults ai =
     (case ai_thinking ai of None \<Rightarrow> [] | Some b \<Rightarrow> [(PStr ''enable_thinking'', PBool b)]) @
     (case ai_effort ai of None \<Rightarrow> []
      | Some e \<Rightarrow> if e = [] then [] else [(PStr ''reasoning_effort'', PStr e)])"

text \<open>Storing under each key of a dictionary that is not there yet.\<close>

fun set_defaults :: "pydict \<Rightarrow> pydict \<Rightarrow> pydict" where
  "set_defaults [] d = d"
| "set_defaults ((PStr k, v) # ds) d = set_defaults ds (dsetdefault k v d)"
| "set_defaults (_ # ds) d = set_defaults ds d"

text \<open>
  \<open>apply_alias_defaults\<close>. The body's own \<^verbatim>\<open>chat_template_kwargs\<close> is used as a dictionary
  whatever it is, so any other value raises.
\<close>

definition with_backend :: "string \<Rightarrow> pydict \<Rightarrow> pydict" where
  "with_backend b body =
     (case dlook body ''model'' of
        Some m \<Rightarrow> if m \<noteq> PStr b then dput ''model'' (PStr b) body else body
      | None \<Rightarrow> body)"

definition apply_alias_defaults :: "pydict \<Rightarrow> alias_info \<Rightarrow> pydict res" where
  "apply_alias_defaults body ai =
     (let out = with_backend (ai_backend ai) body;
          defaults = template_defaults ai
      in bind_res
           (if defaults = [] then Inr out
            else (let out1 = dsetdefault ''chat_template_kwargs'' (PDict []) out
                  in case dget out1 ''chat_template_kwargs'' of
                       PDict kwargs \<Rightarrow>
                         Inr (dput ''chat_template_kwargs'' (PDict (set_defaults defaults kwargs)) out1)
                     | _ \<Rightarrow> Inl AttributeError))
           (\<lambda>out2. Inr (set_defaults (ai_sampling ai) out2)))"

section \<open>The alias table (router-app.py)\<close>

definition thinking :: "string \<Rightarrow> pydict \<Rightarrow> alias_info" where
  "thinking backend sampling =
     \<lparr>ai_backend = backend, ai_thinking = Some True, ai_strip = False, ai_effort = None,
      ai_sampling = sampling\<rparr>"

definition no_thinking :: "string \<Rightarrow> pydict \<Rightarrow> alias_info" where
  "no_thinking backend sampling =
     \<lparr>ai_backend = backend, ai_thinking = Some False, ai_strip = True, ai_effort = None,
      ai_sampling = sampling\<rparr>"

definition plain_alias :: "string \<Rightarrow> alias_info" where
  "plain_alias backend =
     \<lparr>ai_backend = backend, ai_thinking = None, ai_strip = False, ai_effort = None, ai_sampling = []\<rparr>"

definition alias_map :: "(string \<times> alias_info) list" where
  "alias_map =
     [(''rag-qwen3.6'', no_thinking ''rag-qwen3.6'' qwen36_nothink_sampling),
      (''qwen3.6-think'', thinking ''rag-qwen3.6'' qwen36_think_sampling),
      (''qwen3.6'', thinking ''rag-qwen3.6'' qwen36_think_sampling),
      (''rag-qwen3.6-fast'', no_thinking ''rag-qwen3.6-fast'' qwen36_nothink_sampling),
      (''qwen3.6-fast-think'', thinking ''rag-qwen3.6-fast'' qwen36_think_sampling),
      (''qwen3.6-fast'', thinking ''rag-qwen3.6-fast'' qwen36_think_sampling),
      (''devstral'', plain_alias ''devstral''),
      (''devstral-large'', plain_alias ''devstral-large''),
      (''rag-qwen3.8'', no_thinking ''qwen3.8'' qwen38_nothink_sampling),
      (''qwen3.8-nothink'', no_thinking ''qwen3.8'' qwen38_nothink_sampling),
      (''qwen3.8-think'', (thinking ''qwen3.8'' qwen38_think_sampling)\<lparr>ai_effort := Some ''medium''\<rparr>),
      (''qwen3.8'', (thinking ''qwen3.8'' qwen38_think_sampling)\<lparr>ai_effort := Some ''medium''\<rparr>),
      (''qwen3.8-xhigh'', (thinking ''qwen3.8'' qwen38_think_sampling)\<lparr>ai_effort := Some ''xhigh''\<rparr>),
      (''hemmingway'', no_thinking ''hemmingway'' qwen38_nothink_sampling),
      (''qwen3.8-redteam'', no_thinking ''qwen3.8-redteam'' obliterated_sampling),
      (''qwen3.8-redteam-think'',
         (thinking ''qwen3.8-redteam'' obliterated_sampling)\<lparr>ai_effort := Some ''medium''\<rparr>)]"

definition backend_to_profile :: "(string \<times> string) list" where
  "backend_to_profile =
     [(''rag-qwen3.6'', ''qwen3.6''),
      (''rag-qwen3.6-fast'', ''qwen3.6-fast''),
      (''devstral'', ''devstral''),
      (''devstral-large'', ''devstral-large''),
      (''qwen3.8'', ''qwen3.8''),
      (''hemmingway'', ''hemmingway''),
      (''qwen3.8-redteam'', ''qwen3.8-redteam'')]"

text \<open>\<open>RAG_MODEL_RE\<close>, \<open>NOTHINK_HINT\<close>, \<open>THINK_RE\<close> and \<open>CONTEXT_MARKER_RE\<close>.\<close>

definition rag_model_re :: rx where
  "rag_model_re = Alt (Cat Bos (liti ''rag-'')) (Cat (liti ''-rag'') Eos)"

definition nothink_hint :: rx where
  "nothink_hint = alts [liti ''/no_think'', liti ''hide thinking'', liti ''strip reasoning'']"

definition think_re :: rx where
  "think_re = cats [lit ''<think>'', lazystar (Cls (\<lambda>_. True)), lit ''</think>'']"

definition spaces0 :: rx where
  "spaces0 = star (Cls is_space)"

definition spaces1 :: rx where
  "spaces1 = plus (Cls is_space)"

definition context_word :: rx where
  "context_word = alts [lit ''CONTEXT'', lit ''Context'', lit ''context'']"

definition context_marker_re :: rx where
  "context_marker_re =
     cats [spaces0, Cls (\<lambda>c. c \<in> {CHR ''['', CHR ''(''}), spaces0, context_word, spaces1, plus (Cls is_digit),
           star (cats [spaces0, ch (CHR '',''), spaces0, opt (Cat context_word spaces1), plus (Cls is_digit)]),
           spaces0, Cls (\<lambda>c. c \<in> {CHR '']'', CHR '')''})]"

text \<open>
  \<open>resolve_alias\<close>. A name that is no string raises: an unhashable one at the table, any other at
  the regular expression.
\<close>

definition resolve_name :: "string \<Rightarrow> alias_info" where
  "resolve_name m =
     (case map_of alias_map m of
        Some ai \<Rightarrow> ai
      | None \<Rightarrow>
          if re_search rag_model_re m \<noteq> None then no_thinking m []
          else plain_alias m)"

definition resolve_alias :: "pyval \<Rightarrow> alias_info res" where
  "resolve_alias v = (case v of PStr m \<Rightarrow> Inr (resolve_name m) | _ \<Rightarrow> Inl TypeError)"

definition is_swap_exempt :: "string \<Rightarrow> bool" where
  "is_swap_exempt m = startswith m ''rag-''"

text \<open>
  \<open>should_strip_thinking\<close>: a header, a field of the body, a hint in the system message, then the
  alias. The first message is looked at before anything checked the shape of the messages.
\<close>

fun first_message :: "pyval \<Rightarrow> pydict option res" where
  "first_message (PList (PDict m # _)) = Inr (Some m)"
| "first_message (PList (_ # _)) = Inl AttributeError"
| "first_message (PStr (_ # _)) = Inl AttributeError"
| "first_message (PDict (_ # _)) = Inl KeyError"
| "first_message v = (if truthy v then Inl TypeError else Inr None)"

definition yes_word :: "string \<Rightarrow> bool" where
  "yes_word s = (lower s \<in> {''true'', ''1'', ''yes''})"

definition should_strip_thinking :: "pydict \<Rightarrow> string option \<Rightarrow> bool res" where
  "should_strip_thinking body header =
     (case header of
        Some h \<Rightarrow> Inr (yes_word h)
      | None \<Rightarrow>
          (case dlook body ''strip_thinking'' of
             Some v \<Rightarrow> Inr (truthy v)
           | None \<Rightarrow>
               bind_res (first_message (dget_or body ''messages'' (PList []))) (\<lambda>m.
                 let hint = (case m of
                               None \<Rightarrow> False
                             | Some d \<Rightarrow> dget d ''role'' = PStr ''system'' \<and>
                                 re_search nothink_hint (message_text (PDict d)) \<noteq> None)
                 in if hint then Inr True
                    else bind_res (resolve_alias (dget_or body ''model'' (PStr [])))
                           (\<lambda>ai. Inr (ai_strip ai)))))"

text \<open>The rewriting of an answer's text: \<open>THINK_RE\<close>, then \<open>CONTEXT_MARKER_RE\<close>, each if it is on.\<close>

definition drop_think :: "string \<Rightarrow> string" where
  "drop_think s = re_sub think_re (\<lambda>_ _. []) s"

definition drop_markers :: "string \<Rightarrow> string" where
  "drop_markers s = re_sub context_marker_re (\<lambda>_ _. []) s"

definition rewrite_text :: "bool \<Rightarrow> bool \<Rightarrow> string \<Rightarrow> string" where
  "rewrite_text think markers s =
     (let s1 = (if think then drop_think s else s) in if markers then drop_markers s1 else s1)"

text \<open>\<open>_approx_text_from_messages\<close>\<close>

definition piece_text :: "pyval \<Rightarrow> pyval option" where
  "piece_text v =
     (case v of PDict d \<Rightarrow> if dget d ''type'' = PStr ''text'' then Some (dget_or d ''text'' (PStr [])) else None
      | _ \<Rightarrow> None)"

definition message_parts :: "pyval \<Rightarrow> pyval list res" where
  "message_parts m =
     (case m of
        PDict d \<Rightarrow>
          (case dget_or d ''content'' (PStr []) of
             PStr s \<Rightarrow> Inr [PStr s]
           | PList ps \<Rightarrow> Inr (List.map_filter piece_text ps)
           | _ \<Rightarrow> Inr [])
      | _ \<Rightarrow> Inl AttributeError)"

definition join_strs :: "string \<Rightarrow> pyval list \<Rightarrow> string res" where
  "join_strs sep vs = (if list_all is_pstr vs then Inr (join sep (List.map_filter as_str vs)) else Inl TypeError)"

text \<open>What a \<^verbatim>\<open>for\<close> loop over a value sees.\<close>

fun items_of :: "pyval \<Rightarrow> pyval list res" where
  "items_of (PList xs) = Inr xs"
| "items_of (PStr s) = Inr (map (\<lambda>c. PStr [c]) s)"
| "items_of (PDict d) = Inr (map fst d)"
| "items_of _ = Inl TypeError"

definition approx_text_from_messages :: "pyval \<Rightarrow> string res" where
  "approx_text_from_messages messages =
     bind_res (items_of messages) (\<lambda>ms.
     bind_res (map_res message_parts ms) (\<lambda>ps. join_strs [CHR 0x0A] (concat ps)))"

text \<open>\<open>_approx_text_from_anthropic\<close>\<close>

definition approx_text_from_anthropic :: "pydict \<Rightarrow> string res" where
  "approx_text_from_anthropic body =
     (let parts = (case dget body ''system'' of
                     PStr s \<Rightarrow> [PStr s]
                   | PList blks \<Rightarrow> List.map_filter piece_text blks
                   | _ \<Rightarrow> [])
      in bind_res (approx_text_from_messages (dget_or body ''messages'' (PList []))) (\<lambda>t.
           join_strs [CHR 0x0A] (parts @ [PStr t])))"

section \<open>Errors\<close>

text \<open>\<open>_error_body\<close> and the types \<open>http_exception_handler\<close> gives to status codes.\<close>

definition openai_error_body :: "string \<Rightarrow> string \<Rightarrow> pydict" where
  "openai_error_body error_type message =
     [(PStr ''error'', PDict [(PStr ''type'', PStr error_type), (PStr ''message'', PStr message),
        (PStr ''code'', PNone)])]"

definition type_map :: "(int \<times> string) list" where
  "type_map =
     [(400, ''bad_request''), (401, ''unauthorized''), (403, ''forbidden''), (404, ''not_found''),
      (413, ''request_too_large''), (429, ''rate_limit_exceeded''), (500, ''internal_error''),
      (502, ''bad_gateway''), (503, ''service_unavailable''), (504, ''gateway_timeout'')]"

definition http_exception_handler :: "int \<Rightarrow> string \<Rightarrow> int \<times> pydict" where
  "http_exception_handler status detail =
     (status,
      openai_error_body (case map_of type_map status of Some t \<Rightarrow> t | None \<Rightarrow> ''error'') detail)"

text \<open>
  \<open>_read_json_body\<close>: the capped read (its refusals are HTTP exceptions, a huge number in the
  header is not caught) and then the JSON parser, a parameter.
\<close>

datatype 'a http = Raise exn | Http int string | Ok 'a

definition read_json_body ::
    "(string \<Rightarrow> pyval option) \<Rightarrow> string option \<Rightarrow> string list \<Rightarrow> nat \<Rightarrow> pydict http" where
  "read_json_body parse content_length chs max_bytes =
     (case read_body_capped content_length chs max_bytes of
        Inl (BodyTooLarge, _) \<Rightarrow>
          Http 413 (''request body exceeds ROUTER_MAX_BODY_BYTES='' @ show_nat max_bytes)
      | Inl (BadRequestBody msg, _) \<Rightarrow> Http 400 msg
      | Inl (HeaderValueError, _) \<Rightarrow> Raise ValueError
      | Inr raw \<Rightarrow>
          (case parse raw of
             None \<Rightarrow> Http 400 ''request body is not valid JSON''
           | Some (PDict d) \<Rightarrow> Ok d
           | Some _ \<Rightarrow> Http 400 ''request body must be a JSON object''))"

section \<open>Client values win\<close>

text \<open>A template argument of a body, wherever the body has a dictionary of them.\<close>

definition template_kwarg :: "pydict \<Rightarrow> string \<Rightarrow> pyval option" where
  "template_kwarg body k =
     (case dlook body ''chat_template_kwargs'' of Some (PDict d) \<Rightarrow> dlook d k | _ \<Rightarrow> None)"

definition str_keys :: "pydict \<Rightarrow> bool" where
  "str_keys d = list_all (\<lambda>p. is_pstr (fst p)) d"

lemma dlook_set_defaults:
  "str_keys ds \<Longrightarrow>
   dlook (set_defaults ds d) k = (case dlook d k of Some v \<Rightarrow> Some v | None \<Rightarrow> dlook ds k)"
proof (induction ds d rule: set_defaults.induct)
  case (2 j v ds d)
  then show ?case by (auto simp: str_keys_def split: option.splits)
qed (auto simp: str_keys_def split: option.splits)

lemma str_keys_template [simp]: "str_keys (template_defaults ai)"
  by (auto simp: str_keys_def template_defaults_def split: option.splits)

definition table_ok :: "alias_info \<Rightarrow> bool" where
  "table_ok ai = (str_keys (ai_sampling ai) \<and> dlook (ai_sampling ai) ''model'' = None \<and>
     dlook (ai_sampling ai) ''chat_template_kwargs'' = None \<and> ai_backend ai \<noteq> [])"

lemmas sampling_defs = qwen38_think_sampling_def qwen38_nothink_sampling_def
  qwen36_think_sampling_def qwen36_nothink_sampling_def obliterated_sampling_def

lemma alias_map_ok: "list_all (\<lambda>p. table_ok (snd p)) alias_map"
  by (simp add: alias_map_def table_ok_def str_keys_def sampling_defs thinking_def no_thinking_def plain_alias_def)

lemma resolve_name_sampling:
  "str_keys (ai_sampling (resolve_name m))"
  "dlook (ai_sampling (resolve_name m)) ''model'' = None"
  "dlook (ai_sampling (resolve_name m)) ''chat_template_kwargs'' = None"
proof -
  have "table_ok ai" if "map_of alias_map m = Some ai" for ai
    using alias_map_ok map_of_SomeD [OF that] by (auto simp: list_all_iff)
  then show "str_keys (ai_sampling (resolve_name m))"
    "dlook (ai_sampling (resolve_name m)) ''model'' = None"
    "dlook (ai_sampling (resolve_name m)) ''chat_template_kwargs'' = None"
    by (auto simp: resolve_name_def table_ok_def str_keys_def no_thinking_def plain_alias_def
        split: option.splits)
qed

lemma dlook_with_backend [simp]:
  "dlook (with_backend b body) k =
     (if k = ''model'' then map_option (\<lambda>_. PStr b) (dlook body ''model'') else dlook body k)"
  by (auto simp: with_backend_def split: option.splits)

lemma apply_alias_defaults_fields:
  assumes "apply_alias_defaults body (resolve_name m) = Inr out"
  shows "\<forall>k. k \<noteq> ''model'' \<and> k \<noteq> ''chat_template_kwargs'' \<longrightarrow>
           dlook out k = (case dlook body k of Some v \<Rightarrow> Some v | None \<Rightarrow> dlook (ai_sampling (resolve_name m)) k)" (is ?A)
    and "\<forall>k. template_kwarg out k =
           (case template_kwarg body k of Some v \<Rightarrow> Some v | None \<Rightarrow> dlook (template_defaults (resolve_name m)) k)" (is ?B)
    and "dlook out ''model'' = map_option (\<lambda>_. PStr (ai_backend (resolve_name m))) (dlook body ''model'')" (is ?C)
proof -
  let ?ai = "resolve_name m"
  let ?out = "with_backend (ai_backend ?ai) body"
  note look = dlook_set_defaults [OF resolve_name_sampling(1)] resolve_name_sampling(2,3)
  have "?A \<and> ?B \<and> ?C"
  proof (cases "template_defaults ?ai = []")
    case True
    with assms have out: "out = set_defaults (ai_sampling ?ai) ?out"
      by (simp add: apply_alias_defaults_def Let_def)
    show ?thesis unfolding out template_kwarg_def True
      by (auto simp: look split: option.splits pyval.splits)
  next
    case False
    let ?out1 = "dsetdefault ''chat_template_kwargs'' (PDict []) ?out"
    from False assms obtain kw where kw: "dget ?out1 ''chat_template_kwargs'' = PDict kw"
      and out: "out = set_defaults (ai_sampling ?ai)
                  (dput ''chat_template_kwargs'' (PDict (set_defaults (template_defaults ?ai) kw)) ?out1)"
      by (auto simp: apply_alias_defaults_def Let_def split: pyval.splits)
    have kwargs: "dlook kw k = template_kwarg body k" for k
      using kw by (auto simp: template_kwarg_def dget_def look split: option.splits)
    show ?thesis unfolding out template_kwarg_def [of "set_defaults _ _"]
      by (auto simp: look dlook_set_defaults kwargs split: option.splits)
  qed
  then show ?A ?B ?C by blast+
qed

text \<open>
  Whatever the alias, a value the client sent wins: every field of the body keeps its value, every template
  argument in its \<^verbatim>\<open>chat_template_kwargs\<close> too, and the defaults of the alias fill exactly the
  fields and arguments the client left out. Only \<^verbatim>\<open>model\<close> changes, to the backend of the alias.
\<close>

theorem client_values_win:
  assumes "apply_alias_defaults body (resolve_name m) = Inr out"
  shows "(\<forall>k. k \<noteq> ''model'' \<and> k \<noteq> ''chat_template_kwargs'' \<longrightarrow>
            dlook out k = (case dlook body k of Some v \<Rightarrow> Some v | None \<Rightarrow> dlook (ai_sampling (resolve_name m)) k)) \<and>
         (\<forall>k. template_kwarg out k =
            (case template_kwarg body k of Some v \<Rightarrow> Some v | None \<Rightarrow> dlook (template_defaults (resolve_name m)) k)) \<and>
         dlook out ''model'' = map_option (\<lambda>_. PStr (ai_backend (resolve_name m))) (dlook body ''model'')"
  using apply_alias_defaults_fields [OF assms] by blast

definition sample_chat :: pydict where
  "sample_chat =
     [(PStr ''model'', PStr ''qwen3.8''), (PStr ''temperature'', PNone),
      (PStr ''chat_template_kwargs'', PDict [(PStr ''enable_thinking'', PBool False)])]"

text \<open>
  The exception to the rule: an explicit null (or any value that is no dictionary) for the
  template arguments makes every thinking alias raise instead of winning.
\<close>

lemma null_template_kwargs_raises:
  "dlook body ''chat_template_kwargs'' = Some v \<Longrightarrow> \<not> is_pdict v \<Longrightarrow> template_defaults ai \<noteq> [] \<Longrightarrow>
   apply_alias_defaults body ai = Inl AttributeError"
  by (cases v)
    (auto simp: apply_alias_defaults_def Let_def dget_def dsetdefault_def
      split: option.splits)

end
