(* ===== verification/ChatRoute.thy ===== *)
theory ChatRoute
  imports Aliases Brief Escalation Lane TtlCache
begin

text \<open>
  The chat and completion routes of \<^verbatim>\<open>scripts/files/router-app.py\<close>: which model the chat
  unit serves, the automatic swap, the handlers as decisions on a request (refuse, escalate,
  or forward a body under a gate), the answers that come back, and the streams.

  A handler is a function of the request and of what the outside answers at the moments the
  code asks: the probe of the served model, the outcome of a swap, the token count. Access
  logging is left out.
\<close>

section \<open>The served model and the swap\<close>

record active_cache =
  ac_value :: pyval
  ac_expires :: rat

text \<open>
  \<open>models_ids\<close> reads the identifiers out of the list of models; None where the code raises and
  the caller fails open. A probe is the parsed answer, or None when the request failed.
\<close>

definition id_of :: "pyval \<Rightarrow> pyval" where
  "id_of m = (case m of PDict d \<Rightarrow> dget d ''id'' | _ \<Rightarrow> PNone)"

definition models_ids :: "pyval \<Rightarrow> pyval list option" where
  "models_ids j =
     (case j of
        PDict d \<Rightarrow>
          (case items_of (dget_or d ''data'' (PList [])) of
             Inl _ \<Rightarrow> None
           | Inr ms \<Rightarrow> if list_all is_pdict ms then Some (filter truthy (map id_of ms)) else None)
      | _ \<Rightarrow> None)"

definition get_active_backend :: "rat \<Rightarrow> rat \<Rightarrow> pyval option \<Rightarrow> active_cache \<Rightarrow> pyval \<times> active_cache" where
  "get_active_backend ttl now probe c =
     (if now < ac_expires c then (ac_value c, c)
      else case probe of
             None \<Rightarrow> (PNone, c)
           | Some j \<Rightarrow>
               (case models_ids j of
                  None \<Rightarrow> (PNone, c)
                | Some ids \<Rightarrow>
                    (let v = (if ids = [] then PNone else hd ids)
                     in (v, \<lparr>ac_value = v, ac_expires = now + ttl\<rparr>))))"

text \<open>
  The confirmation loop: each round has the time of its test, the time inside the probe and the
  probe. Running out of rounds is a caller that went away while the loop was still polling.
\<close>

fun confirm_polls ::
    "string \<Rightarrow> rat \<Rightarrow> rat \<Rightarrow> (rat \<times> rat \<times> pyval option) list \<Rightarrow> active_cache \<Rightarrow> bool option \<times> active_cache" where
  "confirm_polls wanted deadline ttl [] c = (None, c)"
| "confirm_polls wanted deadline ttl ((t, t', probe) # ps) c =
     (if \<not> t < deadline then (Some False, c)
      else case get_active_backend ttl t' probe (c\<lparr>ac_expires := 0\<rparr>) of
             (v, c') \<Rightarrow> if v = PStr wanted then (Some True, c')
                        else confirm_polls wanted deadline ttl ps c')"

record swap_world =
  sw_url :: string
  sw_key :: string
  sw_first :: "rat \<times> pyval option"
  sw_post :: "int option"
  sw_start :: rat
  sw_polls :: "(rat \<times> rat \<times> pyval option) list"
  sw_slots :: "pyval res"

record swap_end =
  se_calls :: "string list"
  se_ok :: "bool option"
  se_cache :: active_cache
  se_gate :: gate

text \<open>
  \<open>trigger_swap_and_wait\<close>, from the moment the lock is held. A post is the status of the webhook's
  answer, or None when the call raised.
\<close>

definition trigger_swap_and_wait :: "rat \<Rightarrow> swap_world \<Rightarrow> string \<Rightarrow> active_cache \<Rightarrow> gate \<Rightarrow> swap_end" where
  "trigger_swap_and_wait ttl w wanted c g =
     (case map_of backend_to_profile wanted of
        None \<Rightarrow> \<lparr>se_calls = [], se_ok = Some False, se_cache = c, se_gate = g\<rparr>
      | Some profile \<Rightarrow>
          if profile = [] \<or> sw_url w = [] \<or> sw_key w = []
          then \<lparr>se_calls = [], se_ok = Some False, se_cache = c, se_gate = g\<rparr>
          else
            (case get_active_backend ttl (fst (sw_first w)) (snd (sw_first w)) (c\<lparr>ac_expires := 0\<rparr>) of
               (current, c1) \<Rightarrow>
                 if current = PStr wanted
                 then \<lparr>se_calls = [], se_ok = Some True, se_cache = c1, se_gate = g\<rparr>
                 else if sw_post w \<noteq> Some 200
                 then \<lparr>se_calls = [profile], se_ok = Some False, se_cache = c1, se_gate = g\<rparr>
                 else
                   (case confirm_polls wanted (sw_start w + 15) ttl (sw_polls w) c1 of
                      (ok, c2) \<Rightarrow>
                        \<lparr>se_calls = [profile], se_ok = ok, se_cache = c2,
                         se_gate = (if ok = Some True then fst (refresh_capacity_once g (sw_slots w)) else g)\<rparr>)))"

section \<open>The chat handler\<close>

record chat_cfg =
  cc_max_body :: nat
  cc_vision :: bool
  cc_image_tokens :: int
  cc_strict :: bool
  cc_webhook :: string
  cc_max_input :: int
  cc_tools_default :: string
  cc_markers :: bool

text \<open>
  What the request is and what the outside answers: the parser, the header with the length, the
  chunks of the body, the strip header, the lane's capacity, whether the broker's configuration
  loads, the served model, the outcome of a swap to a backend, and the token count of a text.
\<close>

record chat_env =
  ce_parse :: "string \<Rightarrow> pyval option"
  ce_length :: "string option"
  ce_chunks :: "string list"
  ce_strip_header :: "string option"
  ce_lane_capacity :: int
  ce_broker_config :: bool
  ce_active :: pyval
  ce_swap_ok :: "string \<Rightarrow> bool"
  ce_tokens :: "string \<Rightarrow> int"
  ce_show :: "pyval \<Rightarrow> string"

text \<open>A value inside an f-string.\<close>

definition fmt :: "chat_env \<Rightarrow> pyval \<Rightarrow> string" where
  "fmt env v = (case v of PStr s \<Rightarrow> s | _ \<Rightarrow> ce_show env v)"

datatype plan =
    Fails int string
  | Crashes exn
  | Answered int pydict
  | Broker pydict
  | SwapStream gate_kind string pydict bool
  | ToolStream gate_kind pydict bool
  | PlainStream gate_kind pydict bool
  | ToolPost gate_kind pydict bool
  | PlainPost gate_kind pydict bool

definition lane_closed_detail :: string where
  "lane_closed_detail =
     ''workforce_lane_closed: no chat slot is available to scoped keys in the current layout''"

text \<open>\<open>_escalate\<close> up to the call of the broker.\<close>

definition escalate :: "chat_env \<Rightarrow> principal \<Rightarrow> pydict \<Rightarrow> plan" where
  "escalate env p body =
     (if \<not> is_owner p
      then Answered 403 (error_body ''owner_only'' ''escalation aliases need the owner key'')
      else if \<not> ce_broker_config env
      then Answered 424 (error_body ''config'' ''escalation: invalid configuration'')
      else Broker body)"

text \<open>The profile guard: pass (after a swap or not), swap while streaming, or refuse.\<close>

datatype guard = GuardPass "string option" | GuardSwapStream string | GuardFails "string option" int string

definition profile_guard :: "chat_cfg \<Rightarrow> chat_env \<Rightarrow> principal \<Rightarrow> bool \<Rightarrow> string \<Rightarrow> alias_info \<Rightarrow> guard" where
  "profile_guard cfg env p stream model ai =
     (let wanted = ai_backend ai in
      if cc_strict cfg \<and> map_of alias_map model \<noteq> None \<and> \<not> is_swap_exempt model \<and>
         ce_active env \<noteq> PNone \<and> PStr wanted \<noteq> ce_active env
      then if cc_webhook cfg \<noteq> [] \<and> map_of backend_to_profile wanted \<noteq> None \<and> may_swap p
           then if stream then GuardSwapStream wanted
                else if ce_swap_ok env wanted then GuardPass (Some wanted)
                else GuardFails (Some wanted) 503
                  (''auto-swap to '' @ [CHR 0x27] @ wanted @ [CHR 0x27] @
                   '' failed or timed out. Try manually: swap-chat-model.sh '' @
                   (case map_of backend_to_profile wanted of Some pr \<Rightarrow> pr | None \<Rightarrow> wanted))
           else GuardFails None 409
                  (''model '' @ [CHR 0x27] @ model @ [CHR 0x27] @ '' targets profile backend '' @ [CHR 0x27] @
                   wanted @ [CHR 0x27] @ '', but the chat unit is serving '' @ [CHR 0x27] @
                   fmt env (ce_active env) @ [CHR 0x27] @
                   ''. Swap profiles (scripts/swap-chat-model.sh) or request an alias for the loaded profile (GET /v1/models).'')
      else GuardPass None)"

definition over_budget :: "chat_cfg \<Rightarrow> int \<Rightarrow> int \<Rightarrow> bool" where
  "over_budget cfg tokens images = (tokens \<noteq> -1 \<and> tokens + images > cc_max_input cfg)"

definition budget_detail :: "chat_cfg \<Rightarrow> int \<Rightarrow> int \<Rightarrow> int \<Rightarrow> string" where
  "budget_detail cfg tokens image_tokens images =
     ''input is '' @ show_int tokens @ '' text tokens + '' @ show_int image_tokens @
     '' estimated for '' @ show_int images @ '' image(s), exceeds MAX_CHAT_INPUT_TOKENS='' @
     show_int (cc_max_input cfg)"

text \<open>The last step: how an admitted body is forwarded.\<close>

definition forward_plan :: "chat_cfg \<Rightarrow> gate_kind \<Rightarrow> bool \<Rightarrow> bool \<Rightarrow> pydict \<Rightarrow> plan" where
  "forward_plan cfg g stream strp body =
     (let server = (dget_or body ''tool_execution'' (PStr (cc_tools_default cfg)) = PStr ''server'')
      in if stream then (if server then ToolStream g body strp else PlainStream g body strp)
         else (if server then ToolPost g body strp else PlainPost g body strp))"

text \<open>From the policy on: the body is the client's after \<open>apply_chat_policy\<close>.\<close>

definition chat_admitted :: "chat_cfg \<Rightarrow> chat_env \<Rightarrow> principal \<Rightarrow> pydict \<Rightarrow> string option \<times> plan" where
  "chat_admitted cfg env p body =
     (if \<not> is_owner p \<and> ce_lane_capacity env = 0 then (None, Fails 503 lane_closed_detail)
      else
        (let g = gate_for (is_owner p);
             stream = truthy (dget_or body ''stream'' (PBool False));
             model = dget_or body ''model'' (PStr ''?'') in
         case should_strip_thinking body (ce_strip_header env) of
           Inl e \<Rightarrow> (None, Crashes e)
         | Inr strp \<Rightarrow>
        (case resolve_alias model of
           Inl e \<Rightarrow> (None, Crashes e)
         | Inr ai \<Rightarrow>
        (case apply_alias_defaults body ai of
           Inl e \<Rightarrow> (None, Crashes e)
         | Inr out \<Rightarrow>
             (let messages = dget_or out ''messages'' (PList []);
                  media = check_media messages (cc_vision cfg);
                  image_tokens = image_token_estimate (mc_images media) (cc_image_tokens cfg) in
              case mc_error media of
                Some msg \<Rightarrow> (None, Fails (mc_status media) msg)
              | None \<Rightarrow>
             (case approx_text_from_messages messages of
                Inl e \<Rightarrow> (None, Crashes e)
              | Inr t \<Rightarrow>
             (case profile_guard cfg env p stream (str_of model) ai of
                GuardFails asked status msg \<Rightarrow> (asked, Fails status msg)
              | GuardSwapStream wanted \<Rightarrow> (None, SwapStream ChatGate wanted out strp)
              | GuardPass swapped \<Rightarrow>
                  (swapped,
                   if over_budget cfg (ce_tokens env t) image_tokens
                   then Fails 413 (budget_detail cfg (ce_tokens env t) image_tokens (mc_images media))
                   else forward_plan cfg g stream strp out))))))))"

text \<open>
  \<open>chat\<close>: the backend it asked the webhook to load before it decided, if any, and the decision.
\<close>

definition chat :: "chat_cfg \<Rightarrow> chat_env \<Rightarrow> principal option \<Rightarrow> string option \<times> plan" where
  "chat cfg env who =
     (case who of
        None \<Rightarrow> (None, Fails 403 ''unauthenticated'')
      | Some p \<Rightarrow>
          (case read_json_body (ce_parse env) (ce_length env) (ce_chunks env) (cc_max_body cfg) of
             Raise e \<Rightarrow> (None, Crashes e)
           | Http status msg \<Rightarrow> (None, Fails status msg)
           | Ok body \<Rightarrow>
               if handles (dget body ''model'') then (None, escalate env p body)
               else (case mc_error (check_chat_body (PDict body)) of
                       Some msg \<Rightarrow> (None, Fails (mc_status (check_chat_body (PDict body))) msg)
                     | None \<Rightarrow>
                         (case chat_violation p body of
                            Some v \<Rightarrow> (None, Fails 403 v)
                          | None \<Rightarrow> chat_admitted cfg env p (apply_chat_policy p body)))))"

section \<open>The completion handler\<close>

text \<open>
  \<open>completions\<close>: the token count of the prompt, a list of token ids being counted as it is. The
  route has no principal: the middleware lets only the owner call it.
\<close>

definition suffix_of :: "pydict \<Rightarrow> pyval" where
  "suffix_of body = (let v = dget_or body ''suffix'' (PStr []) in if truthy v then v else PStr [])"

definition completion_tokens :: "chat_env \<Rightarrow> pydict \<Rightarrow> int" where
  "completion_tokens env body =
     (let prompt = dget_or body ''prompt'' (PStr []); suffix = suffix_of body in
      case prompt of
        PList xs \<Rightarrow>
          if xs \<noteq> [] \<and> list_all is_pint xs
          then (case suffix of
                  PStr s \<Rightarrow> if s = [] then int (length xs)
                            else (let n = ce_tokens env s in
                                  if n \<noteq> -1 then int (length xs) + n else int (length xs))
                | _ \<Rightarrow> int (length xs))
          else ce_tokens env (join [CHR 0x0A] (List.map_filter as_str xs) @ [CHR 0x0A] @ fmt env suffix)
      | _ \<Rightarrow> ce_tokens env (fmt env prompt @ [CHR 0x0A] @ fmt env suffix))"

definition completions :: "chat_cfg \<Rightarrow> chat_env \<Rightarrow> plan" where
  "completions cfg env =
     (case read_json_body (ce_parse env) (ce_length env) (ce_chunks env) (cc_max_body cfg) of
        Raise e \<Rightarrow> Crashes e
      | Http status msg \<Rightarrow> Fails status msg
      | Ok body \<Rightarrow>
          (case mc_error (check_completions_body (PDict body)) of
             Some msg \<Rightarrow> Fails (mc_status (check_completions_body (PDict body))) msg
           | None \<Rightarrow>
               (let tokens = completion_tokens env body in
                if over_budget cfg tokens 0
                then Fails 413 (''input is '' @ show_int tokens @ '' tokens, exceeds MAX_CHAT_INPUT_TOKENS='' @
                       show_int (cc_max_input cfg))
                else if truthy (dget_or body ''stream'' (PBool False)) then PlainStream ChatGate body False
                else PlainPost ChatGate body False)))"

section \<open>The Anthropic, embedding and rerank routes\<close>

text \<open>
  The route \<^verbatim>\<open>/v1/messages\<close>: the media guard, the alias's backend, the token budget; no profile guard.
  Its plan is a stream or a post of the body as it is.
\<close>

definition messages_route :: "chat_cfg \<Rightarrow> chat_env \<Rightarrow> plan" where
  "messages_route cfg env =
     (case read_json_body (ce_parse env) (ce_length env) (ce_chunks env) (cc_max_body cfg) of
        Raise e \<Rightarrow> Crashes e
      | Http status msg \<Rightarrow> Fails status msg
      | Ok body \<Rightarrow>
          (let media = check_media_anthropic (PDict body) (cc_vision cfg);
               image_tokens = image_token_estimate (mc_images media) (cc_image_tokens cfg);
               model = dget_or body ''model'' (PStr ''?'') in
           case mc_error media of
             Some msg \<Rightarrow> Fails (mc_status media) msg
           | None \<Rightarrow>
          (case resolve_alias model of
             Inl e \<Rightarrow> Crashes e
           | Inr ai \<Rightarrow>
               (let body1 = (if PStr (ai_backend ai) \<noteq> model then dput ''model'' (PStr (ai_backend ai)) body else body) in
                case approx_text_from_anthropic body1 of
                  Inl e \<Rightarrow> Crashes e
                | Inr t \<Rightarrow>
                    if over_budget cfg (ce_tokens env t) image_tokens
                    then Fails 413 (''input is '' @ show_int (ce_tokens env t) @
                           '' tokens, exceeds MAX_CHAT_INPUT_TOKENS='' @ show_int (cc_max_input cfg))
                    else if truthy (dget_or body ''stream'' (PBool False)) then PlainStream ChatGate body1 False
                    else PlainPost ChatGate body1 False))))"

definition qwen3_eot :: string where
  "qwen3_eot = ''<|endoftext|>''"

definition ensure_eot :: "string \<Rightarrow> string" where
  "ensure_eot t =
     (if t = [] then t else if endswith t qwen3_eot then t else rstrip t @ qwen3_eot)"

definition embed_input :: "pyval \<Rightarrow> pyval" where
  "embed_input inp =
     (case inp of
        PStr s \<Rightarrow> PStr (ensure_eot s)
      | PList xs \<Rightarrow> PList (map (\<lambda>x. case x of PStr s \<Rightarrow> PStr (ensure_eot s) | _ \<Rightarrow> x) xs)
      | _ \<Rightarrow> inp)"

text \<open>
  \<open>embeddings\<close> counts the tokens of the inputs as the client sent them, before the end marker is
  appended, and refuses the first one over the limit; otherwise it forwards the marked body.
\<close>

definition embed_body :: "pydict \<Rightarrow> pydict" where
  "embed_body body =
     (let inp = dget body ''input'' in
      if is_pstr inp \<or> is_plist inp then dput ''input'' (embed_input inp) body else body)"

definition embeddings :: "(string \<Rightarrow> int) \<Rightarrow> int \<Rightarrow> pydict \<Rightarrow> plan + pydict" where
  "embeddings n_tokens max_tokens body =
     (let inp = dget body ''input'' in
      case first_oversized (map n_tokens (embed_texts inp)) max_tokens of
        Some (idx, n) \<Rightarrow>
          Inl (Fails 413 ((if is_pstr inp then ''input'' else ''input['' @ show_nat idx @ '']'') @ '' is '' @
            show_int n @ '' tokens, exceeds MAX_EMBED_INPUT_TOKENS='' @ show_int max_tokens))
      | None \<Rightarrow> Inr (embed_body body))"

text \<open>
  The answer of \<open>embeddings\<close>, \<open>rerank\<close> and the token-counting preflight: an upstream answer that is
  no JSON raises here, where the chat routes answer 502.
\<close>

definition bulk_reply :: "upstream \<Rightarrow> (int \<times> pyval) res" where
  "bulk_reply up =
     (case up of
        UpRaises e \<Rightarrow> Inr (502, PDict (openai_error_body ''service_degraded'' (''upstream: '' @ e)))
      | UpAnswer status txt None \<Rightarrow> Inl ValueError
      | UpAnswer status txt (Some data) \<Rightarrow> Inr (status, data))"

lemma endswith_append [simp]: "endswith (s @ t) t"
  by (simp add: endswith_def)

lemma ensure_eot_marked: "t \<noteq> [] \<Longrightarrow> endswith (ensure_eot t) qwen3_eot"
  by (simp add: ensure_eot_def)

lemma ensure_eot_idem [simp]: "ensure_eot (ensure_eot t) = ensure_eot t"
  by (auto simp: ensure_eot_def qwen3_eot_def)

section \<open>Answers\<close>

text \<open>
  \<^verbatim>\<open>''content'' in msg\<close> and then \<^verbatim>\<open>msg[''content'']\<close>: a message that is no dictionary can pass
  the test (a string holding the word, a list with it) and then raises at the index.
\<close>

definition rewrite_message :: "bool \<Rightarrow> bool \<Rightarrow> pyval \<Rightarrow> pyval res" where
  "rewrite_message think markers msg =
     (case msg of
        PDict d \<Rightarrow>
          (case dlook d ''content'' of
             None \<Rightarrow> Inr msg
           | Some (PStr s) \<Rightarrow> Inr (PDict (dput ''content'' (PStr (rewrite_text think markers s)) d))
           | Some _ \<Rightarrow> Inl TypeError)
      | PStr s \<Rightarrow> if contains s ''content'' then Inl TypeError else Inr msg
      | PList xs \<Rightarrow> if PStr ''content'' \<in> set xs then Inl TypeError else Inr msg
      | _ \<Rightarrow> Inl TypeError)"

definition rewrite_choice :: "bool \<Rightarrow> bool \<Rightarrow> pyval \<Rightarrow> pyval res" where
  "rewrite_choice think markers choice =
     (case choice of
        PDict d \<Rightarrow>
          (case dlook d ''message'' of
             None \<Rightarrow> Inr choice
           | Some msg \<Rightarrow>
               bind_res (rewrite_message think markers msg) (\<lambda>m. Inr (PDict (dput ''message'' m d))))
      | _ \<Rightarrow> Inl AttributeError)"

text \<open>The loop over the choices; only a list can hold a dictionary, so only a list changes.\<close>

definition rewrite_choices :: "bool \<Rightarrow> bool \<Rightarrow> pyval \<Rightarrow> pyval res" where
  "rewrite_choices think markers data =
     (case data of
        PDict d \<Rightarrow>
          (case dlook d ''choices'' of
             None \<Rightarrow> Inr data
           | Some (PList cs) \<Rightarrow>
               bind_res (map_res (rewrite_choice think markers) cs) (\<lambda>cs'. Inr (PDict (dput ''choices'' (PList cs') d)))
           | Some v \<Rightarrow>
               bind_res (items_of v) (\<lambda>cs. bind_res (map_res (rewrite_choice think markers) cs) (\<lambda>_. Inr data)))
      | _ \<Rightarrow> Inl AttributeError)"

definition usage_readable :: "pyval \<Rightarrow> unit res" where
  "usage_readable data =
     (case data of
        PDict d \<Rightarrow>
          (let u = dget_or d ''usage'' (PDict []) in
           if truthy u \<and> \<not> is_pdict u then Inl AttributeError else Inr ())
      | _ \<Rightarrow> Inl AttributeError)"

text \<open>The non-streaming answer of the chat route, and of the completion route with no rewriting.\<close>

definition post_reply :: "bool \<Rightarrow> bool \<Rightarrow> upstream \<Rightarrow> (int \<times> pyval) res" where
  "post_reply think markers up =
     (case up of
        UpRaises e \<Rightarrow> Inr (502, PDict (openai_error_body ''service_degraded'' (''upstream: '' @ e)))
      | UpAnswer status txt None \<Rightarrow>
          Inr (502, PDict (openai_error_body ''upstream_invalid_json'' (take 500 txt)))
      | UpAnswer status txt (Some data) \<Rightarrow>
          bind_res (if think \<or> markers then rewrite_choices think markers data else Inr data) (\<lambda>out.
          bind_res (usage_readable out) (\<lambda>_. Inr (status, out))))"

section \<open>Streams\<close>

text \<open>
  What the loop of a stream sees in one round: the time since the start at its test, and then
  nothing within the keep-alive interval, a chunk, or the end of the reader.
\<close>

datatype sse_event = Quiet | Chunk string | Degraded | Eof

datatype frame = Ping | DegradedFrame | DoneFrame | Out string

fun sse_loop :: "rat \<Rightarrow> (string \<Rightarrow> string) \<Rightarrow> (rat \<times> sse_event) list \<Rightarrow> frame list" where
  "sse_loop max_s f [] = []"
| "sse_loop max_s f ((t, ev) # es) =
     (if t > max_s then [DegradedFrame, DoneFrame]
      else case ev of
             Quiet \<Rightarrow> Ping # sse_loop max_s f es
           | Chunk s \<Rightarrow> Out (f s) # sse_loop max_s f es
           | Degraded \<Rightarrow> [DegradedFrame, DoneFrame]
           | Eof \<Rightarrow> [])"

definition sse_stream_with_keepalive :: "rat \<Rightarrow> bool \<Rightarrow> bool \<Rightarrow> (rat \<times> sse_event) list \<Rightarrow> frame list" where
  "sse_stream_with_keepalive max_s think markers es = Ping # sse_loop max_s (rewrite_text think markers) es"

definition sse_passthrough_with_keepalive :: "rat \<Rightarrow> (rat \<times> sse_event) list \<Rightarrow> frame list" where
  "sse_passthrough_with_keepalive max_s es = Ping # sse_loop max_s (\<lambda>s. s) es"

text \<open>
  \<open>_swap_then_stream\<close>: pings while the swap runs (the time at each test, and whether the wait ended
  with the swap done), then the stream if it succeeded. Running out of waits is the client leaving.
\<close>

datatype swap_wait = SwapDone | SwapTimedOut | ClientLeft

fun swap_pings :: "rat \<Rightarrow> (rat \<times> bool) list \<Rightarrow> frame list \<times> swap_wait" where
  "swap_pings wall [] = ([], ClientLeft)"
| "swap_pings wall ((t, finished) # ws) =
     (if t > wall then ([DegradedFrame, DoneFrame], SwapTimedOut)
      else if finished then ([], SwapDone)
      else (case swap_pings wall ws of (fs, e) \<Rightarrow> (Ping # fs, e)))"

definition swap_then_stream ::
    "rat \<Rightarrow> (rat \<times> bool) list \<Rightarrow> bool \<Rightarrow> rat \<Rightarrow> bool \<Rightarrow> bool \<Rightarrow> (rat \<times> sse_event) list \<Rightarrow> frame list" where
  "swap_then_stream wall waits swap_ok max_s think markers es =
     (case swap_pings wall waits of
        (fs, SwapDone) \<Rightarrow>
          Ping # fs @ (if swap_ok then sse_stream_with_keepalive max_s think markers es
                       else [DegradedFrame, DoneFrame])
      | (fs, _) \<Rightarrow> Ping # fs)"

section \<open>What the chat route forwards\<close>

text \<open>The body a plan hands to the chat unit straight away, its gate, and whether the router runs tools.\<close>

fun forwards :: "plan \<Rightarrow> (gate_kind \<times> pydict \<times> bool) option" where
  "forwards (ToolStream g b s) = Some (g, b, True)"
| "forwards (PlainStream g b s) = Some (g, b, False)"
| "forwards (ToolPost g b s) = Some (g, b, True)"
| "forwards (PlainPost g b s) = Some (g, b, False)"
| "forwards _ = None"

lemma forwards_forward_plan:
  "forwards (forward_plan cfg g stream strp body) =
     Some (g, body, dget_or body ''tool_execution'' (PStr (cc_tools_default cfg)) = PStr ''server'')"
  by (simp add: forward_plan_def Let_def)

text \<open>
  \<open>admits\<close> collects what the handler has established when it forwards a body or starts a swap.
\<close>

definition admits :: "chat_cfg \<Rightarrow> chat_env \<Rightarrow> principal \<Rightarrow> pydict \<Rightarrow> string option \<Rightarrow> plan \<Rightarrow> bool" where
  "admits cfg env p body swapped pl =
     (let model = dget_or body ''model'' (PStr ''?'') in
      \<exists>out strp t ai.
        resolve_alias model = Inr ai \<and> apply_alias_defaults body ai = Inr out \<and>
        mc_error (check_media (dget_or out ''messages'' (PList [])) (cc_vision cfg)) = None \<and>
        approx_text_from_messages (dget_or out ''messages'' (PList [])) = Inr t \<and>
        ((swapped = None \<and> pl = SwapStream ChatGate (ai_backend ai) out strp \<and>
          profile_guard cfg env p (truthy (dget_or body ''stream'' (PBool False))) (str_of model) ai
            = GuardSwapStream (ai_backend ai)) \<or>
         (profile_guard cfg env p (truthy (dget_or body ''stream'' (PBool False))) (str_of model) ai = GuardPass swapped \<and>
          \<not> over_budget cfg (ce_tokens env t)
              (image_token_estimate (mc_images (check_media (dget_or out ''messages'' (PList [])) (cc_vision cfg)))
                 (cc_image_tokens cfg)) \<and>
          pl = forward_plan cfg (gate_for (is_owner p)) (truthy (dget_or body ''stream'' (PBool False))) strp out)))"

fun decides_to_serve :: "plan \<Rightarrow> bool" where
  "decides_to_serve (SwapStream _ _ _ _) = True"
| "decides_to_serve pl = (forwards pl \<noteq> None)"

lemma guard_swap_stream_wanted:
  "profile_guard cfg env p stream m ai = GuardSwapStream w \<Longrightarrow> w = ai_backend ai"
  by (auto simp: profile_guard_def Let_def split: if_splits)

lemma chat_admitted_serves:
  assumes "chat_admitted cfg env p body = (swapped, pl)" and "decides_to_serve pl"
  shows "admits cfg env p body swapped pl \<and> (is_owner p \<or> ce_lane_capacity env \<noteq> 0)"
proof -
  let ?m = "dget_or body ''model'' (PStr ''?'')"
  let ?stream = "truthy (dget_or body ''stream'' (PBool False))"
  have live: "is_owner p \<or> ce_lane_capacity env \<noteq> 0"
    using assms by (auto simp: chat_admitted_def)
  from assms live obtain strp where strp: "should_strip_thinking body (ce_strip_header env) = Inr strp"
    by (cases "should_strip_thinking body (ce_strip_header env)") (auto simp: chat_admitted_def Let_def)
  from assms live strp obtain ai where ai: "resolve_alias ?m = Inr ai"
    by (cases "resolve_alias ?m") (auto simp: chat_admitted_def Let_def)
  from assms live strp ai obtain out where out: "apply_alias_defaults body ai = Inr out"
    by (cases "apply_alias_defaults body ai") (auto simp: chat_admitted_def Let_def)
  let ?msgs = "dget_or out ''messages'' (PList [])"
  from assms live strp ai out have media: "mc_error (check_media ?msgs (cc_vision cfg)) = None"
    by (cases "mc_error (check_media ?msgs (cc_vision cfg))") (auto simp: chat_admitted_def Let_def)
  from assms live strp ai out media obtain t where t: "approx_text_from_messages ?msgs = Inr t"
    by (cases "approx_text_from_messages ?msgs") (auto simp: chat_admitted_def Let_def)
  note sofar = live strp ai out media t
  show ?thesis
  proof (cases "profile_guard cfg env p ?stream (str_of ?m) ai")
    case (GuardPass sw)
    with assms sofar show ?thesis
      by (auto simp: chat_admitted_def admits_def Let_def split: if_splits)
  next
    case (GuardSwapStream w)
    with assms sofar guard_swap_stream_wanted [OF GuardSwapStream] show ?thesis
      by (auto simp: chat_admitted_def admits_def Let_def)
  next
    case (GuardFails a st msg)
    with assms sofar show ?thesis by (auto simp: chat_admitted_def Let_def)
  qed
qed

text \<open>The request that a served plan answers.\<close>

lemma chat_serves:
  assumes "chat cfg env who = (swapped, pl)" and "decides_to_serve pl"
  obtains p body where "who = Some p"
    and "read_json_body (ce_parse env) (ce_length env) (ce_chunks env) (cc_max_body cfg) = Ok body"
    and "chat_violation p body = None"
    and "admits cfg env p (apply_chat_policy p body) swapped pl"
    and "is_owner p \<or> ce_lane_capacity env \<noteq> 0"
proof -
  from assms obtain p where p: "who = Some p" by (cases who) (auto simp: chat_def)
  from assms p obtain body
    where body: "read_json_body (ce_parse env) (ce_length env) (ce_chunks env) (cc_max_body cfg) = Ok body"
    by (cases "read_json_body (ce_parse env) (ce_length env) (ce_chunks env) (cc_max_body cfg)")
      (auto simp: chat_def)
  have nh: "\<not> handles (dget body ''model'')"
    using assms p body by (auto simp: chat_def escalate_def split: if_splits)
  from assms p body nh have ck: "mc_error (check_chat_body (PDict body)) = None"
    by (cases "mc_error (check_chat_body (PDict body))") (auto simp: chat_def)
  from assms p body nh ck have v: "chat_violation p body = None"
    by (cases "chat_violation p body") (auto simp: chat_def)
  from assms p body nh ck v have "chat_admitted cfg env p (apply_chat_policy p body) = (swapped, pl)"
    by (simp add: chat_def)
  from chat_admitted_serves [OF this assms(2)] p body v show ?thesis using that by blast
qed

lemma guard_pass:
  assumes "profile_guard cfg env p stream m ai = GuardPass swapped"
  shows "(cc_strict cfg \<and> map_of alias_map m \<noteq> None \<and> \<not> is_swap_exempt m \<longrightarrow>
            ce_active env = PNone \<or> ce_active env = PStr (ai_backend ai) \<or>
            (swapped = Some (ai_backend ai) \<and> ce_swap_ok env (ai_backend ai))) \<and>
         (swapped \<noteq> None \<longrightarrow> may_swap p)"
  using assms by (auto simp: profile_guard_def Let_def split: if_splits)

lemma guard_swap_stream:
  assumes "profile_guard cfg env p stream m ai = GuardSwapStream w"
  shows "may_swap p \<and> stream \<and> map_of backend_to_profile w \<noteq> None"
  using assms by (auto simp: profile_guard_def Let_def split: if_splits)

lemma dlook_apply_chat_policy [simp]:
  "dlook (apply_chat_policy p body) k =
     (if k = ''tool_execution'' \<and> \<not> is_owner p then Some (PStr ''client'') else dlook body k)"
  by (simp add: apply_chat_policy_def)

lemma dget_or_policy [simp]:
  "k \<noteq> ''tool_execution'' \<Longrightarrow> dget_or (apply_chat_policy p body) k v = dget_or body k v"
  by (simp add: dget_or_def)


lemma guard_asks_owner:
  "profile_guard cfg env p stream m ai = GuardFails (Some w) st msg \<Longrightarrow> may_swap p"
  "profile_guard cfg env p stream m ai = GuardPass (Some w) \<Longrightarrow> may_swap p"
  by (auto simp: profile_guard_def Let_def split: if_splits)

lemma chat_swap_owner:
  assumes "chat cfg env (Some p) = (Some w, pl)"
  shows "is_owner p"
proof -
  from assms obtain body where "chat_admitted cfg env p body = (Some w, pl)"
    by (auto simp: chat_def escalate_def split: http.splits option.splits if_splits)
  then have "may_swap p"
    by (auto simp: chat_admitted_def Let_def dest: guard_asks_owner
        split: if_splits sum.splits option.splits guard.splits)
  then show ?thesis by (simp add: may_swap_def)
qed

lemma chat_broker_owner:
  assumes "chat cfg env (Some p) = (swapped, Broker b)"
  shows "is_owner p"
  using assms
  by (auto simp: chat_def escalate_def chat_admitted_def Let_def forward_plan_def
      split: http.splits option.splits if_splits sum.splits guard.splits)

text \<open>
  C17: A request of a scoped key that the chat route serves is for an alias the key may use, waits for the
  reserved lane and then the chat gate, runs no tools in the router and never swaps the model, whatever the
  configuration, the body and the alias defaults say; and it never reaches the escalation broker.
\<close>

theorem scoped_chat_confined:
  assumes "chat cfg env (Some p) = (swapped, pl)" and "\<not> is_owner p"
    and "read_json_body (ce_parse env) (ce_length env) (ce_chunks env) (cc_max_body cfg) = Ok body"
  shows "swapped = None \<and>
         (case pl of
            SwapStream _ _ _ _ \<Rightarrow> False
          | Broker _ \<Rightarrow> False
          | _ \<Rightarrow> (case forwards pl of
                     None \<Rightarrow> True
                   | Some (g, b, srv) \<Rightarrow> g = LaneThenChat \<and> \<not> srv \<and> ce_lane_capacity env \<noteq> 0 \<and>
                       (\<exists>m \<in> set (p_aliases p). dlook body ''model'' = Some (PStr m))))"
proof -
  have sw: "swapped = None" using chat_swap_owner assms(1,2) by (cases swapped) auto
  have broker: "pl \<noteq> Broker b" for b using chat_broker_owner assms(1,2) by blast
  have "case forwards pl of None \<Rightarrow> \<not> decides_to_serve pl
        | Some (g, b, srv) \<Rightarrow> g = LaneThenChat \<and> \<not> srv \<and> ce_lane_capacity env \<noteq> 0 \<and>
            (\<exists>m \<in> set (p_aliases p). dlook body ''model'' = Some (PStr m))"
  proof (cases "decides_to_serve pl")
    case False
    then show ?thesis by (cases pl) auto
  next
    case True
    from chat_serves [OF assms(1) True] assms(3) have adm: "admits cfg env p (apply_chat_policy p body) swapped pl"
      and v: "chat_violation p body = None" and live: "ce_lane_capacity env \<noteq> 0"
      using assms(2) by (metis http.inject(3) option.inject)+
    from v assms(2) obtain m where m: "dlook body ''model'' = Some (PStr m)" "m \<in> set (p_aliases p)"
      by (auto simp: chat_violation_def dget_def split: pyval.splits option.splits if_splits)
    have noswap: "\<not> may_swap p" using assms(2) by (simp add: may_swap_def)
    let ?stream = "truthy (dget_or body ''stream'' (PBool False))"
    from m adm guard_swap_stream noswap obtain out strp
      where out: "apply_alias_defaults (apply_chat_policy p body) (resolve_name m) = Inr out"
        and pl: "pl = forward_plan cfg (gate_for (is_owner p)) ?stream strp out"
      by (fastforce simp: admits_def resolve_alias_def str_of_def dget_or_def)
    have "dlook out ''tool_execution'' = Some (PStr ''client'')"
      using apply_alias_defaults_fields(1) [OF out] assms(2) by simp
    with pl m assms(2) live show ?thesis
      by (simp add: forwards_forward_plan gate_for_def dget_or_def)
  qed
  with sw broker show ?thesis by (cases pl) auto
qed


section \<open>Swaps, streams and answers\<close>

text \<open>A probe that shows a backend: its answer lists that backend first.\<close>

definition shows_backend :: "string \<Rightarrow> pyval option \<Rightarrow> bool" where
  "shows_backend b probe = (case probe of None \<Rightarrow> False
     | Some j \<Rightarrow> (case models_ids j of Some (v # _) \<Rightarrow> v = PStr b | _ \<Rightarrow> False))"

lemma fresh_probe:
  assumes "get_active_backend ttl now probe (c\<lparr>ac_expires := 0\<rparr>) = (PStr b, c')" and "0 \<le> now"
  shows "shows_backend b probe"
  using assms by (auto simp: get_active_backend_def shows_backend_def Let_def split: option.splits list.splits if_splits)

lemma confirm_polls_confirmed:
  "confirm_polls wanted deadline ttl ps c = (Some True, c') \<Longrightarrow> \<forall>(t, t', probe) \<in> set ps. 0 \<le> t' \<Longrightarrow>
   \<exists>(t, t', probe) \<in> set ps. t < deadline \<and> shows_backend wanted probe"
proof (induction wanted deadline ttl ps c rule: confirm_polls.induct)
  case (2 wanted deadline ttl t t' probe ps c)
  obtain v c1 where g: "get_active_backend ttl t' probe (c\<lparr>ac_expires := 0\<rparr>) = (v, c1)" by fastforce
  show ?case
  proof (cases "t < deadline \<and> v = PStr wanted")
    case True
    with g "2.prems"(2) have "shows_backend wanted probe" by (auto intro: fresh_probe)
    with True show ?thesis by auto
  next
    case False
    with "2.prems" g have t: "t < deadline" and "v \<noteq> PStr wanted"
      and rec: "confirm_polls wanted deadline ttl ps c1 = (Some True, c')"
      by (auto split: if_splits)
    have "\<exists>(t, t', probe) \<in> set ps. t < deadline \<and> shows_backend wanted probe"
      using "2.IH" g t False rec "2.prems"(2) by auto
    then show ?thesis by auto
  qed
qed simp

text \<open>
  A swap counts as successful only when a probe made after the cache was invalidated shows the wanted model;
  the webhook is called at most once, with the profile of that model, and not at all when the model is served
  already; no failed swap changes the capacity of the chat gate.
\<close>

theorem swap_success_confirmed:
  assumes "trigger_swap_and_wait ttl w wanted c g = r"
    and "0 \<le> fst (sw_first w)" and "\<forall>(t, t', probe) \<in> set (sw_polls w). 0 \<le> t'"
  shows "(se_ok r = Some True \<longrightarrow>
            shows_backend wanted (snd (sw_first w)) \<and> se_calls r = [] \<or>
            sw_post w = Some 200 \<and> (\<exists>(t, t', probe) \<in> set (sw_polls w). t < sw_start w + 15 \<and> shows_backend wanted probe)) \<and>
         (se_calls r = [] \<or> (\<exists>profile. map_of backend_to_profile wanted = Some profile \<and> se_calls r = [profile])) \<and>
         (se_ok r \<noteq> Some True \<longrightarrow> se_gate r = g)"
proof (cases "map_of backend_to_profile wanted")
  case None
  with assms(1) show ?thesis by (auto simp: trigger_swap_and_wait_def)
next
  case (Some profile)
  obtain v c1 where first: "get_active_backend ttl (fst (sw_first w)) (snd (sw_first w)) (c\<lparr>ac_expires := 0\<rparr>) = (v, c1)"
    by fastforce
  obtain ok c2 where polls: "confirm_polls wanted (sw_start w + 15) ttl (sw_polls w) c1 = (ok, c2)" by fastforce
  have now: "v = PStr wanted \<Longrightarrow> shows_backend wanted (snd (sw_first w))"
    using fresh_probe first assms(2) by blast
  have later: "ok = Some True \<Longrightarrow> \<exists>(t, t', probe) \<in> set (sw_polls w). t < sw_start w + 15 \<and> shows_backend wanted probe"
    using confirm_polls_confirmed polls assms(3) by blast
  show ?thesis
    using assms(1) [symmetric] Some first polls now later
    by (simp add: trigger_swap_and_wait_def split: if_splits)
qed

text \<open>The chunks of a stream up to its end, and what a client sees of them.\<close>

fun live_chunks :: "rat \<Rightarrow> (rat \<times> sse_event) list \<Rightarrow> string list" where
  "live_chunks max_s [] = []"
| "live_chunks max_s ((t, ev) # es) =
     (if t > max_s then []
      else case ev of Quiet \<Rightarrow> live_chunks max_s es | Chunk s \<Rightarrow> s # live_chunks max_s es
             | Degraded \<Rightarrow> [] | Eof \<Rightarrow> [])"

fun outs :: "frame list \<Rightarrow> string list" where
  "outs [] = []"
| "outs (Out s # fs) = s # outs fs"
| "outs (_ # fs) = outs fs"

lemma outs_append [simp]: "outs (xs @ ys) = outs xs @ outs ys"
  by (induction xs rule: outs.induct) auto

lemma outs_sse_loop: "outs (sse_loop max_s f es) = map f (live_chunks max_s es)"
  by (induction max_s f es rule: sse_loop.induct) (auto split: sse_event.splits)

lemma degraded_ends:
  "\<exists>xs. (sse_loop max_s f es = xs \<or> sse_loop max_s f es = xs @ [DegradedFrame, DoneFrame]) \<and>
     DegradedFrame \<notin> set xs \<and> DoneFrame \<notin> set xs"
proof (induction max_s f es rule: sse_loop.induct)
  case (1 max_s f)
  then show ?case by simp
next
  case (2 max_s f t ev es)
  have stop: "\<exists>xs. ([DegradedFrame, DoneFrame] = xs \<or> [DegradedFrame, DoneFrame] = xs @ [DegradedFrame, DoneFrame]) \<and>
      DegradedFrame \<notin> set xs \<and> DoneFrame \<notin> set xs"
    by (rule exI [of _ "[]"]) simp
  have more: "\<exists>xs. (x # sse_loop max_s f es = xs \<or> x # sse_loop max_s f es = xs @ [DegradedFrame, DoneFrame]) \<and>
      DegradedFrame \<notin> set xs \<and> DoneFrame \<notin> set xs"
    if "x \<noteq> DegradedFrame" "x \<noteq> DoneFrame"
      and "\<exists>xs. (sse_loop max_s f es = xs \<or> sse_loop max_s f es = xs @ [DegradedFrame, DoneFrame]) \<and>
        DegradedFrame \<notin> set xs \<and> DoneFrame \<notin> set xs" for x
    using that by (metis append_Cons set_ConsD)
  show ?case
  proof (cases "t > max_s")
    case True
    then show ?thesis using stop by simp
  next
    case False
    show ?thesis
    proof (cases ev)
      case Quiet
      with 2(1) False more show ?thesis by simp
    next
      case (Chunk s)
      with 2(2) False more show ?thesis by simp
    next
      case Degraded
      with False stop show ?thesis by simp
    next
      case Eof
      with False show ?thesis by simp
    qed
  qed
qed

text \<open>
  Every stream begins with a keep-alive, whatever the upstream does; the client gets the chunks in order, each
  rewritten once, and nothing after a degraded frame but the end marker.
\<close>

theorem stream_delivers_in_order:
  "\<exists>rest xs. sse_stream_with_keepalive max_s think markers es = Ping # rest \<and>
     outs rest = map (rewrite_text think markers) (live_chunks max_s es) \<and>
     (rest = xs \<or> rest = xs @ [DegradedFrame, DoneFrame]) \<and> DegradedFrame \<notin> set xs \<and> DoneFrame \<notin> set xs"
  using degraded_ends [of max_s "rewrite_text think markers" es]
  by (simp add: sse_stream_with_keepalive_def outs_sse_loop)

text \<open>The rewriting sees one chunk at a time: a block of thoughts split over two chunks goes through.\<close>

lemma split_think_block_passes:
  "outs (sse_stream_with_keepalive 900 True False [(0, Chunk ''<think>a''), (0, Chunk ''b</think>c'')]) =
     [''<think>a'', ''b</think>c'']"
  by code_simp

text \<open>
  An answer whose message has a null content, as an answer with tool calls has, makes the
  non-streaming route raise as soon as one of the two rewritings is on.
\<close>

lemma null_content_raises:
  assumes "think \<or> markers" and "dlook d ''choices'' = Some (PList (PDict c # cs))"
    and "dlook c ''message'' = Some (PDict m)" and "dlook m ''content'' = Some PNone"
  shows "post_reply think markers (UpAnswer 200 txt (Some (PDict d))) = Inl TypeError"
  using assms by (auto simp: post_reply_def rewrite_choices_def rewrite_choice_def rewrite_message_def)

text \<open>A prompt that is a list of lists of token ids is counted as the empty text, however long it is.\<close>

lemma nested_token_prompt_uncounted:
  assumes "dlook body ''prompt'' = Some (PList xs)" and "xs \<noteq> []" and "list_all is_plist xs"
    and "dlook body ''suffix'' = None"
  shows "completion_tokens env body = ce_tokens env [CHR 0x0A]"
proof -
  have "List.map_filter as_str xs = []" using assms(3)
    by (auto simp: List.map_filter_def list_all_iff filter_empty_conv is_plist_iff)
  moreover have "\<not> list_all is_pint xs" using assms(2,3) by (cases xs) (auto simp: is_plist_iff)
  ultimately show ?thesis
    using assms by (simp add: completion_tokens_def suffix_of_def dget_or_def fmt_def)
qed

section \<open>A concrete request\<close>

definition sample_cfg :: chat_cfg where
  "sample_cfg = \<lparr>cc_max_body = 100, cc_vision = False, cc_image_tokens = 1280, cc_strict = True,
     cc_webhook = ''http://host/'', cc_max_input = 120000, cc_tools_default = ''client'', cc_markers = True\<rparr>"

definition sample_chat_rq :: pydict where
  "sample_chat_rq =
     [(PStr ''model'', PStr ''qwen3.8''),
      (PStr ''messages'', PList [PDict [(PStr ''role'', PStr ''user''), (PStr ''content'', PStr ''hi'')]])]"

definition sample_env :: "string \<Rightarrow> chat_env" where
  "sample_env active =
     \<lparr>ce_parse = (\<lambda>_. Some (PDict sample_chat_rq)), ce_length = None, ce_chunks = [''{}''],
      ce_strip_header = Some ''no'', ce_lane_capacity = 1, ce_broker_config = True,
      ce_active = PStr active, ce_swap_ok = (\<lambda>_. True), ce_tokens = (\<lambda>_. 5), ce_show = (\<lambda>_. [])\<rparr>"

lemma sample_env_simps [simp]:
  "ce_strip_header (sample_env a) = Some ''no''" "ce_lane_capacity (sample_env a) = 1"
  "ce_active (sample_env a) = PStr a" "ce_swap_ok (sample_env a) w" "ce_tokens (sample_env a) t = 5"
  by (simp_all add: sample_env_def)

lemma sample_cfg_simps [simp]:
  "\<not> cc_vision sample_cfg" "cc_image_tokens sample_cfg = 1280" "cc_strict sample_cfg"
  "cc_webhook sample_cfg = ''http://host/''" "cc_max_input sample_cfg = 120000"
  "cc_tools_default sample_cfg = ''client''"
  by (simp_all add: sample_cfg_def)

definition sample_key :: principal where
  "sample_key = sample_principal\<lparr>p_aliases := [''qwen3.8'']\<rparr>"

lemma sample_resolved:
  "resolve_name ''qwen3.8'' = (thinking ''qwen3.8'' qwen38_think_sampling)\<lparr>ai_effort := Some ''medium''\<rparr>"
  by (simp add: resolve_name_def alias_map_def)

lemma sample_read:
  "read_json_body (ce_parse (sample_env a)) (ce_length (sample_env a)) (ce_chunks (sample_env a))
     (cc_max_body sample_cfg) = Ok sample_chat_rq"
  by (simp add: read_json_body_def sample_env_def sample_cfg_def read_body_capped_def)

lemma sample_alias: "map_of alias_map ''qwen3.8'' = Some (resolve_name ''qwen3.8'')"
  by (simp add: resolve_name_def alias_map_def)

lemma sample_checked:
  "\<not> handles (dget sample_chat_rq ''model'')" "mc_error (check_chat_body (PDict sample_chat_rq)) = None"
  by (simp_all add: sample_chat_rq_def handles_def esc_aliases_def check_chat_body_def refused_fields_def
      chat_refused_keys_def media_ok_def List.map_filter_def dget_def)

definition expected_out :: "pydict \<Rightarrow> pydict" where
  "expected_out body =
     body @ [(PStr ''chat_template_kwargs'',
               PDict [(PStr ''enable_thinking'', PBool True), (PStr ''reasoning_effort'', PStr ''medium'')])] @
     qwen38_think_sampling"

lemma sample_defaults:
  assumes "body = sample_chat_rq \<or> body = sample_chat_rq @ [(PStr ''tool_execution'', PStr ''client'')]"
  shows "apply_alias_defaults body (resolve_name ''qwen3.8'') = Inr (expected_out body)"
  using assms
  by (auto simp: apply_alias_defaults_def sample_resolved thinking_def template_defaults_def with_backend_def
      sample_chat_rq_def dsetdefault_def dput_def dget_def sampling_defs expected_out_def)

lemma sample_guards:
  assumes "body = sample_chat_rq \<or> body = sample_chat_rq @ [(PStr ''tool_execution'', PStr ''client'')]"
  shows "mc_error (check_media (dget_or (expected_out body) ''messages'' (PList [])) False) = None"
    and "mc_images (check_media (dget_or (expected_out body) ''messages'' (PList [])) False) = 0"
    and "approx_text_from_messages (dget_or (expected_out body) ''messages'' (PList [])) = Inr ''hi''"
    and "dget_or (expected_out body) ''tool_execution'' (PStr ''client'') \<noteq> PStr ''server''"
    and "dget_or body ''model'' (PStr ''?'') = PStr ''qwen3.8''"
    and "\<not> truthy (dget_or body ''stream'' (PBool False))"
proof -
  have m: "dget_or (expected_out body) ''messages'' (PList []) =
      PList [PDict [(PStr ''role'', PStr ''user''), (PStr ''content'', PStr ''hi'')]]"
    using assms by (auto simp: expected_out_def sample_chat_rq_def dget_or_def)
  then show "mc_error (check_media (dget_or (expected_out body) ''messages'' (PList [])) False) = None"
    "mc_images (check_media (dget_or (expected_out body) ''messages'' (PList [])) False) = 0"
    "approx_text_from_messages (dget_or (expected_out body) ''messages'' (PList [])) = Inr ''hi''"
    by (simp_all add: check_media_def as_list_def dget_def media_ok_def approx_text_from_messages_def
        message_parts_def dget_or_def join_strs_def List.map_filter_def)
  from assms show "dget_or (expected_out body) ''tool_execution'' (PStr ''client'') \<noteq> PStr ''server''"
    "dget_or body ''model'' (PStr ''?'') = PStr ''qwen3.8''"
    "\<not> truthy (dget_or body ''stream'' (PBool False))"
    by (auto simp: expected_out_def sample_chat_rq_def dget_or_def sampling_defs)
qed

lemma sample_chat_owner:
  "chat sample_cfg (sample_env ''hemmingway'') (Some owner) =
     (Some ''qwen3.8'', PlainPost ChatGate (expected_out sample_chat_rq) False)"
proof -
  note facts = sample_guards [of sample_chat_rq] sample_defaults [of sample_chat_rq]
  have own: "is_owner owner" "apply_chat_policy owner sample_chat_rq = sample_chat_rq" "chat_violation owner sample_chat_rq = None"
    by (simp_all add: owner_def is_owner_def apply_chat_policy_def chat_violation_def)
  have guard: "profile_guard sample_cfg (sample_env ''hemmingway'') owner False ''qwen3.8'' (resolve_name ''qwen3.8'')
      = GuardPass (Some ''qwen3.8'')"
    by (simp add: profile_guard_def sample_alias is_swap_exempt_def may_swap_def own
        backend_to_profile_def sample_resolved thinking_def)
  have strp: "should_strip_thinking sample_chat_rq (Some ''no'') = Inr False"
    by (simp add: should_strip_thinking_def yes_word_def lower_def lower_char_def is_upper_az_def)
  show ?thesis
    using facts guard strp own sample_checked
    by (simp add: chat_def sample_read chat_admitted_def resolve_alias_def str_of_def Let_def over_budget_def
        image_token_estimate_def forward_plan_def gate_for_def)
qed
  
lemma sample_chat_scoped:
  "chat sample_cfg (sample_env ''qwen3.8'') (Some sample_key) =
     (None, PlainPost LaneThenChat (expected_out (sample_chat_rq @ [(PStr ''tool_execution'', PStr ''client'')])) False)"
proof -
  let ?b = "sample_chat_rq @ [(PStr ''tool_execution'', PStr ''client'')]"
  note facts = sample_guards [of ?b] sample_defaults [of ?b]
  have key: "\<not> is_owner sample_key" "chat_violation sample_key sample_chat_rq = None"
    "apply_chat_policy sample_key sample_chat_rq = ?b"
    by (simp_all add: sample_key_def sample_principal_def is_owner_def chat_violation_def apply_chat_policy_def
        sample_chat_rq_def dget_def dput_def)
  have guard: "profile_guard sample_cfg (sample_env ''qwen3.8'') sample_key False ''qwen3.8'' (resolve_name ''qwen3.8'')
      = GuardPass None"
    by (simp add: profile_guard_def sample_resolved thinking_def)
  have strp: "should_strip_thinking ?b (Some ''no'') = Inr False"
    by (simp add: should_strip_thinking_def yes_word_def lower_def lower_char_def is_upper_az_def)
  show ?thesis
    using facts guard strp key sample_checked
    by (simp add: chat_def sample_read chat_admitted_def resolve_alias_def str_of_def Let_def over_budget_def
        image_token_estimate_def forward_plan_def gate_for_def)
qed


theorem scoped_chat_confined_witness:
  "\<exists>m \<in> set (p_aliases sample_key). dlook sample_chat_rq ''model'' = Some (PStr m)"
proof -
  have "\<not> is_owner sample_key" by (simp add: sample_key_def sample_principal_def is_owner_def)
  from scoped_chat_confined [OF sample_chat_scoped this sample_read] show ?thesis by simp
qed


definition sample_probe :: "string \<Rightarrow> pyval option" where
  "sample_probe b = Some (PDict [(PStr ''data'', PList [PDict [(PStr ''id'', PStr b)]])])"

definition sample_swap :: swap_world where
  "sample_swap = \<lparr>sw_url = ''http://host/'', sw_key = ''k'', sw_first = (5, sample_probe ''hemmingway''),
     sw_post = Some 200, sw_start = 50, sw_polls = [(50, 50, None), (51, 51, sample_probe ''qwen3.8'')],
     sw_slots = Inr (PInt 1)\<rparr>"

end
