(* ===== verification/Redaction.thy ===== *)
theory Redaction
  imports PyRegex PyVal
begin

text \<open>
  Redaction of everything the work-queue dispatcher posts
  (\<^verbatim>\<open>scripts/files/agent_runner_dispatch.py\<close>): the literal secrets read from the runner's own
  files, the patterns of well-known tokens, and what \<open>redact\<close> guarantees. The result for one
  replaced piece is always the word \<open>mark\<close>, so a secret that is free of the mark's brackets can
  only survive inside a piece of the original text that no step touched.
\<close>

section \<open>Loading the secrets\<close>

text \<open>\<open>load_secrets\<close>: a file is its text, or None when it cannot be opened.\<close>

definition assignment_re :: rx where
  "assignment_re =
     cats [Bos, Cls (\<lambda>c. is_alpha_az c \<or> c = CHR ''_''),
           star (Cls (\<lambda>c. is_alpha_az c \<or> is_digit c \<or> c = CHR ''_'')), ch (CHR ''='')]"

definition secret_lines :: "string \<Rightarrow> string list" where
  "secret_lines raw =
     filter (\<lambda>l. l \<noteq> [] \<and> hd l \<noteq> CHR ''#'') (map strip (splitlines raw))"

definition quote_chars :: string where
  "quote_chars = [CHR 0x27, CHR 0x22]"

definition assigned_value :: "string \<Rightarrow> string" where
  "assigned_value l =
     (case partition_char (CHR ''='') l of (_, _, v) \<Rightarrow> strip_chars quote_chars (strip v))"

definition file_secrets :: "string \<Rightarrow> string list" where
  "file_secrets raw =
     (let lines = secret_lines raw in
      filter (\<lambda>v. 8 \<le> length v)
        (if lines \<noteq> [] \<and> list_all (\<lambda>l. re_match assignment_re l \<noteq> None) lines
         then map assigned_value lines else [strip raw]))"

definition load_secrets :: "string option list \<Rightarrow> string list" where
  "load_secrets files =
     sort_key (\<lambda>v. - int (length v))
       (concat (map (\<lambda>f. case f of None \<Rightarrow> [] | Some raw \<Rightarrow> file_secrets raw) files))"

section \<open>Redacting\<close>

definition mark :: string where
  "mark = ''<redacted>''"

definition alnum :: "char \<Rightarrow> bool" where
  "alnum c = (is_alpha_az c \<or> is_digit c)"

definition hex_digit_ci :: "char \<Rightarrow> bool" where
  "hex_digit_ci c = (is_digit c \<or> (97 \<le> cp (lower_char c) \<and> cp (lower_char c) \<le> 102))"

definition name_chars :: "char \<Rightarrow> bool" where
  "name_chars c = (alnum c \<or> c = CHR ''_'')"

definition secret_res :: "rx list" where
  "secret_res =
     [cats [WordB,
        Grp 1 (Alt (cats [lit ''gh'', Cls (\<lambda>c. c \<in> set ''pousr''), ch (CHR ''_''), Rep True 20 None (Cls alnum)])
                   (Cat (lit ''github_pat_'') (Rep True 20 None (Cls name_chars))))],
      cats [WordB, lit ''sk-'', Rep True 16 None (Cls (\<lambda>c. name_chars c \<or> c = CHR ''-''))],
      cats [WordB, Grp 1 (alts [liti ''bearer'', liti ''token'', liti ''authorization'']),
        star (Cls is_space), opt (Cls (\<lambda>c. c \<in> set '':='')), plus (Cls is_space),
        Rep True 8 None (Cls (\<lambda>c. alnum c \<or> c \<in> set ''._~+/=-''))],
      cats [WordB,
        Grp 1 (cats [star (Cls name_chars),
                 Grp 2 (alts [liti ''KEY'', liti ''TOKEN'', liti ''SECRET'', liti ''PASSWORD'', liti ''PASS'']),
                 star (Cls name_chars)]),
        star (Cls is_space), ch (CHR ''=''), star (Cls is_space), plus (Cls (\<lambda>c. \<not> is_space c))],
      cats [WordB, Rep True 48 None (Cls hex_digit_ci), WordB]]"

definition redact :: "string list \<Rightarrow> string \<Rightarrow> string" where
  "redact secrets s =
     fold (\<lambda>pat t. re_sub pat (\<lambda>_ _. mark) t) secret_res
       (fold (\<lambda>v t. replace v mark t) secrets s)"

section \<open>A secret that is gone stays gone\<close>

text \<open>Secrets the guarantee covers: no bracket of the mark, and not a part of the marked word.\<close>

definition maskable :: "string \<Rightarrow> bool" where
  "maskable v = (v \<noteq> [] \<and> CHR ''<'' \<notin> set v \<and> CHR ''>'' \<notin> set v \<and> \<not> contains ''redacted'' v)"

abbreviation hides :: "string \<Rightarrow> string \<Rightarrow> bool" where
  "hides v s \<equiv> \<not> contains s v"

lemma hides_Cons: "hides v (c # s) \<longleftrightarrow> \<not> startswith (c # s) v \<and> hides v s"
  by simp

lemma startswith_avoid:
  assumes "d \<notin> set v" and "startswith (xs @ d # ys) v"
  shows "startswith xs v"
proof (cases "length v \<le> length xs")
  case True
  with assms(2) show ?thesis by simp
next
  case False
  with assms(2) have "take (length v) (xs @ d # ys) ! length xs = v ! length xs" by simp
  moreover have "take (length v) (xs @ d # ys) ! length xs = d"
    using False by (simp add: nth_append del: take_append)
  ultimately have "d \<in> set v" using False by (metis not_le nth_mem)
  with assms(1) show ?thesis by simp
qed

lemma hides_split:
  assumes "d \<notin> set v" and "v \<noteq> []"
  shows "hides v (xs @ d # ys) \<longleftrightarrow> hides v xs \<and> hides v ys"
proof (induction xs)
  case Nil
  from assms have "\<not> startswith (d # ys) v" by (cases v) auto
  with assms(2) show ?case by simp
next
  case (Cons a xs)
  have "startswith (a # xs @ d # ys) v \<longleftrightarrow> startswith (a # xs) v"
  proof
    assume "startswith (a # xs @ d # ys) v"
    then show "startswith (a # xs) v" using startswith_avoid [OF assms(1), of "a # xs" ys] by simp
  next
    assume *: "startswith (a # xs) v"
    then have "length v \<le> length (a # xs)" by (metis length_take min.absorb_iff1 min.commute nle_le)
    with * show "startswith (a # xs @ d # ys) v" by (metis append_Cons take_append diff_is_0_eq take_0 append_Nil2)
  qed
  with Cons show ?case by auto
qed

lemma hides_mark: "maskable v \<Longrightarrow> hides v (mark @ s) \<longleftrightarrow> hides v s"
proof -
  assume v: "maskable v"
  then have ne: "v \<noteq> []" and lt: "CHR ''<'' \<notin> set v" and gt: "CHR ''>'' \<notin> set v" by (auto simp: maskable_def)
  have "mark @ s = [] @ CHR ''<'' # (''redacted'' @ CHR ''>'' # s)" by (simp add: mark_def)
  then have "hides v (mark @ s) \<longleftrightarrow> hides v [] \<and> hides v ''redacted'' \<and> hides v s"
    using hides_split [OF lt ne] hides_split [OF gt ne] by metis
  with v ne show ?thesis by (simp add: maskable_def)
qed

lemma hides_drop: "hides v s \<Longrightarrow> hides v (drop n s)"
  unfolding contains_iff by (metis append.assoc append_take_drop_id)

text \<open>
  Both kinds of replacement leave a prefix that has no bracket of the mark as it was, so a secret at
  the head of the result was at the head of the text.
\<close>

lemma replace_hit:
  "old \<noteq> [] \<and> startswith (c # s) old \<Longrightarrow>
   replace old new (c # s) = new @ replace old new (drop (length old) (c # s))"
  by (subst replace.simps(2)) (rule if_P)

lemma replace_keep:
  "\<not> (old \<noteq> [] \<and> startswith (c # s) old) \<Longrightarrow> replace old new (c # s) = c # replace old new s"
  by (subst replace.simps(2)) (rule if_not_P)

lemma take_replace:
  "new = mark \<Longrightarrow> CHR ''<'' \<notin> set (take n (replace old new s)) \<Longrightarrow> take n (replace old new s) = take n s"
proof (induction old new s arbitrary: n rule: replace.induct)
  case (1 old new)
  then show ?case by simp
next
  case (2 old new c s)
  show ?case
  proof (cases "old \<noteq> [] \<and> startswith (c # s) old")
    case True
    with "2.prems" have "n = 0" by (cases n) (auto simp: replace_hit [OF True] mark_def)
    then show ?thesis by simp
  next
    case False
    show ?thesis
    proof (cases n)
      case (Suc m)
      with "2.prems" have "CHR ''<'' \<notin> set (take m (replace old new s))"
        by (simp add: replace_keep [OF False])
      from "2.IH"(2) [OF False "2.prems"(1) this] Suc show ?thesis
        by (simp add: replace_keep [OF False])
    qed simp
  qed
qed

lemma take_sub:
  "CHR ''<'' \<notin> set (take n (sub_fuel k r (\<lambda>_ _. mark) pre s)) \<Longrightarrow>
   take n (sub_fuel k r (\<lambda>_ _. mark) pre s) = take n s"
proof (induction k arbitrary: pre s n)
  case 0
  then show ?case by simp
next
  case (Suc k)
  show ?case
  proof (cases s)
    case Nil
    then show ?thesis by simp
  next
    case (Cons c s')
    show ?thesis
    proof (cases n)
      case 0
      then show ?thesis by simp
    next
      case n: (Suc m)
      show ?thesis
        using Suc.prems Suc.IH [of m "c # pre" s'] n Cons
        by (auto simp: mark_def split: list.splits if_splits)
    qed
  qed
qed

lemma head_survives:
  assumes "take (length v - 1) t = take (length v - 1) s \<or> CHR ''<'' \<in> set (take (length v - 1) t)"
    and "CHR ''<'' \<notin> set v" and "startswith (c # t) v"
  shows "startswith (c # s) v"
proof (cases v)
  case Nil
  then show ?thesis by simp
next
  case (Cons a w)
  with assms(3) have w: "a = c" "take (length w) t = w" by auto
  with assms(1,2) Cons have "take (length w) s = w" by auto
  with Cons w show ?thesis by simp
qed

lemma hides_head:
  assumes "maskable v" and "\<not> startswith (c # s) v"
    and "\<And>n. CHR ''<'' \<notin> set (take n t) \<Longrightarrow> take n t = take n s"
  shows "\<not> startswith (c # t) v"
proof
  assume "startswith (c # t) v"
  moreover from assms(1) have "CHR ''<'' \<notin> set v" by (simp add: maskable_def)
  ultimately have "startswith (c # s) v" using head_survives [of v t s c] assms(3) by blast
  with assms(2) show False by simp
qed

lemma hides_replace:
  "new = mark \<Longrightarrow> maskable v \<Longrightarrow> v = old \<or> hides v s \<Longrightarrow> hides v (replace old new s)"
proof (induction old new s rule: replace.induct)
  case (1 old new)
  then show ?case by (auto simp: maskable_def)
next
  case (2 old new c s)
  show ?case
  proof (cases "old \<noteq> [] \<and> startswith (c # s) old")
    case True
    have "v = old \<or> hides v (drop (length old) (c # s))"
      using "2.prems"(3) hides_drop by blast
    from "2.IH"(1) [OF True "2.prems"(1,2) this]
    show ?thesis by (simp add: replace_hit [OF True] "2.prems"(1) hides_mark [OF "2.prems"(2)])
  next
    case False
    have step: "v = old \<or> hides v s" using "2.prems"(3) by auto
    have "v \<noteq> []" using "2.prems"(2) by (simp add: maskable_def)
    then have now: "\<not> startswith (c # s) v" using "2.prems"(3) False by auto
    have "\<not> startswith (c # replace old new s) v"
      by (rule hides_head [OF "2.prems"(2) now take_replace [OF "2.prems"(1)]])
    with "2.IH"(2) [OF False "2.prems"(1,2) step] show ?thesis
      by (simp add: replace_keep [OF False])
  qed
qed

lemma hides_sub_fuel:
  assumes v: "maskable v"
  shows "hides v s \<Longrightarrow> hides v (sub_fuel k r (\<lambda>_ _. mark) pre s)"
proof (induction k arbitrary: pre s)
  case 0
  then show ?case by simp
next
  case (Suc k)
  show ?case
  proof (cases s)
    case Nil
    with Suc.prems show ?thesis by simp
  next
    case (Cons c s')
    from Suc.prems Cons have rest: "hides v s'" and head: "\<not> startswith (c # s') v" by auto
    let ?t = "sub_fuel k r (\<lambda>_ _. mark) (c # pre) s'"
    have "\<not> startswith (c # ?t) v" by (rule hides_head [OF v head take_sub])
    with Suc.IH [OF rest] have keep: "hides v (c # ?t)" by (simp only: hides_Cons simp_thms)
    show ?thesis
    proof (cases "mt r \<lparr>past = pre, ahead = s, caps = []\<rparr>")
      case Nil
      with Cons have "sub_fuel (Suc k) r (\<lambda>_ _. mark) pre s = c # ?t" by simp
      with keep show ?thesis by (simp only: simp_thms)
    next
      case m: (Cons st sts)
      have "advances \<lparr>past = pre, ahead = s, caps = []\<rparr> st"
        by (rule mt_advances [of _ r]) (simp add: m)
      then obtain w where "s = w @ ahead st" by (auto simp: advances_def)
      then have "ahead st = drop (length w) s" by (metis append_eq_conv_conj)
      with Suc.prems have "hides v (ahead st)" by (metis hides_drop)
      with Suc.IH have tl: "hides v (mark @ sub_fuel k r (\<lambda>_ _. mark) (past st) (ahead st))"
        by (simp only: hides_mark [OF v])
      have "sub_fuel (Suc k) r (\<lambda>_ _. mark) pre s =
          (if ahead st = s then c # ?t else mark @ sub_fuel k r (\<lambda>_ _. mark) (past st) (ahead st))"
        using Cons m by simp
      with keep tl show ?thesis by presburger
    qed
  qed
qed

lemma hides_re_sub: "maskable v \<Longrightarrow> hides v s \<Longrightarrow> hides v (re_sub r (\<lambda>_ _. mark) s)"
  by (simp add: re_sub_def hides_sub_fuel)

lemma hides_fold_replace:
  "maskable v \<Longrightarrow> v \<in> set vs \<or> hides v s \<Longrightarrow> hides v (fold (\<lambda>v t. replace v mark t) vs s)"
proof (induction vs arbitrary: s)
  case (Cons old vs)
  from Cons.prems(2) have "v \<in> set vs \<or> hides v (replace old mark s)"
    using hides_replace [OF refl Cons.prems(1)] by (metis set_ConsD)
  from Cons.IH [OF Cons.prems(1) this] show ?case by (simp only: fold.simps comp_def simp_thms)
qed simp

lemma hides_fold_sub:
  "maskable v \<Longrightarrow> hides v s \<Longrightarrow> hides v (fold (\<lambda>pat t. re_sub pat (\<lambda>_ _. mark) t) pats s)"
proof (induction pats arbitrary: s)
  case (Cons r pats)
  from Cons.IH [OF Cons.prems(1) hides_re_sub [of v s r, OF Cons.prems]] show ?case
    by (simp only: fold.simps comp_def simp_thms)
qed simp

lemma redact_hides: "maskable v \<Longrightarrow> v \<in> set secrets \<Longrightarrow> hides v (redact secrets s)"
  unfolding redact_def by (intro hides_fold_sub hides_fold_replace) auto

lemma hides_take: "hides v s \<Longrightarrow> hides v (take n s)"
  unfolding contains_iff by (metis append.assoc append_take_drop_id)

end
