(* ===== verification/RegexShape.thy ===== *)
theory RegexShape
  imports PyRegex
begin

text \<open>
  What the shape of a pattern says about every match: the characters it can consume, the least
  number of them, and what a group can have captured. These facts turn a pattern of the source
  into a guarantee on the strings it lets through, without running the matcher.
\<close>

section \<open>Consumed text\<close>

primrec may_eat :: "rx \<Rightarrow> char \<Rightarrow> bool" where
  "may_eat Eps c = False"
| "may_eat (Cls P) c = P c"
| "may_eat (Cat r1 r2) c = (may_eat r1 c \<or> may_eat r2 c)"
| "may_eat (Alt r1 r2) c = (may_eat r1 c \<or> may_eat r2 c)"
| "may_eat (Rep g lo hi r) c = may_eat r c"
| "may_eat (Grp n r) c = may_eat r c"
| "may_eat Bos c = False"
| "may_eat Bol c = False"
| "may_eat Eos c = False"
| "may_eat Eol c = False"
| "may_eat WordB c = False"
| "may_eat (Ahead r) c = False"
| "may_eat (NotBehind P) c = False"

primrec min_len :: "rx \<Rightarrow> nat" where
  "min_len Eps = 0"
| "min_len (Cls P) = 1"
| "min_len (Cat r1 r2) = min_len r1 + min_len r2"
| "min_len (Alt r1 r2) = min (min_len r1) (min_len r2)"
| "min_len (Rep g lo hi r) = lo * min_len r"
| "min_len (Grp n r) = min_len r"
| "min_len Bos = 0"
| "min_len Bol = 0"
| "min_len Eos = 0"
| "min_len Eol = 0"
| "min_len WordB = 0"
| "min_len (Ahead r) = 0"
| "min_len (NotBehind P) = 0"

text \<open>A step from one state to another that consumed a text over \<open>P\<close> of at least \<open>n\<close> characters.\<close>

definition eats :: "(char \<Rightarrow> bool) \<Rightarrow> nat \<Rightarrow> mstate \<Rightarrow> mstate \<Rightarrow> bool" where
  "eats P n st st' \<longleftrightarrow>
     (\<exists>w. ahead st = w @ ahead st' \<and> past st' = rev w @ past st \<and> list_all P w \<and> n \<le> length w)"

lemma eats_refl [simp]: "eats P 0 st st"
  by (simp add: eats_def)

lemma eats_trans:
  assumes "eats P m a b" and "eats P n b c"
  shows "eats P (m + n) a c"
proof -
  from assms obtain u v where "ahead a = u @ ahead b" "past b = rev u @ past a" "list_all P u" "m \<le> length u"
    and "ahead b = v @ ahead c" "past c = rev v @ past b" "list_all P v" "n \<le> length v"
    by (auto simp: eats_def)
  then have "ahead a = (u @ v) @ ahead c \<and> past c = rev (u @ v) @ past a \<and> list_all P (u @ v) \<and> m + n \<le> length (u @ v)"
    by simp
  then show ?thesis unfolding eats_def by blast
qed

lemma eats_mono: "eats P m a b \<Longrightarrow> n \<le> m \<Longrightarrow> (\<And>c. P c \<Longrightarrow> Q c) \<Longrightarrow> eats Q n a b"
  by (fastforce simp: eats_def list_all_iff)

lemma eats_caps [simp]: "eats P n st (st'\<lparr>caps := x\<rparr>) = eats P n st st'"
  by (simp add: eats_def)

text \<open>
  A relation between states that holds of one iteration holds of a repetition, if it is reflexive
  at zero iterations and composes.
\<close>

lemma iter_eats:
  assumes f: "\<And>st st'. st' \<in> set (f st) \<Longrightarrow> eats P m st st'"
  shows "st' \<in> set (iter k f g lo hi st) \<Longrightarrow> eats P (lo * m) st st'"
proof (induction k arbitrary: lo hi st)
  case 0
  then show ?case by (auto split: if_splits)
next
  case (Suc k)
  then consider "lo = 0" "st' = st"
    | st1 where "st1 \<in> set (f st)" "st' \<in> set (iter k f g (lo - 1) (dec_opt hi) st1)"
    by (auto simp: Let_def split: if_splits)
  then show ?case
  proof cases
    case 1
    then show ?thesis by simp
  next
    case 2
    from eats_trans [OF f [OF 2(1)] Suc.IH [OF 2(2)]]
    have "eats P (m + (lo - 1) * m) st st'" .
    then show ?thesis by (rule eats_mono) (cases lo, auto)
  qed
qed

lemma mt_eats: "st' \<in> set (mt r st) \<Longrightarrow> eats (may_eat r) (min_len r) st st'"
proof (induction r arbitrary: st st')
  case (Cls P)
  then show ?case by (auto simp: eats_def split: list.splits if_splits)
next
  case (Cat r1 r2)
  then obtain st1 where "st1 \<in> set (mt r1 st)" "st' \<in> set (mt r2 st1)" by auto
  then have "eats (may_eat (Cat r1 r2)) (min_len r1) st st1"
    and "eats (may_eat (Cat r1 r2)) (min_len r2) st1 st'"
    using eats_mono [OF Cat.IH(1) order_refl] eats_mono [OF Cat.IH(2) order_refl] by simp_all
  from eats_trans [OF this] show ?case by (simp only: min_len.simps)
next
  case (Alt r1 r2)
  from Alt.prems consider "st' \<in> set (mt r1 st)" | "st' \<in> set (mt r2 st)" by auto
  then show ?case
  proof cases
    case 1
    show ?thesis by (rule eats_mono [OF Alt.IH(1) [OF 1]]) simp_all
  next
    case 2
    show ?thesis by (rule eats_mono [OF Alt.IH(2) [OF 2]]) simp_all
  qed
next
  case (Rep g lo hi r)
  have "eats (may_eat r) (lo * min_len r) st st'"
    by (rule iter_eats [of "mt r"]) (use Rep in auto)
  then show ?case by (auto intro: eats_mono)
next
  case (Grp n r)
  then show ?case by (auto intro: eats_mono)
next
  case (Ahead r)
  then show ?case by (auto split: list.splits)
qed (auto split: if_splits)

section \<open>Captured groups\<close>

text \<open>
  \<open>grp_ok n r s\<close>: the shape of \<open>r\<close> allows group \<open>n\<close> to hold \<open>s\<close>. \<open>must_cap n r\<close>: every match of
  \<open>r\<close> sets group \<open>n\<close>.
\<close>

primrec grp_ok :: "nat \<Rightarrow> rx \<Rightarrow> string \<Rightarrow> bool" where
  "grp_ok n Eps s = False"
| "grp_ok n (Cls P) s = False"
| "grp_ok n (Cat r1 r2) s = (grp_ok n r1 s \<or> grp_ok n r2 s)"
| "grp_ok n (Alt r1 r2) s = (grp_ok n r1 s \<or> grp_ok n r2 s)"
| "grp_ok n (Rep g lo hi r) s = grp_ok n r s"
| "grp_ok n (Grp m r) s = ((m = n \<and> (\<forall>c \<in> set s. may_eat r c) \<and> min_len r \<le> length s) \<or> grp_ok n r s)"
| "grp_ok n Bos s = False"
| "grp_ok n Bol s = False"
| "grp_ok n Eos s = False"
| "grp_ok n Eol s = False"
| "grp_ok n WordB s = False"
| "grp_ok n (Ahead r) s = grp_ok n r s"
| "grp_ok n (NotBehind P) s = False"

primrec must_cap :: "nat \<Rightarrow> rx \<Rightarrow> bool" where
  "must_cap n Eps = False"
| "must_cap n (Cls P) = False"
| "must_cap n (Cat r1 r2) = (must_cap n r1 \<or> must_cap n r2)"
| "must_cap n (Alt r1 r2) = (must_cap n r1 \<and> must_cap n r2)"
| "must_cap n (Rep g lo hi r) = (0 < lo \<and> must_cap n r)"
| "must_cap n (Grp m r) = (m = n \<or> must_cap n r)"
| "must_cap n Bos = False"
| "must_cap n Bol = False"
| "must_cap n Eos = False"
| "must_cap n Eol = False"
| "must_cap n WordB = False"
| "must_cap n (Ahead r) = False"
| "must_cap n (NotBehind P) = False"

definition adds_caps :: "(nat \<times> string \<Rightarrow> bool) \<Rightarrow> mstate \<Rightarrow> mstate \<Rightarrow> bool" where
  "adds_caps Q st st' \<longleftrightarrow> (\<exists>new. caps st' = new @ caps st \<and> list_all Q new)"

lemma adds_caps_refl [simp]: "adds_caps Q st st"
  by (simp add: adds_caps_def)

lemma adds_caps_trans: "adds_caps Q a b \<Longrightarrow> adds_caps Q b c \<Longrightarrow> adds_caps Q a c"
  unfolding adds_caps_def by (metis append.assoc list_all_append)

lemma adds_caps_mono: "adds_caps Q a b \<Longrightarrow> (\<And>p. Q p \<Longrightarrow> R p) \<Longrightarrow> adds_caps R a b"
  by (auto simp: adds_caps_def list_all_iff)

lemma iter_adds_caps:
  assumes f: "\<And>st st'. st' \<in> set (f st) \<Longrightarrow> adds_caps Q st st'"
  shows "st' \<in> set (iter k f g lo hi st) \<Longrightarrow> adds_caps Q st st'"
proof (induction k arbitrary: lo hi st)
  case 0
  then show ?case by (auto split: if_splits)
next
  case (Suc k)
  then consider "st' = st"
    | st1 where "st1 \<in> set (f st)" "st' \<in> set (iter k f g (lo - 1) (dec_opt hi) st1)"
    by (auto simp: Let_def split: if_splits)
  then show ?case
  proof cases
    case 2
    from adds_caps_trans [OF f [OF 2(1)] Suc.IH [OF 2(2)]] show ?thesis .
  qed simp
qed

lemma grp_text:
  assumes "eats P n st st'"
  defines "s \<equiv> rev (take (length (past st') - length (past st)) (past st'))"
  shows "list_all P s \<and> n \<le> length s"
proof -
  from assms(1) obtain w where w: "past st' = rev w @ past st" "list_all P w" "n \<le> length w"
    by (auto simp: eats_def)
  then have "s = w" by (simp add: s_def)
  with w show ?thesis by simp
qed

lemma mt_adds_caps: "st' \<in> set (mt r st) \<Longrightarrow> adds_caps (\<lambda>(n, s). grp_ok n r s) st st'"
proof (induction r arbitrary: st st')
  case (Cls P)
  then show ?case by (auto simp: adds_caps_def split: list.splits if_splits)
next
  case (Cat r1 r2)
  then obtain st1 where "st1 \<in> set (mt r1 st)" "st' \<in> set (mt r2 st1)" by auto
  then have "adds_caps (\<lambda>(n, s). grp_ok n (Cat r1 r2) s) st st1"
    and "adds_caps (\<lambda>(n, s). grp_ok n (Cat r1 r2) s) st1 st'"
    by (auto intro: adds_caps_mono [OF Cat.IH(1)] adds_caps_mono [OF Cat.IH(2)])
  then show ?case by (rule adds_caps_trans)
next
  case (Alt r1 r2)
  from Alt.prems consider "st' \<in> set (mt r1 st)" | "st' \<in> set (mt r2 st)" by auto
  then show ?case
  proof cases
    case 1
    show ?thesis by (rule adds_caps_mono [OF Alt.IH(1) [OF 1]]) auto
  next
    case 2
    show ?thesis by (rule adds_caps_mono [OF Alt.IH(2) [OF 2]]) auto
  qed
next
  case (Rep g lo hi r)
  have "adds_caps (\<lambda>(n, s). grp_ok n r s) st st'"
    by (rule iter_adds_caps [of "mt r"]) (use Rep in auto)
  then show ?case by (auto intro: adds_caps_mono)
next
  case (Grp m r)
  then obtain st1 where st1: "st1 \<in> set (mt r st)"
    and st': "st' = st1\<lparr>caps := (m, rev (take (length (past st1) - length (past st)) (past st1))) # caps st1\<rparr>"
    by auto
  from grp_text [OF mt_eats [OF st1]] Grp.IH [OF st1] st' show ?case
    by (auto simp: adds_caps_def list_all_iff)
next
  case (Ahead r)
  then show ?case by (auto simp: adds_caps_def split: list.splits) (metis list.set_intros(1) Ahead.IH adds_caps_def)
qed (auto split: if_splits)

lemma iter_must_cap:
  assumes "\<And>st st'. st' \<in> set (f st) \<Longrightarrow> n \<in> fst ` set (caps st')"
    and "\<And>st st'. st' \<in> set (f st) \<Longrightarrow> set (caps st) \<subseteq> set (caps st')"
  shows "st' \<in> set (iter k f g lo hi st) \<Longrightarrow> 0 < lo \<or> n \<in> fst ` set (caps st) \<Longrightarrow> n \<in> fst ` set (caps st')"
proof (induction k arbitrary: lo hi st)
  case 0
  then show ?case by (auto split: if_splits)
next
  case (Suc k)
  then consider "lo = 0" "st' = st"
    | st1 where "st1 \<in> set (f st)" "st' \<in> set (iter k f g (lo - 1) (dec_opt hi) st1)"
    by (auto simp: Let_def split: if_splits)
  then show ?case
  proof cases
    case 1
    with Suc.prems show ?thesis by simp
  next
    case 2
    with assms(1) Suc.IH show ?thesis by blast
  qed
qed

lemma mt_caps_grow: "st' \<in> set (mt r st) \<Longrightarrow> set (caps st) \<subseteq> set (caps st')"
  using mt_adds_caps [of st' r st] by (auto simp: adds_caps_def)

lemma mt_must_cap: "must_cap n r \<Longrightarrow> st' \<in> set (mt r st) \<Longrightarrow> n \<in> fst ` set (caps st')"
proof (induction r arbitrary: st st')
  case (Cat r1 r2)
  from Cat.prems(2) obtain st1 where m: "st1 \<in> set (mt r1 st)" "st' \<in> set (mt r2 st1)" by auto
  from Cat.prems(1) have "must_cap n r1 \<or> must_cap n r2" by simp
  then show ?case
  proof
    assume "must_cap n r1"
    with Cat.IH(1) m(1) have "n \<in> fst ` set (caps st1)" by blast
    with mt_caps_grow [OF m(2)] show ?thesis by blast
  next
    assume "must_cap n r2"
    with Cat.IH(2) m(2) show ?thesis by blast
  qed
next
  case (Rep g lo hi r)
  show ?case
    by (rule iter_must_cap [of "mt r" n st' "lo + length (ahead st)" g lo hi st])
      (use Rep mt_caps_grow in auto)
qed (auto split: if_splits list.splits)

text \<open>The two facts the components use: about the text a match consumed, and about a group it set.\<close>

lemma re_match_eats:
  assumes "re_match r s = Some st"
  shows "\<exists>w. s = w @ ahead st \<and> (\<forall>c \<in> set w. may_eat r c) \<and> min_len r \<le> length w"
proof -
  from assms have "st \<in> set (mt r (mstart s))" by (auto simp: re_match_def split: list.splits)
  from mt_eats [OF this] show ?thesis by (auto simp: eats_def mstart_def list_all_iff)
qed

lemma group_shape:
  assumes "st \<in> set (mt r \<lparr>past = p, ahead = s, caps = []\<rparr>)"
  shows "(\<forall>t. group n st = Some t \<longrightarrow> grp_ok n r t) \<and> (must_cap n r \<longrightarrow> group n st \<noteq> None)"
proof -
  from mt_adds_caps [OF assms] have "list_all (\<lambda>(n, s). grp_ok n r s) (caps st)"
    by (auto simp: adds_caps_def)
  then have "\<forall>t. group n st = Some t \<longrightarrow> grp_ok n r t"
    by (auto simp: group_def list_all_iff dest!: map_of_SomeD)
  moreover have "must_cap n r \<longrightarrow> group n st \<noteq> None"
    using mt_must_cap [OF _ assms] by (auto simp: group_def map_of_eq_None_iff)
  ultimately show ?thesis ..
qed

lemma re_match_in: "re_match r s = Some st \<Longrightarrow> st \<in> set (mt r \<lparr>past = [], ahead = s, caps = []\<rparr>)"
  by (auto simp: re_match_def mstart_def split: list.splits)

lemma search_from_in:
  "search_from r pre s = Some (p, st) \<Longrightarrow> \<exists>q t. st \<in> set (mt r \<lparr>past = q, ahead = t, caps = []\<rparr>)"
proof (induction r pre s rule: search_from.induct)
  case (1 r pre)
  then show ?case by (auto split: list.splits) (metis list.set_intros(1))
next
  case (2 r pre c s)
  then show ?case by (auto split: list.splits) (metis list.set_intros(1))
qed

lemma re_search_in: "re_search r s = Some (p, st) \<Longrightarrow> \<exists>q t. st \<in> set (mt r \<lparr>past = q, ahead = t, caps = []\<rparr>)"
  unfolding re_search_def by (rule search_from_in)

lemma findall_fuel_in:
  "st \<in> set (findall_fuel k r pre s) \<Longrightarrow> \<exists>q t. st \<in> set (mt r \<lparr>past = q, ahead = t, caps = []\<rparr>)"
proof (induction k arbitrary: pre s)
  case (Suc k)
  show ?case
  proof (cases s)
    case Nil
    with Suc.prems show ?thesis by simp
  next
    case (Cons c s')
    show ?thesis
    proof (cases "mt r \<lparr>past = pre, ahead = s, caps = []\<rparr>")
      case Nil
      with Cons Suc.prems have "st \<in> set (findall_fuel k r (c # pre) s')" by simp
      then show ?thesis by (rule Suc.IH)
    next
      case m: (Cons st1 sts)
      with Cons Suc.prems consider "st = st1" | "st \<in> set (findall_fuel k r (c # pre) s')"
        | "st \<in> set (findall_fuel k r (past st1) (ahead st1))"
        by (auto split: if_splits)
      then show ?thesis
      proof cases
        case 1
        with m have "st \<in> set (mt r \<lparr>past = pre, ahead = s, caps = []\<rparr>)" by simp
        then show ?thesis by blast
      qed (rule Suc.IH, assumption)+
    qed
  qed
qed simp

lemma re_findall_in:
  "st \<in> set (re_findall r s) \<Longrightarrow> \<exists>q t. st \<in> set (mt r \<lparr>past = q, ahead = t, caps = []\<rparr>)"
  unfolding re_findall_def by (rule findall_fuel_in)

end
