(* ===== verification/DispatchText.thy ===== *)
theory DispatchText
  imports Redaction RegexShape
begin

text \<open>
  What the work-queue dispatcher (\<^verbatim>\<open>scripts/files/agent_runner_dispatch.py\<close>) reads: the fields of
  an issue, the reference to check out, the time limit, the event log of a run, the report the
  agent prints, and the script line and report of script tasks. JSON parsing, the text of a
  non-string value and \<^verbatim>\<open>repr\<close> are parameters.
\<close>

section \<open>Issue fields\<close>

definition parse_mirrors :: "string \<Rightarrow> (string \<times> string list) list" where
  "parse_mirrors spec =
     fold (\<lambda>item out.
             case partition_char (CHR '':'') item of
               (repo, _, branch) \<Rightarrow>
                 alist_put repo ((case map_of out repo of None \<Rightarrow> [] | Some bs \<Rightarrow> bs) @ [branch]) out)
       (filter (\<lambda>x. x \<noteq> []) (map strip (split_char (CHR '','') spec))) []"

definition not_newline :: "char \<Rightarrow> bool" where
  "not_newline c = (cp c \<noteq> 10)"

definition heading_re :: rx where
  "heading_re =
     cats [Bos, Rep True 2 (Some 4) (ch (CHR ''#'')), plus (Cls is_space),
           Grp 1 (Rep False 1 None (Cls not_newline)), star (Cls is_space), Eos]"

definition heading :: "string \<Rightarrow> string option" where
  "heading line =
     (case re_match heading_re line of None \<Rightarrow> None | Some st \<Rightarrow> map_option strip (group 1 st))"

type_synonym secs = "(string \<times> string list) list"

definition section_line :: "string \<Rightarrow> secs \<times> string option \<Rightarrow> secs \<times> string option" where
  "section_line line st =
     (case st of (out, cur) \<Rightarrow>
        case heading line of
          Some h \<Rightarrow> (alist_put h [] out, Some h)
        | None \<Rightarrow>
            (case cur of
               None \<Rightarrow> (out, None)
             | Some h \<Rightarrow>
                 (alist_put h ((case map_of out h of None \<Rightarrow> [] | Some ls \<Rightarrow> ls) @ [line]) out, cur)))"

definition sections :: "string \<Rightarrow> (string \<times> string) list" where
  "sections body =
     map (\<lambda>(k, ls). (k, strip (join [CHR 0x0A] ls)))
       (fst (fold section_line (splitlines body) ([], None)))"

definition field :: "(string \<times> string) list \<Rightarrow> string list \<Rightarrow> string" where
  "field secs names =
     (case first_some (\<lambda>name. first_some (\<lambda>(k, v). if startswith (lower k) (lower name) then Some v else None) secs) names of
        None \<Rightarrow> [] | Some v \<Rightarrow> v)"

section \<open>The reference to check out\<close>

definition ref_char :: "char \<Rightarrow> bool" where
  "ref_char c = (alnum c \<or> c \<in> set ''._/-'')"

definition ref_re :: rx where
  "ref_re =
     cats [Bos, Grp 1 (Rep False 1 None (Cls ref_char)),
           opt (Cat (ch (CHR ''@'')) (Grp 2 (Rep True 7 (Some 40) (Cls hex_digit_ci)))), Eos]"

definition switch_re :: rx where
  "switch_re =
     cats [WordB, lit ''git'', plus (Cls is_space), Alt (lit ''switch'') (lit ''checkout''), plus (Cls is_space),
           Grp 1 (Cat (Cls (\<lambda>c. ref_char c \<and> c \<noteq> CHR ''-'')) (star (Cls ref_char)))]"

definition sha_expect_re :: rx where
  "sha_expect_re =
     cats [WordB, Alt (Cat (liti ''expect'') (opt (liti ''ed''))) (liti ''sha''), WordB,
           star (Cls is_space), opt (Cls (\<lambda>c. c \<in> set '':='')), star (Cls is_space),
           Grp 1 (Rep True 7 (Some 40) (Cls hex_digit_ci)), WordB]"

definition sha_bare_re :: rx where
  "sha_bare_re = cats [Bos, Rep True 40 (Some 40) (Cls hex_digit_ci), Eos]"

definition the_group :: "nat \<Rightarrow> mstate \<Rightarrow> string" where
  "the_group n st = (case group n st of None \<Rightarrow> [] | Some s \<Rightarrow> s)"

text \<open>What one line names: branches and shas.\<close>

definition ref_line :: "string \<Rightarrow> string list \<times> string list" where
  "ref_line raw =
     (let line = strip raw; bare = strip (strip_chars ''`'' line) in
      if line = [] \<or> startswith line ''```'' then ([], [])
      else if re_match sha_bare_re bare \<noteq> None then ([], [lower bare])
      else case re_search sha_expect_re line of
             Some (_, st) \<Rightarrow> ([], [lower (the_group 1 st)])
           | None \<Rightarrow>
               (let found = map (the_group 1) (re_findall switch_re line) in
                if found \<noteq> [] then (found, [])
                else case re_match ref_re bare of
                       None \<Rightarrow> ([], [])
                     | Some st \<Rightarrow>
                         ([the_group 1 st], (case group 2 st of
                                               None \<Rightarrow> []
                                             | Some s \<Rightarrow> if s = [] then [] else [lower s]))))"

definition parse_ref :: "string \<Rightarrow> string + string \<times> string option" where
  "parse_ref txt =
     (let found = map ref_line (splitlines txt);
          branches = concat (map fst found); shas = concat (map snd found);
          names = sort (remdups branches) in
      if length names \<noteq> 1 \<or> startswith (hd names) ''-'' \<or> contains (hd names) ''..''
      then Inl (''found '' @ (if names = [] then ''no branch'' else ''branches '' @ join '', '' names) @
             ''; name exactly one: `branch`, `branch@sha` or `git switch <branch>`'')
      else if 1 < card (set shas)
      then Inl (''more than one sha to verify: '' @ join '', '' (sort (remdups shas)))
      else Inr (hd names, case shas of [] \<Rightarrow> None | sha # _ \<Rightarrow> Some sha))"

section \<open>The time limit\<close>

definition default_timeout_min :: int where "default_timeout_min = 60"
definition max_timeout_min :: int where "max_timeout_min = 720"

definition wall_time_re :: rx where
  "wall_time_re =
     cats [opt (cats [liti ''max'', opt (liti ''imum''), plus (Cls is_space)]),
           liti ''wall'', star (Cls (\<lambda>c. is_space c \<or> c = CHR ''-'')), liti ''time'',
           Rep False 0 (Some 10) (Cls (\<lambda>c. \<not> is_digit c)),
           Grp 1 (Cat (plus (Cls is_digit)) (opt (Cat (ch (CHR ''.'')) (plus (Cls is_digit))))),
           star (Cls is_space),
           Grp 2 (alts [liti ''h'', liti ''hr'', liti ''hrs'', Cat (liti ''hour'') (opt (liti ''s'')),
                        liti ''m'', liti ''min'', liti ''mins'', Cat (liti ''minute'') (opt (liti ''s''))]),
           WordB]"

text \<open>The value of a decimal numeral; the exact rational, where Python rounds to a float.\<close>

definition dec_value :: "string \<Rightarrow> rat" where
  "dec_value s =
     (case partition_char (CHR ''.'') s of (a, _, b) \<Rightarrow>
        of_nat (nat_of_digits a) + of_nat (nat_of_digits b) / 10 ^ length b)"

definition parse_timeout_minutes :: "string \<Rightarrow> int" where
  "parse_timeout_minutes txt =
     (case re_search wall_time_re txt of
        None \<Rightarrow> default_timeout_min
      | Some (_, st) \<Rightarrow>
          (let n = dec_value (the_group 1 st) *
                     (if startswith (lower (the_group 2 st)) ''h'' then 60 else 1)
           in \<lfloor>max 1 (min n (of_int max_timeout_min))\<rfloor>))"

section \<open>The event log\<close>

text \<open>A log is its lines, or None when it cannot be opened; \<open>parse\<close> is the JSON parser.\<close>

definition events :: "(string \<Rightarrow> pyval option) \<Rightarrow> string list option \<Rightarrow> pydict list" where
  "events parse log_lines =
     (case log_lines of
        None \<Rightarrow> []
      | Some ls \<Rightarrow> List.map_filter (\<lambda>l. case parse l of Some (PDict d) \<Rightarrow> Some d | _ \<Rightarrow> None) ls)"

definition py_str :: "(pyval \<Rightarrow> string) \<Rightarrow> pyval \<Rightarrow> string" where
  "py_str show v = (case v of PStr s \<Rightarrow> s | _ \<Rightarrow> show v)"

definition swap_marker :: string where
  "swap_marker = ''targets profile backend''"

definition is_swap_event :: "(pyval \<Rightarrow> string) \<Rightarrow> pydict \<Rightarrow> bool" where
  "is_swap_event show ev =
     (dget ev ''type'' = PStr ''error'' \<and>
      (case dget ev ''error'' of
         PDict err \<Rightarrow>
           (case dget err ''data'' of
              PDict d \<Rightarrow> dget d ''statusCode'' \<in> {PInt 409, PFloat (Fin 409)} \<and>
                contains (py_str show (dget_or d ''message'' (PStr []))) swap_marker
            | _ \<Rightarrow> False)
       | _ \<Rightarrow> False))"

definition model_swapped :: "(pyval \<Rightarrow> string) \<Rightarrow> pydict list \<Rightarrow> bool" where
  "model_swapped show evs = list_ex (is_swap_event show) evs"

definition tail_line_chars :: nat where "tail_line_chars = 300"
definition last_tool_lines :: nat where "last_tool_lines = 60"
definition tail_lines :: nat where "tail_lines = 50"

definition clip_line :: "string \<Rightarrow> string" where
  "clip_line l = (if length l \<le> tail_line_chars then l else take tail_line_chars l @ '' ...'')"

definition last_lines :: "nat \<Rightarrow> string list \<Rightarrow> string list" where
  "last_lines n ls = drop (length ls - n) ls"

text \<open>The command and output of one tool event that printed something.\<close>

definition tool_event :: "(pyval \<Rightarrow> string) \<Rightarrow> pydict \<Rightarrow> (string \<times> string) option" where
  "tool_event show ev =
     (if dget ev ''type'' \<noteq> PStr ''tool_use'' then None
      else case dget ev ''part'' of
             PDict part \<Rightarrow>
               (case dget part ''state'' of
                  PDict state \<Rightarrow>
                    (case dget state ''output'' of
                       PStr out \<Rightarrow>
                         if strip out = [] then None
                         else (let cmd = (case dget state ''input'' of PDict i \<Rightarrow> dget i ''command'' | _ \<Rightarrow> PNone);
                                   name = (if truthy cmd then cmd
                                           else if truthy (dget part ''tool'') then dget part ''tool''
                                           else PStr ''?'')
                               in Some (py_str show name, out))
                     | _ \<Rightarrow> None)
                | _ \<Rightarrow> None)
           | _ \<Rightarrow> None)"

definition last_tool_output :: "(pyval \<Rightarrow> string) \<Rightarrow> pydict list \<Rightarrow> (string \<times> string) option" where
  "last_tool_output show evs =
     (case last_some (tool_event show) evs of
        None \<Rightarrow> None
      | Some (cmd, out) \<Rightarrow>
          Some (take 200 cmd, join [CHR 0x0A] (map clip_line (last_lines last_tool_lines (splitlines out)))))"

text \<open>
  \<open>event_texts\<close> looks at the type of every line that parses, before it knows that the line is an
  object: any other JSON value raises.
\<close>

definition text_event :: "pydict \<Rightarrow> string option" where
  "text_event ev =
     (if dget ev ''type'' \<noteq> PStr ''text'' then None
      else case dget ev ''part'' of PDict part \<Rightarrow> as_str (dget part ''text'') | _ \<Rightarrow> None)"

fun texts_from :: "(string \<Rightarrow> pyval option) \<Rightarrow> string list \<Rightarrow> string list res" where
  "texts_from parse [] = Inr []"
| "texts_from parse (l # ls) =
     (case parse l of
        None \<Rightarrow> texts_from parse ls
      | Some (PDict ev) \<Rightarrow>
          bind_res (texts_from parse ls) (\<lambda>ts. Inr (case text_event ev of None \<Rightarrow> ts | Some t \<Rightarrow> t # ts))
      | Some _ \<Rightarrow> Inl AttributeError)"

definition event_texts :: "(string \<Rightarrow> pyval option) \<Rightarrow> string list option \<Rightarrow> string list res" where
  "event_texts parse log_lines = (case log_lines of None \<Rightarrow> Inr [] | Some ls \<Rightarrow> texts_from parse ls)"

definition tail_text :: "nat \<Rightarrow> string option \<Rightarrow> string" where
  "tail_text n content =
     (case content of None \<Rightarrow> [] | Some s \<Rightarrow> join [CHR 0x0A] (map clip_line (last_lines n (splitlines s))))"

section \<open>The agent's report\<close>

definition verdicts :: "string list" where
  "verdicts = [''PASS'', ''FAIL'', ''INDETERMINATE'', ''BLOCKED'']"

definition upper_run :: rx where
  "upper_run = plus (Cls is_upper_az)"

definition task_re :: rx where
  "task_re =
     cats [Bol, lit ''task:'', star (Cls is_space), opt (ch (CHR ''#'')), Grp 1 (plus (Cls is_digit)),
           star (Cls is_space), Eol]"

definition has_verdict_re :: rx where
  "has_verdict_re = cats [Bol, lit ''verdict:'', star (Cls is_space), Cls (\<lambda>c. \<not> is_space c)]"

definition verdict_re :: rx where
  "verdict_re = cats [Bol, lit ''verdict:'', star (Cls is_space), Grp 1 upper_run, star (Cls is_space), Eol]"

definition deviations_re :: rx where
  "deviations_re = cats [Bol, lit ''deviations:'', star (Cls is_space), Grp 1 (star (Cls not_newline)), Eol]"

text \<open>\<^verbatim>\<open>s.split(sep, 1)[0]\<close>\<close>

fun before_sub :: "string \<Rightarrow> string \<Rightarrow> string" where
  "before_sub sep [] = []"
| "before_sub sep (c # s) = (if startswith (c # s) sep then [] else c # before_sub sep s)"

record report =
  rp_block :: string
  rp_verdict :: "string option"
  rp_deviations :: string

definition nl :: string where
  "nl = [CHR 0x0A]"

definition report_block :: "string \<Rightarrow> int \<Rightarrow> report option" where
  "report_block txt task =
     (case re_search task_re txt of
        None \<Rightarrow> None
      | Some (pre, st) \<Rightarrow>
          if int (nat_of_digits (the_group 1 st)) \<noteq> task \<or> re_search has_verdict_re txt = None then None
          else
            (let yaml = rstrip (before_sub ''```'' (drop (length pre) txt));
                 verdict = (case re_search verdict_re yaml of
                              None \<Rightarrow> None
                            | Some (_, v) \<Rightarrow> if the_group 1 v \<in> set verdicts then group 1 v else None);
                 dev = (case re_search deviations_re yaml of None \<Rightarrow> [] | Some (_, d) \<Rightarrow> strip (the_group 1 d))
             in Some \<lparr>rp_block = ''### runner report'' @ nl @ ''```yaml'' @ nl @ yaml @ nl @ ''```'',
                      rp_verdict = verdict, rp_deviations = dev\<rparr>))"

definition find_report :: "string list \<Rightarrow> int \<Rightarrow> report option" where
  "find_report texts task = first_some (\<lambda>t. report_block t task) (rev texts)"

definition needs_claude :: "string \<Rightarrow> string \<Rightarrow> int \<Rightarrow> bool" where
  "needs_claude verdict deviations exit_code =
     (let clean = lower (strip_chars quote_chars (strip deviations)) \<in> {''none'', ''no'', ''[]''}
      in \<not> (verdict = ''PASS'' \<and> clean \<and> exit_code = 0))"

section \<open>Script tasks\<close>

datatype script_error = Refusal string | Uncaught exn

definition script_char :: "char \<Rightarrow> bool" where
  "script_char c = (alnum c \<or> c \<in> set ''_.-'')"

definition arg_char :: "char \<Rightarrow> bool" where
  "arg_char c = (alnum c \<or> c \<in> set '':_.*-'')"

definition script_path_re :: rx where
  "script_path_re =
     cats [Bos, lit ''tools/runner/tasks/'', plus (Cls script_char),
           star (Cat (ch (CHR ''/'')) (plus (Cls script_char))), Eos]"

definition script_arg_re :: rx where
  "script_arg_re = cats [Bos, plus (Cls arg_char), Eos]"

definition blanks :: rx where
  "blanks = star (Cls (\<lambda>c. cp c = 32 \<or> cp c = 9))"

definition labelled_line_re :: "string \<Rightarrow> rx" where
  "labelled_line_re label =
     cats [Bol, blanks, lit label, blanks, Grp 1 (lazystar (Cls not_newline)), blanks, Eol]"

definition parse_script :: "(string \<Rightarrow> string) \<Rightarrow> string \<Rightarrow> script_error + string \<times> string list" where
  "parse_script repr body =
     (case re_search (labelled_line_re ''Script:'') body of
        None \<Rightarrow> Inl (Refusal ''no `Script:` line'')
      | Some (_, m) \<Rightarrow>
          if the_group 1 m = [] then Inl (Refusal ''no `Script:` line'')
          else
            (case split_ws (the_group 1 m) of
               [] \<Rightarrow> Inl (Uncaught IndexError)
             | path # rest \<Rightarrow>
                 (let args = rest @ (case re_search (labelled_line_re ''Args:'') body of
                                       None \<Rightarrow> [] | Some (_, a) \<Rightarrow> split_ws (the_group 1 a));
                      bad = filter (\<lambda>t. re_match script_arg_re t = None) args in
                  if re_match script_path_re path = None \<or> ''..'' \<in> set (split_char (CHR ''/'') path)
                  then Inl (Refusal (''`Script:` must be a path under tools/runner/tasks/, got '' @ repr path))
                  else if bad \<noteq> []
                  then Inl (Refusal (''argument '' @ repr (hd bad) @
                         '' is not allowed (letters, digits and :_.*- only)''))
                  else Inr (path, args))))"

definition script_report_fields :: "string list" where
  "script_report_fields = [''task'', ''verdict'', ''ref'', ''started'', ''finished'']"

definition script_verdicts :: "string list" where
  "script_verdicts = [''PASS'', ''FAIL'', ''BLOCKED'']"

text \<open>\<open>load_script_report\<close>: the file, and a parser that names its error.\<close>

definition load_script_report ::
    "(string \<Rightarrow> string + pyval) \<Rightarrow> (pyval \<Rightarrow> string) \<Rightarrow> string option \<Rightarrow> string + pydict" where
  "load_script_report parse repr content =
     (case content of
        None \<Rightarrow> Inl ''the script wrote no /results/report.json''
      | Some raw \<Rightarrow>
          (case parse raw of
             Inl e \<Rightarrow> Inl (''/results/report.json is malformed: not JSON ('' @ e @ '')'')
           | Inr (PDict obj) \<Rightarrow>
               (let missing = filter (\<lambda>k. \<not> truthy (dget obj k)) script_report_fields in
                if missing \<noteq> []
                then Inl (''/results/report.json is malformed: missing '' @ join '', '' missing)
                else if dget obj ''verdict'' \<notin> PStr ` set script_verdicts
                then Inl (''/results/report.json is malformed: verdict '' @ repr (dget obj ''verdict''))
                else Inr obj)
           | Inr _ \<Rightarrow> Inl ''/results/report.json is malformed: not a JSON object''))"

definition script_needs_claude :: "pydict \<Rightarrow> int \<Rightarrow> bool" where
  "script_needs_claude rep exit_code =
     (let devs = dget_or rep ''deviations'' (PList []); clean = (devs = PNone \<or> devs = PList [])
      in \<not> (dget rep ''verdict'' = PStr ''PASS'' \<and> clean \<and> exit_code = 0))"

section \<open>What a reference can be\<close>

definition hex_lower :: "char \<Rightarrow> bool" where
  "hex_lower c = (is_digit c \<or> (97 \<le> cp c \<and> cp c \<le> 102))"

lemma hex_lower_lower: "\<forall>c \<in> set s. hex_digit_ci c \<Longrightarrow> list_all hex_lower (lower s)"
proof -
  have "hex_lower (lower_char c)" if "hex_digit_ci c" for c
  proof (cases "is_digit c")
    case True
    then have "lower_char c = c" by (auto simp: lower_char_def is_digit_def is_upper_az_def)
    with True show ?thesis by (simp add: hex_lower_def)
  next
    case False
    with that show ?thesis by (simp add: hex_digit_ci_def hex_lower_def)
  qed
  then show "\<forall>c \<in> set s. hex_digit_ci c \<Longrightarrow> list_all hex_lower (lower s)"
    by (auto simp: lower_def list_all_iff)
qed

lemma last_strip_by: "strip_by P s \<noteq> [] \<Longrightarrow> \<not> P (last (strip_by P s))"
proof -
  assume "strip_by P s \<noteq> []"
  then have "dropWhile P (rev (lstrip_by P s)) \<noteq> []" by (simp add: strip_by_def rstrip_by_def)
  from hd_dropWhile [OF this] show ?thesis by (simp add: strip_by_def rstrip_by_def last_rev)
qed

text \<open>A pattern that ends in \<^verbatim>\<open>$\<close> consumes all of a text whose last character is no newline.\<close>

lemma cats_Cons: "xs \<noteq> [] \<Longrightarrow> cats (r # xs) = Cat r (cats xs)"
  by (cases xs) auto

lemma mt_cats_Eos: "st \<in> set (mt (cats (rs @ [Eos])) x) \<Longrightarrow> at_end_dollar st"
proof (induction rs arbitrary: x)
  case (Cons r rs)
  then obtain y where "st \<in> set (mt (cats (rs @ [Eos])) y)" by (auto simp: cats_Cons)
  then show ?case by (rule Cons.IH)
qed (simp split: if_splits)

lemma dollar_consumes:
  assumes "re_match (cats (rs @ [Eos])) s = Some st" and "s = [] \<or> cp (last s) \<noteq> 10"
  shows "ahead st = []"
proof -
  have "at_end_dollar st"
    using mt_cats_Eos [of st rs "mstart s"] assms(1) by (auto simp: re_match_def split: list.splits)
  moreover have "\<exists>w. s = w @ ahead st" using re_match_eats [OF assms(1)] by blast
  ultimately show ?thesis using assms(2)
    by (cases "ahead st") (auto simp: at_end_dollar_def)
qed

lemma dollar_match:
  assumes "re_match (cats (rs @ [Eos])) s \<noteq> None" and "s = [] \<or> cp (last s) \<noteq> 10"
  shows "(\<forall>c \<in> set s. may_eat (cats (rs @ [Eos])) c) \<and> min_len (cats (rs @ [Eos])) \<le> length s"
proof -
  from assms(1) obtain st where st: "re_match (cats (rs @ [Eos])) s = Some st" by blast
  from re_match_eats [OF st] dollar_consumes [OF st assms(2)] show ?thesis by auto
qed

lemma strip_no_newline: "strip s = [] \<or> cp (last (strip s)) \<noteq> 10"
  using last_strip_by [of is_space s] by (auto simp: is_space_def)

definition ref_ok :: "string \<Rightarrow> bool" where
  "ref_ok b = (b \<noteq> [] \<and> list_all ref_char b)"

definition sha_ok :: "string \<Rightarrow> bool" where
  "sha_ok s = (7 \<le> length s \<and> list_all hex_lower s)"

lemma sha_ok_lower: "\<forall>c \<in> set s. hex_digit_ci c \<Longrightarrow> 7 \<le> length s \<Longrightarrow> sha_ok (lower s)"
  by (simp add: sha_ok_def hex_lower_lower)

lemma the_group_shape:
  assumes "st \<in> set (mt r \<lparr>past = p, ahead = s, caps = []\<rparr>)" and "must_cap n r"
  shows "grp_ok n r (the_group n st)"
  using group_shape [OF assms(1), of n] assms(2) by (auto simp: the_group_def split: option.splits)

lemma switch_group:
  assumes "grp_ok 1 switch_re t"
  shows "ref_ok t"
proof -
  note shape = assms [unfolded switch_re_def cats.simps grp_ok.simps lit.simps may_eat.simps min_len.simps simp_thms]
  have "\<forall>c \<in> set t. ref_char c" using shape by fast
  moreover have "t \<noteq> []" using conjunct2 [OF shape] by auto
  ultimately
  show ?thesis by (simp add: ref_ok_def list_all_iff)
qed

lemma ref_line_ok:
  "b \<in> set (fst (ref_line raw)) \<Longrightarrow> ref_ok b"
  "sha \<in> set (snd (ref_line raw)) \<Longrightarrow> sha_ok sha"
proof -
  let ?line = "strip raw"
  let ?bare = "strip (strip_chars ''`'' ?line)"
  have bare: "sha_ok (lower ?bare)" if "re_match sha_bare_re ?bare \<noteq> None"
    using dollar_match [of "[Bos, Rep True 40 (Some 40) (Cls hex_digit_ci)]" ?bare] that strip_no_newline
    by (auto simp: sha_bare_re_def intro!: sha_ok_lower)
  have exp: "sha_ok (lower (the_group 1 st))" if "re_search sha_expect_re ?line = Some (p, st)" for p st
  proof -
    from re_search_in [OF that] obtain q t where m: "st \<in> set (mt sha_expect_re \<lparr>past = q, ahead = t, caps = []\<rparr>)"
      by blast
    from the_group_shape [OF m, of 1] show ?thesis
      by (auto simp: sha_expect_re_def intro!: sha_ok_lower)
  qed
  have sw: "ref_ok (the_group 1 st)" if "st \<in> set (re_findall switch_re ?line)" for st
  proof -
    from re_findall_in [OF that] obtain q t where m: "st \<in> set (mt switch_re \<lparr>past = q, ahead = t, caps = []\<rparr>)"
      by blast
    have "must_cap 1 switch_re" by (simp add: switch_re_def)
    from switch_group [OF the_group_shape [OF m this]] show ?thesis .
  qed
  have rf: "ref_ok (the_group 1 st) \<and> (\<forall>s. group 2 st = Some s \<longrightarrow> sha_ok (lower s))"
    if "re_match ref_re ?bare = Some st" for st
  proof -
    note m = re_match_in [OF that]
    from the_group_shape [OF m, of 1] group_shape [OF m, of 2] show ?thesis
      by (auto simp: ref_re_def ref_ok_def list_all_iff intro!: sha_ok_lower)
  qed
  show "b \<in> set (fst (ref_line raw)) \<Longrightarrow> ref_ok b"
    using sw rf by (auto simp: ref_line_def Let_def split: if_splits option.splits)
  show "sha \<in> set (snd (ref_line raw)) \<Longrightarrow> sha_ok sha"
    using bare exp rf by (auto simp: ref_line_def Let_def split: if_splits option.splits)
qed

text \<open>
  A reference the dispatcher accepts can be handed to git: the branch is a non-empty name over letters, digits
  and \<^verbatim>\<open>._/-\<close> that does not begin with a dash and has no double dot, so it is no option and no range;
  the commit, if one is named, is at least seven lower-case hexadecimal digits.
\<close>

theorem parse_ref_well_formed:
  assumes "parse_ref txt = Inr (b, sha)"
  shows "b \<noteq> [] \<and> hd b \<noteq> CHR ''-'' \<and> \<not> contains b ''..'' \<and> list_all ref_char b \<and>
         (case sha of None \<Rightarrow> True | Some s \<Rightarrow> 7 \<le> length s \<and> list_all hex_lower s)"
proof -
  let ?found = "map ref_line (splitlines txt)"
  let ?names = "sort (remdups (concat (map fst ?found)))"
  from assms have one: "length ?names = 1" and b: "b = hd ?names"
    and dash: "\<not> startswith b ''-''" and dots: "\<not> contains b ''..''"
    and sha: "sha = (case concat (map snd ?found) of [] \<Rightarrow> None | s # _ \<Rightarrow> Some s)"
    by (auto simp: parse_ref_def Let_def split: if_splits)
  from one b have "b \<in> set ?names" by (metis length_0_conv list.set_sel(1) zero_neq_one)
  then have ok: "ref_ok b" using ref_line_ok(1) by auto
  define shas where "shas = concat (map snd ?found)"
  have "\<forall>s \<in> set shas. sha_ok s" using ref_line_ok(2) by (auto simp: shas_def)
  then have "case sha of None \<Rightarrow> True | Some s \<Rightarrow> sha_ok s"
    unfolding sha shas_def [symmetric] by (cases shas) auto
  with ok dash dots show ?thesis
    by (cases b) (auto simp: ref_ok_def sha_ok_def split: option.splits)
qed

section \<open>What a script task can name\<close>

lemma word_no_newline: "w \<in> set (split_ws s) \<Longrightarrow> w = [] \<or> cp (last w) \<noteq> 10"
  using split_ws_words [of w s] by (auto simp: is_space_def)

lemma arg_shape:
  assumes "re_match script_arg_re t \<noteq> None" and "t \<in> set (split_ws s)"
  shows "t \<noteq> [] \<and> list_all arg_char t"
proof -
  have "re_match (cats ([Bos, plus (Cls arg_char)] @ [Eos])) t \<noteq> None"
    using assms(1) by (simp add: script_arg_re_def)
  from dollar_match [OF this word_no_newline [OF assms(2)]] show ?thesis
    by (auto simp: list_all_iff)
qed

lemma re_lit_prefix: "re_match (Cat Bos (Cat (lit w) r)) t \<noteq> None \<Longrightarrow> startswith t w"
  by (auto simp: re_match_def mt_lit mstart_def split: list.splits if_splits)

lemma path_prefix: "re_match script_path_re t \<noteq> None \<Longrightarrow> startswith t ''tools/runner/tasks/''"
  unfolding script_path_re_def cats.simps by (rule re_lit_prefix)

text \<open>
  What a script task hands to the sandbox is confined: the script is a path below
  \<^verbatim>\<open>tools/runner/tasks/\<close> with no component \<^verbatim>\<open>..\<close>, and every argument is a non-empty word over letters,
  digits and \<^verbatim>\<open>:_.*-\<close>, so neither can hold white space, a quote or any other character a shell would read.
\<close>

theorem parse_script_confined:
  assumes "parse_script repr body = Inr (path, args)"
  shows "startswith path ''tools/runner/tasks/'' \<and> ''..'' \<notin> set (split_char (CHR ''/'') path) \<and>
         list_all (\<lambda>t. t \<noteq> [] \<and> list_all arg_char t) args"
proof -
  from assms obtain p m rest where m: "re_search (labelled_line_re ''Script:'') body = Some (p, m)"
    and words: "split_ws (the_group 1 m) = path # rest"
    by (fastforce simp: parse_script_def Let_def split: option.splits if_splits list.splits)
  define more where "more = (case re_search (labelled_line_re ''Args:'') body of
                               None \<Rightarrow> [] | Some (_, a) \<Rightarrow> split_ws (the_group 1 a))"
  from assms m words have ok: "re_match script_path_re path \<noteq> None" "''..'' \<notin> set (split_char (CHR ''/'') path)"
    and bad: "filter (\<lambda>t. re_match script_arg_re t = None) args = []" and args: "args = rest @ more"
    by (auto simp: parse_script_def Let_def more_def split: if_splits)
  have "t \<noteq> [] \<and> list_all arg_char t" if "t \<in> set args" for t
  proof -
    from bad that have "re_match script_arg_re t \<noteq> None" by (simp add: filter_empty_conv)
    moreover have "\<exists>s. t \<in> set (split_ws s)"
      using that words by (auto simp: args more_def split: option.splits) (metis list.set_intros(2))
    ultimately show ?thesis using arg_shape by blast
  qed
  with ok path_prefix [OF ok(1)] show ?thesis by (simp add: list_all_iff)
qed

text \<open>A blank script line in a body with carriage returns is not refused: it raises.\<close>

lemma blank_script_line_raises:
  "parse_script repr (''Script:'' @ [CHR 0x0D, CHR 0x0A]) = Inl (Uncaught IndexError)"
  by code_simp

text \<open>A line of the event log that is JSON but no object makes \<open>event_texts\<close> raise.\<close>

lemma event_texts_raises:
  "parse l = Some v \<Longrightarrow> \<not> is_pdict v \<Longrightarrow> event_texts parse (Some (l # ls)) = Inl AttributeError"
  by (cases v) (simp_all add: event_texts_def)

section \<open>Bounds\<close>

lemma parse_timeout_bounds: "1 \<le> parse_timeout_minutes t \<and> parse_timeout_minutes t \<le> max_timeout_min"
proof -
  have "1 \<le> \<lfloor>max 1 (min n (of_int max_timeout_min))\<rfloor>" "\<lfloor>max 1 (min n (of_int max_timeout_min))\<rfloor> \<le> max_timeout_min"
    for n :: rat
    by (simp_all add: le_floor_iff floor_le_iff max_timeout_min_def min_def max_def)
  then show ?thesis
    by (simp add: parse_timeout_minutes_def Let_def default_timeout_min_def max_timeout_min_def split: option.splits)
qed

lemma report_verdict_valid:
  assumes "report_block t n = Some r" and "rp_verdict r = Some v"
  shows "v \<in> set verdicts"
  using assms by (auto simp: report_block_def Let_def the_group_def split: option.splits if_splits)

lemma find_report_verdict: "find_report ts n = Some r \<Longrightarrow> rp_verdict r = Some v \<Longrightarrow> v \<in> set verdicts"
  unfolding find_report_def using first_some_SomeD report_verdict_valid by metis

end
