(* ===== verification/Dispatch.thy ===== *)
theory Dispatch
  imports DispatchText "HOL-Library.Product_Lexorder"
begin

text \<open>
  The work-queue dispatcher (\<^verbatim>\<open>scripts/files/agent_runner_dispatch.py\<close>) as a program that acts on
  GitHub: it reads a queue, claims one issue, runs it and settles its labels. The hub holds the
  labels of every issue and the comments posted so far; what the network does to each call (an edit
  that is applied in part, a comment that is lost) is an oracle indexed by the number of calls made.
\<close>

section \<open>GitHub and the actions on it\<close>

type_synonym issue_id = "string \<times> int"

record hub =
  hb_labels :: "issue_id \<Rightarrow> string list"
  hb_said :: "(issue_id \<times> string) list"
  hb_calls :: nat

datatype edit_end = Applied | Partly "string \<Rightarrow> bool"

datatype say_end = Posted | Failed bool

record net =
  nt_edit :: "nat \<Rightarrow> edit_end"
  nt_say :: "nat \<Rightarrow> say_end"
  nt_read :: "nat \<Rightarrow> bool"

type_synonym 'a act = "hub \<Rightarrow> 'a res \<times> hub"

definition ret :: "'a \<Rightarrow> 'a act" where
  "ret x h = (Inr x, h)"

definition act_bind :: "'a act \<Rightarrow> ('a \<Rightarrow> 'b act) \<Rightarrow> 'b act" where
  "act_bind m f h = (case m h of (Inl e, h') \<Rightarrow> (Inl e, h') | (Inr x, h') \<Rightarrow> f x h')"

definition after :: "unit act \<Rightarrow> 'b act \<Rightarrow> 'b act" where
  "after m k = act_bind m (\<lambda>_. k)"

definition calls1 :: "hub \<Rightarrow> hub" where
  "calls1 h = h\<lparr>hb_calls := hb_calls h + 1\<rparr>"

definition comment_max :: nat where "comment_max = 60000"

text \<open>\<open>comment\<close>: a call that fails may have posted all the same.\<close>

definition comment :: "net \<Rightarrow> string list \<Rightarrow> issue_id \<Rightarrow> string \<Rightarrow> unit act" where
  "comment net secrets i txt h =
     (let t = take comment_max (redact secrets txt);
          h1 = calls1 h; h2 = h1\<lparr>hb_said := hb_said h @ [(i, t)]\<rparr> in
      case nt_say net (hb_calls h) of
        Posted \<Rightarrow> (Inr (), h2)
      | Failed posted \<Rightarrow> (Inl RuntimeError, if posted then h2 else h1))"

text \<open>
  One label edit, of which the part \<open>p\<close> goes through, and \<open>relabel\<close>: four tries, and before each
  retry the labels are read back (if they can be) and only what is missing is sent again.
\<close>

definition edit_labels :: "(string \<Rightarrow> bool) \<Rightarrow> string list \<Rightarrow> string list \<Rightarrow> string list \<Rightarrow> string list" where
  "edit_labels p rm ad ls =
     (let kept = filter (\<lambda>l. \<not> (l \<in> set rm \<and> p l)) ls
      in kept @ filter (\<lambda>l. p l \<and> l \<notin> set kept) ad)"

definition do_edit :: "issue_id \<Rightarrow> (string \<Rightarrow> bool) \<Rightarrow> string list \<Rightarrow> string list \<Rightarrow> hub \<Rightarrow> hub" where
  "do_edit i p rm ad h =
     (calls1 h)\<lparr>hb_labels := (hb_labels h)(i := edit_labels p rm ad (hb_labels h i))\<rparr>"

fun relabel_from :: "net \<Rightarrow> issue_id \<Rightarrow> nat \<Rightarrow> string list \<Rightarrow> string list \<Rightarrow> unit act" where
  "relabel_from net i 0 rm ad h = (Inl RuntimeError, h)"
| "relabel_from net i (Suc k) rm ad h =
     (case nt_edit net (hb_calls h) of
        Applied \<Rightarrow> (Inr (), do_edit i (\<lambda>_. True) rm ad h)
      | Partly p \<Rightarrow>
          (let h1 = do_edit i p rm ad h; h2 = calls1 h1; have_now = hb_labels h1 i in
           if k = 0 then (Inl RuntimeError, h1)
           else if \<not> nt_read net (hb_calls h1) then relabel_from net i k rm ad h2
           else (let rm' = filter (\<lambda>l. l \<in> set have_now) rm; ad' = filter (\<lambda>l. l \<notin> set have_now) ad in
                 if rm' = [] \<and> ad' = [] then (Inr (), h2)
                 else relabel_from net i k rm' ad' h2)))"

definition relabel_tries :: nat where "relabel_tries = 4"

definition relabel :: "net \<Rightarrow> issue_id \<Rightarrow> string list \<Rightarrow> string list \<Rightarrow> unit act" where
  "relabel net i rm ad = relabel_from net i relabel_tries rm ad"

section \<open>Issues, tiers and the queue\<close>

record issue =
  is_number :: int
  is_body :: string
  is_created :: string
  is_labels :: "string list"

abbreviation "label_ready \<equiv> ''runner:ready''"
abbreviation "label_running \<equiv> ''runner:running''"
abbreviation "label_done \<equiv> ''runner:done''"
abbreviation "label_blocked \<equiv> ''runner:blocked''"
abbreviation "label_claude \<equiv> ''needs-claude''"

definition tiers :: "string list" where
  "tiers = [''tier:a'', ''tier:b'', ''tier:c'']"

definition tiers_of :: "issue \<Rightarrow> string list" where
  "tiers_of i = filter (\<lambda>n. n \<in> set tiers) (is_labels i)"

definition tier_of :: "issue \<Rightarrow> string option" where
  "tier_of i = (case tiers_of i of [t] \<Rightarrow> Some t | _ \<Rightarrow> None)"

definition is_script :: "issue \<Rightarrow> bool" where
  "is_script i = (''kind:script'' \<in> set (is_labels i))"

text \<open>
  \<open>ready_issues\<close>: the rows of every repository that is asked (a listing that fails raises), without
  issues that carry another runner label, oldest first, then in the order of the repositories.
\<close>

definition clean_ready :: "issue \<Rightarrow> bool" where
  "clean_ready i = list_all (\<lambda>n. startswith n ''runner:'' \<longrightarrow> n = label_ready) (is_labels i)"

definition wanted_issue :: "(string \<times> int) option \<Rightarrow> string \<Rightarrow> issue \<Rightarrow> bool" where
  "wanted_issue only repo i =
     ((case only of None \<Rightarrow> True | Some (r, n) \<Rightarrow> n = is_number i) \<and> clean_ready i)"

definition repo_rows ::
    "(string \<Rightarrow> issue list res) \<Rightarrow> (string \<times> int) option \<Rightarrow> nat \<times> string \<Rightarrow> (nat \<times> string \<times> issue) list res" where
  "repo_rows list_ready only p =
     (case p of (order, repo) \<Rightarrow>
        if (case only of None \<Rightarrow> False | Some (r, _) \<Rightarrow> r \<noteq> repo) then Inr []
        else bind_res (list_ready repo) (\<lambda>rows.
               Inr (map (\<lambda>i. (order, repo, i)) (filter (wanted_issue only repo) rows))))"

definition queue_key :: "nat \<times> string \<times> issue \<Rightarrow> string \<times> nat \<times> int" where
  "queue_key t = (case t of (order, repo, i) \<Rightarrow> (is_created i, order, is_number i))"

definition ready_issues ::
    "string list \<Rightarrow> (string \<Rightarrow> issue list res) \<Rightarrow> (string \<times> int) option \<Rightarrow> (string \<times> issue) list res" where
  "ready_issues repos list_ready only =
     bind_res (map_res (repo_rows list_ready only) (enumerate 0 repos)) (\<lambda>rss.
       Inr (map (\<lambda>(order, repo, i). (repo, i)) (sort_key queue_key (concat rss))))"

section \<open>Picking a task\<close>

text \<open>
  What picking asks: whether a repository has an open halt issue, whether its runner is ready, and
  the last comment of an issue; each answer may depend on when it is asked, and the first and the
  last may fail.
\<close>

record asks =
  ak_halted :: "nat \<Rightarrow> string \<Rightarrow> bool res"
  ak_ready :: "nat \<Rightarrow> string \<Rightarrow> bool"
  ak_last :: "nat \<Rightarrow> issue_id \<Rightarrow> string res"

definition ask :: "(nat \<Rightarrow> 'a res) \<Rightarrow> 'a act" where
  "ask f h = (f (hb_calls h), calls1 h)"

definition halted_prefix :: string where
  "halted_prefix = ''runner: halted''"

definition refusal_reason :: "issue \<Rightarrow> string" where
  "refusal_reason i =
     (case tiers_of i of
        [] \<Rightarrow> ''it has no tier label''
      | [_] \<Rightarrow> ''tier:c tasks are never auto-run''
      | ts \<Rightarrow> ''it has more than one tier label ('' @ join '', '' ts @ '')'')"

definition refuse_tier :: "net \<Rightarrow> string list \<Rightarrow> string \<Rightarrow> issue \<Rightarrow> unit act" where
  "refuse_tier net secrets repo i =
     after (comment net secrets (repo, is_number i)
              (''runner: refused -- '' @ refusal_reason i @
               ''. The runner only runs runner:ready issues with exactly one of tier:a (no servers) or tier:b '' @
               ''(staff test servers). Fix the labels and set runner:ready again.''))
           (relabel net (repo, is_number i) [label_ready] [label_blocked])"

definition note_halted :: "net \<Rightarrow> asks \<Rightarrow> string list \<Rightarrow> string \<Rightarrow> issue \<Rightarrow> unit act" where
  "note_halted net ak secrets repo i =
     act_bind (ask (\<lambda>n. ak_last ak n (repo, is_number i))) (\<lambda>body.
       if startswith body halted_prefix then ret ()
       else comment net secrets (repo, is_number i)
              (halted_prefix @ '' -- '' @ repo @
               '' has an open runner:halt issue (Runner control), so tier:b tasks wait. '' @
               ''This stays runner:ready and runs once the halt label is removed.''))"

text \<open>An answer that is asked once per repository and remembered.\<close>

definition memo :: "(nat \<Rightarrow> string \<Rightarrow> bool res) \<Rightarrow> string \<Rightarrow> (string \<times> bool) list \<Rightarrow> (bool \<times> (string \<times> bool) list) act" where
  "memo f repo m =
     (case map_of m repo of
        Some b \<Rightarrow> ret (b, m)
      | None \<Rightarrow> act_bind (ask (\<lambda>n. f n repo)) (\<lambda>b. ret (b, (repo, b) # m)))"

fun pick ::
    "net \<Rightarrow> asks \<Rightarrow> string list \<Rightarrow> (string \<times> bool) list \<Rightarrow> (string \<times> bool) list \<Rightarrow> (string \<times> issue) list \<Rightarrow>
     (string \<times> issue) option act" where
  "pick net ak secrets halt ok [] = ret None"
| "pick net ak secrets halt ok ((repo, i) # q) =
     (let consider_ready = (\<lambda>halt'.
            act_bind (memo (\<lambda>n r. Inr (ak_ready ak n r)) repo ok) (\<lambda>(good, ok').
              if good then ret (Some (repo, i)) else pick net ak secrets halt' ok' q))
      in if tier_of i = None \<or> tier_of i = Some ''tier:c''
         then after (refuse_tier net secrets repo i) (pick net ak secrets halt ok q)
         else if tier_of i = Some ''tier:b''
         then act_bind (memo (ak_halted ak) repo halt) (\<lambda>(held, halt').
                if held then after (note_halted net ak secrets repo i) (pick net ak secrets halt' ok q)
                else consider_ready halt')
         else consider_ready halt)"

section \<open>The checkout\<close>

text \<open>
  Git as the dispatcher sees it: the answer (exit code, output, errors) to a command given the
  commands run before. A step returns its result with the commands run so far, oldest first.
\<close>

type_synonym git = "string list list \<Rightarrow> string list \<Rightarrow> int \<times> string \<times> string"

definition rc_of :: "int \<times> string \<times> string \<Rightarrow> int" where "rc_of r = fst r"

definition out_of :: "int \<times> string \<times> string \<Rightarrow> string" where "out_of r = fst (snd r)"

definition complaint :: "nat \<Rightarrow> int \<times> string \<times> string \<Rightarrow> string" where
  "complaint n r = take n (strip (if snd (snd r) \<noteq> [] then snd (snd r) else fst (snd r)))"

fun update_mirrors :: "git \<Rightarrow> string list list \<Rightarrow> string option \<Rightarrow> string list \<Rightarrow> string option \<times> string list list" where
  "update_mirrors g hist branch [] = (None, hist)"
| "update_mirrors g hist branch (m # ms) =
     (if branch \<noteq> None \<and> branch \<noteq> Some [] \<and> branch = Some m then update_mirrors g hist branch ms
      else
        (let probe = [''rev-parse'', ''--verify'', ''-q'', ''refs/remotes/origin/'' @ m];
             hist1 = hist @ [probe] in
         if rc_of (g hist probe) \<noteq> 0 then update_mirrors g hist1 branch ms
         else
           (let ff = [''fetch'', ''origin'', ''refs/heads/'' @ m @ '':refs/heads/'' @ m];
                r = g hist1 ff; hist2 = hist1 @ [ff] in
            if rc_of r \<noteq> 0
            then (Some (''cannot fast-forward local branch '' @ m @ '' to origin/'' @ m @ '': '' @ complaint 400 r), hist2)
            else update_mirrors g hist2 branch ms)))"

text \<open>A sequence of commands that all have to succeed.\<close>

fun run_steps :: "git \<Rightarrow> string list list \<Rightarrow> string list list \<Rightarrow> string option \<times> string list list" where
  "run_steps g hist [] = (None, hist)"
| "run_steps g hist (c # cs) =
     (let r = g hist c in
      if rc_of r \<noteq> 0 then (Some (''git '' @ join '' '' c @ '' failed: '' @ complaint 800 r), hist @ [c])
      else run_steps g (hist @ [c]) cs)"

definition status_cmd :: "string list" where
  "status_cmd = [''status'', ''--porcelain'', ''--untracked-files=no'']"

definition head_cmd :: "string list" where
  "head_cmd = [''rev-parse'', ''HEAD'']"

definition dirty_message :: "string \<Rightarrow> string" where
  "dirty_message dirty = ''the clone has uncommitted changes to tracked files:'' @ nl @ take 1000 dirty"

definition prepare_checkout ::
    "git \<Rightarrow> bool \<Rightarrow> string \<Rightarrow> string \<Rightarrow> string option \<Rightarrow> string list \<Rightarrow> (string + string) \<times> string list list" where
  "prepare_checkout g cloned path branch sha mirrors =
     (if \<not> cloned then (Inl (''no clone at '' @ path), [])
      else
        (let dirty = strip (out_of (g [] status_cmd)) in
         if dirty \<noteq> [] then (Inl (dirty_message dirty), [status_cmd])
         else case run_steps g [status_cmd]
                     [[''fetch'', ''--prune'', ''origin''], [''switch'', branch], [''pull'', ''--ff-only'']] of
                (Some err, hist) \<Rightarrow> (Inl err, hist)
              | (None, hist) \<Rightarrow>
                  (case update_mirrors g hist (Some branch) mirrors of
                     (Some err, hist') \<Rightarrow> (Inl err, hist')
                   | (None, hist') \<Rightarrow>
                       (let head = strip (out_of (g hist' head_cmd)); hist'' = hist' @ [head_cmd] in
                        case sha of
                          Some s \<Rightarrow>
                            if s \<noteq> [] \<and> \<not> startswith (lower head) (lower s)
                            then (Inl (''HEAD '' @ head @ '' does not match the requested '' @ s @ '' on '' @ branch), hist'')
                            else (Inr (branch @ ''@'' @ head), hist'')
                        | None \<Rightarrow> (Inr (branch @ ''@'' @ head), hist'')))))"

definition prepare_exact_checkout ::
    "git \<Rightarrow> bool \<Rightarrow> string \<Rightarrow> string \<Rightarrow> string option \<Rightarrow> string list \<Rightarrow> (string + string) \<times> string list list" where
  "prepare_exact_checkout g cloned path branch sha mirrors =
     (case sha of
        None \<Rightarrow> (Inl ''a kind:script task needs `<branch>@<40-hex sha>` in Branch / commit'', [])
      | Some s \<Rightarrow>
          if re_match sha_bare_re s = None
          then (Inl ''a kind:script task needs `<branch>@<40-hex sha>` in Branch / commit'', [])
          else if \<not> cloned then (Inl (''no clone at '' @ path), [])
          else
            (let dirty = strip (out_of (g [] status_cmd)) in
             if dirty \<noteq> [] then (Inl (dirty_message dirty), [status_cmd])
             else case run_steps g [status_cmd] [[''fetch'', ''--prune'', ''origin''], [''fetch'', ''origin'', branch]] of
                    (Some err, hist) \<Rightarrow> (Inl err, hist)
                  | (None, hist) \<Rightarrow>
                      (let probe = [''cat-file'', ''-e'', s @ ''^{commit}''] in
                       if rc_of (g hist probe) \<noteq> 0
                       then (Inl (''commit '' @ s @ '' does not resolve after fetching '' @ branch), hist @ [probe])
                       else
                         (let co = [''-c'', ''advice.detachedHead=false'', ''checkout'', ''-q'', ''--detach'', s];
                              hist1 = hist @ [probe]; r = g hist1 co in
                          if rc_of r \<noteq> 0
                          then (Inl (''git checkout --detach '' @ s @ '' failed: '' @ complaint 800 r), hist1 @ [co])
                          else case update_mirrors g (hist1 @ [co]) None mirrors of
                                 (Some err, hist2) \<Rightarrow> (Inl err, hist2)
                               | (None, hist2) \<Rightarrow> (Inr (branch @ ''@'' @ lower s), hist2)))))"

section \<open>Running one task\<close>

text \<open>
  What a run of the dispatcher meets after the claim: the clock texts, the clone and git, the exit
  code of the agent or script (None when its time ran out), and the files it leaves: the event log,
  its standard error and the script's report.
\<close>

record run_env =
  re_started :: string
  re_finished :: string
  re_cloned :: bool
  re_git :: git
  re_agent :: "string \<Rightarrow> int \<Rightarrow> int option"
  re_script :: "string \<Rightarrow> string list \<Rightarrow> int \<Rightarrow> int option"
  re_log :: "string option"
  re_stderr :: "string option"
  re_report :: "string option"
  re_parse :: "string \<Rightarrow> pyval option"
  re_parse_named :: "string \<Rightarrow> string + pyval"
  re_show :: "pyval \<Rightarrow> string"
  re_repr :: "string \<Rightarrow> string"
  re_dumps :: "pyval \<Rightarrow> string"
  re_script_file :: "string \<Rightarrow> bool"

record dcfg =
  dc_work :: string
  dc_results :: string
  dc_max_timeout :: int
  dc_mirrors :: "(string \<times> string list) list"
  dc_script_mode :: bool

text \<open>The lines of a file, each with its line break where Python's iteration keeps it.\<close>

definition log_lines :: "run_env \<Rightarrow> string list option" where
  "log_lines e = map_option (split_char (CHR 0x0A)) (re_log e)"

definition log_events :: "run_env \<Rightarrow> pydict list" where
  "log_events e = events (re_parse e) (log_lines e)"

definition repo_name :: "string \<Rightarrow> string" where
  "repo_name repo = last (split_char (CHR ''/'') repo)"

definition compact :: "string \<Rightarrow> string" where
  "compact stamp = filter (\<lambda>c. c \<noteq> CHR ''-'' \<and> c \<noteq> CHR '':'') stamp"

definition run_base :: "string \<Rightarrow> int \<Rightarrow> string \<Rightarrow> string" where
  "run_base repo num started = repo_name repo @ ''-'' @ show_int num @ ''-'' @ compact started"

definition task_timeout :: "dcfg \<Rightarrow> (string \<times> string) list \<Rightarrow> int" where
  "task_timeout c secs = min (parse_timeout_minutes (field secs [''Limits'']) * 60) (dc_max_timeout c)"

definition ref_field :: "(string \<times> string) list \<Rightarrow> string" where
  "ref_field secs = field secs [''Branch / commit'', ''Branch'', ''Commit'']"

definition mirrors_of :: "dcfg \<Rightarrow> string \<Rightarrow> string list" where
  "mirrors_of c name = (case map_of (dc_mirrors c) name of None \<Rightarrow> [] | Some bs \<Rightarrow> bs)"

definition checkout_path :: "dcfg \<Rightarrow> string \<Rightarrow> string" where
  "checkout_path c name = dc_work c @ ''/'' @ name"

definition lines_text :: "string list \<Rightarrow> string" where
  "lines_text ls = concat (map (\<lambda>l. l @ nl) ls)"

definition preamble :: "string \<Rightarrow> int \<Rightarrow> string \<Rightarrow> string \<Rightarrow> string \<Rightarrow> int \<Rightarrow> string" where
  "preamble repo num ref started model timeout_s =
     (let n = show_int num; minutes = timeout_s div 60 in
      lines_text
       [''You are the lab runner for '' @ repo @ '' issue #'' @ n @ ''. Execute the task below exactly.'',
        [], ''Rules:'',
        ''- The current directory is the checkout at '' @ ref @ ''. It is mounted read-only. Run only the commands in Steps, in order.'',
        ''- Write every log, result or artifact under /results (writable, kept after the run); use /tmp for scratch.'',
        ''- You have '' @ show_int minutes @ '' minutes in total. The bash tool'' @ [CHR 0x27] @ ''s default timeout is short: give every long command (lab runs,'',
        ''  walks, test suites) a `timeout` in milliseconds for its expected duration plus margin, at most'',
        ''  '' @ show_int (minutes * 60000) @ '' ('' @ show_int minutes @ '' minutes). If a command hits its timeout, do not run it again: stop and report'',
        ''  BLOCKED, naming the command and the timeout.'',
        ''- Check every Precondition first; if one fails, or anything happens that Steps do not cover, stop and report BLOCKED.'',
        ''- You have no GitHub access. Do not post, comment, push or change labels: the dispatcher posts your report.'',
        ''- Never write secrets or player data anywhere.'',
        ''- When finished (or stopped), PRINT the block below as your final message: the line `### runner report`, then the'',
        ''  ```yaml fenced block, copied as-is (heading and fence included) and filled in.'',
        [], ''### runner report'', ''```yaml'',
        ''task: '' @ n, ''verdict: PASS | FAIL | INDETERMINATE | BLOCKED'', ''ref: '' @ ref,
        ''started: '' @ started, ''finished: <UTC ISO>'', ''model: '' @ model,
        ''results:'', ''  - check: <name>'', ''    value: <number or string>'', ''    pass: true | false'',
        ''artifacts:'', ''  - </results/... path of each log or result you wrote>'',
        ''deviations: <none | what differed from the steps>'', ''state_left: <servers, locks, branch>'', ''```'',
        ''The verdict follows the Pass criteria literally. You never decide that a FAIL is acceptable.'',
        [], ''---- TASK (issue #'' @ n @ '') ----''])"

definition fenced :: "string \<Rightarrow> string \<Rightarrow> string" where
  "fenced title body = nl @ title @ nl @ ''```text'' @ nl @ body @ nl @ ''```'' @ nl"

definition tool_note :: "string \<times> string \<Rightarrow> string" where
  "tool_note tool = fenced (''Last tool output (`'' @ fst tool @ ''`, last '' @ show_nat last_tool_lines @ '' lines):'') (snd tool)"

definition first_line :: "string \<Rightarrow> string" where
  "first_line s = hd (splitlines s)"

text \<open>The report the dispatcher writes itself; \<open>base\<close> names the logs, if the task got that far.\<close>

definition blocked_report ::
    "run_env \<Rightarrow> int \<Rightarrow> string option \<Rightarrow> string \<Rightarrow> string \<Rightarrow> string option \<Rightarrow> string" where
  "blocked_report e num ref model reason base =
     (let ev = (if base = None then [] else tail_text tail_lines (re_log e));
          er = (if base = None then [] else tail_text 20 (re_stderr e));
          tool = (if base = None then None else last_tool_output (re_show e) (log_events e)) in
      lines_text
       [''### runner report'', ''```yaml'', ''task: '' @ show_int num, ''verdict: BLOCKED'',
        ''ref: '' @ (case ref of None \<Rightarrow> ''unknown'' | Some r \<Rightarrow> if r = [] then ''unknown'' else r),
        ''started: '' @ re_started e, ''finished: '' @ re_finished e, ''model: '' @ model, ''results: []'', ''artifacts:'',
        ''  - '' @ (case base of None \<Rightarrow> ''none'' | Some b \<Rightarrow> b @ ''.jsonl'') @ '' (runner VM ~/runner-logs)'',
        ''deviations: posted by the dispatcher: '' @ take 200 (first_line reason), ''state_left: unknown'', ''```'',
        [], ''**Dispatcher:** '' @ reason] @
      (case tool of None \<Rightarrow> [] | Some t \<Rightarrow> tool_note t) @
      (if ev = [] then [] else fenced (''Last '' @ show_nat tail_lines @ '' event-log lines:'') ev) @
      (if er = [] then [] else fenced ''agent-run stderr (tail):'' er))"

definition settle_labels :: "bool \<Rightarrow> bool \<Rightarrow> string list" where
  "settle_labels blocked claude =
     (if blocked then label_blocked else label_done) # (if claude then [label_claude] else [])"

text \<open>\<open>finish\<close>: the fallback text, or the agent's report with the exit code and the results directory.\<close>

definition finish_fallback :: "net \<Rightarrow> string list \<Rightarrow> issue_id \<Rightarrow> string \<Rightarrow> unit act" where
  "finish_fallback net secrets i fallback =
     after (comment net secrets i fallback) (relabel net i [label_running] (settle_labels True True))"

definition finish_report ::
    "net \<Rightarrow> string list \<Rightarrow> issue_id \<Rightarrow> report \<Rightarrow> string \<Rightarrow> int \<Rightarrow> string \<Rightarrow> unit act" where
  "finish_report net secrets i rep verdict exit_code results_dir =
     (let claude = needs_claude verdict (rp_deviations rep) exit_code;
          note = nl @ nl @ ''Posted by the dispatcher; `/results` is `'' @ results_dir @ ''` on the runner VM.'' @
                 (if exit_code \<noteq> 0 then '' agent-run exited '' @ show_int exit_code @ ''.'' else [])
      in after (comment net secrets i (rp_block rep @ note))
               (relabel net i [label_running] (settle_labels (verdict = ''BLOCKED'') claude)))"

definition requeue :: "net \<Rightarrow> string list \<Rightarrow> issue_id \<Rightarrow> string \<Rightarrow> unit act" where
  "requeue net secrets i note =
     after (relabel net i [label_running] [label_ready]) (comment net secrets i note)"

definition raise :: "exn \<Rightarrow> 'a act" where
  "raise e h = (Inl e, h)"

text \<open>After the agent has run: requeue, or settle with its report or with the dispatcher's own.\<close>

definition after_agent ::
    "net \<Rightarrow> string list \<Rightarrow> run_env \<Rightarrow> issue_id \<Rightarrow> string \<Rightarrow> string \<Rightarrow> int \<Rightarrow> string \<Rightarrow> string \<Rightarrow> int option \<Rightarrow> unit act" where
  "after_agent net secrets e i ref model timeout_s base results_dir code =
     (let blocked = (\<lambda>reason. finish_fallback net secrets i (blocked_report e (snd i) (Some ref) model reason (Some base))) in
      if code = Some 75
      then requeue net secrets i
             (''runner: lane closed (the router'' @ [CHR 0x27] @
              ''s chat profile has no slot for the runner); back to runner:ready, retrying next cycle.'')
      else if code = Some 76
      then requeue net secrets i
             (''runner: the runner'' @ [CHR 0x27] @ ''s sandbox was not ready (agent-run exit 76: egress table or '' @
              ''sandbox entry missing); nothing ran. Back to runner:ready, retrying next cycle.'')
      else case event_texts (re_parse e) (log_lines e) of
             Inl x \<Rightarrow> raise x
           | Inr texts \<Rightarrow>
               (let rep = find_report texts (snd i);
                    verdict = (case rep of None \<Rightarrow> None | Some r \<Rightarrow> rp_verdict r) in
                case (rep, verdict, code) of
                  (Some r, Some v, Some n) \<Rightarrow> finish_report net secrets i r v n results_dir
                | (_, _, None) \<Rightarrow> blocked (''agent-run timed out after '' @ show_int timeout_s @ ''s and was stopped.'')
                | (_, _, Some n) \<Rightarrow>
                    if model_swapped (re_show e) (log_events e)
                    then requeue net secrets i
                           (''runner: the chat model was swapped while this task ran (the router refused the task'' @ [CHR 0x27] @
                            ''s model with 409 profile_mismatch), so the agent stopped without a report. Back to runner:ready; '' @
                            ''the next run uses the model loaded then. Event log: '' @ base @ ''.jsonl (runner VM ~/runner-logs).'' @
                            (case last_tool_output (re_show e) (log_events e) of
                               None \<Rightarrow> [] | Some t \<Rightarrow> nl @ tool_note t))
                    else blocked ((if rep = None then ''the agent printed no report block''
                                   else ''the agent'' @ [CHR 0x27] @ ''s report block has no valid verdict'') @
                                  '' (agent-run exit '' @ show_int n @ '').'')))"

definition dispatch ::
    "net \<Rightarrow> string list \<Rightarrow> dcfg \<Rightarrow> run_env \<Rightarrow> string \<Rightarrow> issue \<Rightarrow> string \<Rightarrow> unit act" where
  "dispatch net secrets c e repo iss model =
     (let i = (repo, is_number iss); name = repo_name repo; secs = sections (is_body iss);
          timeout_s = task_timeout c secs; base = run_base repo (is_number iss) (re_started e);
          early = (\<lambda>reason. finish_fallback net secrets i (blocked_report e (is_number iss) None model reason None)) in
      after (relabel net i [label_ready] [label_running])
     (after (comment net secrets i (''runner: claimed at '' @ re_started e @ '' (model '' @ model @ ''); starting.''))
        (case parse_ref (ref_field secs) of
           Inl msg \<Rightarrow> early (''Branch / commit: '' @ msg)
         | Inr (branch, sha) \<Rightarrow>
             (case fst (prepare_checkout (re_git e) (re_cloned e) (checkout_path c name) branch sha (mirrors_of c name)) of
                Inl err \<Rightarrow> early err
              | Inr ref \<Rightarrow>
                  after_agent net secrets e i ref model timeout_s base (dc_results c @ ''/'' @ base)
                    (re_agent e (preamble repo (is_number iss) ref (re_started e) model timeout_s @ is_body iss) timeout_s)))))"

section \<open>Script tasks\<close>

definition script_blocked_report ::
    "run_env \<Rightarrow> string \<Rightarrow> string \<Rightarrow> string \<Rightarrow> int option \<Rightarrow> string" where
  "script_blocked_report e task ref reason exit_code =
     (let detail = (case exit_code of None \<Rightarrow> reason | Some n \<Rightarrow> reason @ '' (exit '' @ show_int n @ '')'');
          step = (\<lambda>name d. PDict [(PStr ''name'', PStr name), (PStr ''ok'', PBool False), (PStr ''detail'', PStr d)]);
          er = tail_text 30 (re_stderr e) in
      re_dumps e (PDict
        [(PStr ''task'', PStr task), (PStr ''verdict'', PStr ''BLOCKED''),
         (PStr ''ref'', PStr (if ref = [] then ''unknown'' else ref)), (PStr ''started'', PStr (re_started e)),
         (PStr ''finished'', PStr (re_finished e)),
         (PStr ''steps'', PList (step ''run script'' detail # (if er = [] then [] else [step ''stderr tail'' er]))),
         (PStr ''state_left'', PDict [(PStr ''server'', PStr ''unknown''), (PStr ''lock'', PStr ''unknown''), (PStr ''tree'', PStr ''clean'')]),
         (PStr ''deviations'', PList [PStr (''posted by the dispatcher: '' @ reason)])]))"

definition post_script_report ::
    "net \<Rightarrow> string list \<Rightarrow> issue_id \<Rightarrow> string \<Rightarrow> bool \<Rightarrow> bool \<Rightarrow> string \<Rightarrow> int option \<Rightarrow> unit act" where
  "post_script_report net secrets i raw blocked claude results_dir exit_code =
     (let note = nl @ nl @ ''Posted by the dispatcher (kind:script, no model); `/results` is `'' @ results_dir @ ''` on the runner VM.'' @
                 (case exit_code of None \<Rightarrow> [] | Some n \<Rightarrow> if n = 0 then [] else '' The script exited '' @ show_int n @ ''.'')
      in after (comment net secrets i (''### runner report'' @ nl @ nl @ ''```json'' @ nl @ strip raw @ nl @ ''```'' @ note))
               (relabel net i [label_running] (settle_labels blocked claude)))"

definition refuse_script :: "net \<Rightarrow> string list \<Rightarrow> issue_id \<Rightarrow> string \<Rightarrow> bool \<Rightarrow> unit act" where
  "refuse_script net secrets i why claimed =
     after (relabel net i [if claimed then label_running else label_ready] [label_blocked])
           (comment net secrets i
              (''runner: refused this kind:script task: '' @ why @ ''. It was not run and never goes to the model. '' @
               ''Fix the issue and set runner:ready again.''))"

definition verdict_text :: "pydict \<Rightarrow> string" where
  "verdict_text rep = (case dget rep ''verdict'' of PStr v \<Rightarrow> v | _ \<Rightarrow> [])"

text \<open>What the script left decides; a time-out always asks for a review.\<close>

definition after_script ::
    "net \<Rightarrow> string list \<Rightarrow> run_env \<Rightarrow> issue_id \<Rightarrow> string \<Rightarrow> string \<Rightarrow> int \<Rightarrow> string \<Rightarrow> int option \<Rightarrow> unit act" where
  "after_script net secrets e i task ref timeout_s results_dir code =
     (let raw = (case re_report e of None \<Rightarrow> [] | Some t \<Rightarrow> t);
          loaded = load_script_report (re_parse_named e) (re_show e) (re_report e) in
      if code = Some 76
      then requeue net secrets i
             (''runner: the runner'' @ [CHR 0x27] @ ''s sandbox was not ready (agent-run exit 76); nothing ran. '' @
              ''Back to runner:ready, retrying next cycle.'')
      else case (code, loaded) of
             (None, Inr rep) \<Rightarrow>
               post_script_report net secrets i raw (verdict_text rep = ''BLOCKED'') True results_dir None
           | (None, Inl _) \<Rightarrow>
               post_script_report net secrets i
                 (script_blocked_report e task ref
                    (''wall time of '' @ show_int (timeout_s div 60) @
                     '' min ran out; the script was stopped (TERM, then KILL after the grace)'') None)
                 True True results_dir None
           | (Some n, Inl err) \<Rightarrow>
               post_script_report net secrets i (script_blocked_report e task ref err (Some n)) True True results_dir (Some n)
           | (Some n, Inr rep) \<Rightarrow>
               post_script_report net secrets i raw (verdict_text rep = ''BLOCKED'') (script_needs_claude rep n)
                 results_dir (Some n))"

text \<open>The name of a file without its directory and last extension.\<close>

definition stem :: "string \<Rightarrow> string" where
  "stem path =
     (let b = last (split_char (CHR ''/'') path); body = dropWhile (\<lambda>c. c = CHR ''.'') b in
      if CHR ''.'' \<in> set body
      then take (length b - length body) b @ rev (tl (dropWhile (\<lambda>c. c \<noteq> CHR ''.'') (rev body)))
      else b)"

definition dispatch_script :: "net \<Rightarrow> string list \<Rightarrow> dcfg \<Rightarrow> run_env \<Rightarrow> string \<Rightarrow> issue \<Rightarrow> unit act" where
  "dispatch_script net secrets c e repo iss =
     (let i = (repo, is_number iss); name = repo_name repo in
      if \<not> dc_script_mode c
      then refuse_script net secrets i ''script mode is off on this runner (DISPATCH_SCRIPT_MODE=0)'' False
      else case parse_script (re_repr e) (is_body iss) of
             Inl (Refusal why) \<Rightarrow> refuse_script net secrets i why False
           | Inl (Uncaught x) \<Rightarrow> raise x
           | Inr (path, args) \<Rightarrow>
               (let secs = sections (is_body iss); timeout_s = task_timeout c secs;
                    base = run_base repo (is_number iss) (re_started e) in
                after (relabel net i [label_ready] [label_running])
               (after (comment net secrets i
                        (''runner: claimed at '' @ re_started e @ '' (kind:script, no model): `'' @
                         join '' '' (path # args) @ ''`.''))
                  (case parse_ref (ref_field secs) of
                     Inl msg \<Rightarrow> refuse_script net secrets i (''Branch / commit: '' @ msg) True
                   | Inr (branch, sha) \<Rightarrow>
                       (case fst (prepare_exact_checkout (re_git e) (re_cloned e) (checkout_path c name) branch sha
                                    (mirrors_of c name)) of
                          Inl err \<Rightarrow> refuse_script net secrets i err True
                        | Inr ref \<Rightarrow>
                            if \<not> re_script_file e path
                            then refuse_script net secrets i (path @ '' is not a file under tools/runner/tasks/ at '' @ ref) True
                            else after_script net secrets e i (stem path) ref timeout_s (dc_results c @ ''/'' @ base)
                                   (re_script e path args timeout_s))))))"

section \<open>One run\<close>

text \<open>
  \<open>main\<close> under the lock: the model of the loaded profile (None when the lane is closed, and then
  only script tasks count), the queue, the choice, and the task. The environment of the task is
  taken when it starts.
\<close>

definition run_once ::
    "net \<Rightarrow> asks \<Rightarrow> string list \<Rightarrow> dcfg \<Rightarrow> string list \<Rightarrow> (string \<Rightarrow> issue list res) \<Rightarrow> (string \<times> int) option \<Rightarrow>
     string option \<Rightarrow> (string \<Rightarrow> issue \<Rightarrow> run_env) \<Rightarrow> unit act" where
  "run_once net ak secrets c repos list_ready only model env =
     act_bind (\<lambda>h. (ready_issues repos list_ready only, calls1 h)) (\<lambda>queue.
       let q = (if model = None then filter (\<lambda>(repo, iss). is_script iss) queue else queue) in
       act_bind (pick net ak secrets [] [] q) (\<lambda>chosen.
         case chosen of
           None \<Rightarrow> ret ()
         | Some (repo, iss) \<Rightarrow>
             if is_script iss then dispatch_script net secrets c (env repo iss) repo iss
             else dispatch net secrets c (env repo iss) repo iss (case model of None \<Rightarrow> [] | Some m \<Rightarrow> m)))"

definition lane_models :: "(string \<times> string) list" where
  "lane_models = [(''rag-qwen3.6'', ''qwen3.6''), (''qwen3.8'', ''qwen3.8-nothink'')]"

definition lane_model :: "pyval option \<Rightarrow> string option" where
  "lane_model health =
     (case health of
        Some (PDict d) \<Rightarrow> (case dget d ''active_chat_profile'' of PStr p \<Rightarrow> map_of lane_models p | _ \<Rightarrow> None)
      | _ \<Rightarrow> None)"

section \<open>Actions in sequence\<close>

named_theorems act_simps \<open>how actions compose\<close>

lemma act_bind_simps [act_simps]:
  "act_bind m f h = (Inr y, h'') \<longleftrightarrow> (\<exists>x h'. m h = (Inr x, h') \<and> f x h' = (Inr y, h''))"
  by (auto simp: act_bind_def split: prod.splits sum.splits)

lemma after_Inr [act_simps]:
  "after m k h = (Inr y, h'') \<longleftrightarrow> (\<exists>h'. m h = (Inr (), h') \<and> k h' = (Inr y, h''))"
  by (auto simp: after_def act_simps)

lemma ret_Inr [act_simps]: "ret x h = (Inr y, h') \<longleftrightarrow> y = x \<and> h' = h"
  by (auto simp: ret_def)

lemma raise_Inr [act_simps]: "raise e h \<noteq> (Inr y, h')"
  by (simp add: raise_def)

section \<open>What a label edit that returns has done\<close>

text \<open>
  The labels an edit aims at do not change while \<open>relabel\<close> retries: whatever part of a failed edit
  went through, what is still to do leads to the same set.
\<close>

definition aims_at :: "string set \<Rightarrow> string list \<Rightarrow> string list \<Rightarrow> string set" where
  "aims_at ls rm ad = (ls - set rm) \<union> set ad"

lemma set_edit_labels:
  "set rm \<inter> set ad = {} \<Longrightarrow>
   set (edit_labels p rm ad ls) = (set ls - {l \<in> set rm. p l}) \<union> {l \<in> set ad. p l}"
  by (auto simp: edit_labels_def Let_def)

lemma aims_at_partly:
  "set rm \<inter> set ad = {} \<Longrightarrow> aims_at (set (edit_labels p rm ad ls)) rm ad = aims_at (set ls) rm ad"
  by (auto simp: aims_at_def set_edit_labels)

lemma aims_at_rest:
  "set rm \<inter> set ad = {} \<Longrightarrow>
   aims_at ls (filter (\<lambda>l. l \<in> ls) rm) (filter (\<lambda>l. l \<notin> ls) ad) = aims_at ls rm ad"
  by (auto simp: aims_at_def)

lemma do_edit_simps [simp]:
  "hb_labels (do_edit i p rm ad h) j = (if j = i then edit_labels p rm ad (hb_labels h i) else hb_labels h j)"
  "hb_said (do_edit i p rm ad h) = hb_said h"
  by (simp_all add: do_edit_def calls1_def)

lemma calls1_simps [simp]:
  "hb_labels (calls1 h) = hb_labels h" "hb_said (calls1 h) = hb_said h"
  by (simp_all add: calls1_def)

lemma relabel_from_effect:
  assumes "relabel_from net i k rm ad h = (r, h')" and "set rm \<inter> set ad = {}"
  shows "(r = Inr () \<longrightarrow> set (hb_labels h' i) = aims_at (set (hb_labels h i)) rm ad) \<and>
         (\<forall>j. j \<noteq> i \<longrightarrow> hb_labels h' j = hb_labels h j) \<and> hb_said h' = hb_said h"
  using assms
proof (induction net i k rm ad h rule: relabel_from.induct)
  case (1 net i rm ad h)
  then show ?case by auto
next
  case (2 net i k rm ad h)
  show ?case
  proof (cases "nt_edit net (hb_calls h)")
    case Applied
    with 2(3,4) show ?thesis by (auto simp: set_edit_labels aims_at_def)
  next
    case (Partly p)
    let ?h1 = "do_edit i p rm ad h"
    let ?now = "hb_labels ?h1 i"
    let ?rm = "filter (\<lambda>l. l \<in> set ?now) rm"
    let ?ad = "filter (\<lambda>l. l \<notin> set ?now) ad"
    have goal: "aims_at (set ?now) rm ad = aims_at (set (hb_labels h i)) rm ad"
      using aims_at_partly [OF "2.prems"(2)] by simp
    have rest: "aims_at (set ?now) ?rm ?ad = aims_at (set ?now) rm ad"
      by (rule aims_at_rest [OF "2.prems"(2)])
    have dis: "set ?rm \<inter> set ?ad = {}" using "2.prems"(2) by auto
    consider "k = 0" | "k \<noteq> 0" "\<not> nt_read net (hb_calls ?h1)"
      | "k \<noteq> 0" "nt_read net (hb_calls ?h1)" "?rm = [] \<and> ?ad = []"
      | "k \<noteq> 0" "nt_read net (hb_calls ?h1)" "\<not> (?rm = [] \<and> ?ad = [])"
      by blast
    then show ?thesis
    proof cases
      case 1
      with Partly "2.prems"(1) have "r = Inl RuntimeError" "h' = ?h1" by (auto simp: Let_def)
      then show ?thesis by auto
    next
      case 2
      with Partly "2.prems" have "relabel_from net i k rm ad (calls1 ?h1) = (r, h')" by (simp add: Let_def)
      from "2.IH"(1) [OF Partly refl refl refl 2 this "2.prems"(2)] goal show ?thesis by auto
    next
      case 3
      with Partly "2.prems"(1) have "r = Inr ()" "h' = calls1 ?h1" by (auto simp: Let_def)
      moreover have "set ?now = aims_at (set ?now) ?rm ?ad" using 3 by (simp add: aims_at_def)
      ultimately show ?thesis using goal rest by auto
    next
      case 4
      with Partly "2.prems" have "relabel_from net i k ?rm ?ad (calls1 ?h1) = (r, h')"
        by (simp add: Let_def del: filter_empty_conv do_edit_simps)
      note step = "2.IH"(2) [OF Partly refl refl refl 4(1) _ refl refl 4(3) this dis]
      have "set (hb_labels (calls1 ?h1) i) = set ?now" by simp
      with step 4(2) goal rest show ?thesis by auto
    qed
  qed
qed

lemma relabel_effect:
  assumes "relabel net i rm ad h = (Inr (), h')" and "set rm \<inter> set ad = {}"
  shows "set (hb_labels h' i) = aims_at (set (hb_labels h i)) rm ad"
  using relabel_from_effect [OF assms(1) [unfolded relabel_def] assms(2)] by simp

lemma comment_labels: "comment net secrets i t h = (r, h') \<Longrightarrow> hb_labels h' = hb_labels h"
  by (auto simp: comment_def Let_def split: say_end.splits if_splits)

section \<open>How a task ends\<close>

text \<open>The labels of an issue after a task that took it from ready, with the labels it ends with.\<close>

definition ends_with :: "hub \<Rightarrow> hub \<Rightarrow> issue_id \<Rightarrow> string list \<Rightarrow> bool" where
  "ends_with h h' i add =
     (set (hb_labels h' i) = (set (hb_labels h i) - {label_ready, label_running}) \<union> set add)"

lemma finish_fallback_effect:
  assumes "finish_fallback net secrets i t h = (Inr (), h')"
  shows "set (hb_labels h' i) = (set (hb_labels h i) - {label_running}) \<union> {label_blocked, label_claude}"
proof -
  from assms obtain h1 where c: "comment net secrets i t h = (Inr (), h1)"
    and r: "relabel net i [label_running] (settle_labels True True) h1 = (Inr (), h')"
    by (auto simp: finish_fallback_def act_simps)
  from relabel_effect [OF r] comment_labels [OF c] show ?thesis
    by (auto simp: settle_labels_def aims_at_def)
qed

lemma finish_report_effect:
  assumes "finish_report net secrets i rep v n dir h = (Inr (), h')"
  shows "set (hb_labels h' i) = (set (hb_labels h i) - {label_running}) \<union>
           set (settle_labels (v = ''BLOCKED'') (needs_claude v (rp_deviations rep) n))"
proof -
  from assms obtain h1 t where c: "comment net secrets i t h = (Inr (), h1)"
    and r: "relabel net i [label_running]
              (settle_labels (v = ''BLOCKED'') (needs_claude v (rp_deviations rep) n)) h1 = (Inr (), h')"
    by (auto simp: finish_report_def act_simps Let_def)
  from relabel_effect [OF r] comment_labels [OF c] show ?thesis
    by (auto simp: settle_labels_def aims_at_def)
qed

lemma requeue_effect:
  assumes "requeue net secrets i t h = (Inr (), h')"
  shows "set (hb_labels h' i) = (set (hb_labels h i) - {label_running}) \<union> {label_ready}"
proof -
  from assms obtain h1 where r: "relabel net i [label_running] [label_ready] h = (Inr (), h1)"
    and c: "comment net secrets i t h1 = (Inr (), h')"
    by (auto simp: requeue_def act_simps)
  from relabel_effect [OF r] comment_labels [OF c] show ?thesis by (auto simp: aims_at_def)
qed

lemma after_agent_effect:
  assumes "after_agent net secrets e i ref model timeout_s base dir code h = (Inr (), h')"
  shows "\<exists>add. set (hb_labels h' i) = (set (hb_labels h i) - {label_running}) \<union> set add \<and>
           (add = [label_ready] \<or> add = [label_blocked, label_claude] \<or>
            (\<exists>texts rep v n. event_texts (re_parse e) (log_lines e) = Inr texts \<and>
               find_report texts (snd i) = Some rep \<and> rp_verdict rep = Some v \<and> code = Some n \<and>
               add = settle_labels (v = ''BLOCKED'') (needs_claude v (rp_deviations rep) n)))"
proof -
  let ?out = "\<lambda>add. set (hb_labels h' i) = (set (hb_labels h i) - {label_running}) \<union> set add"
  consider t where "requeue net secrets i t h = (Inr (), h')"
    | t where "finish_fallback net secrets i t h = (Inr (), h')"
    | texts rep v n where "event_texts (re_parse e) (log_lines e) = Inr texts"
        "find_report texts (snd i) = Some rep" "rp_verdict rep = Some v" "code = Some n"
        "finish_report net secrets i rep v n dir h = (Inr (), h')"
    using assms
    by (auto simp: after_agent_def Let_def raise_Inr split: if_splits sum.splits option.splits)
  then show ?thesis
  proof cases
    case 1
    from requeue_effect [OF 1] have "?out [label_ready]" by simp
    then show ?thesis by blast
  next
    case 2
    from finish_fallback_effect [OF 2] have "?out [label_blocked, label_claude]" by simp
    then show ?thesis by blast
  next
    case 3
    from finish_report_effect [OF 3(5)] 3(1-4) show ?thesis by blast
  qed
qed

text \<open>The exit code of the agent, if the task got as far as running it.\<close>

definition agent_code :: "dcfg \<Rightarrow> run_env \<Rightarrow> string \<Rightarrow> issue \<Rightarrow> string \<Rightarrow> int option" where
  "agent_code c e repo iss model =
     (let secs = sections (is_body iss); t = task_timeout c secs in
      case parse_ref (ref_field secs) of
        Inl _ \<Rightarrow> None
      | Inr (branch, sha) \<Rightarrow>
          (case fst (prepare_checkout (re_git e) (re_cloned e) (checkout_path c (repo_name repo)) branch sha
                       (mirrors_of c (repo_name repo))) of
             Inl _ \<Rightarrow> None
           | Inr ref \<Rightarrow> re_agent e (preamble repo (is_number iss) ref (re_started e) model t @ is_body iss) t))"


section \<open>Nothing that is posted holds a secret\<close>

definition discreet :: "string list \<Rightarrow> hub \<Rightarrow> bool" where
  "discreet secrets h =
     (\<forall>p \<in> set (hb_said h). \<forall>v \<in> set secrets. maskable v \<longrightarrow> \<not> contains (snd p) v)"

definition keeps :: "(hub \<Rightarrow> bool) \<Rightarrow> 'a act \<Rightarrow> bool" where
  "keeps P m = (\<forall>h. P h \<longrightarrow> P (snd (m h)))"

named_theorems keeps_intros \<open>an invariant of every action is one of their composition\<close>

lemma keeps_bind [keeps_intros]: "keeps P m \<Longrightarrow> (\<And>x. keeps P (f x)) \<Longrightarrow> keeps P (act_bind m f)"
  unfolding keeps_def act_bind_def by (force split: prod.splits sum.splits)

lemma keeps_after [keeps_intros]: "keeps P m \<Longrightarrow> keeps P k \<Longrightarrow> keeps P (after m k)"
  unfolding after_def by (intro keeps_bind)

lemma keeps_ret [keeps_intros]: "keeps P (ret x)"
  by (simp add: keeps_def ret_def)

lemma keeps_raise [keeps_intros]: "keeps P (raise e)"
  by (simp add: keeps_def raise_def)

lemma discreet_same: "hb_said h' = hb_said h \<Longrightarrow> discreet secrets h' = discreet secrets h"
  by (simp add: discreet_def)

lemma keeps_ask [keeps_intros]: "keeps (discreet secrets) (ask f)"
  by (simp add: keeps_def ask_def discreet_def)

lemma keeps_ask_queue [keeps_intros]: "keeps (discreet secrets) (\<lambda>h. (x, calls1 h))"
  by (simp add: keeps_def discreet_def)

lemma keeps_comment [keeps_intros]: "keeps (discreet secrets) (comment net secrets i t)"
proof -
  have "\<not> contains (take comment_max (redact secrets t)) v" if "v \<in> set secrets" "maskable v" for v
    by (rule hides_take [OF redact_hides [OF that(2,1)]])
  then show ?thesis
    by (auto simp: keeps_def comment_def discreet_def Let_def calls1_def split: say_end.splits)
qed

lemma relabel_from_said: "hb_said (snd (relabel_from net i k rm ad h)) = hb_said h"
  by (induction net i k rm ad h rule: relabel_from.induct) (auto simp: Let_def split: edit_end.splits)

lemma keeps_relabel [keeps_intros]: "keeps (discreet secrets) (relabel net i rm ad)"
  unfolding keeps_def relabel_def using discreet_same [OF relabel_from_said] by blast

lemma keeps_if [keeps_intros]: "(b \<Longrightarrow> keeps P m) \<Longrightarrow> (\<not> b \<Longrightarrow> keeps P k) \<Longrightarrow> keeps P (if b then m else k)"
  by simp

lemma keeps_cases [keeps_intros]:
  "(\<And>x. s = Inl x \<Longrightarrow> keeps P (f x)) \<Longrightarrow> (\<And>y. s = Inr y \<Longrightarrow> keeps P (g y)) \<Longrightarrow> keeps P (case s of Inl x \<Rightarrow> f x | Inr y \<Rightarrow> g y)"
  "(r = None \<Longrightarrow> keeps P m) \<Longrightarrow> (\<And>x. r = Some x \<Longrightarrow> keeps P (h x)) \<Longrightarrow> keeps P (case r of None \<Rightarrow> m | Some x \<Rightarrow> h x)"
  "(\<And>a b. q = (a, b) \<Longrightarrow> keeps P (k a b)) \<Longrightarrow> keeps P (case q of (a, b) \<Rightarrow> k a b)"
  by (simp_all split: sum.split option.split prod.split)

lemma keeps_refuse_tier [keeps_intros]: "keeps (discreet secrets) (refuse_tier net secrets repo i)"
  unfolding refuse_tier_def by (intro keeps_intros)

lemma keeps_note_halted [keeps_intros]: "keeps (discreet secrets) (note_halted net ak secrets repo i)"
  unfolding note_halted_def by (intro keeps_intros)

lemma keeps_memo [keeps_intros]: "keeps (discreet secrets) (memo f repo m)"
  unfolding memo_def by (cases "map_of m repo") (auto intro: keeps_intros)

lemma keeps_pick [keeps_intros]: "keeps (discreet secrets) (pick net ak secrets halt ok q)"
proof (induction q arbitrary: halt ok)
  case Nil
  then show ?case by (simp add: keeps_intros)
next
  case (Cons a q)
  obtain repo i where a: "a = (repo, i)" by (cases a)
  show ?case unfolding a pick.simps Let_def
    by (intro keeps_intros Cons.IH)
qed

lemma keeps_finish [keeps_intros]:
  "keeps (discreet secrets) (finish_fallback net secrets i t)"
  "keeps (discreet secrets) (finish_report net secrets i rep v n dir)"
  "keeps (discreet secrets) (requeue net secrets i t)"
  "keeps (discreet secrets) (post_script_report net secrets i raw b c dir code)"
  "keeps (discreet secrets) (refuse_script net secrets i t claimed)"
  unfolding finish_fallback_def finish_report_def requeue_def post_script_report_def refuse_script_def Let_def
  by (intro keeps_intros)+

lemma keeps_after_agent [keeps_intros]:
  "keeps (discreet secrets) (after_agent net secrets e i ref model t base dir code)"
  unfolding after_agent_def Let_def
  by (intro keeps_intros)

lemma keeps_after_script [keeps_intros]:
  "keeps (discreet secrets) (after_script net secrets e i task ref t dir code)"
  unfolding after_script_def Let_def
  by (intro keeps_intros)

lemma keeps_dispatch [keeps_intros]: "keeps (discreet secrets) (dispatch net secrets c e repo iss model)"
  unfolding dispatch_def Let_def
  by (intro keeps_intros)

lemma keeps_dispatch_script [keeps_intros]: "keeps (discreet secrets) (dispatch_script net secrets c e repo iss)"
  unfolding dispatch_script_def Let_def
  by (intro keeps_intros) (simp add: keeps_intros split: script_error.split)

lemma keeps_run_once: "keeps (discreet secrets) (run_once net ak secrets c repos list_ready only model env)"
  unfolding run_once_def Let_def
  by (intro keeps_intros)


section \<open>The choice is the first runnable task\<close>

lemma tier_cases: "tier_of i = None \<or> tier_of i = Some ''tier:a'' \<or> tier_of i = Some ''tier:b'' \<or> tier_of i = Some ''tier:c''"
proof (cases "tier_of i")
  case (Some t)
  then have "tiers_of i = [t]" by (auto simp: tier_of_def split: list.splits)
  then have "t \<in> set (tiers_of i)" by simp
  then show ?thesis using Some by (auto simp: tiers_of_def tiers_def)
qed simp

definition runnable :: "(string \<Rightarrow> bool) \<Rightarrow> (string \<Rightarrow> bool) \<Rightarrow> string \<times> issue \<Rightarrow> bool" where
  "runnable held ready_now p =
     (case p of (repo, i) \<Rightarrow>
        ready_now repo \<and> (tier_of i = Some ''tier:a'' \<or> tier_of i = Some ''tier:b'' \<and> \<not> held repo))"

lemma runnable_iff [simp]:
  "runnable held ready_now (repo, i) \<longleftrightarrow>
     ready_now repo \<and> (tier_of i = Some ''tier:a'' \<or> tier_of i = Some ''tier:b'' \<and> \<not> held repo)"
  by (simp add: runnable_def)

definition remembers :: "(string \<Rightarrow> bool) \<Rightarrow> (string \<times> bool) list \<Rightarrow> bool" where
  "remembers f m = (\<forall>r b. map_of m r = Some b \<longrightarrow> b = f r)"

lemma memo_steady:
  assumes "memo g repo m h = (Inr (b, m'), h')" and "remembers f m" and "\<And>n r. g n r = Inr (f r)"
  shows "b = f repo \<and> remembers f m'"
  using assms by (auto simp: memo_def remembers_def act_simps ask_def split: option.splits)

lemma pick_spec:
  assumes halted: "\<And>n r. ak_halted ak n r = Inr (held r)" and ready: "\<And>n r. ak_ready ak n r = ready_now r"
  shows "pick net ak secrets halt ok q h = (Inr x, h') \<Longrightarrow> remembers held halt \<Longrightarrow> remembers ready_now ok \<Longrightarrow>
         x = find (runnable held ready_now) q"
proof (induction q arbitrary: halt ok h)
  case Nil
  then show ?case by (simp add: act_simps)
next
  case (Cons a q)
  obtain repo i where a: "a = (repo, i)" by (cases a)
  have ask_ready: "x = find (runnable held ready_now) ((repo, i) # q)"
    if step: "act_bind (memo (\<lambda>n r. Inr (ak_ready ak n r)) repo ok) (\<lambda>(good, ok').
             if good then ret (Some (repo, i)) else pick net ak secrets halt' ok' q) h1 = (Inr x, h')"
      and mem: "remembers held halt'"
      and tier: "tier_of i = Some ''tier:a'' \<or> tier_of i = Some ''tier:b'' \<and> \<not> held repo" for halt' h1
  proof -
    from step obtain good ok' h2 where m: "memo (\<lambda>n r. Inr (ak_ready ak n r)) repo ok h1 = (Inr (good, ok'), h2)"
      and r: "(if good then ret (Some (repo, i)) else pick net ak secrets halt' ok' q) h2 = (Inr x, h')"
      by (auto simp: act_simps)
    from memo_steady [OF m Cons.prems(3)] ready have "good = ready_now repo" "remembers ready_now ok'" by auto
    with r tier mem Cons.IH [of halt' ok' h2] show ?thesis
      by (auto simp: act_simps split: if_splits)
  qed
  consider "tier_of i = None \<or> tier_of i = Some ''tier:c''" | "tier_of i = Some ''tier:a''" | "tier_of i = Some ''tier:b''"
    using tier_cases by blast
  then show ?case
  proof cases
    case 1
    with Cons.prems obtain h1 where "pick net ak secrets halt ok q h1 = (Inr x, h')"
      by (auto simp: a act_simps Let_def)
    from Cons.IH [OF this Cons.prems(2,3)] 1 show ?thesis by (auto simp: a)
  next
    case 2
    with Cons.prems(1) show ?thesis unfolding a
      by (intro ask_ready [of halt h]) (simp_all add: Let_def Cons.prems(2))
  next
    case 3
    with Cons.prems(1) obtain b halt' h1 where m: "memo (ak_halted ak) repo halt h = (Inr (b, halt'), h1)"
      and r: "(if b then after (note_halted net ak secrets repo i) (pick net ak secrets halt' ok q)
               else act_bind (memo (\<lambda>n r. Inr (ak_ready ak n r)) repo ok) (\<lambda>(good, ok').
                 if good then ret (Some (repo, i)) else pick net ak secrets halt' ok' q)) h1 = (Inr x, h')"
      by (auto simp: a act_simps Let_def)
    from memo_steady [OF m Cons.prems(2) halted] have b: "b = held repo" and mem: "remembers held halt'" by auto
    show ?thesis
    proof (cases b)
      case True
      with r obtain h2 where "pick net ak secrets halt' ok q h2 = (Inr x, h')" by (auto simp: act_simps)
      from Cons.IH [OF this mem Cons.prems(3)] 3 True b show ?thesis by (simp add: a)
    next
      case False
      with r b 3 mem show ?thesis unfolding a by (intro ask_ready [of halt' h1]) simp_all
    qed
  qed
qed

text \<open>
  Picking remembers, per repository, whether it is halted and whether its runner is ready, and refuses, notes
  and skips as it goes; as long as those answers do not change while it looks, its choice is the plain one: the
  first task of the queue with exactly one tier, a, or b in a repository without a halt, whose runner is ready.
\<close>

theorem pick_is_first_runnable:
  assumes "\<And>n r. ak_halted ak n r = Inr (held r)" and "\<And>n r. ak_ready ak n r = ready_now r"
    and "pick net ak secrets [] [] q h = (Inr x, h')"
  shows "x = find (\<lambda>(repo, i). ready_now repo \<and>
                     (tier_of i = Some ''tier:a'' \<or> tier_of i = Some ''tier:b'' \<and> \<not> held repo)) q"
  using pick_spec [OF assms] by (simp add: remembers_def runnable_def [abs_def])

section \<open>Concrete runs\<close>

definition good_net :: net where
  "good_net = \<lparr>nt_edit = (\<lambda>_. Applied), nt_say = (\<lambda>_. Posted), nt_read = (\<lambda>_. True)\<rparr>"

definition sample_issue :: issue where
  "sample_issue = \<lparr>is_number = 3, is_body = [], is_created = ''2026-11-01'', is_labels = [''runner:ready'', ''tier:a'']\<rparr>"

definition sample_hub :: hub where
  "sample_hub = \<lparr>hb_labels = (\<lambda>_. [''runner:ready'', ''tier:a'']), hb_said = [], hb_calls = 0\<rparr>"

definition sample_run :: run_env where
  "sample_run = \<lparr>re_started = ''2026-11-01T00:00:00Z'', re_finished = ''2026-11-01T00:01:00Z'', re_cloned = False,
     re_git = (\<lambda>_ _. (0, [], [])), re_agent = (\<lambda>_ _. Some 0), re_script = (\<lambda>_ _ _. Some 0), re_log = None,
     re_stderr = None, re_report = None, re_parse = (\<lambda>_. None), re_parse_named = (\<lambda>_. Inl []),
     re_show = (\<lambda>_. []), re_repr = (\<lambda>s. s), re_dumps = (\<lambda>_. []), re_script_file = (\<lambda>_. False)\<rparr>"

definition sample_dcfg :: dcfg where
  "sample_dcfg = \<lparr>dc_work = ''/work'', dc_results = ''/results'', dc_max_timeout = 43200, dc_mirrors = [], dc_script_mode = True\<rparr>"

lemma good_comment: "comment good_net secrets i t h =
    (Inr (), (calls1 h)\<lparr>hb_said := hb_said h @ [(i, take comment_max (redact secrets t))]\<rparr>)"
  by (simp add: comment_def good_net_def)

lemma good_relabel: "relabel good_net i rm ad h = (Inr (), do_edit i (\<lambda>_. True) rm ad h)"
  by (simp add: relabel_def relabel_tries_def numeral_eq_Suc good_net_def)

lemma good_after:
  "after (comment good_net secrets i t) k h =
     k ((calls1 h)\<lparr>hb_said := hb_said h @ [(i, take comment_max (redact secrets t))]\<rparr>)"
  "after (relabel good_net i rm ad) k h = k (do_edit i (\<lambda>_. True) rm ad h)"
  by (simp_all add: after_def act_bind_def good_comment good_relabel)

lemma sample_no_ref: "parse_ref (ref_field (sections [])) = Inl (''found no branch; name exactly one: `branch`, `branch@sha` or `git switch <branch>`'')"
  by code_simp

lemma sample_dispatch:
  "\<exists>h'. dispatch good_net secrets sample_dcfg sample_run ''o/r'' sample_issue ''m'' sample_hub = (Inr (), h')"
proof -
  have body: "is_body sample_issue = []" by (simp add: sample_issue_def)
  show ?thesis
    unfolding dispatch_def Let_def body sample_no_ref sum.case finish_fallback_def good_after good_relabel
    by (rule exI, rule refl)
qed

lemma settle_not_running: "label_running \<notin> set (settle_labels b c)"
  by (simp add: settle_labels_def)


definition sample_asks :: asks where
  "sample_asks = \<lparr>ak_halted = (\<lambda>_ r. Inr (r = ''o/r'')), ak_ready = (\<lambda>_ _. True), ak_last = (\<lambda>_ _. Inr [])\<rparr>"

definition sample_queue :: "(string \<times> issue) list" where
  "sample_queue =
     [(''o/r'', sample_issue\<lparr>is_labels := [''runner:ready'']\<rparr>),
      (''o/r'', sample_issue\<lparr>is_labels := [''runner:ready'', ''tier:b'']\<rparr>),
      (''o/s'', sample_issue\<lparr>is_labels := [''runner:ready'', ''tier:b''], is_number := 4\<rparr>)]"

lemma sample_pick:
  "\<exists>x h'. pick good_net sample_asks secrets [] [] sample_queue sample_hub = (Inr x, h')"
  by (simp add: sample_queue_def tier_of_def tiers_of_def tiers_def sample_issue_def refuse_tier_def good_comment good_relabel memo_def note_halted_def act_bind_def ask_def sample_asks_def ret_def halted_prefix_def
      after_def split: prod.splits)


lemma after_fails:
  assumes "m h = (Inr (), h1)" and "\<exists>h'. c h1 = (Inl x, h') \<and> P h'"
  shows "\<exists>h'. after m (after c k) h = (Inl x, h') \<and> P h'"
  using assms by (auto simp: after_def act_bind_def)

text \<open>
  A claimed task whose comment GitHub refuses is left running: the exception leaves the run with the
  label in place, and later runs pick only issues that are ready.
\<close>

lemma refused_comment_leaves_running:
  assumes "nt_say net (hb_calls h + 1) = Failed b" and "nt_edit net (hb_calls h) = Applied"
  shows "\<exists>h'. dispatch net secrets c e repo iss model h = (Inl RuntimeError, h') \<and>
           label_running \<in> set (hb_labels h' (repo, is_number iss))"
proof -
  have r: "relabel net (repo, is_number iss) [label_ready] [label_running] h =
      (Inr (), do_edit (repo, is_number iss) (\<lambda>_. True) [label_ready] [label_running] h)"
    by (simp add: relabel_def relabel_tries_def numeral_eq_Suc assms(2))
  let ?h = "do_edit (repo, is_number iss) (\<lambda>_. True) [label_ready] [label_running] h"
  have calls: "hb_calls ?h = hb_calls h + 1" by (simp add: do_edit_def calls1_def)
  have fail: "\<exists>h'. comment net secrets (repo, is_number iss) t ?h = (Inl RuntimeError, h') \<and>
      label_running \<in> set (hb_labels h' (repo, is_number iss))" for t
    by (simp add: comment_def Let_def calls assms(1) [simplified] edit_labels_def)
  show ?thesis unfolding dispatch_def Let_def by (rule after_fails, rule r, rule fail)
qed

end
