(* ===== verification/WebFetch.thy ===== *)
theory WebFetch
  imports PyVal "HOL-Library.Word"
begin

unbundle bit_operations_syntax

text \<open>
  The guarded fetch of \<^verbatim>\<open>scripts/files/web_fetch_guard.py\<close>: which addresses are public, the check of a
  request target, the pinning of the connection to the checked address, the redirect loop with its
  capped read, and the deadline around it. The URL parser, the address parser and printer, the
  resolver, the transport and the version-dependent attribute \<open>is_global\<close> are parameters; the
  resolver is asked anew at every hop and may answer differently each time.
\<close>

section \<open>Addresses\<close>

datatype ip = V4 "32 word" | V6 "128 word"

fun ip_version :: "ip \<Rightarrow> nat" where
  "ip_version (V4 _) = 4"
| "ip_version (V6 _) = 6"

text \<open>A network is its address and the length of its prefix.\<close>

type_synonym net = "ip \<times> nat"

fun in_net :: "ip \<Rightarrow> net \<Rightarrow> bool" where
  "in_net (V4 a) (V4 n, p) = (drop_bit (32 - p) a = drop_bit (32 - p) n)"
| "in_net (V6 a) (V6 n, p) = (drop_bit (128 - p) a = drop_bit (128 - p) n)"
| "in_net _ _ = False"

definition v4net :: "32 word \<Rightarrow> 32 word \<Rightarrow> 32 word \<Rightarrow> 32 word \<Rightarrow> nat \<Rightarrow> net" where
  "v4net a b c d p = (V4 (push_bit 24 a OR push_bit 16 b OR push_bit 8 c OR d), p)"

text \<open>The leading three groups of a network of version 6, and its last two.\<close>

definition v6net :: "128 word \<Rightarrow> 128 word \<Rightarrow> 128 word \<Rightarrow> 128 word \<Rightarrow> 128 word \<Rightarrow> nat \<Rightarrow> net" where
  "v6net g0 g1 g2 g6 g7 p =
     (V6 (push_bit 112 g0 OR push_bit 96 g1 OR push_bit 80 g2 OR push_bit 16 g6 OR g7), p)"

definition blocked_nets :: "net list" where
  "blocked_nets =
     [v4net 0 0 0 0 8, v4net 10 0 0 0 8, v4net 100 64 0 0 10, v4net 127 0 0 0 8, v4net 169 254 0 0 16,
      v4net 172 16 0 0 12, v4net 192 0 0 0 24, v4net 192 0 2 0 24, v4net 192 88 99 0 24,
      v4net 192 168 0 0 16, v4net 198 18 0 0 15, v4net 198 51 100 0 24, v4net 203 0 113 0 24,
      v4net 224 0 0 0 4, v4net 240 0 0 0 4, v4net 255 255 255 255 32,
      v6net 0 0 0 0 0 128, v6net 0 0 0 0 1 128, (V6 (push_bit 32 0xffff), 96),
      v6net 0x64 0xff9b 0 0 0 96, v6net 0x64 0xff9b 1 0 0 48, v6net 0x100 0 0 0 0 64,
      v6net 0x2001 0 0 0 0 32, v6net 0x2001 0xdb8 0 0 0 32, v6net 0x2002 0 0 0 0 16,
      v6net 0xfc00 0 0 0 0 7, v6net 0xfe80 0 0 0 0 10, v6net 0xfec0 0 0 0 0 10, v6net 0xff00 0 0 0 0 8]"

fun ipv4_mapped :: "ip \<Rightarrow> (32 word) option" where
  "ipv4_mapped (V4 _) = None"
| "ipv4_mapped (V6 w) = (if drop_bit 32 w = 0xffff then Some (ucast w) else None)"

text \<open>The mapped address is of version 4, so the recursion of the source goes one level deep.\<close>

definition v4_public :: "(ip \<Rightarrow> bool) \<Rightarrow> 32 word \<Rightarrow> bool" where
  "v4_public glob a = (\<not> list_ex (in_net (V4 a)) blocked_nets \<and> glob (V4 a))"

definition is_public :: "(ip \<Rightarrow> bool) \<Rightarrow> ip \<Rightarrow> bool" where
  "is_public glob a =
     (if list_ex (in_net a) blocked_nets then False
      else case ipv4_mapped a of
             Some m \<Rightarrow> v4_public glob m \<and> glob a
           | None \<Rightarrow> glob a)"

section \<open>Targets\<close>

record parsed_url =
  pu_scheme :: string
  pu_netloc :: string
  pu_rest :: "string list"

datatype http_reply =
    HttpFails string
  | HttpRaises exn
  | HttpReply int "string option" "string option" "string option" "string list" "string option"

record fetch_env =
  fe_parse :: "string \<Rightarrow> string + parsed_url"
  fe_hostname :: "parsed_url \<Rightarrow> string option"
  fe_port :: "parsed_url \<Rightarrow> string + nat option"
  fe_unparse :: "parsed_url \<Rightarrow> string"
  fe_join :: "string \<Rightarrow> string \<Rightarrow> string res"
  fe_ip :: "string \<Rightarrow> ip option"
  fe_ip_text :: "ip \<Rightarrow> string"
  fe_global :: "ip \<Rightarrow> bool"
  fe_resolve :: "nat \<Rightarrow> string \<Rightarrow> nat \<Rightarrow> string + string list"
  fe_reply :: "nat \<Rightarrow> http_reply"
  fe_decode :: "string \<Rightarrow> string"
  fe_deadline :: "nat option"

definition deny_hosts :: "string list" where
  "deny_hosts = [''169.254.169.254'', ''metadata.google.internal'', ''metadata'', ''169.254.170.2'',
     ''localhost'', ''127.0.0.1'', ''::1'', ''0.0.0.0'']"

definition str_dict :: "(string \<times> string) list \<Rightarrow> pydict" where
  "str_dict kvs = map (\<lambda>(k, v). (PStr k, PStr v)) kvs"

text \<open>\<^verbatim>\<open>parsed.port or d\<close>: no port and port zero give \<open>d\<close>.\<close>

definition port_or :: "nat option \<Rightarrow> nat \<Rightarrow> nat" where
  "port_or p d = (case p of Some n \<Rightarrow> (if n = 0 then d else n) | None \<Rightarrow> d)"

definition scope_free :: "string \<Rightarrow> string" where
  "scope_free s = takeWhile (\<lambda>c. c \<noteq> CHR 0x25) s"

fun vet :: "fetch_env \<Rightarrow> string \<Rightarrow> string list \<Rightarrow> pydict + ip list" where
  "vet env host [] = Inr []"
| "vet env host (a # as) =
     (case fe_ip env (scope_free a) of
        None \<Rightarrow> Inl (str_dict [(''error'', ''host_denied_unparseable_ip''), (''host'', host), (''addr'', a)])
      | Some i \<Rightarrow>
          if \<not> is_public (fe_global env) i
          then Inl (str_dict [(''error'', ''host_denied_private_range''), (''host'', host), (''resolved'', a)])
          else (case vet env host as of Inl e \<Rightarrow> Inl e | Inr is \<Rightarrow> Inr (i # is)))"

definition addresses :: "fetch_env \<Rightarrow> nat \<Rightarrow> string \<Rightarrow> nat \<Rightarrow> string + string list" where
  "addresses env k host port =
     (case fe_ip env host of
        Some _ \<Rightarrow> Inr [host]
      | None \<Rightarrow> fe_resolve env k host port)"

definition check_target :: "fetch_env \<Rightarrow> nat \<Rightarrow> string \<Rightarrow> pydict + (parsed_url \<times> string \<times> ip)" where
  "check_target env k url =
     (case fe_parse env url of
        Inl msg \<Rightarrow> Inl (str_dict [(''error'', ''invalid_url''), (''message'', msg)])
      | Inr parsed \<Rightarrow>
          (case fe_port env parsed of
             Inl msg \<Rightarrow> Inl (str_dict [(''error'', ''invalid_url''), (''message'', msg)])
           | Inr p \<Rightarrow>
               (let host = lower (case fe_hostname env parsed of Some h \<Rightarrow> h | None \<Rightarrow> []);
                    port = port_or p (if pu_scheme parsed = ''https'' then 443 else 80)
                in
                if pu_scheme parsed \<notin> {''http'', ''https''}
                then Inl (str_dict [(''error'', ''scheme_not_allowed''), (''scheme'', pu_scheme parsed)])
                else if host = [] then Inl (str_dict [(''error'', ''missing_host'')])
                else if host \<in> set deny_hosts then Inl (str_dict [(''error'', ''host_denied''), (''host'', host)])
                else case addresses env k host port of
                       Inl e \<Rightarrow> Inl (str_dict [(''error'', ''dns_resolution_failed''), (''message'', e)])
                     | Inr as \<Rightarrow>
                         if as = []
                         then Inl (str_dict [(''error'', ''dns_resolution_failed''), (''message'', ''no addresses'')])
                         else (case vet env host as of
                                 Inl e \<Rightarrow> Inl e
                               | Inr is \<Rightarrow> Inr (parsed, host, hd is)))))"

section \<open>Pinned requests\<close>

record fetch_request =
  fq_url :: string
  fq_headers :: "(string \<times> string) list"
  fq_sni :: "string option"

definition port_suffix :: "fetch_env \<Rightarrow> parsed_url \<Rightarrow> string" where
  "port_suffix env parsed =
     (case fe_port env parsed of
        Inr (Some n) \<Rightarrow> if n = 0 then [] else '':'' @ show_nat n
      | _ \<Rightarrow> [])"

definition pinned :: "fetch_env \<Rightarrow> parsed_url \<Rightarrow> string \<Rightarrow> ip \<Rightarrow> string \<times> string \<times> string option" where
  "pinned env parsed host i =
     (let ip_text = (if ip_version i = 6 then ''['' @ fe_ip_text env i @ '']'' else fe_ip_text env i);
          suffix = port_suffix env parsed
      in (fe_unparse env (parsed\<lparr>pu_netloc := ip_text @ suffix\<rparr>), host @ suffix,
          if pu_scheme parsed = ''https'' then Some host else None))"

text \<open>\<^verbatim>\<open>{**headers, "Host": h, "Accept-Encoding": "identity"}\<close>\<close>

definition request_to :: "fetch_env \<Rightarrow> (string \<times> string) list \<Rightarrow> parsed_url \<Rightarrow> string \<Rightarrow> ip \<Rightarrow> fetch_request" where
  "request_to env headers parsed host i =
     (case pinned env parsed host i of (url, host_header, sni) \<Rightarrow>
        \<lparr>fq_url = url,
         fq_headers = alist_put ''Accept-Encoding'' ''identity'' (alist_put ''Host'' host_header headers),
         fq_sni = sni\<rparr>)"

section \<open>The fetch\<close>

text \<open>What a fetch ends in: an answer, a transport error, or another exception.\<close>

datatype fetched = Fetched pydict | HttpError string | Raised exn

fun read_raw :: "nat \<Rightarrow> string \<Rightarrow> string list \<Rightarrow> string \<times> bool" where
  "read_raw cap body [] = (body, False)"
| "read_raw cap body (c # cs) =
     (let b = body @ take (cap + 1 - length body) c in
      if length b > cap then (b, True) else read_raw cap b cs)"

definition redirect_statuses :: "int list" where
  "redirect_statuses = [301, 302, 303, 307, 308]"

definition or_empty :: "string option \<Rightarrow> string" where
  "or_empty x = (case x of Some s \<Rightarrow> s | None \<Rightarrow> [])"

definition answer_of ::
  "fetch_env \<Rightarrow> nat \<Rightarrow> string \<Rightarrow> int \<Rightarrow> string option \<Rightarrow> string option \<Rightarrow> string list \<Rightarrow> string option \<Rightarrow> fetched" where
  "answer_of env cap url status enc ctype chs broken =
     (let encoding = lower (strip (case enc of Some e \<Rightarrow> e | None \<Rightarrow> ''identity'')) in
      if encoding \<notin> {[], ''identity''}
      then Fetched (str_dict [(''error'', ''content_encoding_not_supported''), (''content_encoding'', encoding)])
      else
        (case read_raw cap [] chs of (body, truncated) \<Rightarrow>
           (case (truncated, broken) of
              (False, Some e) \<Rightarrow> HttpError e
            | _ \<Rightarrow>
                Fetched [(PStr ''status'', PInt status), (PStr ''url'', PStr url),
                         (PStr ''content_type'', PStr (or_empty ctype)),
                         (PStr ''content_length'', PInt (int (length (take cap body)))),
                         (PStr ''truncated'', PBool truncated),
                         (PStr ''body'', PStr (fe_decode env (take cap body)))])))"

text \<open>
  The loop of \<open>_fetch\<close> with the hops left, the number of the hop and the current URL, and the requests
  it sends.
\<close>

fun fetch_loop ::
  "fetch_env \<Rightarrow> (string \<times> string) list \<Rightarrow> nat \<Rightarrow> nat \<Rightarrow> nat \<Rightarrow> nat \<Rightarrow> string \<Rightarrow> fetched \<times> fetch_request list" where
  "fetch_loop env headers cap hops 0 k url =
     (Fetched [(PStr ''error'', PStr ''too_many_redirects''), (PStr ''max_redirects'', PInt (int hops))], [])"
| "fetch_loop env headers cap hops (Suc n) k url =
     (case check_target env k url of
        Inl e \<Rightarrow> (Fetched e, [])
      | Inr (parsed, host, i) \<Rightarrow>
          (case (case fe_reply env k of
                   HttpFails e \<Rightarrow> (HttpError e, [])
                 | HttpRaises e \<Rightarrow> (Raised e, [])
                 | HttpReply status location enc ctype chs broken \<Rightarrow>
                     if status \<in> set redirect_statuses \<and> or_empty location \<noteq> []
                     then (case fe_join env url (or_empty location) of
                             Inl e \<Rightarrow> (Raised e, [])
                           | Inr url' \<Rightarrow> fetch_loop env headers cap hops n (k + 1) url')
                     else (answer_of env cap url status enc ctype chs broken, []))
           of (out, reqs) \<Rightarrow> (out, request_to env headers parsed host i # reqs)))"

definition fetch :: "fetch_env \<Rightarrow> (string \<times> string) list \<Rightarrow> nat \<Rightarrow> nat \<Rightarrow> string \<Rightarrow> fetched \<times> fetch_request list" where
  "fetch env headers cap hops url = fetch_loop env headers cap hops (hops + 1) 0 url"

definition total_timeout_seconds :: rat where
  "total_timeout_seconds = 30"

definition max_redirects :: nat where
  "max_redirects = 5"

text \<open>
  \<open>guarded_get\<close> with the deadline: when it strikes after \<open>n\<close> requests, only those were sent and the
  answer is the timeout.
\<close>

definition guarded_get ::
  "fetch_env \<Rightarrow> bool \<Rightarrow> (string \<times> string) list \<Rightarrow> nat \<Rightarrow> nat \<Rightarrow> pyval \<Rightarrow> fetched \<times> fetch_request list" where
  "guarded_get env follows headers cap hops url =
     (if follows then (Raised ValueError, [])
      else case url of
             PStr u \<Rightarrow>
               if strip u = []
               then (Fetched (str_dict [(''error'', ''missing '' @ [CHR 0x27] @ ''url'' @ [CHR 0x27] @ '' field'')]), [])
               else (case fe_deadline env of
                       None \<Rightarrow> fetch env headers cap hops u
                     | Some n \<Rightarrow>
                         (Fetched [(PStr ''error'', PStr ''timeout''),
                                   (PStr ''seconds'', PFloat (Fin total_timeout_seconds))],
                          take n (snd (fetch env headers cap hops u))))
           | _ \<Rightarrow> (Fetched (str_dict [(''error'', ''missing '' @ [CHR 0x27] @ ''url'' @ [CHR 0x27] @ '' field'')]), []))"

section \<open>What is requested\<close>

text \<open>A public address is outside every blocked network, and so is what it embeds by mapping.\<close>

lemma is_public_outside: "is_public glob a \<Longrightarrow> net \<in> set blocked_nets \<Longrightarrow> \<not> in_net a net"
  by (auto simp: is_public_def list_ex_iff split: if_splits)

lemma mapped_blocked:
  assumes "ipv4_mapped a = Some m"
  shows "\<not> is_public glob a"
proof -
  from assms obtain w where a: "a = V6 w" "drop_bit 32 w = 0xffff"
    by (cases a) (auto split: if_splits)
  have "drop_bit 32 (push_bit 32 (0xffff :: 128 word)) = 0xffff" by simp
  with a have "in_net a (V6 (push_bit 32 0xffff), 96)" by simp
  moreover have "(V6 (push_bit 32 0xffff), 96) \<in> set blocked_nets" by (simp add: blocked_nets_def)
  ultimately show ?thesis using is_public_outside by blast
qed

lemma is_public_iff:
  "is_public glob a \<longleftrightarrow> list_all (\<lambda>net. \<not> in_net a net) blocked_nets \<and> ipv4_mapped a = None \<and> glob a"
proof
  assume "is_public glob a"
  with mapped_blocked [of a _ glob] is_public_outside [of glob a]
  show "list_all (\<lambda>net. \<not> in_net a net) blocked_nets \<and> ipv4_mapped a = None \<and> glob a"
    by (cases "ipv4_mapped a") (auto simp: list_all_iff is_public_def split: if_splits)
qed (auto simp: is_public_def list_ex_iff list_all_iff)

text \<open>A request pinned to a public address, under the name that was checked.\<close>

definition vetted_request :: "fetch_env \<Rightarrow> (string \<times> string) list \<Rightarrow> fetch_request \<Rightarrow> bool" where
  "vetted_request env headers q =
     (\<exists>parsed host i. q = request_to env headers parsed host i \<and> pu_scheme parsed \<in> {''http'', ''https''} \<and>
        host \<noteq> [] \<and> host \<notin> set deny_hosts \<and>
        list_all (\<lambda>net. \<not> in_net i net) blocked_nets \<and> ipv4_mapped i = None \<and> fe_global env i)"

lemma vet_public:
  "vet env host as = Inr is \<Longrightarrow> length is = length as \<and> list_all (is_public (fe_global env)) is"
  by (induction as arbitrary: "is") (auto split: option.splits if_splits sum.splits)

lemma check_target_vetted:
  assumes "check_target env k url = Inr (parsed, host, i)"
  shows "vetted_request env headers (request_to env headers parsed host i)"
proof -
  obtain as "is" where a: "as \<noteq> []" "vet env host as = Inr is" "i = hd is"
    and p: "pu_scheme parsed \<in> {''http'', ''https''}" "host \<noteq> []" "host \<notin> set deny_hosts"
    using assms by (auto simp: check_target_def Let_def split: sum.splits if_splits)
  from vet_public [OF a(2)] a(1) have "is_public (fe_global env) (hd is)"
    by (cases "is") auto
  with a(3) have "is_public (fe_global env) i" by simp
  with p show ?thesis unfolding vetted_request_def is_public_iff by blast
qed

lemma fetch_loop_vetted:
  "length (snd (fetch_loop env headers cap hops n k url)) \<le> n \<and>
   list_all (vetted_request env headers) (snd (fetch_loop env headers cap hops n k url))"
proof (induction n arbitrary: k url)
  case (Suc n)
  show ?case
  proof (cases "check_target env k url")
    case (Inr t)
    obtain parsed host i where t: "t = (parsed, host, i)" by (cases t)
    from check_target_vetted [of env k url parsed host i headers] Inr t
    have v: "vetted_request env headers (request_to env headers parsed host i)" by simp
    from Suc Inr t v show ?thesis by (auto simp: case_prod_beta split: http_reply.split sum.split)
  qed simp
qed simp

lemma read_raw_cap: "length body \<le> cap \<Longrightarrow> length (fst (read_raw cap body chs)) \<le> cap + 1"
  by (induction chs arbitrary: body) (auto simp: Let_def)

text \<open>The length an answer reports.\<close>

definition reports_at_most :: "nat \<Rightarrow> fetched \<Rightarrow> bool" where
  "reports_at_most cap out =
     (case out of
        Fetched d \<Rightarrow> (case dlook d ''content_length'' of Some v \<Rightarrow> (\<exists>n. v = PInt (int n) \<and> n \<le> cap) | None \<Rightarrow> True)
      | _ \<Rightarrow> True)"

lemma dlook_str_dict_None: "k \<notin> fst ` set kvs \<Longrightarrow> dlook (str_dict kvs) k = None"
  by (induction kvs) (auto simp: str_dict_def)

lemma reports_error [simp]: "k \<notin> fst ` set kvs \<Longrightarrow> k = ''content_length'' \<Longrightarrow> reports_at_most cap (Fetched (str_dict kvs))"
  by (simp add: reports_at_most_def dlook_str_dict_None)

lemma answer_capped: "reports_at_most cap (answer_of env cap url status enc ctype chs broken)"
  by (auto simp: answer_of_def Let_def reports_at_most_def str_dict_def split: prod.split bool.split option.split)

lemma vet_error: "vet env host as = Inl d \<Longrightarrow> dlook d ''content_length'' = None"
  by (induction as) (auto simp: str_dict_def split: option.splits if_splits sum.splits)

lemma check_target_error: "check_target env k url = Inl d \<Longrightarrow> dlook d ''content_length'' = None"
  by (auto simp: check_target_def Let_def str_dict_def dest: vet_error split: sum.splits if_splits)

lemma fetch_loop_capped: "reports_at_most cap (fst (fetch_loop env headers cap hops n k url))"
proof (induction n arbitrary: k url)
  case (Suc n)
  then show ?case
    by (auto simp: case_prod_beta answer_capped check_target_error reports_at_most_def [of _ "Fetched _"]
          reports_at_most_def [of _ "HttpError _"] reports_at_most_def [of _ "Raised _"] split: http_reply.split sum.split)
qed (simp add: reports_at_most_def)

lemma fetch_ok:
  "length (snd (fetch env headers cap hops url)) \<le> hops + 1"
  "list_all (vetted_request env headers) (snd (fetch env headers cap hops url))"
  "reports_at_most cap (fst (fetch env headers cap hops url))"
  unfolding fetch_def
  using fetch_loop_vetted [of env headers cap hops "hops + 1" 0 url] fetch_loop_capped by blast+

text \<open>
  C26: Whatever the URL parser, the resolver (asked again at every hop) and the servers answer, a guarded
  fetch sends at most one request per allowed hop; each goes, under http or https and a host that is
  not denied, to an address outside every blocked network that embeds no version 4 address and is
  global, with that address and no name in its URL; and an answer reports at most the capped length.
\<close>

theorem fetch_pins_public:
  "length (snd (guarded_get env follows headers cap hops url)) \<le> hops + 1 \<and>
   list_all (vetted_request env headers) (snd (guarded_get env follows headers cap hops url)) \<and>
   reports_at_most cap (fst (guarded_get env follows headers cap hops url))"
proof -
  have "list_all P (take n xs)" if "list_all P xs" for P and n and xs :: "fetch_request list"
    using that by (auto simp: list_all_iff dest: in_set_takeD)
  then show ?thesis
    using fetch_ok
    by (auto simp: guarded_get_def reports_at_most_def [of _ "Raised _"] reports_at_most_def [of _ "Fetched _"]
          str_dict_def min_le_iff_disj split: pyval.split option.split intro: le_trans)
qed

end
