(* ===== verification/ToolLoop.thy ===== *)
theory ToolLoop
  imports ChatRoute WebFetch
begin

text \<open>
  Server-side tools of \<^verbatim>\<open>scripts/files/router-app.py\<close>: the tool handlers and the formatting of
  their results, the identifiers and the accumulation of tool calls, the splitting of a server-sent
  event stream, and the two multi-turn loops. What the model answers, what the tool services answer,
  the JSON parser and printer, the text of numbers and the fresh identifiers are parameters; the tool
  schemas, whose texts leave Latin-1, are one too.
\<close>

section \<open>Tool handlers\<close>

record tools_env =
  tv_key :: string
  tv_call :: "nat \<Rightarrow> string \<Rightarrow> pydict \<Rightarrow> upstream"
  tv_fetch :: "nat \<Rightarrow> fetch_env"
  tv_max_bytes :: nat
  tv_parse :: "string \<Rightarrow> string + pyval"
  tv_dumps :: "pyval \<Rightarrow> string"
  tv_str :: "pyval \<Rightarrow> string"
  tv_fixed2 :: "pyval \<Rightarrow> string"
  tv_exn_text :: "exn \<Rightarrow> string \<times> string"
  tv_fresh :: "nat \<Rightarrow> string"
  tv_schemas :: pyval

text \<open>The \<open>j\<close>-th call to the services finds them as the parameters say for \<open>j\<close>.\<close>

definition tavily_call :: "tools_env \<Rightarrow> nat \<Rightarrow> string \<Rightarrow> pydict \<Rightarrow> pyval" where
  "tavily_call env j endpoint payload =
     (if tv_key env = []
      then PDict (str_dict [(''error'', ''tavily_unconfigured''),
                              (''message'', ''TAVILY_API_KEY not set in /etc/router.env'')])
      else case tv_call env j endpoint payload of
             UpRaises e \<Rightarrow> PDict (str_dict [(''error'', ''tavily_unreachable''), (''message'', e)])
           | UpAnswer status txt json \<Rightarrow>
               if status \<ge> 400
               then PDict (str_dict [(''error'', ''tavily_http_'' @ show_int status), (''body'', take 500 txt)])
               else case json of
                      Some v \<Rightarrow> v
                    | None \<Rightarrow> PDict (str_dict [(''error'', ''tavily_invalid_json''), (''body'', take 500 txt)]))"

definition only_fields :: "string list \<Rightarrow> pydict \<Rightarrow> pydict" where
  "only_fields ks args = filter (\<lambda>p. fst p \<in> PStr ` set ks) args"

definition nonblank :: "pyval \<Rightarrow> bool" where
  "nonblank v = (case v of PStr s \<Rightarrow> strip s \<noteq> [] | _ \<Rightarrow> False)"

definition tool_tavily_search :: "tools_env \<Rightarrow> nat \<Rightarrow> pydict \<Rightarrow> pyval" where
  "tool_tavily_search env j args =
     (if \<not> nonblank (dget args ''query'')
      then PDict (str_dict [(''error'', ''missing '' @ [CHR 0x27] @ ''query'' @ [CHR 0x27] @ '' field'')])
      else tavily_call env j ''search'' (only_fields allowed_fields args))"

definition extract_fields :: "string list" where
  "extract_fields = [''urls'', ''extract_depth'', ''include_images'', ''include_favicon'', ''format'']"

definition tool_tavily_extract :: "tools_env \<Rightarrow> nat \<Rightarrow> pydict \<Rightarrow> pyval" where
  "tool_tavily_extract env j args =
     (let u0 = (if truthy (dget args ''urls'') then dget args ''urls'' else dget args ''url'');
          urls = (if is_pstr u0 then PList [u0] else u0) in
      if \<not> is_plist urls \<or> \<not> truthy urls
      then PDict (str_dict [(''error'', ''missing '' @ [CHR 0x27] @ ''urls'' @ [CHR 0x27] @ '' (list of strings)'')])
      else tavily_call env j ''extract'' (dput ''urls'' urls (only_fields extract_fields args)))"

definition map_fields :: "string list" where
  "map_fields = [''url'', ''max_depth'', ''max_breadth'', ''limit'', ''instructions'', ''select_paths'', ''select_domains'',
     ''exclude_paths'', ''exclude_domains'', ''allow_external'', ''categories'']"

definition crawl_fields :: "string list" where
  "crawl_fields = map_fields @ [''extract_depth'', ''format'']"

definition missing_url :: pyval where
  "missing_url = PDict (str_dict [(''error'', ''missing '' @ [CHR 0x27] @ ''url'' @ [CHR 0x27] @ '' field'')])"

definition tool_tavily_crawl :: "tools_env \<Rightarrow> nat \<Rightarrow> pydict \<Rightarrow> pyval" where
  "tool_tavily_crawl env j args =
     (if \<not> nonblank (dget args ''url'') then missing_url
      else tavily_call env j ''crawl'' (only_fields crawl_fields args))"

definition tool_tavily_map :: "tools_env \<Rightarrow> nat \<Rightarrow> pydict \<Rightarrow> pyval" where
  "tool_tavily_map env j args =
     (if \<not> nonblank (dget args ''url'') then missing_url
      else tavily_call env j ''map'' (only_fields map_fields args))"

definition web_fetch_headers :: "(string \<times> string) list" where
  "web_fetch_headers =
     [(''User-Agent'', ''local-gpu-cluster-router/1.0 (web_fetch)''),
      (''Accept'', ''text/html, text/plain, application/json, application/xml;q=0.9, */*;q=0.1'')]"

definition tool_web_fetch :: "tools_env \<Rightarrow> nat \<Rightarrow> pydict \<Rightarrow> pyval res" where
  "tool_web_fetch env j args =
     (case fst (guarded_get (tv_fetch env j) False web_fetch_headers (tv_max_bytes env) max_redirects (dget args ''url'')) of
        Fetched d \<Rightarrow> Inr (PDict d)
      | HttpError e \<Rightarrow> Inr (PDict (str_dict [(''error'', ''unreachable''), (''message'', e)]))
      | Raised e \<Rightarrow> Inl e)"

definition tool_names :: "string list" where
  "tool_names = [''tavily_search'', ''tavily_extract'', ''tavily_crawl'', ''tavily_map'', ''web_fetch'']"

definition run_tool :: "tools_env \<Rightarrow> nat \<Rightarrow> string \<Rightarrow> pydict \<Rightarrow> pyval res" where
  "run_tool env j name args =
     (if name = ''tavily_search'' then Inr (tool_tavily_search env j args)
      else if name = ''tavily_extract'' then Inr (tool_tavily_extract env j args)
      else if name = ''tavily_crawl'' then Inr (tool_tavily_crawl env j args)
      else if name = ''tavily_map'' then Inr (tool_tavily_map env j args)
      else tool_web_fetch env j args)"

section \<open>Formatting results\<close>

text \<open>A value in an f-string; \<open>x or y\<close>; \<^verbatim>\<open>(x or '''').strip()\<close>, which raises on anything but a string.\<close>

definition text_of :: "tools_env \<Rightarrow> pyval \<Rightarrow> string" where
  "text_of env v = (case v of PStr s \<Rightarrow> s | _ \<Rightarrow> tv_str env v)"

definition py_or :: "pyval \<Rightarrow> pyval \<Rightarrow> pyval" where
  "py_or v w = (if truthy v then v else w)"

definition stripped :: "pyval \<Rightarrow> string res" where
  "stripped v = (case py_or v (PStr []) of PStr s \<Rightarrow> Inr (strip s) | _ \<Rightarrow> Inl AttributeError)"

definition as_dict :: "pyval \<Rightarrow> pydict res" where
  "as_dict v = (case v of PDict d \<Rightarrow> Inr d | _ \<Rightarrow> Inl AttributeError)"

text \<open>\<^verbatim>\<open>result.get(key) or []\<close> and its items, which the formatters count and iterate over.\<close>

definition result_items :: "pydict \<Rightarrow> string \<Rightarrow> pyval list res" where
  "result_items result key =
     (if truthy (dget result key) then items_of (dget result key) else Inr [])"

definition search_item :: "tools_env \<Rightarrow> nat \<times> pyval \<Rightarrow> string list res" where
  "search_item env p =
     bind_res (as_dict (snd p)) (\<lambda>r.
     bind_res (stripped (dget r ''content'')) (\<lambda>content.
       let score = (case dget r ''score'' of
                      PInt _ \<Rightarrow> '' (score: '' @ tv_fixed2 env (dget r ''score'') @ '')''
                    | PBool _ \<Rightarrow> '' (score: '' @ tv_fixed2 env (dget r ''score'') @ '')''
                    | PFloat _ \<Rightarrow> '' (score: '' @ tv_fixed2 env (dget r ''score'') @ '')''
                    | _ \<Rightarrow> [])
       in Inr ([''### '' @ show_nat (fst p) @ ''. '' @ text_of env (py_or (dget r ''title'') (PStr ''(no title)'')) @ score,
                ''URL: '' @ text_of env (py_or (dget r ''url'') (PStr []))] @
               (if content = [] then [] else [nl @ content @ nl]))))"

definition format_tavily_search :: "tools_env \<Rightarrow> pydict \<Rightarrow> string res" where
  "format_tavily_search env result =
     (let lead = (if truthy (dget result ''answer'')
                  then [''**Tavily answer:** '' @ text_of env (dget result ''answer'') @ nl] else [])
      in bind_res (result_items result ''results'') (\<lambda>rs.
           if rs = []
           then Inr (if lead = [] then ''No results found.'' else join nl lead @ nl @ ''No results.'')
           else bind_res (map_res (search_item env) (enumerate 1 rs)) (\<lambda>ls.
                  Inr (join nl (lead @ [show_nat (length rs) @ '' results:'' @ nl] @ concat ls)))))"

definition page_content :: "pydict \<Rightarrow> string res" where
  "page_content r = stripped (py_or (dget r ''raw_content'') (dget r ''content''))"

definition extract_item :: "tools_env \<Rightarrow> pyval \<Rightarrow> string res" where
  "extract_item env v =
     bind_res (as_dict v) (\<lambda>r. bind_res (page_content r) (\<lambda>content.
       Inr (''## '' @ text_of env (py_or (dget r ''url'') (PStr [])) @ nl @ nl @ content @ nl)))"

definition failed_item :: "tools_env \<Rightarrow> pyval \<Rightarrow> string res" where
  "failed_item env v =
     bind_res (as_dict v) (\<lambda>f.
       Inr (''- '' @ text_of env (dget_or f ''url'' (PStr [])) @ '': '' @ text_of env (dget_or f ''error'' (PStr []))))"

definition format_tavily_extract :: "tools_env \<Rightarrow> pydict \<Rightarrow> string res" where
  "format_tavily_extract env result =
     bind_res (result_items result ''results'') (\<lambda>rs.
       if rs = [] then Inr ''No content extracted.''
       else bind_res (map_res (extract_item env) rs) (\<lambda>ls.
            bind_res (result_items result ''failed_results'') (\<lambda>fs.
            bind_res (map_res (failed_item env) fs) (\<lambda>fls.
              Inr (join nl (ls @ (if fs = [] then [] else (nl @ ''**Failed URLs:**'') # fls)))))))"

definition crawl_item :: "tools_env \<Rightarrow> pyval \<Rightarrow> string res" where
  "crawl_item env v =
     bind_res (as_dict v) (\<lambda>r. bind_res (page_content r) (\<lambda>content.
       let url = text_of env (py_or (dget r ''url'') (PStr [])) in
       Inr (if content \<noteq> [] then ''### '' @ url @ nl @ take 1500 content @ nl else ''- '' @ url)))"

definition format_tavily_crawl_map :: "tools_env \<Rightarrow> pydict \<Rightarrow> string res" where
  "format_tavily_crawl_map env result =
     (let base = text_of env (py_or (dget result ''base_url'') (PStr ''(unknown)''))
      in bind_res (result_items result ''results'') (\<lambda>rs.
           if rs = [] then Inr (''No pages found under '' @ base @ ''.'')
           else bind_res (map_res (crawl_item env) rs) (\<lambda>ls.
                  Inr (join nl ((''Crawled/mapped '' @ show_nat (length rs) @ '' pages under '' @ base @ '':'' @ nl) # ls)))))"

definition format_tool_result :: "tools_env \<Rightarrow> string \<Rightarrow> pyval \<Rightarrow> string res" where
  "format_tool_result env name result =
     (case result of
        PDict d \<Rightarrow>
          if dhas d ''error'' then Inr (tv_dumps env result)
          else if name = ''tavily_search'' then format_tavily_search env d
          else if name = ''tavily_extract'' then format_tavily_extract env d
          else if name \<in> {''tavily_crawl'', ''tavily_map''} then format_tavily_crawl_map env d
          else Inr (tv_dumps env result)
      | _ \<Rightarrow> Inr (tv_dumps env result))"

text \<open>
  \<open>dispatch_tool\<close>: a name that cannot be a key and arguments that are neither empty nor text raise
  before the handler's guard; everything later is answered.
\<close>

definition dispatch_tool :: "tools_env \<Rightarrow> nat \<Rightarrow> pyval \<Rightarrow> pyval \<Rightarrow> string res" where
  "dispatch_tool env j name args_json =
     (case name of
        PList _ \<Rightarrow> Inl TypeError
      | PDict _ \<Rightarrow> Inl TypeError
      | _ \<Rightarrow>
          if name \<notin> PStr ` set tool_names
          then Inr (tv_dumps env (PDict [(PStr ''error'', PStr ''unknown_tool''), (PStr ''tool'', name)]))
          else
            (let args = (if \<not> truthy args_json then Inr (Inr (PDict []))
                         else case args_json of PStr s \<Rightarrow> Inr (tv_parse env s) | _ \<Rightarrow> Inl TypeError)
             in bind_res args (\<lambda>parsed.
                  case parsed of
                    Inl msg \<Rightarrow>
                      Inr (tv_dumps env (PDict (str_dict [(''error'', ''invalid_json_arguments''), (''message'', msg)])))
                  | Inr (PDict d) \<Rightarrow>
                      (case bind_res (run_tool env j (str_of name) d) (format_tool_result env (str_of name)) of
                         Inr s \<Rightarrow> Inr s
                       | Inl e \<Rightarrow>
                           Inr (tv_dumps env (PDict (str_dict
                             [(''error'', ''tool_execution_failed''), (''type'', fst (tv_exn_text env e)),
                              (''message'', snd (tv_exn_text env e))]))))
                  | Inr _ \<Rightarrow>
                      Inr (tv_dumps env (PDict (str_dict [(''error'', ''arguments_must_be_object'')]))))))"

section \<open>Tool calls\<close>

text \<open>
  \<open>_ensure_tool_call_ids\<close>: the \<open>k\<close>-th identifier made in a loop is the \<open>k\<close>-th fresh one. An item
  that is no dictionary raises.
\<close>

fun ensure_tool_call_ids :: "tools_env \<Rightarrow> nat \<Rightarrow> pyval list \<Rightarrow> (pydict list \<times> nat) res" where
  "ensure_tool_call_ids env k [] = Inr ([], k)"
| "ensure_tool_call_ids env k (v # vs) =
     bind_res (as_dict v) (\<lambda>tc.
       let make = \<not> truthy (dget tc ''id'');
           tc' = (if make then dput ''id'' (PStr (''call_'' @ take 24 (tv_fresh env k))) tc else tc)
       in bind_res (ensure_tool_call_ids env (if make then k + 1 else k) vs) (\<lambda>(tcs, k').
            Inr (tc' # tcs, k')))"

record partial_call =
  pc_id :: pyval
  pc_name :: pyval
  pc_args :: string

type_synonym accumulator = "(pyval \<times> partial_call) list"

definition new_call :: partial_call where
  "new_call = \<lparr>pc_id = PNone, pc_name = PNone, pc_args = []\<rparr>"

definition feed_call :: "pydict \<Rightarrow> partial_call \<Rightarrow> partial_call res" where
  "feed_call tc cur =
     (let cur1 = (if truthy (dget tc ''id'') then cur\<lparr>pc_id := dget tc ''id''\<rparr> else cur) in
      bind_res (as_dict (py_or (dget tc ''function'') (PDict []))) (\<lambda>fn.
        let cur2 = (if truthy (dget fn ''name'') then cur1\<lparr>pc_name := dget fn ''name''\<rparr> else cur1) in
        if truthy (dget fn ''arguments'')
        then (case dget fn ''arguments'' of
                PStr s \<Rightarrow> Inr (cur2\<lparr>pc_args := pc_args cur2 @ s\<rparr>)
              | _ \<Rightarrow> Inl TypeError)
        else Inr cur2))"

text \<open>Numbers that are equal are the same key of a \<^verbatim>\<open>dict\<close>, whatever their types.\<close>

fun key_of :: "pyval \<Rightarrow> pyval" where
  "key_of (PBool b) = PInt (of_bool b)"
| "key_of (PFloat (Fin r)) = (if r = of_int \<lfloor>r\<rfloor> then PInt \<lfloor>r\<rfloor> else PFloat (Fin r))"
| "key_of v = v"

definition hashable :: "pyval \<Rightarrow> bool" where
  "hashable v = (\<not> is_plist v \<and> \<not> is_pdict v)"

fun feed :: "accumulator \<Rightarrow> pyval list \<Rightarrow> accumulator res" where
  "feed acc [] = Inr acc"
| "feed acc (v # vs) =
     bind_res (as_dict v) (\<lambda>tc.
       let idx = key_of (dget_or tc ''index'' (PInt 0)) in
       if \<not> hashable idx then Inl TypeError
       else bind_res (feed_call tc (case map_of acc idx of None \<Rightarrow> new_call | Some c \<Rightarrow> c)) (\<lambda>c.
              feed (alist_put idx c acc) vs))"

definition finalize :: "accumulator \<Rightarrow> pydict list" where
  "finalize acc =
     map (\<lambda>(_, c). [(PStr ''id'', pc_id c), (PStr ''type'', PStr ''function''),
                    (PStr ''function'', PDict [(PStr ''name'', pc_name c), (PStr ''arguments'', PStr (pc_args c))])]) acc"

section \<open>The event stream\<close>

text \<open>The first blank line of the buffer: what is before it and what is after it.\<close>

fun cut_event :: "string \<Rightarrow> (string \<times> string) option" where
  "cut_event (c # d # s) =
     (if c = CHR 0x0A \<and> d = CHR 0x0A then Some ([], s)
      else map_option (\<lambda>(e, r). (c # e, r)) (cut_event (d # s)))"
| "cut_event s = None"

lemma cut_event_shorter: "cut_event s = Some (e, r) \<Longrightarrow> length r < length s"
  by (induction s arbitrary: e rule: cut_event.induct) (fastforce split: if_splits)+

function drain :: "string \<Rightarrow> string list \<times> string" where
  "drain buf =
     (case cut_event buf of
        None \<Rightarrow> ([], buf)
      | Some (e, r) \<Rightarrow> (case drain r of (es, rest) \<Rightarrow> (e # es, rest)))"
  by auto
termination by (relation "measure length") (auto dest: cut_event_shorter)

declare drain.simps [simp del]

record loop_env =
  le_tools :: tools_env
  le_think :: bool
  le_markers :: bool
  le_max_seconds :: rat
  le_max_iterations :: nat
  le_elapsed :: "nat \<Rightarrow> rat"
  le_stream :: "nat \<Rightarrow> pydict \<Rightarrow> (int \<times> string list \<times> bool) option"
  le_post :: "nat \<Rightarrow> pydict \<Rightarrow> upstream"
  le_repr :: "pyval \<Rightarrow> string"

text \<open>
  What one streamed turn gathers: the calls, the content, the finish reason and the frames sent.
  \<open>le_stream\<close> gives the status, the pieces of text and whether the connection then broke; None is a
  request that could not be sent.
\<close>

record turn =
  tn_acc :: accumulator
  tn_content :: string
  tn_finish :: pyval
  tn_out :: "string list"

definition new_turn :: turn where
  "new_turn = \<lparr>tn_acc = [], tn_content = [], tn_finish = PNone, tn_out = []\<rparr>"

definition data_frame :: "tools_env \<Rightarrow> pyval \<Rightarrow> string" where
  "data_frame env v = ''data: '' @ tv_dumps env v @ nl @ nl"

text \<open>\<^verbatim>\<open>choices[0]\<close> as something with a \<open>get\<close>; the keys of a parsed dictionary are strings.\<close>

definition first_choice :: "pyval \<Rightarrow> pydict res" where
  "first_choice v =
     (case v of
        PList (c # _) \<Rightarrow> as_dict c
      | PList [] \<Rightarrow> Inl IndexError
      | PDict _ \<Rightarrow> Inl KeyError
      | PStr _ \<Rightarrow> Inl AttributeError
      | _ \<Rightarrow> Inl TypeError)"

definition chunk_choice :: "pydict \<Rightarrow> pyval \<Rightarrow> pydict" where
  "chunk_choice delta finish =
     [(PStr ''index'', PInt 0), (PStr ''delta'', PDict delta), (PStr ''finish_reason'', finish)]"

definition client_chunk :: "pydict \<Rightarrow> string \<Rightarrow> pydict" where
  "client_chunk chunk out =
     [(PStr ''id'', dget chunk ''id''), (PStr ''object'', PStr ''chat.completion.chunk''),
      (PStr ''created'', dget chunk ''created''), (PStr ''model'', dget chunk ''model''),
      (PStr ''choices'', PList [PDict (chunk_choice [(PStr ''content'', PStr out)] PNone)])]"

definition on_choice :: "loop_env \<Rightarrow> pydict \<Rightarrow> pydict \<Rightarrow> turn \<Rightarrow> turn \<times> exn option" where
  "on_choice le chunk choice t =
     (let t1 = (if truthy (dget choice ''finish_reason'') then t\<lparr>tn_finish := dget choice ''finish_reason''\<rparr> else t) in
      case as_dict (py_or (dget choice ''delta'') (PDict [])) of
        Inl e \<Rightarrow> (t1, Some e)
      | Inr delta \<Rightarrow>
          (case (if truthy (dget delta ''tool_calls'')
                 then bind_res (items_of (dget delta ''tool_calls'')) (feed (tn_acc t1)) else Inr (tn_acc t1)) of
             Inl e \<Rightarrow> (t1, Some e)
           | Inr acc \<Rightarrow>
               (let t2 = t1\<lparr>tn_acc := acc\<rparr> in
                case dget delta ''content'' of
                  PNone \<Rightarrow> (t2, None)
                | PStr c \<Rightarrow>
                    (t2\<lparr>tn_content := tn_content t2 @ c,
                        tn_out := tn_out t2 @
                          [data_frame (le_tools le)
                             (PDict (client_chunk chunk (rewrite_text (le_think le) (le_markers le) c)))]\<rparr>, None)
                | _ \<Rightarrow> (t2, Some TypeError))))"

definition on_line :: "loop_env \<Rightarrow> turn \<Rightarrow> string \<Rightarrow> turn \<times> exn option" where
  "on_line le t line =
     (if take 6 line \<noteq> ''data: '' then (t, None)
      else
        (let d = strip (drop 6 line) in
         if d = ''[DONE]'' then (t\<lparr>tn_finish := py_or (tn_finish t) (PStr ''stop'')\<rparr>, None)
         else case tv_parse (le_tools le) d of
                Inl _ \<Rightarrow> (t, None)
              | Inr (PDict chunk) \<Rightarrow>
                  if \<not> truthy (dget chunk ''choices'') then (t, None)
                  else (case first_choice (dget chunk ''choices'') of
                          Inl e \<Rightarrow> (t, Some e)
                        | Inr choice \<Rightarrow> on_choice le chunk choice t)
              | Inr _ \<Rightarrow> (t, Some AttributeError)))"

fun on_lines :: "loop_env \<Rightarrow> turn \<Rightarrow> string list \<Rightarrow> turn \<times> exn option" where
  "on_lines le t [] = (t, None)"
| "on_lines le t (l # ls) =
     (case on_line le t l of
        (t', None) \<Rightarrow> on_lines le t' ls
      | (t', Some e) \<Rightarrow> (t', Some e))"

definition event_lines :: "string list \<Rightarrow> string list" where
  "event_lines es = concat (map (split_char (CHR 0x0A)) es)"

fun read_stream :: "loop_env \<Rightarrow> turn \<Rightarrow> string \<Rightarrow> string list \<Rightarrow> turn \<times> exn option" where
  "read_stream le t buf [] = (t, None)"
| "read_stream le t buf (raw # raws) =
     (case drain (buf @ raw) of (es, rest) \<Rightarrow>
        case on_lines le t (event_lines es) of
          (t', None) \<Rightarrow> read_stream le t' rest raws
        | (t', Some e) \<Rightarrow> (t', Some e))"

lemma cut_event_append: "cut_event a = Some (e, r) \<Longrightarrow> cut_event (a @ b) = Some (e, r @ b)"
  by (induction a arbitrary: e rule: cut_event.induct) (fastforce split: if_splits)+

lemma drain_append:
  "drain (a @ b) = (fst (drain a) @ fst (drain (snd (drain a) @ b)), snd (drain (snd (drain a) @ b)))"
proof (induction a rule: drain.induct)
  case (1 a)
  show ?case
  proof (cases "cut_event a")
    case None
    then have "drain a = ([], a)" by (subst drain.simps) simp
    then show ?thesis by simp
  next
    case (Some p)
    obtain e r where p: "p = (e, r)" by (cases p)
    from Some p have a: "drain a = (e # fst (drain r), snd (drain r))"
      by (subst drain.simps) (simp add: case_prod_beta)
    from Some p cut_event_append [of a e r b]
    have ab: "drain (a @ b) = (e # fst (drain (r @ b)), snd (drain (r @ b)))"
      by (subst drain.simps) (simp add: case_prod_beta)
    from 1 [OF Some p [symmetric]] a ab show ?thesis by simp
  qed
qed

lemma on_lines_append:
  "on_lines le t (xs @ ys) =
     (case on_lines le t xs of (t', None) \<Rightarrow> on_lines le t' ys | (t', Some e) \<Rightarrow> (t', Some e))"
  by (induction xs arbitrary: t) (auto split: prod.split option.split)

lemma event_lines_append [simp]: "event_lines (xs @ ys) = event_lines xs @ event_lines ys"
  by (simp add: event_lines_def)

lemma read_stream_whole:
  assumes "drain buf = ([], buf)"
  shows "read_stream le t buf raws = on_lines le t (event_lines (fst (drain (buf @ concat raws))))"
  using assms
proof (induction raws arbitrary: t buf)
  case Nil
  then show ?case by (simp add: event_lines_def)
next
  case (Cons raw raws)
  obtain es rest where d: "drain (buf @ raw) = (es, rest)" by fastforce
  have idem: "drain rest = ([], rest)"
  proof -
    from drain_append [of "buf @ raw" "[]"] d have "fst (drain rest) = []" "snd (drain rest) = rest" by auto
    then show ?thesis by (cases "drain rest") simp
  qed
  have "fst (drain (buf @ raw @ concat raws)) = es @ fst (drain (rest @ concat raws))"
    using drain_append [of "buf @ raw" "concat raws"] d by simp
  then show ?case using Cons.IH [OF idem] d
    by (auto simp: on_lines_append split: prod.split option.split)
qed

text \<open>
  How the transport cuts a stream into pieces does not matter: reading them one by one has the
  outcome of handling the lines of the complete events of the whole text.
\<close>

theorem stream_pieces_irrelevant:
  "read_stream le t [] raws = on_lines le t (event_lines (fst (drain (concat raws))))"
  by (rule read_stream_whole [of "[]", simplified]) (subst drain.simps, simp)

section \<open>Tool rounds\<close>

text \<open>The size and the error class of a result, for the access log.\<close>

definition summarize_tool_result :: "loop_env \<Rightarrow> string \<Rightarrow> string" where
  "summarize_tool_result le s =
     (if take 8 (take 80 (lstrip_by is_space s)) = ''{'' @ [CHR 0x22] @ ''error'' @ [CHR 0x22]
      then case tv_parse (le_tools le) s of
             Inr (PDict d) \<Rightarrow>
               if dhas d ''error''
               then ''size='' @ show_nat (length s) @ '' error='' @ le_repr le (dget d ''error'')
               else ''size='' @ show_nat (length s) @ '' ok''
           | _ \<Rightarrow> ''size='' @ show_nat (length s) @ '' ok''
      else ''size='' @ show_nat (length s) @ '' ok'')"

definition size_or_zero :: "pyval \<Rightarrow> nat res" where
  "size_or_zero v =
     (case py_or v (PStr []) of
        PStr s \<Rightarrow> Inr (length s)
      | PList xs \<Rightarrow> Inr (length xs)
      | PDict d \<Rightarrow> Inr (length d)
      | _ \<Rightarrow> Inl TypeError)"

record tool_log =
  tl_name :: pyval
  tl_sizes :: "nat \<times> nat"
  tl_note :: string

definition log_entry :: "loop_env \<Rightarrow> nat \<Rightarrow> pyval \<Rightarrow> pyval \<Rightarrow> nat \<Rightarrow> string \<Rightarrow> tool_log" where
  "log_entry le i call_id name sz result =
     \<lparr>tl_name = name, tl_sizes = (sz, length result),
      tl_note = ''iter='' @ show_nat (i + 1) @ ''/'' @ show_nat (le_max_iterations le) @
        '' id='' @ text_of (le_tools le) (py_or call_id (PStr ''NULL'')) @
        '' args_size='' @ show_nat sz @ '' result_summary='' @ summarize_tool_result le result\<rparr>"

definition tool_reply :: "pyval \<Rightarrow> string \<Rightarrow> pyval" where
  "tool_reply call_id result =
     PDict [(PStr ''role'', PStr ''tool''), (PStr ''tool_call_id'', call_id), (PStr ''content'', PStr result)]"

text \<open>
  The calls of one round; \<open>fn\<close> reads the name, the arguments and the name for the log from a call, and
  \<open>j\<close> counts the calls of the loop. The log of a round that raises is not kept.
\<close>

fun run_calls ::
  "loop_env \<Rightarrow> (pydict \<Rightarrow> (pyval \<times> pyval \<times> pyval) res) \<Rightarrow> nat \<Rightarrow> nat \<Rightarrow> pydict list \<Rightarrow>
     (pyval list \<times> tool_log list) res" where
  "run_calls le fn i j [] = Inr ([], [])"
| "run_calls le fn i j (tc # tcs) =
     bind_res (fn tc) (\<lambda>(name, args, shown).
     bind_res (dispatch_tool (le_tools le) j name args) (\<lambda>result.
     bind_res (size_or_zero args) (\<lambda>sz.
     bind_res (run_calls le fn i (j + 1) tcs) (\<lambda>(replies, logs).
       Inr (tool_reply (dget tc ''id'') result # replies,
            log_entry le i (dget tc ''id'') shown sz result # logs)))))"

definition stream_fn :: "pydict \<Rightarrow> (pyval \<times> pyval \<times> pyval) res" where
  "stream_fn tc =
     bind_res (as_dict (dget tc ''function'')) (\<lambda>fn. Inr (dget fn ''name'', dget fn ''arguments'', dget fn ''name''))"

definition post_fn :: "pydict \<Rightarrow> (pyval \<times> pyval \<times> pyval) res" where
  "post_fn tc =
     bind_res (as_dict (py_or (dget tc ''function'') (PDict []))) (\<lambda>fn.
       Inr (dget_or fn ''name'' (PStr []), dget_or fn ''arguments'' (PStr []), dget_or fn ''name'' (PStr ''?'')))"

text \<open>The body every turn sends, and the messages it starts from.\<close>

definition loop_body :: "loop_env \<Rightarrow> bool \<Rightarrow> pydict \<Rightarrow> pydict" where
  "loop_body le streaming initial =
     alist_del (PStr ''tool_execution'')
       (dput ''stream'' (PBool streaming) (dsetdefault ''tools'' (tv_schemas (le_tools le)) initial))"

definition start_messages :: "pydict \<Rightarrow> pyval list res" where
  "start_messages body =
     (case dlook body ''messages'' of
        None \<Rightarrow> Inl KeyError
      | Some v \<Rightarrow> items_of v)"

definition turn_request :: "pydict \<Rightarrow> pyval list \<Rightarrow> pydict" where
  "turn_request body ms = dput ''messages'' (PList ms) body"

subsection \<open>Streaming\<close>

record loop_run =
  lr_frames :: "string list"
  lr_requests :: "pydict list"
  lr_log :: "tool_log list"
  lr_exn :: "exn option"

definition done_frame :: string where
  "done_frame = ''data: [DONE]'' @ nl @ nl"

definition degraded_frames :: "tools_env \<Rightarrow> string list" where
  "degraded_frames env =
     [data_frame env (PDict (openai_error_body ''service_degraded'' ''upstream returned an error; retry shortly'')),
      done_frame]"

definition final_chunk :: "pydict \<Rightarrow> pyval \<Rightarrow> pyval" where
  "final_chunk delta finish =
     PDict [(PStr ''object'', PStr ''chat.completion.chunk''),
            (PStr ''choices'', PList [PDict (chunk_choice delta finish)])]"

definition limit_note :: string where
  "limit_note = nl @ nl @ ''[router: max_tool_iterations reached]''"

definition ends :: "string list \<Rightarrow> pydict list \<Rightarrow> exn option \<Rightarrow> loop_run" where
  "ends frames reqs e = \<lparr>lr_frames = frames, lr_requests = reqs, lr_log = [], lr_exn = e\<rparr>"

definition before :: "string list \<Rightarrow> pydict list \<Rightarrow> tool_log list \<Rightarrow> loop_run \<Rightarrow> loop_run" where
  "before frames reqs logs run =
     run\<lparr>lr_frames := frames @ lr_frames run, lr_requests := reqs @ lr_requests run, lr_log := logs @ lr_log run\<rparr>"

definition assistant_message :: "string \<Rightarrow> pydict list \<Rightarrow> pyval" where
  "assistant_message content calls =
     PDict [(PStr ''role'', PStr ''assistant''),
            (PStr ''content'', if content = [] then PNone else PStr content),
            (PStr ''tool_calls'', PList (map PDict calls))]"

text \<open>The identifiers and the replies of one round, with the count of identifiers made.\<close>

definition round_of ::
  "loop_env \<Rightarrow> (pydict \<Rightarrow> (pyval \<times> pyval \<times> pyval) res) \<Rightarrow> nat \<Rightarrow> nat \<Rightarrow> nat \<Rightarrow> pyval list \<Rightarrow>
     (pydict list \<times> nat \<times> pyval list \<times> tool_log list) res" where
  "round_of le fn i k j vs =
     bind_res (ensure_tool_call_ids (le_tools le) k vs) (\<lambda>(calls, k').
     bind_res (run_calls le fn i j calls) (\<lambda>(replies, logs). Inr (calls, k', replies, logs)))"

text \<open>The turns left, the number of the turn, the identifiers and calls made so far, the messages.\<close>

fun stream_turns :: "loop_env \<Rightarrow> pydict \<Rightarrow> nat \<Rightarrow> nat \<Rightarrow> nat \<Rightarrow> nat \<Rightarrow> pyval list \<Rightarrow> loop_run" where
  "stream_turns le body 0 i k j ms =
     ends [data_frame (le_tools le) (final_chunk [(PStr ''content'', PStr limit_note)] (PStr ''stop'')), done_frame] [] None"
| "stream_turns le body (Suc n) i k j ms =
     (if le_elapsed le i > le_max_seconds le then ends (degraded_frames (le_tools le)) [] None
      else case le_stream le i (turn_request body ms) of
             None \<Rightarrow> ends (degraded_frames (le_tools le)) [turn_request body ms] None
           | Some (status, raws, broken) \<Rightarrow>
               if status \<ge> 500 then ends (degraded_frames (le_tools le)) [turn_request body ms] None
               else case read_stream le new_turn [] raws of
                      (t, Some e) \<Rightarrow> ends (tn_out t) [turn_request body ms] (Some e)
                    | (t, None) \<Rightarrow>
                        if broken then ends (tn_out t @ degraded_frames (le_tools le)) [turn_request body ms] None
                        else if tn_finish t = PStr ''tool_calls'' \<and> tn_acc t \<noteq> []
                        then (case round_of le stream_fn i k j (map PDict (finalize (tn_acc t))) of
                                Inl e \<Rightarrow> ends (tn_out t) [turn_request body ms] (Some e)
                              | Inr (calls, k', replies, logs) \<Rightarrow>
                                  before (tn_out t) [turn_request body ms] logs
                                    (stream_turns le body n (i + 1) k' (j + length calls)
                                       (ms @ assistant_message (tn_content t) calls # replies)))
                        else ends (tn_out t @
                                   (if truthy (tn_finish t)
                                    then [data_frame (le_tools le) (final_chunk [] (tn_finish t))] else []) @ [done_frame])
                                  [turn_request body ms] None)"

definition tool_loop_stream :: "loop_env \<Rightarrow> pydict \<Rightarrow> loop_run" where
  "tool_loop_stream le initial =
     (let body = loop_body le True initial in
      before ['': ping'' @ nl @ nl] [] []
        (case start_messages body of
           Inl e \<Rightarrow> ends [] [] (Some e)
         | Inr ms \<Rightarrow> stream_turns le body (le_max_iterations le) 0 0 0 ms))"

subsection \<open>Not streaming\<close>

text \<open>\<^verbatim>\<open>(data.get("choices") or [{}])[0]\<close>, something with a \<open>get\<close>.\<close>

definition choice_of :: "pydict \<Rightarrow> pydict res" where
  "choice_of data = (if truthy (dget data ''choices'') then first_choice (dget data ''choices'') else Inr [])"

text \<open>A message without fields stands for one that is missing, which stays missing.\<close>

definition put_message :: "pydict \<Rightarrow> pydict \<Rightarrow> pydict" where
  "put_message msg data =
     (if msg = [] then data
      else case dget data ''choices'' of
             PList (PDict c # cs) \<Rightarrow> dput ''choices'' (PList (PDict (dput ''message'' (PDict msg) c) # cs)) data
           | _ \<Rightarrow> data)"

definition final_message :: "loop_env \<Rightarrow> pydict \<Rightarrow> pydict res" where
  "final_message le msg =
     (if \<not> truthy (dget msg ''content'') \<or> \<not> le_think le \<and> \<not> le_markers le then Inr msg
      else case dget msg ''content'' of
             PStr s \<Rightarrow> Inr (dput ''content'' (PStr (rewrite_text (le_think le) (le_markers le) s)) msg)
           | _ \<Rightarrow> Inl TypeError)"

text \<open>The last answer, annotated when the turns are used up.\<close>

definition text_or_empty :: "pyval \<Rightarrow> string res" where
  "text_or_empty v = (case py_or v (PStr []) of PStr s \<Rightarrow> Inr s | _ \<Rightarrow> Inl TypeError)"

definition put_first_choice :: "pydict \<Rightarrow> pydict \<Rightarrow> pydict" where
  "put_first_choice c data =
     (case dget data ''choices'' of
        PList (_ # cs) \<Rightarrow> dput ''choices'' (PList (PDict c # cs)) data
      | _ \<Rightarrow> data)"

definition annotate :: "loop_env \<Rightarrow> pydict \<Rightarrow> pydict res" where
  "annotate le data =
     (if truthy (dget data ''choices'')
      then bind_res (first_choice (dget data ''choices'')) (\<lambda>c.
           bind_res (as_dict (dget_or c ''message'' (PDict []))) (\<lambda>m.
           bind_res (text_or_empty (dget m ''content'')) (\<lambda>s.
             Inr (put_first_choice
                    (dput ''finish_reason'' (PStr ''stop'')
                       (dput ''message'' (PDict (dput ''content'' (PStr (s @ limit_note)) m)) c)) data))))
      else Inr (openai_error_body ''max_tool_iterations_exceeded''
                 (''reached MAX_TOOL_ITERATIONS='' @ show_nat (le_max_iterations le) @ '' without final response'')))"

record post_run =
  pr_answer :: "pydict res"
  pr_requests :: "pydict list"
  pr_log :: "tool_log list"

definition answers :: "pydict res \<Rightarrow> pydict list \<Rightarrow> post_run" where
  "answers a reqs = \<lparr>pr_answer = a, pr_requests = reqs, pr_log = []\<rparr>"

definition after_round :: "pydict list \<Rightarrow> tool_log list \<Rightarrow> post_run \<Rightarrow> post_run" where
  "after_round reqs logs run = run\<lparr>pr_requests := reqs @ pr_requests run, pr_log := logs @ pr_log run\<rparr>"

text \<open>\<open>last\<close> is the answer of the turn before, whose message carries the identifiers made for it.\<close>

fun post_turns :: "loop_env \<Rightarrow> pydict \<Rightarrow> nat \<Rightarrow> nat \<Rightarrow> nat \<Rightarrow> nat \<Rightarrow> pyval list \<Rightarrow> pydict \<Rightarrow> post_run" where
  "post_turns le body 0 i k j ms last_response = answers (annotate le last_response) []"
| "post_turns le body (Suc n) i k j ms last_response =
     (if le_elapsed le i > le_max_seconds le
      then answers (Inr (openai_error_body ''service_degraded'' ''max stream time exceeded during tool loop'')) []
      else case le_post le i (turn_request body ms) of
             UpRaises e \<Rightarrow>
               answers (Inr (openai_error_body ''service_degraded'' (''upstream: '' @ e))) [turn_request body ms]
           | UpAnswer status txt None \<Rightarrow>
               answers (Inr (openai_error_body ''upstream_invalid_json'' (take 500 txt))) [turn_request body ms]
           | UpAnswer status txt (Some v) \<Rightarrow>
               (case bind_res (as_dict v) (\<lambda>data. bind_res (choice_of data) (\<lambda>choice.
                     bind_res (as_dict (py_or (dget choice ''message'') (PDict []))) (\<lambda>msg.
                       Inr (data, msg, dget choice ''finish_reason'')))) of
                  Inl e \<Rightarrow> answers (Inl e) [turn_request body ms]
                | Inr (data, msg, finish) \<Rightarrow>
                    if finish = PStr ''tool_calls'' \<and> truthy (dget msg ''tool_calls'')
                    then (case bind_res (items_of (dget msg ''tool_calls'')) (round_of le post_fn i k j) of
                            Inl e \<Rightarrow> answers (Inl e) [turn_request body ms]
                          | Inr (calls, k', replies, logs) \<Rightarrow>
                              (let msg' = dput ''tool_calls'' (PList (map PDict calls)) msg in
                               after_round [turn_request body ms] logs
                                 (post_turns le body n (i + 1) k' (j + length calls)
                                    (ms @ PDict msg' # replies) (put_message msg' data))))
                    else (case final_message le msg of
                            Inl e \<Rightarrow> answers (Inl e) [turn_request body ms]
                          | Inr msg' \<Rightarrow> answers (Inr (put_message msg' data)) [turn_request body ms])))"

definition tool_loop_nonstream :: "loop_env \<Rightarrow> pydict \<Rightarrow> post_run" where
  "tool_loop_nonstream le initial =
     (let body = loop_body le False initial in
      case start_messages body of
        Inl e \<Rightarrow> answers (Inl e) []
      | Inr ms \<Rightarrow> post_turns le body (le_max_iterations le) 0 0 0 ms [])"

section \<open>What the upstream sees\<close>

text \<open>One reply per call, in order, under the identifier of its call.\<close>

definition replies_for :: "pydict list \<Rightarrow> pyval list \<Rightarrow> bool" where
  "replies_for calls rs =
     list_all2 (\<lambda>tc r. truthy (dget tc ''id'') \<and> (\<exists>s. r = tool_reply (dget tc ''id'') s)) calls rs"

inductive rounds :: "pyval list \<Rightarrow> bool" where
  rounds_none: "rounds []"
| rounds_more:
    "rounds ms \<Longrightarrow> dget m ''tool_calls'' = PList (map PDict calls) \<Longrightarrow> calls \<noteq> [] \<Longrightarrow> replies_for calls rs \<Longrightarrow>
     rounds (ms @ PDict m # rs)"

definition loop_request :: "loop_env \<Rightarrow> bool \<Rightarrow> pydict \<Rightarrow> pydict \<Rightarrow> bool" where
  "loop_request le streaming initial req =
     (\<exists>ms tail. items_of (dget initial ''messages'') = Inr ms \<and> dget req ''messages'' = PList (ms @ tail) \<and>
        rounds tail \<and> dget req ''stream'' = PBool streaming \<and> \<not> dhas req ''tool_execution'' \<and>
        dget req ''tools'' = dget_or initial ''tools'' (tv_schemas (le_tools le)) \<and>
        (\<forall>k. k \<notin> {''messages'', ''stream'', ''tools'', ''tool_execution''} \<longrightarrow> dlook req k = dlook initial k))"

definition loop_exns :: "exn set" where
  "loop_exns = {TypeError, AttributeError, KeyError}"

lemma loop_exns_simps [simp]: "TypeError \<in> loop_exns" "AttributeError \<in> loop_exns" "KeyError \<in> loop_exns"
  by (simp_all add: loop_exns_def)

lemma bind_res_Inl_iff: "bind_res m f = Inl e \<longleftrightarrow> m = Inl e \<or> (\<exists>x. m = Inr x \<and> f x = Inl e)"
  by (cases m) auto

lemma as_dict_exn: "as_dict v = Inl e \<Longrightarrow> e \<in> loop_exns"
  by (cases v) (auto simp: as_dict_def)

lemma items_of_exn: "items_of v = Inl e \<Longrightarrow> e \<in> loop_exns"
  by (cases v) auto

lemma feed_call_exn: "feed_call tc c = Inl e \<Longrightarrow> e \<in> loop_exns"
  by (auto simp: feed_call_def Let_def bind_res_Inl_iff dest: as_dict_exn split: if_splits pyval.splits)

lemma feed_exn: "feed acc vs = Inl e \<Longrightarrow> e \<in> loop_exns"
  by (induction acc vs rule: feed.induct)
    (auto simp: Let_def bind_res_Inl_iff dest: as_dict_exn feed_call_exn split: if_splits)

lemma first_choice_exn: "first_choice v = Inl e \<Longrightarrow> truthy v \<Longrightarrow> e \<in> loop_exns"
  by (auto simp: first_choice_def dest: as_dict_exn split: pyval.splits list.splits)

lemma on_choice_exn: "on_choice le chunk choice t = (t', Some e) \<Longrightarrow> e \<in> loop_exns"
  by (auto simp: on_choice_def Let_def bind_res_Inl_iff dest: as_dict_exn feed_exn items_of_exn
      split: sum.splits if_splits pyval.splits)

lemma on_line_exn: "on_line le t line = (t', Some e) \<Longrightarrow> e \<in> loop_exns"
  by (auto simp: on_line_def Let_def dest: on_choice_exn first_choice_exn split: sum.splits if_splits pyval.splits)

lemma on_lines_exn: "on_lines le t ls = (t', Some e) \<Longrightarrow> e \<in> loop_exns"
  by (induction ls arbitrary: t) (auto dest: on_line_exn split: prod.splits option.splits)

lemma read_stream_exn: "read_stream le t [] raws = (t', Some e) \<Longrightarrow> e \<in> loop_exns"
  by (subst (asm) read_stream_whole) (auto dest: on_lines_exn simp: drain.simps)

lemma dispatch_tool_exn: "dispatch_tool env j name args = Inl e \<Longrightarrow> e \<in> loop_exns"
  by (auto simp: dispatch_tool_def Let_def bind_res_Inl_iff split: pyval.splits if_splits sum.splits)

lemma size_or_zero_exn: "size_or_zero v = Inl e \<Longrightarrow> e \<in> loop_exns"
  by (auto simp: size_or_zero_def split: pyval.splits)

lemma run_calls_exn:
  assumes "\<And>tc e. fn tc = Inl e \<Longrightarrow> e \<in> loop_exns" and "run_calls le fn i j tcs = Inl e"
  shows "e \<in> loop_exns"
  using assms(2)
proof (induction tcs arbitrary: j)
  case (Cons tc tcs)
  then show ?case
    by (auto simp: bind_res_Inl_iff intro: assms(1) dispatch_tool_exn size_or_zero_exn)
qed simp

lemma stream_fn_exn: "stream_fn tc = Inl e \<Longrightarrow> e \<in> loop_exns"
  by (auto simp: stream_fn_def bind_res_Inl_iff dest: as_dict_exn)

lemma post_fn_exn: "post_fn tc = Inl e \<Longrightarrow> e \<in> loop_exns"
  by (auto simp: post_fn_def bind_res_Inl_iff dest: as_dict_exn)

lemma ensure_ids_exn: "ensure_tool_call_ids env k vs = Inl e \<Longrightarrow> e \<in> loop_exns"
  by (induction vs arbitrary: k) (auto simp: Let_def bind_res_Inl_iff dest: as_dict_exn split: if_splits)

lemma round_exn:
  assumes "\<And>tc e. fn tc = Inl e \<Longrightarrow> e \<in> loop_exns" and "round_of le fn i k j vs = Inl e"
  shows "e \<in> loop_exns"
  using assms(2)
  by (auto simp: round_of_def bind_res_Inl_iff dest: ensure_ids_exn run_calls_exn [OF assms(1), rotated])

lemma ensure_ids_truthy:
  "ensure_tool_call_ids env k vs = Inr (calls, k') \<Longrightarrow>
   length calls = length vs \<and> list_all (\<lambda>tc. truthy (dget tc ''id'')) calls"
  by (induction vs arbitrary: calls k k') (fastforce simp: Let_def bind_res_Inr_iff split: if_splits)+

lemma run_calls_replies:
  "run_calls le fn i j calls = Inr (rs, logs) \<Longrightarrow> list_all2 (\<lambda>tc r. \<exists>s. r = tool_reply (dget tc ''id'') s) calls rs"
  by (induction calls arbitrary: j rs logs) (fastforce simp: bind_res_Inr_iff)+

lemma round_replies:
  assumes "round_of le fn i k j vs = Inr (calls, k', rs, logs)"
  shows "replies_for calls rs" "length calls = length vs"
proof -
  from assms have e: "ensure_tool_call_ids (le_tools le) k vs = Inr (calls, k')"
    and r: "run_calls le fn i j calls = Inr (rs, logs)"
    by (auto simp: round_of_def bind_res_Inr_iff)
  from ensure_ids_truthy [OF e] show "length calls = length vs" by simp
  from ensure_ids_truthy [OF e] run_calls_replies [OF r] show "replies_for calls rs"
    by (auto simp: replies_for_def list_all2_conv_all_nth list_all_length)
qed

definition extends_by_rounds :: "pydict \<Rightarrow> pyval list \<Rightarrow> pydict \<Rightarrow> bool" where
  "extends_by_rounds body ms0 req = (\<exists>tail. req = turn_request body (ms0 @ tail) \<and> rounds tail)"

definition stream_run_ok :: "pydict \<Rightarrow> pyval list \<Rightarrow> nat \<Rightarrow> loop_run \<Rightarrow> bool" where
  "stream_run_ok body ms0 n run =
     (length (lr_requests run) \<le> n \<and> list_all (extends_by_rounds body ms0) (lr_requests run) \<and>
      (case lr_exn run of
         None \<Rightarrow> lr_frames run \<noteq> [] \<and> last (lr_frames run) = done_frame
       | Some e \<Rightarrow> e \<in> loop_exns))"

lemma stream_run_ok_ends:
  "stream_run_ok body ms0 n (ends frames reqs None) \<longleftrightarrow>
     length reqs \<le> n \<and> list_all (extends_by_rounds body ms0) reqs \<and> frames \<noteq> [] \<and> last frames = done_frame"
  "stream_run_ok body ms0 n (ends frames reqs (Some e)) \<longleftrightarrow>
     length reqs \<le> n \<and> list_all (extends_by_rounds body ms0) reqs \<and> e \<in> loop_exns"
  by (auto simp: stream_run_ok_def ends_def)

lemma stream_run_ok_before:
  "stream_run_ok body ms0 n run \<Longrightarrow> extends_by_rounds body ms0 req \<Longrightarrow>
   stream_run_ok body ms0 (Suc n) (before frames [req] logs run)"
  by (auto simp: stream_run_ok_def before_def split: option.splits)

lemma stream_run_ok_frames:
  "stream_run_ok body ms0 n run \<Longrightarrow> stream_run_ok body ms0 n (before frames [] [] run)"
  by (auto simp: stream_run_ok_def before_def split: option.splits)

lemma rounds_next:
  assumes "rounds tail" and "round_of le fn i k j vs = Inr (calls, k', rs, logs)" and "vs \<noteq> []"
    and "dget m ''tool_calls'' = PList (map PDict calls)"
  shows "rounds (tail @ PDict m # rs)"
proof -
  from round_replies [OF assms(2)] assms(3) have "replies_for calls rs" "calls \<noteq> []" by auto
  with assms(1,4) show ?thesis by (blast intro: rounds_more)
qed

lemma stream_turns_ok:
  assumes "rounds tail"
  shows "stream_run_ok body ms0 n (stream_turns le body n i k j (ms0 @ tail))"
  using assms
proof (induction n arbitrary: i k j tail)
  case 0
  show ?case by (simp add: stream_run_ok_ends)
next
  case (Suc n)
  let ?req = "turn_request body (ms0 @ tail)"
  from Suc.prems have req: "extends_by_rounds body ms0 ?req" by (auto simp: extends_by_rounds_def)
  have step: "stream_run_ok body ms0 (Suc n)
      (case round_of le stream_fn i k j (map PDict (finalize (tn_acc t))) of
         Inl e \<Rightarrow> ends (tn_out t) [?req] (Some e)
       | Inr (calls, k', replies, logs) \<Rightarrow>
           before (tn_out t) [?req] logs
             (stream_turns le body n (i + 1) k' (j + length calls)
                ((ms0 @ tail) @ assistant_message (tn_content t) calls # replies)))"
    if acc: "tn_acc t \<noteq> []" for t
  proof (cases "round_of le stream_fn i k j (map PDict (finalize (tn_acc t)))")
    case (Inl e)
    from round_exn [OF stream_fn_exn Inl] have "e \<in> loop_exns" by simp
    with Inl req show ?thesis by (simp add: stream_run_ok_ends)
  next
    case (Inr r)
    obtain calls k' rs logs where r: "r = (calls, k', rs, logs)" by (cases r)
    have "rounds (tail @ assistant_message (tn_content t) calls # rs)"
      unfolding assistant_message_def
      by (rule rounds_next [OF Suc.prems Inr [unfolded r]])
        (use acc in \<open>simp_all add: finalize_def dget_def\<close>)
    from Suc.IH [OF this] req Inr r show ?thesis by (simp add: stream_run_ok_before)
  qed
  show ?case
    using step req
    by (auto simp: stream_run_ok_ends degraded_frames_def split: option.split prod.split dest: read_stream_exn)
qed

definition post_run_ok :: "pydict \<Rightarrow> pyval list \<Rightarrow> nat \<Rightarrow> post_run \<Rightarrow> bool" where
  "post_run_ok body ms0 n run =
     (length (pr_requests run) \<le> n \<and> list_all (extends_by_rounds body ms0) (pr_requests run) \<and>
      (case pr_answer run of Inr _ \<Rightarrow> True | Inl e \<Rightarrow> e \<in> loop_exns))"

lemma post_run_ok_answers:
  "post_run_ok body ms0 n (answers (Inr a) reqs) \<longleftrightarrow> length reqs \<le> n \<and> list_all (extends_by_rounds body ms0) reqs"
  "post_run_ok body ms0 n (answers (Inl e) reqs) \<longleftrightarrow>
     length reqs \<le> n \<and> list_all (extends_by_rounds body ms0) reqs \<and> e \<in> loop_exns"
  by (auto simp: post_run_ok_def answers_def)

lemma post_run_ok_after_round:
  "post_run_ok body ms0 n run \<Longrightarrow> extends_by_rounds body ms0 req \<Longrightarrow>
   post_run_ok body ms0 (Suc n) (after_round [req] logs run)"
  by (auto simp: post_run_ok_def after_round_def split: sum.splits)

lemma choice_of_exn: "choice_of data = Inl e \<Longrightarrow> e \<in> loop_exns"
  by (auto simp: choice_of_def dest: first_choice_exn split: if_splits)

lemma final_message_exn: "final_message le msg = Inl e \<Longrightarrow> e \<in> loop_exns"
  by (auto simp: final_message_def split: if_splits pyval.splits)

lemma text_or_empty_exn: "text_or_empty v = Inl e \<Longrightarrow> e \<in> loop_exns"
  by (auto simp: text_or_empty_def split: pyval.splits)

lemma annotate_exn: "annotate le data = Inl e \<Longrightarrow> e \<in> loop_exns"
  by (auto simp: annotate_def bind_res_Inl_iff dest: first_choice_exn as_dict_exn text_or_empty_exn split: if_splits)

lemma post_run_ok_if:
  "\<lbrakk>\<And>e. a = Inl e \<Longrightarrow> e \<in> loop_exns; length reqs \<le> n; list_all (extends_by_rounds body ms0) reqs\<rbrakk> \<Longrightarrow>
   post_run_ok body ms0 n (answers a reqs)"
  by (cases a) (auto simp: post_run_ok_answers)

lemma post_turns_ok:
  assumes "rounds tail"
  shows "post_run_ok body ms0 n (post_turns le body n i k j (ms0 @ tail) last_response)"
  using assms
proof (induction n arbitrary: i k j tail last_response)
  case 0
  show ?case using annotate_exn by (auto intro: post_run_ok_if)
next
  case (Suc n)
  let ?req = "turn_request body (ms0 @ tail)"
  from Suc.prems have req: "extends_by_rounds body ms0 ?req" by (auto simp: extends_by_rounds_def)
  have final: "post_run_ok body ms0 (Suc n)
      (case final_message le msg of
         Inl e \<Rightarrow> answers (Inl e) [?req]
       | Inr msg' \<Rightarrow> answers (Inr (put_message msg' data)) [?req])" for msg data
    using req final_message_exn by (auto simp: post_run_ok_answers split: sum.split)
  have step: "post_run_ok body ms0 (Suc n)
      (case bind_res (items_of (dget msg ''tool_calls'')) (round_of le post_fn i k j) of
         Inl e \<Rightarrow> answers (Inl e) [?req]
       | Inr (calls, k', replies, logs) \<Rightarrow>
           (let msg' = dput ''tool_calls'' (PList (map PDict calls)) msg in
            after_round [?req] logs
              (post_turns le body n (i + 1) k' (j + length calls)
                 ((ms0 @ tail) @ PDict msg' # replies) (put_message msg' data))))"
    if calls: "truthy (dget msg ''tool_calls'')" for msg data
  proof (cases "bind_res (items_of (dget msg ''tool_calls'')) (round_of le post_fn i k j)")
    case (Inl e)
    then have "e \<in> loop_exns"
      by (auto simp: bind_res_Inl_iff intro: items_of_exn round_exn [OF post_fn_exn])
    with Inl req show ?thesis by (simp add: post_run_ok_answers)
  next
    case (Inr r)
    obtain calls k' rs logs where r: "r = (calls, k', rs, logs)" by (cases r)
    from Inr r obtain vs where vs: "items_of (dget msg ''tool_calls'') = Inr vs"
      "round_of le post_fn i k j vs = Inr (calls, k', rs, logs)"
      by (auto simp: bind_res_Inr_iff)
    from vs(1) calls have "vs \<noteq> []" by (cases "dget msg ''tool_calls''") auto
    then have "rounds (tail @ PDict (dput ''tool_calls'' (PList (map PDict calls)) msg) # rs)"
      by (intro rounds_next [OF Suc.prems vs(2)]) simp_all
    from Suc.IH [OF this] req Inr r show ?thesis by (simp add: post_run_ok_after_round Let_def)
  qed
  have read: "e \<in> loop_exns"
    if "bind_res (as_dict v) (\<lambda>data. bind_res (choice_of data) (\<lambda>choice.
          bind_res (as_dict (py_or (dget choice ''message'') (PDict []))) (\<lambda>msg.
            Inr (data, msg, dget choice ''finish_reason'')))) = Inl e" for v e
    using that by (auto simp: bind_res_Inl_iff dest: as_dict_exn choice_of_exn)
  show ?case
    using step final req read
    by (auto simp: post_run_ok_answers simp del: Let_def split: upstream.split option.split sum.split)
qed

lemma dlook_alist_del: "dlook (alist_del (PStr k) d) j = (if j = k then None else dlook d j)"
  by (simp add: dlook_def)

lemma loop_request_ok:
  assumes "start_messages (loop_body le streaming initial) = Inr ms0"
    and "extends_by_rounds (loop_body le streaming initial) ms0 req"
  shows "loop_request le streaming initial req"
proof -
  let ?body = "loop_body le streaming initial"
  have look: "dlook ?body k =
      (if k = ''tool_execution'' then None else if k = ''stream'' then Some (PBool streaming)
       else if k = ''tools'' \<and> dlook initial k = None then Some (tv_schemas (le_tools le)) else dlook initial k)" for k
    by (auto simp: loop_body_def dlook_alist_del)
  from assms(1) look [of "''messages''"] have ms: "items_of (dget initial ''messages'') = Inr ms0"
    by (auto simp: start_messages_def dget_def split: option.splits)
  from assms(2) obtain tail where t: "req = dput ''messages'' (PList (ms0 @ tail)) ?body" "rounds tail"
    by (auto simp: extends_by_rounds_def turn_request_def)
  show ?thesis unfolding loop_request_def
    by (intro exI [of _ ms0] exI [of _ tail])
      (auto simp: t ms dhas_def look dget_def [of ?body] dget_or_def split: option.split)
qed


text \<open>
  The tool loop that does not stream keeps the same bound and the same pairing of calls and
  replies, and ends in an answer unless a malformed answer or call raises one of three exceptions.
\<close>

theorem tool_post_well_paired:
  "length (pr_requests (tool_loop_nonstream le initial)) \<le> le_max_iterations le \<and>
   list_all (loop_request le False initial) (pr_requests (tool_loop_nonstream le initial)) \<and>
   (case pr_answer (tool_loop_nonstream le initial) of
      Inr _ \<Rightarrow> True
    | Inl e \<Rightarrow> e \<in> {TypeError, AttributeError, KeyError})"
proof (cases "start_messages (loop_body le False initial)")
  case (Inl e)
  then have "e \<in> loop_exns" by (auto simp: start_messages_def dest: items_of_exn split: option.splits)
  with Inl show ?thesis by (simp add: tool_loop_nonstream_def answers_def loop_exns_def)
next
  case (Inr ms)
  from post_turns_ok [OF rounds_none, of _ ms] Inr
  have "post_run_ok (loop_body le False initial) ms (le_max_iterations le) (tool_loop_nonstream le initial)"
    by (simp add: tool_loop_nonstream_def)
  then show ?thesis
    using loop_request_ok [OF Inr]
    by (auto simp: post_run_ok_def list_all_iff loop_exns_def split: sum.splits)
qed

text \<open>Arguments that came as an object instead of text raise before the guard of the handlers.\<close>

lemma object_arguments_raise:
  assumes "name \<in> set tool_names" and "kvs \<noteq> []"
  shows "dispatch_tool env j (PStr name) (PDict kvs) = Inl TypeError"
  using assms by (simp add: dispatch_tool_def)

end
