(* ===== verification/RouterKeys.thy ===== *)
theory RouterKeys
  imports AccessKeys Aliases
begin

text \<open>
  The command that issues, lists and revokes scoped keys, \<^verbatim>\<open>scripts/files/router-keys.py\<close>, and what the
  router's key store makes of the files it writes. The lock makes an \<open>add\<close> or a \<open>revoke\<close> one step on
  the disk. SHA-256, the random token, the clock, the text of a time and the success of a write are
  parameters.
\<close>

section \<open>The disk and the commands\<close>

text \<open>The parsed keys file, or the error of reading it, and the key files written by \<open>add\<close>.\<close>

record disk =
  dk_keys :: "pyval res option"
  dk_out :: "string \<Rightarrow> string option"

datatype cli = Exits int | Dies exn

definition max_ttl_hours :: rat where
  "max_ttl_hours = 24 * 14"

definition reserved_names :: "string list" where
  "reserved_names = [''owner'']"

text \<open>\<open>_load\<close>: a file without a list of keys ends the program with status 1.\<close>

definition load_keys :: "disk \<Rightarrow> cli + pydict \<times> pyval list" where
  "load_keys dk =
     (case dk_keys dk of
        None \<Rightarrow> Inr ([(PStr ''keys'', PList [])], [])
      | Some (Inl e) \<Rightarrow> Inl (Dies e)
      | Some (Inr (PDict d)) \<Rightarrow> (case dget d ''keys'' of PList ks \<Rightarrow> Inr (d, ks) | _ \<Rightarrow> Inl (Exits 1))
      | Some (Inr _) \<Rightarrow> Inl (Dies AttributeError))"

text \<open>\<open>_save\<close>: the file is replaced, or stays as it was.\<close>

definition save_keys :: "bool \<Rightarrow> pydict \<Rightarrow> pyval list \<Rightarrow> disk \<Rightarrow> cli \<times> disk" where
  "save_keys ok d ks dk =
     (if ok then (Exits 0, dk\<lparr>dk_keys := Some (Inr (PDict (dput ''keys'' (PList ks) d)))\<rparr>) else (Dies OSError, dk))"

text \<open>\<^verbatim>\<open>any(e.get("name") == name for e in keys)\<close> stops at the first match.\<close>

fun any_named :: "string \<Rightarrow> pyval list \<Rightarrow> bool res" where
  "any_named name [] = Inr False"
| "any_named name (PDict e # es) = (if dget e ''name'' = PStr name then Inr True else any_named name es)"
| "any_named name (_ # es) = Inl AttributeError"

fun without_name :: "string \<Rightarrow> pyval list \<Rightarrow> pyval list res" where
  "without_name name [] = Inr []"
| "without_name name (PDict e # es) =
     bind_res (without_name name es) (\<lambda>ks. Inr (if dget e ''name'' = PStr name then ks else PDict e # ks))"
| "without_name name (_ # es) = Inl AttributeError"

record keys_env =
  kx_sha :: "string \<Rightarrow> string"
  kx_token :: string
  kx_now :: rat
  kx_save :: bool
  kx_time :: "pyval \<Rightarrow> string res"

definition alias_words :: "string \<Rightarrow> string list" where
  "alias_words s = filter (\<lambda>x. x \<noteq> []) (map strip (split_char (CHR 0x2C) s))"

definition new_key :: "keys_env \<Rightarrow> string" where
  "new_key env = ''wf_'' @ kx_token env"

definition new_entry :: "keys_env \<Rightarrow> string \<Rightarrow> string list \<Rightarrow> rat \<Rightarrow> pyval" where
  "new_entry env name aliases ttl =
     PDict [(PStr ''name'', PStr name), (PStr ''sha256'', PStr (kx_sha env (new_key env))),
            (PStr ''aliases'', PList (map PStr aliases)), (PStr ''expires'', PFloat (Fin (kx_now env + ttl * 3600)))]"

definition add_locked :: "keys_env \<Rightarrow> string \<Rightarrow> string list \<Rightarrow> rat \<Rightarrow> string \<Rightarrow> disk \<Rightarrow> cli \<times> disk" where
  "add_locked env name aliases ttl out dk =
     (case load_keys dk of
        Inl c \<Rightarrow> (c, dk)
      | Inr (d, ks) \<Rightarrow>
          (case any_named name ks of
             Inl e \<Rightarrow> (Dies e, dk)
           | Inr True \<Rightarrow> (Exits 2, dk)
           | Inr False \<Rightarrow>
               if dk_out dk out \<noteq> None then (Exits 2, dk)
               else save_keys (kx_save env) d (ks @ [new_entry env name aliases ttl])
                      (dk\<lparr>dk_out := (dk_out dk)(out \<mapsto> new_key env @ [CHR 0x0A])\<rparr>)))"

text \<open>The time to live comes as a float; none that is not a number or infinite is within the range.\<close>

definition ttl_within :: "pyfloat \<Rightarrow> rat option" where
  "ttl_within t = (case t of Fin r \<Rightarrow> if 0 < r \<and> r \<le> max_ttl_hours then Some r else None | _ \<Rightarrow> None)"

definition cmd_add :: "keys_env \<Rightarrow> string \<Rightarrow> string \<Rightarrow> pyfloat \<Rightarrow> string \<Rightarrow> disk \<Rightarrow> cli \<times> disk" where
  "cmd_add env name aliases ttl out dk =
     (if \<not> fullmatches name_re name \<or> name \<in> set reserved_names then (Exits 2, dk)
      else if alias_words aliases = [] then (Exits 2, dk)
      else case ttl_within ttl of
             None \<Rightarrow> (Exits 2, dk)
           | Some r \<Rightarrow> add_locked env name (alias_words aliases) r out dk)"

text \<open>One line of \<open>list\<close>: \<^verbatim>\<open>time.gmtime\<close> of anything but a number raises.\<close>

definition is_number :: "pyval \<Rightarrow> bool" where
  "is_number v = (is_pint v \<or> (case v of PFloat _ \<Rightarrow> True | _ \<Rightarrow> False))"

definition past :: "rat \<Rightarrow> pyval \<Rightarrow> bool" where
  "past now v =
     (case v of PInt i \<Rightarrow> of_int i \<le> now | PBool b \<Rightarrow> of_bool b \<le> now | PFloat f \<Rightarrow> fle f (Fin now) | _ \<Rightarrow> False)"

definition list_line :: "keys_env \<Rightarrow> (pyval \<Rightarrow> string) \<Rightarrow> pyval \<Rightarrow> string res" where
  "list_line env show_val e =
     (case e of
        PDict d \<Rightarrow>
          (let x = dget d ''expires''
           in bind_res (if x = PNone then Inr ''never'' else if is_number x then kx_time env x else Inl TypeError) (\<lambda>when.
              bind_res (items_of (dget_or d ''aliases'' (PList []))) (\<lambda>as.
              bind_res (join_strs [CHR 0x2C] as) (\<lambda>al.
                Inr (show_val (dget d ''name'') @ [CHR 0x09] @
                     (if x \<noteq> PNone \<and> past (kx_now env) x then ''EXPIRED'' else ''active'') @ [CHR 0x09] @
                     ''expires='' @ when @ [CHR 0x09] @ ''aliases='' @ al)))))
      | _ \<Rightarrow> Inl AttributeError)"

fun list_lines :: "keys_env \<Rightarrow> (pyval \<Rightarrow> string) \<Rightarrow> pyval list \<Rightarrow> string list \<times> cli" where
  "list_lines env show_val [] = ([], Exits 0)"
| "list_lines env show_val (e # es) =
     (case list_line env show_val e of
        Inl x \<Rightarrow> ([], Dies x)
      | Inr l \<Rightarrow> (case list_lines env show_val es of (ls, c) \<Rightarrow> (l # ls, c)))"

definition cmd_list :: "keys_env \<Rightarrow> (pyval \<Rightarrow> string) \<Rightarrow> disk \<Rightarrow> string list \<times> cli" where
  "cmd_list env show_val dk =
     (case load_keys dk of
        Inl c \<Rightarrow> ([], c)
      | Inr (d, ks) \<Rightarrow> list_lines env show_val ks)"

text \<open>\<open>_revoke_locked\<close>: a name, or None for \<^verbatim>\<open>--all\<close>.\<close>

definition cmd_revoke :: "keys_env \<Rightarrow> string option \<Rightarrow> disk \<Rightarrow> cli \<times> disk" where
  "cmd_revoke env who dk =
     (case load_keys dk of
        Inl c \<Rightarrow> (c, dk)
      | Inr (d, ks) \<Rightarrow>
          (case who of
             None \<Rightarrow> save_keys (kx_save env) d [] dk
           | Some name \<Rightarrow>
               (case without_name name ks of
                  Inl e \<Rightarrow> (Dies e, dk)
                | Inr ks' \<Rightarrow>
                    if length ks - length ks' = 0 then (Exits 1, dk)
                    else save_keys (kx_save env) d ks' dk)))"

section \<open>The file keeps its keys\<close>

text \<open>The entries of the file, when it is one the commands work on.\<close>

definition file_entries :: "disk \<Rightarrow> pyval list option" where
  "file_entries dk = (case load_keys dk of Inr (d, ks) \<Rightarrow> Some ks | Inl _ \<Rightarrow> None)"

definition named :: "string \<Rightarrow> pyval \<Rightarrow> bool" where
  "named n e = (\<exists>d. e = PDict d \<and> dget d ''name'' = PStr n)"

lemma any_named_False: "any_named n ks = Inr False \<Longrightarrow> \<not> list_ex (named n) ks"
  by (induction n ks rule: any_named.induct) (auto simp: named_def split: if_splits)

lemma without_name_Inr:
  "without_name n ks = Inr ks' \<Longrightarrow> ks' = filter (\<lambda>e. \<not> named n e) ks"
  by (induction n ks arbitrary: ks' rule: without_name.induct) (auto simp: named_def bind_res_Inr_iff split: if_splits)

lemma save_keys_cases:
  "save_keys ok d ks dk = (c, dk') \<Longrightarrow>
     (c = Exits 0 \<and> dk_keys dk' = Some (Inr (PDict (dput ''keys'' (PList ks) d))) \<and> dk_out dk' = dk_out dk) \<or>
     (c = Dies OSError \<and> dk' = dk)"
  by (auto simp: save_keys_def split: if_splits)

lemma file_entries_saved:
  "dk_keys dk = Some (Inr (PDict (dput ''keys'' (PList ks) d))) \<Longrightarrow> file_entries dk = Some ks"
  by (simp add: file_entries_def load_keys_def)

text \<open>Only success changes the keys file; an added name is new, a revoked one is gone.\<close>

lemma add_outcome:
  assumes "cmd_add env name aliases ttl out dk = (c, dk')"
  shows "c \<noteq> Exits 0 \<and> dk_keys dk' = dk_keys dk \<or>
    (\<exists>d ks r. load_keys dk = Inr (d, ks) \<and> \<not> list_ex (named name) ks \<and> ttl_within ttl = Some r \<and>
       fullmatches name_re name \<and> name \<noteq> ''owner'' \<and> alias_words aliases \<noteq> [] \<and> c = Exits 0 \<and>
       dk_out dk out = None \<and> dk_out dk' = (dk_out dk)(out \<mapsto> new_key env @ [CHR 0x0A]) \<and>
       dk_keys dk' = Some (Inr (PDict (dput ''keys'' (PList (ks @ [new_entry env name (alias_words aliases) r])) d))))"
proof -
  have none: "d \<noteq> Exits 0" if "load_keys dk = Inl d" for d
    using that by (auto simp: load_keys_def split: option.splits sum.splits pyval.splits)
  show ?thesis
    using assms none any_named_False
    by (auto simp: cmd_add_def add_locked_def save_keys_def reserved_names_def
        split: if_splits option.splits sum.splits bool.splits)
qed

lemma revoke_outcome:
  assumes "cmd_revoke env who dk = (c, dk')"
  shows "c \<noteq> Exits 0 \<and> dk' = dk \<or>
    (\<exists>d ks. load_keys dk = Inr (d, ks) \<and> c = Exits 0 \<and> dk_out dk' = dk_out dk \<and>
       dk_keys dk' = Some (Inr (PDict (dput ''keys''
         (PList (case who of None \<Rightarrow> [] | Some n \<Rightarrow> filter (\<lambda>e. \<not> named n e) ks)) d))))"
proof -
  have none: "d \<noteq> Exits 0" if "load_keys dk = Inl d" for d
    using that by (auto simp: load_keys_def split: option.splits sum.splits pyval.splits)
  show ?thesis
    using assms none
    by (auto simp: cmd_revoke_def save_keys_def dest!: without_name_Inr split: if_splits option.splits sum.splits)
qed

section \<open>The file and the key store\<close>

text \<open>The file as the router sees it, under the signature of its inode.\<close>

definition seen_file :: "file_sig \<Rightarrow> disk \<Rightarrow> keyfile" where
  "seen_file sg dk = map_option (\<lambda>content. (sg, content)) (dk_keys dk)"

lemma lower_hex: "list_all hex_char s \<Longrightarrow> lower s = s"
  by (induction s) (auto simp: lower_def lower_char_def hex_char_def is_upper_az_def is_digit_def)

lemma alias_words_nonempty: "list_all nonempty_str (map PStr (alias_words s))"
  by (auto simp: alias_words_def list_all_iff)

lemma strs_of_PStr: "strs_of (PList (map PStr xs)) = xs"
  by (induction xs) (auto simp: strs_of_def List.map_filter_def)

definition issued :: "keys_env \<Rightarrow> string \<Rightarrow> string list \<Rightarrow> rat \<Rightarrow> principal" where
  "issued env name aliases ttl =
     \<lparr>p_name = name, p_kind = Scoped, p_aliases = aliases, p_expires = Some (Fin (kx_now env + ttl * 3600))\<rparr>"

lemma parse_new_entry:
  assumes "fullmatches name_re name" "name \<noteq> ''owner''" "alias_words aliases \<noteq> []"
    and "fullmatches sha256_re (kx_sha env (new_key env))"
  shows "parse_entry (new_entry env name (alias_words aliases) ttl) =
    Inr (kx_sha env (new_key env), issued env name (alias_words aliases) ttl)"
proof -
  from assms(4) have hex: "list_all hex_char (kx_sha env (new_key env))" by (simp add: sha256_re_fullmatch)
  show ?thesis
    using assms alias_words_nonempty [of aliases]
    by (simp add: parse_entry_def new_entry_def name_valid_def owner_def digest_valid_def aliases_valid_def
        finite_number_def str_of_def lower_hex [OF hex] strs_of_PStr issued_def)
qed

lemma parse_entries_append:
  "parse_entries xs = Inr es \<Longrightarrow> parse_entry y = Inr e \<Longrightarrow> parse_entries (xs @ [y]) = Inr (es @ [e])"
  by (induction xs arbitrary: es) (auto simp: bind_res_Inr_iff split: sum.splits if_splits)

lemma reload_seen:
  assumes "dk_keys dk = Some (Inr (PDict (dput ''keys'' (PList ks) d)))" and "Some sg \<noteq> ks_sig store"
    and "parse_entries ks = Inr es"
  shows "reload_if_changed (seen_file sg dk) store = (None, store\<lparr>ks_sig := Some sg, ks_entries := es\<rparr>)"
  using assms by (simp add: reload_if_changed_def seen_file_def keys_list_def dget_or_def Let_def)


lemma authenticated_entry:
  assumes "fst (authenticate sha now (seen_file sg dk) presented store) = Inr (Some p)"
    and "dk_keys dk = Some (Inr (PDict (dput ''keys'' (PList ks) d)))" and "Some sg \<noteq> ks_sig store"
  shows "p = owner \<or> (\<exists>es. parse_entries ks = Inr es \<and> (sha presented, p) \<in> set es)"
proof (cases "parse_entries ks")
  case (Inl e)
  with assms show ?thesis
    by (auto simp: authenticate_def reload_if_changed_def seen_file_def keys_list_def dget_or_def Let_def split: if_splits)
next
  case (Inr es)
  with assms(1) reload_seen [OF assms(2,3) Inr] show ?thesis
    by (auto simp: authenticate_def dest: scan_entries_Some split: if_splits option.splits)
qed

lemma parse_entries_mem: "parse_entries ks = Inr es \<Longrightarrow> x \<in> set es \<Longrightarrow> \<exists>e \<in> set ks. parse_entry e = Inr x"
  by (induction ks arbitrary: es) (auto simp: bind_res_Inr_iff split: sum.splits if_splits)

lemma parse_entry_named: "parse_entry e = Inr (h, p) \<Longrightarrow> named (p_name p) e"
  by (cases e) (auto simp: parse_entry_def bind_res_Inr_iff named_def dget_def name_valid_def str_of_def
      split: if_splits option.splits pyval.splits)


section \<open>Witnesses\<close>

definition sample_sha :: "string \<Rightarrow> string" where
  "sample_sha s = replicate 64 (if s = ''wf_T'' then CHR ''a'' else CHR ''b'')"

definition sample_env :: keys_env where
  "sample_env = \<lparr>kx_sha = sample_sha, kx_token = ''T'', kx_now = 1000, kx_save = True, kx_time = (\<lambda>_. Inr [])\<rparr>"

lemma sample_sel: "kx_sha sample_env = sample_sha" "kx_token sample_env = ''T''" "kx_now sample_env = 1000" "kx_save sample_env"
  by (simp_all add: sample_env_def)

definition empty_disk :: disk where
  "empty_disk = \<lparr>dk_keys = None, dk_out = (\<lambda>_. None)\<rparr>"

lemma sample_words: "alias_words ''m, n'' = [''m'', ''n'']"
  by (simp add: alias_words_def split_char_def strip_by_def lstrip_by_def rstrip_by_def is_space_def)

lemma sample_digest: "fullmatches sha256_re (sample_sha s)"
  by (simp add: sha256_re_fullmatch sample_sha_def hex_char_def list_all_iff is_digit_def)

lemma sample_name: "fullmatches name_re [c]" if "is_lower_az c"
  using that by (simp add: name_re_fullmatch name_start_def)


definition two_keys :: disk where
  "two_keys = \<lparr>dk_keys = Some (Inr (PDict [(PStr ''keys'', PList
       [new_entry sample_env ''r'' [''m''] 1,
        PDict [(PStr ''name'', PStr ''s''), (PStr ''sha256'', PStr (sample_sha [])), (PStr ''aliases'', PList [PStr ''m'']),
               (PStr ''expires'', PInt 9000)]])])), dk_out = (\<lambda>_. None)\<rparr>"


end
