(* ===== verification/SwapWebhook.thy ===== *)
theory SwapWebhook
  imports PyVal "HOL-Library.List_Lexorder" "HOL-Library.Char_ord"
begin

text \<open>
  The webhook that runs a swap on the host, \<^verbatim>\<open>scripts/files/swap-webhook.py\<close>: the allowlist read from
  the swap script and cached under its modification time, the authorisation, the decision on a request,
  and the threads of the server as a step relation in which a swap starts with the lock and ends by
  giving it back. URL parsing, the script and its text are parameters.
\<close>

section \<open>Profiles\<close>

definition fallback_profiles :: "string list" where
  "fallback_profiles = [''qwen3.6'', ''qwen3.6-fast'', ''coder'', ''devstral'', ''devstral-large'', ''qwen3.8'']"

definition names_prefix :: string where
  "names_prefix = ''PROFILE_NAMES=(''"

definition is_quote :: "char \<Rightarrow> bool" where
  "is_quote c = (c = CHR 0x27 \<or> c = CHR 0x22)"

text \<open>The names on the line: between the first opening parenthesis and the next closing one.\<close>

definition line_profiles :: "string \<Rightarrow> string list" where
  "line_profiles line =
     (let after = drop 1 (dropWhile (\<lambda>c. c \<noteq> CHR ''('') line);
          inner = takeWhile (\<lambda>c. c \<noteq> CHR '')'') after
      in map (\<lambda>p. strip_by is_quote (strip p)) (filter (\<lambda>p. strip p \<noteq> []) (split_ws inner)))"

text \<open>The script as reading it goes: its lines, and the error that stops the reading, if one does.\<close>

type_synonym script_text = "string list \<times> exn option"

fun discover_lines :: "string list \<Rightarrow> exn option \<Rightarrow> string list res" where
  "discover_lines [] (Some OSError) = Inr fallback_profiles"
| "discover_lines [] (Some e) = Inl e"
| "discover_lines [] None = Inr fallback_profiles"
| "discover_lines (l # ls) err =
     (if startswith l names_prefix \<and> line_profiles l \<noteq> [] then Inr (line_profiles l) else discover_lines ls err)"

definition discover_profiles :: "script_text \<Rightarrow> string list res" where
  "discover_profiles txt = discover_lines (fst txt) (snd txt)"

record profile_cache =
  pc_key :: "int option"
  pc_profiles :: "string list"

definition cache_start :: profile_cache where
  "cache_start = \<lparr>pc_key = None, pc_profiles = fallback_profiles\<rparr>"

text \<open>\<open>current_valid_profiles\<close> for the one script path of the service; None is a failed \<^verbatim>\<open>stat\<close>.\<close>

definition current_valid_profiles ::
  "int option \<Rightarrow> script_text \<Rightarrow> profile_cache \<Rightarrow> string list res \<times> profile_cache" where
  "current_valid_profiles mtime txt cache =
     (case mtime of
        None \<Rightarrow> (Inr fallback_profiles, cache)
      | Some m \<Rightarrow>
          if pc_key cache = Some m then (Inr (pc_profiles cache), cache)
          else (case discover_profiles txt of
                  Inl e \<Rightarrow> (Inl e, cache)
                | Inr ps \<Rightarrow> (Inr (ps @ fallback_profiles), \<lparr>pc_key = Some m, pc_profiles = ps @ fallback_profiles\<rparr>)))"

section \<open>Requests\<close>

text \<open>\<^verbatim>\<open>hmac.compare_digest\<close> of two texts raises when either leaves ASCII.\<close>

definition is_ascii :: "string \<Rightarrow> bool" where
  "is_ascii s = list_all (\<lambda>c. cp c < 128) s"

definition compare_digest :: "string \<Rightarrow> string \<Rightarrow> bool res" where
  "compare_digest a b = (if is_ascii a \<and> is_ascii b then Inr (a = b) else Inl TypeError)"

definition authorized :: "string \<Rightarrow> string option \<Rightarrow> bool res" where
  "authorized key auth =
     (if key = [] then Inr False
      else case auth of
             None \<Rightarrow> Inr False
           | Some a \<Rightarrow> if startswith a ''Bearer '' then compare_digest (strip (drop 7 a)) key else Inr False)"

text \<open>A request: its path, its \<open>profile\<close> arguments and its header; what it finds on the disk.\<close>

record swap_rq =
  sr_path :: string
  sr_profiles :: "string list"
  sr_auth :: "string option"
  sr_mtime :: "int option"
  sr_script :: script_text

datatype verdict = Refused int pydict | RunSwap string | Broken exn

definition error_only :: "string \<Rightarrow> pydict" where
  "error_only e = [(PStr ''error'', PStr e)]"

definition wanted_profile :: "swap_rq \<Rightarrow> string" where
  "wanted_profile rq = (case sr_profiles rq of [] \<Rightarrow> [] | p # _ \<Rightarrow> strip p)"

text \<open>
  \<open>do_POST\<close> up to the run: the verdict and the cache. \<open>held\<close> is the single-flight lock.
\<close>

definition decide :: "string \<Rightarrow> bool \<Rightarrow> swap_rq \<Rightarrow> profile_cache \<Rightarrow> verdict \<times> profile_cache" where
  "decide key held rq cache =
     (if sr_path rq \<noteq> ''/swap'' then (Refused 404 (error_only ''not_found''), cache)
      else if key = [] then (Refused 503 (error_only ''SWAP_WEBHOOK_KEY not configured''), cache)
      else if authorized key (sr_auth rq) = Inl TypeError then (Broken TypeError, cache)
      else if authorized key (sr_auth rq) \<noteq> Inr True then (Refused 401 (error_only ''unauthorized''), cache)
      else case current_valid_profiles (sr_mtime rq) (sr_script rq) cache of
             (Inl e, cache') \<Rightarrow> (Broken e, cache')
           | (Inr valid, cache') \<Rightarrow>
               if wanted_profile rq \<notin> set valid
               then (Refused 400 [(PStr ''error'', PStr ''unknown_profile''),
                                  (PStr ''profile'', PStr (wanted_profile rq)),
                                  (PStr ''valid'', PList (map PStr (sort (remdups valid))))], cache')
               else if held
               then (Refused 409 [(PStr ''error'', PStr ''swap_in_progress''),
                                  (PStr ''message'', PStr ''another swap is already running; retry shortly'')], cache')
               else (RunSwap (wanted_profile rq), cache'))"

text \<open>How the script ends, and the answer.\<close>

datatype swap_end = Ended int string string | TimedOut | Failed string

definition last_chars :: "nat \<Rightarrow> string \<Rightarrow> string" where
  "last_chars n s = drop (length s - n) s"

definition swap_answer :: "nat \<Rightarrow> string \<Rightarrow> swap_end \<Rightarrow> int \<times> pydict" where
  "swap_answer timeout profile e =
     (case e of
        TimedOut \<Rightarrow>
          (500, [(PStr ''error'', PStr ''swap_timeout''), (PStr ''profile'', PStr profile),
                 (PStr ''message'', PStr (''swap-chat-model.sh did not finish within '' @ show_nat timeout @ ''s''))])
      | Failed msg \<Rightarrow> (500, [(PStr ''error'', PStr ''swap_exception''), (PStr ''message'', PStr msg)])
      | Ended rc out err \<Rightarrow>
          if rc = 0
          then (200, [(PStr ''ok'', PBool True), (PStr ''profile'', PStr profile),
                      (PStr ''output'', PStr (last_chars 2000 out))])
          else (500, [(PStr ''error'', PStr ''swap_failed''), (PStr ''profile'', PStr profile),
                      (PStr ''returncode'', PInt rc), (PStr ''output'', PStr (last_chars 2000 (out @ err)))]))"

definition healthz :: "string \<Rightarrow> bool \<Rightarrow> int \<times> pydict" where
  "healthz path held =
     (if path = ''/healthz'' then (200, [(PStr ''ok'', PBool True), (PStr ''lock_held'', PBool held)])
      else (404, error_only ''not_found''))"

section \<open>The server\<close>

text \<open>
  The threads of the server. A request either is answered at once or, with the lock, starts the script
  under its number; the script ends at any time, however, and the lock is given back.
\<close>

record server =
  sv_cache :: profile_cache
  sv_lock :: bool
  sv_running :: "(nat \<times> string) list"
  sv_answers :: "(nat \<times> int \<times> pydict) list"
  sv_seen :: "(nat \<times> swap_rq) list"

text \<open>\<open>sv_seen\<close> records the requests decided, for the properties only.\<close>

definition server_start :: server where
  "server_start = \<lparr>sv_cache = cache_start, sv_lock = False, sv_running = [], sv_answers = [], sv_seen = []\<rparr>"

inductive server_step :: "string \<Rightarrow> nat \<Rightarrow> server \<Rightarrow> server \<Rightarrow> bool" for key timeout where
  answered:
    "decide key (sv_lock s) rq (sv_cache s) = (Refused status body, cache) \<Longrightarrow>
     server_step key timeout s
       (s\<lparr>sv_cache := cache, sv_answers := (i, status, body) # sv_answers s, sv_seen := (i, rq) # sv_seen s\<rparr>)"
| crashed:
    "decide key (sv_lock s) rq (sv_cache s) = (Broken e, cache) \<Longrightarrow>
     server_step key timeout s (s\<lparr>sv_cache := cache, sv_seen := (i, rq) # sv_seen s\<rparr>)"
| started:
    "decide key (sv_lock s) rq (sv_cache s) = (RunSwap profile, cache) \<Longrightarrow>
     server_step key timeout s
       (s\<lparr>sv_cache := cache, sv_lock := True, sv_running := (i, profile) # sv_running s, sv_seen := (i, rq) # sv_seen s\<rparr>)"
| ended:
    "sv_running s = us @ (i, profile) # vs \<Longrightarrow> swap_answer timeout profile e = (status, body) \<Longrightarrow>
     server_step key timeout s
       (s\<lparr>sv_lock := False, sv_running := us @ vs, sv_answers := (i, status, body) # sv_answers s\<rparr>)"

inductive_cases server_stepE: "server_step key timeout s t"

section \<open>What is run\<close>

text \<open>A name some request found listed in the script.\<close>

definition listed :: "(nat \<times> swap_rq) list \<Rightarrow> string \<Rightarrow> bool" where
  "listed seen p \<longleftrightarrow>
     p \<in> set fallback_profiles \<or>
     (\<exists>(i, rq) \<in> set seen. \<exists>l \<in> set (fst (sr_script rq)). startswith l names_prefix \<and> p \<in> set (line_profiles l))"

definition entitled :: "string \<Rightarrow> (nat \<times> swap_rq) list \<Rightarrow> nat \<times> string \<Rightarrow> bool" where
  "entitled key seen run \<longleftrightarrow>
     listed seen (snd run) \<and>
     (\<exists>rq a. (fst run, rq) \<in> set seen \<and> wanted_profile rq = snd run \<and> sr_path rq = ''/swap'' \<and>
        key \<noteq> [] \<and> sr_auth rq = Some (''Bearer '' @ a) \<and> strip a = key)"

definition server_ok :: "string \<Rightarrow> server \<Rightarrow> bool" where
  "server_ok key s =
     (length (sv_running s) \<le> 1 \<and> (sv_lock s \<longleftrightarrow> sv_running s \<noteq> []) \<and>
      list_all (entitled key (sv_seen s)) (sv_running s) \<and> list_all (listed (sv_seen s)) (pc_profiles (sv_cache s)))"

lemma listed_mono: "listed seen p \<Longrightarrow> listed (x # seen) p"
  by (auto simp: listed_def)

lemma entitled_mono: "entitled key seen run \<Longrightarrow> entitled key (x # seen) run"
  by (auto simp: entitled_def intro: listed_mono)

lemma discover_lines_listed:
  "discover_lines ls err = Inr ps \<Longrightarrow> p \<in> set ps \<Longrightarrow>
   p \<in> set fallback_profiles \<or> (\<exists>l \<in> set ls. startswith l names_prefix \<and> p \<in> set (line_profiles l))"
  by (induction ls err rule: discover_lines.induct) (auto split: if_splits)

lemma valid_listed:
  assumes "current_valid_profiles (sr_mtime rq) (sr_script rq) cache = (r, cache')"
    and "list_all (listed seen) (pc_profiles cache)"
  shows "list_all (listed ((i, rq) # seen)) (pc_profiles cache')"
    and "r = Inr ps \<Longrightarrow> p \<in> set ps \<Longrightarrow> listed ((i, rq) # seen) p"
proof -
  have fb: "listed xs p" if "p \<in> set fallback_profiles" for xs p
    using that by (simp add: listed_def)
  have old: "listed ((i, rq) # seen) p" if "p \<in> set (pc_profiles cache)" for p
    using assms(2) that listed_mono by (auto simp: list_all_iff)
  have new: "listed ((i, rq) # seen) p" if "discover_profiles (sr_script rq) = Inr ps" "p \<in> set ps" for ps p
    using discover_lines_listed [of "fst (sr_script rq)" "snd (sr_script rq)" ps p] that
    by (auto simp: discover_profiles_def listed_def)
  show "list_all (listed ((i, rq) # seen)) (pc_profiles cache')"
    using assms(1) fb old new
    by (auto simp: current_valid_profiles_def list_all_iff split: option.splits if_splits sum.splits)
  show "r = Inr ps \<Longrightarrow> p \<in> set ps \<Longrightarrow> listed ((i, rq) # seen) p"
    using assms(1) fb old new
    by (auto simp: current_valid_profiles_def split: option.splits if_splits sum.splits)
qed

lemma authorized_True:
  assumes "authorized key auth = Inr True"
  shows "key \<noteq> [] \<and> (\<exists>a. auth = Some (''Bearer '' @ a) \<and> strip a = key)"
proof -
  from assms obtain x where x: "auth = Some x" "startswith x ''Bearer ''" "strip (drop 7 x) = key" "key \<noteq> []"
    by (auto simp: authorized_def compare_digest_def split: if_splits option.splits)
  have "x = take 7 x @ drop 7 x" by simp
  also have "take 7 x = ''Bearer ''" using x(2) by (simp add: numeral_eq_Suc)
  finally show ?thesis using x by blast
qed

lemma decide_ok:
  assumes "decide key held rq cache = (v, cache')" and "list_all (listed seen) (pc_profiles cache)"
  shows "list_all (listed ((i, rq) # seen)) (pc_profiles cache')"
    and "v = RunSwap p \<Longrightarrow> \<not> held \<and> entitled key ((i, rq) # seen) (i, p)"
proof -
  obtain r c where v: "current_valid_profiles (sr_mtime rq) (sr_script rq) cache = (r, c)" by fastforce
  have keep: "list_all (listed ((i, rq) # seen)) (pc_profiles cache)"
    using assms(2) listed_mono by (auto simp: list_all_iff)
  show "list_all (listed ((i, rq) # seen)) (pc_profiles cache')"
    using assms(1) v valid_listed(1) [OF v assms(2)] keep
    by (auto simp: decide_def split: if_splits sum.splits)
  show "\<not> held \<and> entitled key ((i, rq) # seen) (i, p)" if "v = RunSwap p"
  proof -
    from assms(1) that v obtain ps where r: "r = Inr ps" "p \<in> set ps" "wanted_profile rq = p" "\<not> held"
      "sr_path rq = ''/swap''" "authorized key (sr_auth rq) = Inr True"
      by (auto simp: decide_def split: if_splits sum.splits)
    from valid_listed(2) [OF v assms(2) r(1,2)] authorized_True [OF r(6)] r show ?thesis
      by (auto simp: entitled_def)
  qed
qed

lemma server_step_ok:
  assumes "server_step key timeout s t" and "server_ok key s"
  shows "server_ok key t"
  using assms
proof (cases rule: server_step.cases)
  case (answered rq status body cache i)
  from decide_ok(1) [OF answered(2)] assms(2) answered(1) show ?thesis
    by (auto simp: server_ok_def list_all_iff intro: entitled_mono)
next
  case (crashed rq e cache i)
  from decide_ok(1) [OF crashed(2)] assms(2) crashed(1) show ?thesis
    by (auto simp: server_ok_def list_all_iff intro: entitled_mono)
next
  case (started rq profile cache i)
  from assms(2) have seen: "list_all (listed (sv_seen s)) (pc_profiles (sv_cache s))" by (simp add: server_ok_def)
  from decide_ok(2) [OF started(2) seen refl, of i] have "\<not> sv_lock s" "entitled key ((i, rq) # sv_seen s) (i, profile)"
    by auto
  with decide_ok(1) [OF started(2) seen, of i] assms(2) started(1) show ?thesis
    by (auto simp: server_ok_def)
next
  case (ended us i profile vs e status body)
  from assms(2) ended(1,2) show ?thesis by (auto simp: server_ok_def)
qed

text \<open>
  C39: In every state the webhook reaches, with any requests, script texts and ways for the script to
  end, at most one swap script runs, exactly while the lock is held, and it was started for a request
  with the configured key on the swap path, under a profile that is a fallback or that some request
  found listed in the script.
\<close>

theorem webhook_single_entitled_swap:
  assumes "(server_step key timeout)\<^sup>*\<^sup>* server_start s"
  shows "length (sv_running s) \<le> 1 \<and> (sv_lock s \<longleftrightarrow> sv_running s \<noteq> []) \<and>
    list_all (entitled key (sv_seen s)) (sv_running s)"
proof -
  have "server_ok key server_start"
    by (simp add: server_ok_def server_start_def cache_start_def list_all_iff listed_def)
  with assms have "server_ok key s"
    by (induction rule: rtranclp_induct) (auto intro: server_step_ok)
  then show ?thesis by (simp add: server_ok_def)
qed

definition sample_rq :: swap_rq where
  "sample_rq = \<lparr>sr_path = ''/swap'', sr_profiles = [''big''], sr_auth = Some ''Bearer k'', sr_mtime = Some 1,
     sr_script = ([''#!/bin/bash'', ''PROFILE_NAMES=(small big)''], None)\<rparr>"

lemma webhook_single_entitled_swap_witness:
  "\<exists>s :: server. sv_running s = [(7, ''big'')] \<and> sv_lock s \<and> length (sv_running s) \<le> 1 \<and>
     list_all (entitled ''k'' (sv_seen s)) (sv_running s)"
proof -
  let ?ps = "[''small'', ''big''] @ fallback_profiles"
  have line: "line_profiles ''PROFILE_NAMES=(small big)'' = [''small'', ''big'']"
    by (simp add: line_profiles_def split_ws_def strip_by_def lstrip_by_def rstrip_by_def is_space_def is_quote_def Let_def)
  have "decide ''k'' False sample_rq cache_start = (RunSwap ''big'', \<lparr>pc_key = Some 1, pc_profiles = ?ps\<rparr>)"
    by (simp add: decide_def sample_rq_def authorized_def compare_digest_def is_ascii_def current_valid_profiles_def
        cache_start_def discover_profiles_def names_prefix_def line wanted_profile_def
        strip_by_def lstrip_by_def rstrip_by_def is_space_def)
  then have step: "server_step ''k'' 60 server_start
      (server_start\<lparr>sv_cache := \<lparr>pc_key = Some 1, pc_profiles = ?ps\<rparr>, sv_lock := True,
         sv_running := [(7, ''big'')], sv_seen := [(7, sample_rq)]\<rparr>)"
    using started [of "''k''" server_start sample_rq "''big''" _ 60 7] by (simp add: server_start_def)
  let ?t = "server_start\<lparr>sv_cache := \<lparr>pc_key = Some 1, pc_profiles = ?ps\<rparr>, sv_lock := True,
         sv_running := [(7, ''big'')], sv_seen := [(7, sample_rq)]\<rparr>"
  from webhook_single_entitled_swap [OF r_into_rtranclp, OF step]
  have "sv_running ?t = [(7, ''big'')] \<and> sv_lock ?t \<and> length (sv_running ?t) \<le> 1 \<and>
      list_all (entitled ''k'' (sv_seen ?t)) (sv_running ?t)" by simp
  then show ?thesis by (rule exI [of _ ?t])
qed

end
