(* ===== verification/WfLoops.thy ===== *)
theory WfLoops
  imports PyVal
begin

text \<open>
  The loop metric of the workforce harness, \<^verbatim>\<open>scripts/tools/workforce/loops.py\<close>: the tool calls of a
  session or of its captured events, and the episodes of repeated calls among them. The JSON parser and
  the canonical text of the arguments are parameters. The loop that counts repetitions need not end in
  general, so it is a partial function; that it ends where the scan calls it is proved.
\<close>

section \<open>Tool calls\<close>

record tool_call =
  tc_tool :: pyval
  tc_input :: pyval
  tc_status :: pyval

definition or_dict :: "pyval \<Rightarrow> pyval" where
  "or_dict v = (if truthy v then v else PDict [])"

definition get_of :: "pyval \<Rightarrow> string \<Rightarrow> pyval \<Rightarrow> pyval res" where
  "get_of v k v0 = (case v of PDict d \<Rightarrow> Inr (dget_or d k v0) | _ \<Rightarrow> Inl AttributeError)"

fun iter_of :: "pyval \<Rightarrow> pyval list res" where
  "iter_of (PList xs) = Inr xs"
| "iter_of (PStr s) = Inr (map (\<lambda>c. PStr [c]) s)"
| "iter_of (PDict d) = Inr (map fst d)"
| "iter_of _ = Inl TypeError"

text \<open>\<^verbatim>\<open>st.get("input") or {}\<close> and the other fields of a tool part.\<close>

definition call_of :: "pyval \<Rightarrow> tool_call res" where
  "call_of part =
     bind_res (get_of part ''state'' PNone) (\<lambda>s.
     bind_res (get_of part ''tool'' PNone) (\<lambda>tool.
     bind_res (get_of (or_dict s) ''input'' PNone) (\<lambda>inp.
     bind_res (get_of (or_dict s) ''status'' PNone) (\<lambda>status.
       Inr \<lparr>tc_tool = tool, tc_input = or_dict inp, tc_status = status\<rparr>))))"

definition part_calls :: "pyval \<Rightarrow> tool_call list res" where
  "part_calls part =
     bind_res (get_of part ''type'' PNone) (\<lambda>t.
       if t = PStr ''tool'' then bind_res (call_of part) (\<lambda>c. Inr [c]) else Inr [])"

definition message_calls :: "pyval \<Rightarrow> tool_call list res" where
  "message_calls msg =
     bind_res (get_of msg ''parts'' (PList [])) (\<lambda>ps.
     bind_res (iter_of ps) (\<lambda>xs. bind_res (map_res part_calls xs) (\<lambda>css. Inr (concat css))))"

definition tool_calls :: "pyval \<Rightarrow> tool_call list res" where
  "tool_calls export =
     bind_res (get_of export ''messages'' (PList [])) (\<lambda>ms.
     bind_res (iter_of ms) (\<lambda>xs. bind_res (map_res message_calls xs) (\<lambda>css. Inr (concat css))))"

text \<open>A captured event: a line that is no JSON is skipped, one that is JSON but no object raises.\<close>

definition event_calls :: "(string \<Rightarrow> pyval option) \<Rightarrow> string \<Rightarrow> tool_call list res" where
  "event_calls parse line =
     (case parse line of
        None \<Rightarrow> Inr []
      | Some ev \<Rightarrow>
          bind_res (get_of ev ''type'' PNone) (\<lambda>t.
            if t = PStr ''tool_use''
            then bind_res (get_of ev ''part'' PNone) (\<lambda>part. bind_res (call_of (or_dict part)) (\<lambda>c. Inr [c]))
            else Inr []))"

definition tool_calls_from_events :: "(string \<Rightarrow> pyval option) \<Rightarrow> string \<Rightarrow> tool_call list res" where
  "tool_calls_from_events parse txt =
     bind_res (map_res (event_calls parse) (splitlines txt)) (\<lambda>css. Inr (concat css))"

definition event_step :: "(string \<Rightarrow> pyval option) \<Rightarrow> string \<Rightarrow> nat res" where
  "event_step parse line =
     (case parse line of
        None \<Rightarrow> Inr 0
      | Some ev \<Rightarrow> bind_res (get_of ev ''type'' PNone) (\<lambda>t. Inr (of_bool (t = PStr ''step_start''))))"

definition steps_from_events :: "(string \<Rightarrow> pyval option) \<Rightarrow> string \<Rightarrow> nat res" where
  "steps_from_events parse txt =
     bind_res (map_res (event_step parse) (splitlines txt)) (\<lambda>ns. Inr (sum_list ns))"

section \<open>Episodes\<close>

definition call_key :: "(pyval \<Rightarrow> string) \<Rightarrow> tool_call \<Rightarrow> pyval \<times> string" where
  "call_key dumps c = (tc_tool c, dumps (tc_input c))"

text \<open>\<^verbatim>\<open>keys[i:i+p]\<close>\<close>

definition slice :: "'k list \<Rightarrow> nat \<Rightarrow> nat \<Rightarrow> 'k list" where
  "slice keys i p = take p (drop i keys)"

partial_function (option) reps_loop :: "'k list \<Rightarrow> 'k list \<Rightarrow> nat \<Rightarrow> nat \<Rightarrow> nat \<Rightarrow> nat option" where
  "reps_loop keys block i p n =
     (if slice keys (i + n * p) p = block then reps_loop keys block i p (n + 1) else Some n)"

definition reps :: "'k list \<Rightarrow> nat \<Rightarrow> nat \<Rightarrow> nat option" where
  "reps keys i p = reps_loop keys (slice keys i p) i p 1"

definition min_reps :: nat where
  "min_reps = 3"

definition max_period :: nat where
  "max_period = 4"

record episode =
  ep_start :: nat
  ep_length :: nat
  ep_period :: nat

text \<open>An episode of period one is a repeat, any other a cycle.\<close>

definition ep_kind :: "episode \<Rightarrow> string" where
  "ep_kind e = (if ep_period e = 1 then ''repeat'' else ''cycle'')"

text \<open>The inner loop over the periods: None if a count does not end.\<close>

fun first_period :: "'k list \<Rightarrow> nat \<Rightarrow> nat list \<Rightarrow> (nat \<times> nat) option option" where
  "first_period keys i [] = Some None"
| "first_period keys i (p # ps) =
     (if i + p > length keys then first_period keys i ps
      else case reps keys i p of
             None \<Rightarrow> None
           | Some n \<Rightarrow> if n \<ge> min_reps then Some (Some (n, p)) else first_period keys i ps)"

partial_function (option) episodes_from :: "'k list \<Rightarrow> nat \<Rightarrow> episode list option" where
  "episodes_from keys i =
     (if i < length keys
      then Option.bind (reps keys i 1) (\<lambda>n.
        if n \<ge> min_reps
        then Option.bind (episodes_from keys (i + n)) (\<lambda>es.
               Some (\<lparr>ep_start = i, ep_length = n, ep_period = 1\<rparr> # es))
        else Option.bind (first_period keys i [2..<max_period + 1]) (\<lambda>c.
          case c of
            None \<Rightarrow> episodes_from keys (i + 1)
          | Some (m, p) \<Rightarrow>
              Option.bind (episodes_from keys (i + m * p)) (\<lambda>es.
                Some (\<lparr>ep_start = i, ep_length = m * p, ep_period = p\<rparr> # es))))
      else Some [])"

definition episodes :: "(pyval \<Rightarrow> string) \<Rightarrow> tool_call list \<Rightarrow> episode list option" where
  "episodes dumps calls = episodes_from (map (call_key dumps) calls) 0"

record call_summary =
  cs_calls :: nat
  cs_episodes :: nat
  cs_looped :: bool
  cs_detail :: "episode list"

definition summarize_calls :: "(pyval \<Rightarrow> string) \<Rightarrow> tool_call list \<Rightarrow> call_summary option" where
  "summarize_calls dumps calls =
     map_option (\<lambda>eps. \<lparr>cs_calls = length calls, cs_episodes = length eps, cs_looped = (eps \<noteq> []), cs_detail = eps\<rparr>)
       (episodes dumps calls)"

text \<open>\<open>steps_per_turn\<close>\<close>

definition turn_step :: "pyval \<Rightarrow> nat list \<Rightarrow> nat list res" where
  "turn_step msg out =
     bind_res (get_of msg ''info'' PNone) (\<lambda>info.
     bind_res (get_of (or_dict info) ''role'' PNone) (\<lambda>role.
       Inr (if role = PStr ''user'' then out @ [0]
            else if role = PStr ''assistant'' \<and> out \<noteq> [] then butlast out @ [last out + 1] else out)))"

fun turn_steps :: "pyval list \<Rightarrow> nat list \<Rightarrow> nat list res" where
  "turn_steps [] out = Inr out"
| "turn_steps (m # ms) out = bind_res (turn_step m out) (turn_steps ms)"

definition steps_per_turn :: "pyval \<Rightarrow> nat list res" where
  "steps_per_turn export =
     bind_res (get_of export ''messages'' (PList [])) (\<lambda>ms. bind_res (iter_of ms) (\<lambda>xs. turn_steps xs []))"

section \<open>Repetitions\<close>

text \<open>The block of length \<open>p\<close> at \<open>i\<close> stands there \<open>n\<close> times in a row.\<close>

definition repeated :: "'k list \<Rightarrow> nat \<Rightarrow> nat \<Rightarrow> nat \<Rightarrow> bool" where
  "repeated keys i p n \<longleftrightarrow> 0 < p \<and> i + n * p \<le> length keys \<and> (\<forall>j < n. slice keys (i + j * p) p = slice keys i p)"

lemma length_slice: "length (slice keys i p) = min p (length keys - i)"
  by (simp add: slice_def min.commute)

lemma repeated_1: "0 < p \<Longrightarrow> i + p \<le> length keys \<Longrightarrow> repeated keys i p 1"
  by (simp add: repeated_def)

lemma repeated_Suc:
  assumes "repeated keys i p n" and "0 < n"
  shows "slice keys (i + n * p) p = slice keys i p \<longleftrightarrow> repeated keys i p (Suc n)"
proof
  assume eq: "slice keys (i + n * p) p = slice keys i p"
  from assms have "length (slice keys i p) = p"
    by (cases n) (auto simp: repeated_def length_slice)
  with eq have "p \<le> length keys - (i + n * p)" by (metis length_slice min.cobounded2)
  with eq assms show "repeated keys i p (Suc n)"
    by (auto simp: repeated_def less_Suc_eq)
qed (simp add: repeated_def)

lemma reps_loop_spec:
  assumes "repeated keys i p n" and "0 < n"
  shows "\<exists>m. reps_loop keys (slice keys i p) i p n = Some m \<and> n \<le> m \<and> repeated keys i p m \<and> \<not> repeated keys i p (Suc m)"
  using assms
proof (induction "length keys - n * p" arbitrary: n rule: less_induct)
  case less
  show ?case
  proof (cases "repeated keys i p (Suc n)")
    case True
    from True have "0 < p" "Suc n * p \<le> length keys" by (auto simp: repeated_def)
    then have "length keys - Suc n * p < length keys - n * p" by auto
    from less.hyps [OF this True] obtain m where
      "reps_loop keys (slice keys i p) i p (Suc n) = Some m" "Suc n \<le> m" "repeated keys i p m" "\<not> repeated keys i p (Suc m)"
      by auto
    with repeated_Suc [OF less.prems] True show ?thesis
      by (subst reps_loop.simps) auto
  next
    case False
    with repeated_Suc [OF less.prems] less.prems show ?thesis
      by (subst reps_loop.simps) auto
  qed
qed

lemma repeated_mono: "repeated keys i p n \<Longrightarrow> m \<le> n \<Longrightarrow> repeated keys i p m"
proof -
  assume r: "repeated keys i p n" and le: "m \<le> n"
  from le have "m * p \<le> n * p" by simp
  with r have "i + m * p \<le> length keys" unfolding repeated_def by linarith
  with r le show ?thesis unfolding repeated_def by auto
qed

text \<open>Where the scan counts, the count ends, and is the largest number of repetitions.\<close>

lemma reps_spec:
  assumes "0 < p" "i + p \<le> length keys"
  shows "\<exists>n. reps keys i p = Some n \<and> 1 \<le> n \<and> (\<forall>m. repeated keys i p m \<longleftrightarrow> m \<le> n)"
proof -
  from reps_loop_spec [OF repeated_1 [OF assms]] obtain n where
    n: "reps_loop keys (slice keys i p) i p 1 = Some n" "1 \<le> n" "repeated keys i p n" "\<not> repeated keys i p (Suc n)"
    by auto
  from n(3,4) have "repeated keys i p m \<longleftrightarrow> m \<le> n" for m
    using repeated_mono [of keys i p] not_less_eq_eq by blast
  with n show ?thesis by (auto simp: reps_def)
qed

lemma first_period_spec:
  assumes "list_all ((<) 0) ps"
  shows "first_period keys i ps = Some None \<and> list_all (\<lambda>p. \<not> repeated keys i p min_reps) ps \<or>
    (\<exists>n p. first_period keys i ps = Some (Some (n, p)) \<and> p \<in> set ps \<and> min_reps \<le> n \<and> (\<forall>m. repeated keys i p m \<longleftrightarrow> m \<le> n))"
  using assms
proof (induction ps)
  case (Cons p ps)
  show ?case
  proof (cases "i + p > length keys")
    case True
    then have "\<not> repeated keys i p min_reps" by (auto simp: repeated_def min_reps_def)
    with Cons True show ?thesis by auto
  next
    case False
    with Cons.prems reps_spec [of p i keys] obtain n where
      n: "reps keys i p = Some n" "\<forall>m. repeated keys i p m \<longleftrightarrow> m \<le> n" by auto
    with Cons False show ?thesis by (cases "n \<ge> min_reps") auto
  qed
qed simp

text \<open>
  What the scan promises: an episode is a block of at most four calls, repeated at least three times and
  as often as it goes; episodes follow each other without overlap; and where none begins, none of the
  periods repeats three times.
\<close>

fun scanned :: "'k list \<Rightarrow> nat \<Rightarrow> episode list \<Rightarrow> bool" where
  "scanned keys i [] = (\<forall>j p. i \<le> j \<longrightarrow> p \<in> {1..max_period} \<longrightarrow> \<not> repeated keys j p min_reps)"
| "scanned keys i (e # es) =
     (i \<le> ep_start e \<and> ep_period e \<in> {1..max_period} \<and>
      (\<exists>n. ep_length e = n * ep_period e \<and> min_reps \<le> n \<and> (\<forall>m. repeated keys (ep_start e) (ep_period e) m \<longleftrightarrow> m \<le> n)) \<and>
      (\<forall>j p. i \<le> j \<longrightarrow> j < ep_start e \<longrightarrow> p \<in> {1..max_period} \<longrightarrow> \<not> repeated keys j p min_reps) \<and>
      scanned keys (ep_start e + ep_length e) es)"

lemma scanned_later:
  assumes "scanned keys (Suc i) es" and "\<And>p. p \<in> {1..max_period} \<Longrightarrow> \<not> repeated keys i p min_reps"
  shows "scanned keys i es"
proof -
  have split: "i \<le> j \<longleftrightarrow> j = i \<or> Suc i \<le> j" for j by auto
  show ?thesis using assms by (cases es) (auto simp: split)
qed

lemma episodes_from_spec: "\<exists>es. episodes_from keys i = Some es \<and> scanned keys i es"
proof (induction "length keys - i" arbitrary: i rule: less_induct)
  case less
  show ?case
  proof (cases "i < length keys")
    case False
    then have "\<not> repeated keys j p min_reps" if "i \<le> j" "p \<in> {1..max_period}" for j p
      using that by (auto simp: repeated_def min_reps_def)
    with False show ?thesis by (subst episodes_from.simps) auto
  next
    case True
    from reps_spec [of 1 i keys] True obtain n where
      n: "reps keys i 1 = Some n" "1 \<le> n" "\<forall>m. repeated keys i 1 m \<longleftrightarrow> m \<le> n" by auto
    show ?thesis
    proof (cases "n \<ge> min_reps")
      case long: True
      then have "length keys - (i + n) < length keys - i" using True by (auto simp: min_reps_def)
      from less [OF this] obtain es where "episodes_from keys (i + n) = Some es" "scanned keys (i + n) es" by auto
      with n long True show ?thesis
        by (subst episodes_from.simps) (auto simp: max_period_def)
    next
      case short: False
      have "list_all ((<) 0) [2..<max_period + 1]" by (auto simp: list_all_iff)
      from first_period_spec [OF this, of keys i] show ?thesis
      proof
        assume none: "first_period keys i [2..<max_period + 1] = Some None \<and>
            list_all (\<lambda>p. \<not> repeated keys i p min_reps) [2..<max_period + 1]"
        have "length keys - (i + 1) < length keys - i" using True by auto
        from less [OF this] obtain es where es: "episodes_from keys (i + 1) = Some es" "scanned keys (Suc i) es" by auto
        have "\<not> repeated keys i p min_reps" if "p \<in> {1..max_period}" for p
        proof (cases "p = 1")
          case False
          with that have "p \<in> set [2..<max_period + 1]" by auto
          with none show ?thesis unfolding list_all_iff by blast
        qed (use n(3) short in auto)
        from scanned_later [OF es(2) this] es(1) none n short True show ?thesis
          by (subst episodes_from.simps) simp
      next
        assume "\<exists>m p. first_period keys i [2..<max_period + 1] = Some (Some (m, p)) \<and> p \<in> set [2..<max_period + 1] \<and>
            min_reps \<le> m \<and> (\<forall>k. repeated keys i p k \<longleftrightarrow> k \<le> m)"
        then obtain m p where m: "first_period keys i [2..<max_period + 1] = Some (Some (m, p))"
          "p \<in> {2..max_period}" "min_reps \<le> m" "\<forall>k. repeated keys i p k \<longleftrightarrow> k \<le> m" by auto
        then have "0 < m * p" by (auto simp: min_reps_def)
        with True have "length keys - (i + m * p) < length keys - i" by linarith
        from less [OF this] obtain es where "episodes_from keys (i + m * p) = Some es" "scanned keys (i + m * p) es" by auto
        with m n short True show ?thesis by (subst episodes_from.simps) auto
      qed
    qed
  qed
qed


end
