(* ===== verification/WfPipeline.thy ===== *)
theory WfPipeline
  imports WfReview WfLoops "HOL-Library.Multiset"
begin

text \<open>
  The harness pipeline of \<^verbatim>\<open>scripts/tools/workforce/pipeline.py\<close>: one implementer's turn with its retries,
  one review with its verdict and re-read turns, what follows a review, and the threads that hand the
  tasks to each other, as a step relation. What an agent's run returns, the grade of a patch and the
  health of a worker are open in every step; workspaces, packets and files are not part of it.
\<close>

section \<open>One task\<close>

record oc_run =
  oc_rc :: int
  oc_timed_out :: bool
  oc_session :: string
  oc_text :: string

record pipe_limits =
  lm_max_rounds :: nat
  lm_retries :: nat

definition lead :: string where
  "lead = ''lead''"

text \<open>
  The attempts of an implementer's turn: the first run that ends with status 0 or runs out of time
  counts; None when every attempt failed. The result carries the number of failures before it.
\<close>

fun attempts :: "nat \<Rightarrow> nat \<Rightarrow> (nat \<Rightarrow> oc_run) \<Rightarrow> (oc_run \<times> nat) option" where
  "attempts 0 k run = None"
| "attempts (Suc left) k run =
     (if oc_rc (run k) = 0 \<or> oc_timed_out (run k) then Some (run k, k) else attempts left (k + 1) run)"

definition implement_turn :: "pipe_limits \<Rightarrow> (nat \<Rightarrow> oc_run) \<Rightarrow> (oc_run \<times> nat) option" where
  "implement_turn lm run = attempts (lm_retries lm + 1) 0 run"

record review_entry =
  re_lane :: string
  re_verdict :: rverdict
  re_feedback :: string
  re_timed_out :: bool
  re_capped :: bool

record review_cfg =
  rv_enforce_read :: bool
  rv_steps :: nat

definition worker_died :: "string \<Rightarrow> oc_run \<Rightarrow> bool" where
  "worker_died lane r = (lane \<noteq> lead \<and> oc_rc r \<noteq> 0 \<and> \<not> oc_timed_out r)"

text \<open>The verdict turn, if the review gave none and left a session.\<close>

definition verdict_turn :: "string \<Rightarrow> oc_run \<Rightarrow> oc_run \<Rightarrow> int + rverdict \<times> string" where
  "verdict_turn lane r v =
     (if fst (parse_verdict (oc_text r)) = NO_VERDICT \<and> oc_session r \<noteq> []
      then (if worker_died lane v then Inl (oc_rc v) else Inr (parse_verdict (oc_text v)))
      else Inr (parse_verdict (oc_text r)))"

text \<open>The enforced re-read: an answer without a verdict keeps the first one.\<close>

definition reread_turn :: "review_cfg \<Rightarrow> bool \<Rightarrow> oc_run \<Rightarrow> oc_run \<Rightarrow> rverdict \<times> string \<Rightarrow> rverdict \<times> string" where
  "reread_turn cfg inspected r rr vd =
     (if rv_enforce_read cfg \<and> fst vd \<noteq> NO_VERDICT \<and> oc_session r \<noteq> [] \<and> \<not> inspected
         \<and> fst (parse_verdict (oc_text rr)) \<noteq> NO_VERDICT
      then parse_verdict (oc_text rr) else vd)"

text \<open>
  \<open>_review\<close> up to the entry: the runs of the review, the verdict turn and the re-read (used only if they
  happen), the steps of the review and whether it looked at code. \<open>Inl\<close> is a failed worker. The feedback
  handed on is whole; the entry keeps its first 2000 characters.
\<close>

definition review_task :: "review_cfg \<Rightarrow> string \<Rightarrow> oc_run \<Rightarrow> oc_run \<Rightarrow> oc_run \<Rightarrow> nat \<Rightarrow> bool \<Rightarrow> int + review_entry \<times> string" where
  "review_task cfg lane r v rr steps inspected =
     (if worker_died lane r then Inl (oc_rc r)
      else case verdict_turn lane r v of
             Inl rc \<Rightarrow> Inl rc
           | Inr vd0 \<Rightarrow>
               (let vd = reread_turn cfg inspected r rr vd0 in
                Inr (\<lparr>re_lane = lane, re_verdict = fst vd, re_feedback = take 2000 (snd vd),
                      re_timed_out = oc_timed_out r, re_capped = steps \<ge> rv_steps cfg\<rparr>, snd vd)))"

definition looks_at_code :: "tool_call \<Rightarrow> bool" where
  "looks_at_code c =
     (tc_tool c \<in> PStr ` {''read'', ''grep'', ''glob'', ''list'', ''bash''} \<and> tc_status c = PStr ''completed'')"

definition inspected_calls :: "tool_call list \<Rightarrow> bool" where
  "inspected_calls calls = list_ex looks_at_code calls"

record wtask =
  wt_agent :: "string option"
  wt_rounds :: nat
  wt_reviews :: "review_entry list"
  wt_history :: "string list"
  wt_final :: bool
  wt_infra :: nat
  wt_force_lead :: bool

definition new_wtask :: wtask where
  "new_wtask = \<lparr>wt_agent = None, wt_rounds = 0, wt_reviews = [], wt_history = [], wt_final = False, wt_infra = 0,
     wt_force_lead = False\<rparr>"

datatype next_step = Finalize string | ToReview | Rework string | LeadFix

text \<open>What follows a finished turn of the implementer \<open>a\<close>.\<close>

definition after_implement :: "bool \<Rightarrow> string \<Rightarrow> wtask \<Rightarrow> next_step \<times> wtask" where
  "after_implement reviewing a t =
     (let t' = t\<lparr>wt_agent := (if wt_agent t = None then Some a else wt_agent t), wt_rounds := wt_rounds t + 1\<rparr> in
      (if \<not> reviewing then Finalize ''implemented''
       else if wt_final t then Finalize ''reworked-unreviewed''
       else ToReview, t'))"

definition history_line :: "nat \<Rightarrow> review_entry \<Rightarrow> string \<Rightarrow> string" where
  "history_line n e feedback =
     ''Review '' @ show_nat (n + 1) @ '': '' @
     (if re_verdict e = REVISE then ''REVISE: '' @ feedback else ''(no verdict) '' @ take 500 feedback)"

text \<open>What follows a finished review.\<close>

definition after_review :: "pipe_limits \<Rightarrow> nat option \<Rightarrow> review_entry \<times> string \<Rightarrow> wtask \<Rightarrow> next_step \<times> wtask" where
  "after_review lm budget ef t =
     (let e = fst ef; feedback = snd ef;
          t1 = t\<lparr>wt_reviews := wt_reviews t @ [e]\<rparr> in
      if re_verdict e = ACCEPT then (Finalize ''implementer-accepted'', t1)
      else
        (let t2 = t1\<lparr>wt_history := wt_history t @ [history_line (length (wt_reviews t)) e feedback],
                     wt_final := (wt_final t \<or> (\<exists>b. budget = Some b \<and> b \<le> length (wt_reviews t1)))\<rparr> in
         if wt_final t2 \<or> wt_rounds t2 \<le> lm_max_rounds lm
         then (Rework (if re_verdict e = REVISE then feedback
                       else ''The reviewer gave no clear verdict; re-check the request.''), t2)
         else (LeadFix, t2)))"

definition max_review_infra :: nat where
  "max_review_infra = 2"

definition after_worker_failure :: "wtask \<Rightarrow> wtask" where
  "after_worker_failure t =
     t\<lparr>wt_infra := wt_infra t + 1, wt_force_lead := (wt_force_lead t \<or> wt_infra t + 1 \<ge> max_review_infra)\<rparr>"

section \<open>The threads\<close>

record task_record =
  tr_outcome :: string
  tr_grade :: "bool option"
  tr_accepted :: bool
  tr_task :: wtask

definition accepted_outcomes :: "string list" where
  "accepted_outcomes = [''implementer-accepted'', ''lead-fixed'', ''implemented'', ''reworked-unreviewed'']"

definition record_of :: "string \<Rightarrow> bool option \<Rightarrow> wtask \<Rightarrow> task_record" where
  "record_of outcome g t =
     \<lparr>tr_outcome = outcome, tr_grade = g, tr_accepted = (g = Some True \<and> outcome \<in> set accepted_outcomes), tr_task = t\<rparr>"

record pipe_cfg =
  pc_ids :: "string list"
  pc_impls :: "string list"
  pc_lanes :: "(string \<times> string) list"
  pc_review :: bool
  pc_budget :: "nat option"
  pc_limits :: pipe_limits
  pc_rcfg :: review_cfg

text \<open>The checks of the constructor that concern the schedule; a monitor is always there.\<close>

definition pipe_cfg_ok :: "pipe_cfg \<Rightarrow> bool" where
  "pipe_cfg_ok cfg =
     (distinct (pc_ids cfg) \<and> pc_budget cfg \<noteq> Some 0 \<and> (pc_lanes cfg \<noteq> [] \<longrightarrow> pc_budget cfg \<noteq> None))"

definition n_workers :: nat where
  "n_workers = 3"

definition implementers :: "string \<Rightarrow> string list" where
  "implementers arm = map (\<lambda>i. ''impl-'' @ show_nat i) [1..<(if arm = ''T'' then n_workers else 1) + 1]"

text \<open>The review lanes: the workers', if any, and the lead's.\<close>

definition all_lanes :: "pipe_cfg \<Rightarrow> (string \<times> string) list" where
  "all_lanes cfg = (if pc_review cfg then pc_lanes cfg @ [(lead, [])] else [])"

text \<open>
  A task travels with what is known of it: through the queues and the hands of the threads, as the one
  object of the source does.
\<close>

type_synonym item = "string \<times> wtask"

record pipe =
  pp_pending :: "item list"
  pp_rework :: "string \<Rightarrow> (item \<times> string) list"
  pp_leadq :: "item list"
  pp_impl :: "string \<Rightarrow> item option"
  pp_lane :: "string \<Rightarrow> item option"
  pp_up :: "string \<Rightarrow> bool"
  pp_records :: "(string \<times> task_record) list"

definition pipe_start :: "pipe_cfg \<Rightarrow> pipe" where
  "pipe_start cfg =
     \<lparr>pp_pending = map (\<lambda>i. (i, new_wtask)) (pc_ids cfg), pp_rework = (\<lambda>_. []), pp_leadq = [],
      pp_impl = (\<lambda>_. None), pp_lane = (\<lambda>_. None), pp_up = (\<lambda>_. True), pp_records = []\<rparr>"

definition eligible :: "pipe_cfg \<Rightarrow> pipe \<Rightarrow> string \<Rightarrow> string \<Rightarrow> item \<Rightarrow> bool" where
  "eligible cfg s lane url x =
     (if lane = lead then wt_force_lead (snd x) \<or> \<not> list_ex (\<lambda>l. pp_up s (snd l)) (pc_lanes cfg)
      else \<not> wt_force_lead (snd x) \<and> pp_up s url)"

text \<open>\<open>_complete\<close> counts a task once.\<close>

definition complete :: "string \<Rightarrow> task_record \<Rightarrow> pipe \<Rightarrow> pipe" where
  "complete i rec s =
     (if i \<in> fst ` set (pp_records s) then s else s\<lparr>pp_records := pp_records s @ [(i, rec)]\<rparr>)"

definition hand_on :: "string \<Rightarrow> next_step \<Rightarrow> bool option \<Rightarrow> wtask \<Rightarrow> pipe \<Rightarrow> pipe" where
  "hand_on i nx g t s =
     (case nx of
        Finalize outcome \<Rightarrow> complete i (record_of outcome g t) s
      | ToReview \<Rightarrow> s\<lparr>pp_leadq := pp_leadq s @ [(i, t)]\<rparr>
      | Rework feedback \<Rightarrow>
          (case wt_agent t of
             Some a \<Rightarrow> s\<lparr>pp_rework := (pp_rework s)(a := pp_rework s a @ [((i, t), feedback)])\<rparr>
           | None \<Rightarrow> complete i (record_of ''harness-error'' None t) s)
      | LeadFix \<Rightarrow> complete i (record_of ''lead-fixed'' g t) s)"

text \<open>
  The kinds of step: a thread takes a task, finishes with it, dies over it, or the health of the workers
  changes.
\<close>

datatype step_kind = Take | Work | Crash | Health

inductive pipe_step :: "pipe_cfg \<Rightarrow> step_kind \<Rightarrow> pipe \<Rightarrow> pipe \<Rightarrow> bool" for cfg where
  take_rework:
    "a \<in> set (pc_impls cfg) \<Longrightarrow> pp_impl s a = None \<Longrightarrow> pp_rework s a = (x, fb) # r \<Longrightarrow>
     pipe_step cfg Take s (s\<lparr>pp_rework := (pp_rework s)(a := r), pp_impl := (pp_impl s)(a := Some x)\<rparr>)"
| take_new:
    "a \<in> set (pc_impls cfg) \<Longrightarrow> pp_impl s a = None \<Longrightarrow> pp_rework s a = [] \<Longrightarrow> pp_pending s = x # r \<Longrightarrow>
     pipe_step cfg Take s (s\<lparr>pp_pending := r, pp_impl := (pp_impl s)(a := Some x)\<rparr>)"
| implemented:
    "a \<in> set (pc_impls cfg) \<Longrightarrow> pp_impl s a = Some (i, t) \<Longrightarrow> implement_turn (pc_limits cfg) run = Some res \<Longrightarrow>
     after_implement (pc_review cfg) a t = (nx, t') \<Longrightarrow>
     pipe_step cfg Work s (hand_on i nx (Some g) t' (s\<lparr>pp_impl := (pp_impl s)(a := None)\<rparr>))"
| implement_failed:
    "a \<in> set (pc_impls cfg) \<Longrightarrow> pp_impl s a = Some (i, t) \<Longrightarrow> implement_turn (pc_limits cfg) run = None \<Longrightarrow>
     pipe_step cfg Work s
       (complete i (record_of ''infra-error'' None t) (s\<lparr>pp_impl := (pp_impl s)(a := None)\<rparr>))"
| implement_crashed:
    "a \<in> set (pc_impls cfg) \<Longrightarrow> pp_impl s a = Some (i, t) \<Longrightarrow>
     pipe_step cfg Crash s
       (complete i (record_of ''harness-error'' None t) (s\<lparr>pp_impl := (pp_impl s)(a := None)\<rparr>))"
| take_review:
    "(lane, url) \<in> set (all_lanes cfg) \<Longrightarrow> pp_lane s lane = None \<Longrightarrow> pp_leadq s = us @ x # vs \<Longrightarrow>
     \<not> list_ex (eligible cfg s lane url) us \<Longrightarrow> eligible cfg s lane url x \<Longrightarrow>
     pipe_step cfg Take s (s\<lparr>pp_leadq := us @ vs, pp_lane := (pp_lane s)(lane := Some x)\<rparr>)"
| reviewed:
    "(lane, url) \<in> set (all_lanes cfg) \<Longrightarrow> pp_lane s lane = Some (i, t) \<Longrightarrow>
     review_task (pc_rcfg cfg) lane r v rr steps inspected = Inr ef \<Longrightarrow>
     after_review (pc_limits cfg) (pc_budget cfg) ef t = (nx, t') \<Longrightarrow>
     pipe_step cfg Work s (hand_on i nx (Some g) t' (s\<lparr>pp_lane := (pp_lane s)(lane := None)\<rparr>))"
| worker_failed:
    "(lane, url) \<in> set (all_lanes cfg) \<Longrightarrow> pp_lane s lane = Some (i, t) \<Longrightarrow>
     review_task (pc_rcfg cfg) lane r v rr steps inspected = Inl rc \<Longrightarrow>
     pipe_step cfg Work s
       (s\<lparr>pp_lane := (pp_lane s)(lane := None), pp_up := (pp_up s)(url := False),
          pp_leadq := (i, after_worker_failure t) # pp_leadq s\<rparr>)"
| review_crashed:
    "(lane, url) \<in> set (all_lanes cfg) \<Longrightarrow> pp_lane s lane = Some (i, t) \<Longrightarrow>
     pipe_step cfg Crash s
       (complete i (record_of ''harness-error'' None t) (s\<lparr>pp_lane := (pp_lane s)(lane := None)\<rparr>))"
| health_changed: "pipe_step cfg Health s (s\<lparr>pp_up := up\<rparr>)"

text \<open>The states reachable with \<open>n\<close> steps other than changes of health.\<close>

inductive pipe_run :: "pipe_cfg \<Rightarrow> nat \<Rightarrow> pipe \<Rightarrow> bool" for cfg where
  begun: "pipe_run cfg 0 (pipe_start cfg)"
| on: "pipe_run cfg n s \<Longrightarrow> pipe_step cfg k s s' \<Longrightarrow> pipe_run cfg (if k = Health then n else n + 1) s'"

section \<open>No task is lost or counted twice\<close>

definition held :: "('a \<Rightarrow> item option) \<Rightarrow> 'a \<Rightarrow> item list" where
  "held f a = (case f a of None \<Rightarrow> [] | Some x \<Rightarrow> [x])"

lemma held_simps [simp]: "f a = None \<Longrightarrow> held f a = []" "f a = Some x \<Longrightarrow> held f a = [x]"
  by (simp_all add: held_def)

definition open_items :: "pipe_cfg \<Rightarrow> pipe \<Rightarrow> item multiset" where
  "open_items cfg s =
     mset (pp_pending s) + mset (concat (map (\<lambda>a. map fst (pp_rework s a)) (pc_impls cfg))) + mset (pp_leadq s) +
     mset (concat (map (held (pp_impl s)) (pc_impls cfg))) +
     mset (concat (map (\<lambda>l. held (pp_lane s) (fst l)) (all_lanes cfg)))"

definition conserved :: "pipe_cfg \<Rightarrow> pipe \<Rightarrow> bool" where
  "conserved cfg s =
     (image_mset fst (open_items cfg s) + mset (map fst (pp_records s)) = mset (pc_ids cfg))"

definition lanes_ok :: "pipe_cfg \<Rightarrow> bool" where
  "lanes_ok cfg = (distinct (pc_impls cfg) \<and> pc_impls cfg \<noteq> [] \<and> distinct (map fst (pc_lanes cfg)) \<and> lead \<notin> fst ` set (pc_lanes cfg))"

lemma concat_upd:
  assumes "distinct xs" "a \<in> set xs" "\<And>b. b \<in> set xs \<Longrightarrow> b \<noteq> a \<Longrightarrow> h' b = h b"
  shows "mset (concat (map h' xs)) + mset (h a) = mset (concat (map h xs)) + mset (h' a)"
  using assms
proof (induction xs)
  case (Cons x xs)
  show ?case
  proof (cases "x = a")
    case True
    with Cons.prems(1) have "a \<notin> set xs" by simp
    with Cons.prems(3) have eq: "map h' xs = map h xs" by (intro map_cong) auto
    show ?thesis by (simp add: True eq)
  next
    case False
    with Cons show ?thesis by simp
  qed
qed simp

lemma all_lanes_distinct: "lanes_ok cfg \<Longrightarrow> distinct (all_lanes cfg)"
  and all_lanes_inj: "lanes_ok cfg \<Longrightarrow> b \<in> set (all_lanes cfg) \<Longrightarrow> (lane, url) \<in> set (all_lanes cfg) \<Longrightarrow> b \<noteq> (lane, url) \<Longrightarrow> fst b \<noteq> lane"
proof -
  assume ok: "lanes_ok cfg"
  then have d: "distinct (map fst (all_lanes cfg))" by (auto simp: lanes_ok_def all_lanes_def)
  then show "distinct (all_lanes cfg)" by (simp add: distinct_map)
  from d show "b \<in> set (all_lanes cfg) \<Longrightarrow> (lane, url) \<in> set (all_lanes cfg) \<Longrightarrow> b \<noteq> (lane, url) \<Longrightarrow> fst b \<noteq> lane"
    by (auto simp: distinct_map inj_on_def)
qed

text \<open>What each movement does to the open items.\<close>

lemma impl_upd:
  assumes "lanes_ok cfg" "a \<in> set (pc_impls cfg)"
  shows "open_items cfg (s\<lparr>pp_impl := (pp_impl s)(a := o')\<rparr>) + mset (held (pp_impl s) a) =
    open_items cfg s + mset (held (\<lambda>_. o') a)"
proof -
  have "mset (concat (map (held ((pp_impl s)(a := o'))) (pc_impls cfg))) + mset (held (pp_impl s) a) =
      mset (concat (map (held (pp_impl s)) (pc_impls cfg))) + mset (held ((pp_impl s)(a := o')) a)"
    using assms by (intro concat_upd) (auto simp: lanes_ok_def held_def)
  then show ?thesis by (simp add: open_items_def held_def ac_simps)
qed

lemma lane_upd:
  assumes "lanes_ok cfg" "(lane, url) \<in> set (all_lanes cfg)"
  shows "open_items cfg (s\<lparr>pp_lane := (pp_lane s)(lane := o')\<rparr>) + mset (held (pp_lane s) lane) =
    open_items cfg s + mset (held (\<lambda>_. o') lane)"
proof -
  have "mset (concat (map (\<lambda>l. held ((pp_lane s)(lane := o')) (fst l)) (all_lanes cfg))) + mset (held (pp_lane s) (fst (lane, url))) =
      mset (concat (map (\<lambda>l. held (pp_lane s) (fst l)) (all_lanes cfg))) + mset (held ((pp_lane s)(lane := o')) (fst (lane, url)))"
    using assms all_lanes_distinct [OF assms(1)] all_lanes_inj [OF assms(1)]
    by (intro concat_upd) (auto simp: held_def)
  then show ?thesis by (simp add: open_items_def held_def ac_simps)
qed

lemma rework_upd:
  assumes "lanes_ok cfg" "a \<in> set (pc_impls cfg)"
  shows "open_items cfg (s\<lparr>pp_rework := (pp_rework s)(a := q)\<rparr>) + mset (map fst (pp_rework s a)) =
    open_items cfg s + mset (map fst q)"
proof -
  have "mset (concat (map (\<lambda>b. map fst (((pp_rework s)(a := q)) b)) (pc_impls cfg))) + mset (map fst (pp_rework s a)) =
      mset (concat (map (\<lambda>b. map fst (pp_rework s b)) (pc_impls cfg))) + mset (map fst (((pp_rework s)(a := q)) a))"
    using assms by (intro concat_upd [where h = "\<lambda>b. map fst (pp_rework s b)"]) (auto simp: lanes_ok_def)
  then show ?thesis by (simp add: open_items_def ac_simps)
qed

lemma open_items_up [simp]: "open_items cfg (s\<lparr>pp_up := up\<rparr>) = open_items cfg s"
  and open_items_records [simp]: "open_items cfg (s\<lparr>pp_records := rs\<rparr>) = open_items cfg s"
  and open_items_leadq: "open_items cfg (s\<lparr>pp_leadq := q\<rparr>) + mset (pp_leadq s) = open_items cfg s + mset q"
  and open_items_pending: "open_items cfg (s\<lparr>pp_pending := q\<rparr>) + mset (pp_pending s) = open_items cfg s + mset q"
  by (simp_all add: open_items_def)

lemma impl_free:
  "lanes_ok cfg \<Longrightarrow> a \<in> set (pc_impls cfg) \<Longrightarrow> pp_impl s a = Some x \<Longrightarrow>
   open_items cfg s = add_mset x (open_items cfg (s\<lparr>pp_impl := (pp_impl s)(a := None)\<rparr>))"
  using impl_upd [of cfg a s None] by simp

lemma lane_free:
  "lanes_ok cfg \<Longrightarrow> (lane, url) \<in> set (all_lanes cfg) \<Longrightarrow> pp_lane s lane = Some x \<Longrightarrow>
   open_items cfg s = add_mset x (open_items cfg (s\<lparr>pp_lane := (pp_lane s)(lane := None)\<rparr>))"
  using lane_upd [of cfg lane url s None] by simp

lemma open_complete [simp]: "open_items cfg (complete i rec s) = open_items cfg s"
  by (simp add: complete_def)

text \<open>Handing an item on keeps it open or records it.\<close>

lemma open_hand_on:
  assumes "lanes_ok cfg" and "\<And>fb. nx = Rework fb \<Longrightarrow> \<exists>a \<in> set (pc_impls cfg). wt_agent t = Some a"
  shows "open_items cfg (hand_on i nx g t s) =
    open_items cfg s + (case nx of Finalize _ \<Rightarrow> {#} | LeadFix \<Rightarrow> {#} | _ \<Rightarrow> {#(i, t)#})"
proof (cases nx)
  case ToReview
  then show ?thesis using open_items_leadq [where s = s and q = "pp_leadq s @ [(i, t)]"] by (simp add: hand_on_def)
next
  case (Rework fb)
  with assms(2) obtain a where a: "a \<in> set (pc_impls cfg)" "wt_agent t = Some a" by auto
  from rework_upd [OF assms(1) a(1), of s "pp_rework s a @ [((i, t), fb)]"] Rework a show ?thesis
    by (simp add: hand_on_def)
qed (simp_all add: hand_on_def)

lemma records_hand_on:
  assumes "\<And>fb. nx = Rework fb \<Longrightarrow> wt_agent t \<noteq> None"
  shows "map fst (pp_records (hand_on i nx g t s)) =
    map fst (pp_records s) @ (if nx \<in> range Finalize \<union> {LeadFix} \<and> i \<notin> fst ` set (pp_records s) then [i] else [])"
  using assms by (cases nx) (auto simp: hand_on_def complete_def split: option.split)

section \<open>What is known of a task where it is\<close>

text \<open>Whether the review budget is used up.\<close>

definition spent :: "pipe_cfg \<Rightarrow> wtask \<Rightarrow> bool" where
  "spent cfg t = (\<exists>b. pc_budget cfg = Some b \<and> b \<le> length (wt_reviews t))"

definition infra_ok :: "wtask \<Rightarrow> bool" where
  "infra_ok t = (wt_infra t \<le> max_review_infra \<and> (wt_force_lead t \<longleftrightarrow> wt_infra t = max_review_infra))"

definition in_budget :: "pipe_cfg \<Rightarrow> wtask \<Rightarrow> bool" where
  "in_budget cfg t = (\<forall>b. pc_budget cfg = Some b \<longrightarrow> length (wt_reviews t) \<le> b)"

text \<open>Between reviews: with its implementer or on the way there.\<close>

definition idle_ok :: "pipe_cfg \<Rightarrow> wtask \<Rightarrow> bool" where
  "idle_ok cfg t =
     (wt_rounds t = length (wt_reviews t) \<and> (wt_final t \<longleftrightarrow> spent cfg t) \<and> in_budget cfg t \<and> infra_ok t \<and>
      wt_rounds t \<le> lm_max_rounds (pc_limits cfg) + (if wt_final t then 1 else 0) \<and>
      list_all (\<lambda>e. re_verdict e \<noteq> ACCEPT) (wt_reviews t))"

text \<open>Waiting for a review or under one.\<close>

definition review_ok :: "pipe_cfg \<Rightarrow> wtask \<Rightarrow> bool" where
  "review_ok cfg t =
     (wt_rounds t = length (wt_reviews t) + 1 \<and> \<not> wt_final t \<and> \<not> spent cfg t \<and> infra_ok t \<and>
      wt_rounds t \<le> lm_max_rounds (pc_limits cfg) + 1 \<and> (\<exists>a \<in> set (pc_impls cfg). wt_agent t = Some a) \<and>
      list_all (\<lambda>e. re_verdict e \<noteq> ACCEPT) (wt_reviews t))"

text \<open>What a record says of how its task ended.\<close>

definition record_ok :: "pipe_cfg \<Rightarrow> task_record \<Rightarrow> bool" where
  "record_ok cfg r =
     (let t = tr_task r; n = length (wt_reviews t); m = lm_max_rounds (pc_limits cfg) in
      wt_rounds t \<le> m + 2 \<and> n \<le> m + 1 \<and> in_budget cfg t \<and>
      (tr_accepted r \<longrightarrow> tr_grade r = Some True) \<and>
      (tr_outcome r = ''implementer-accepted'' \<longrightarrow> n = wt_rounds t \<and> n \<noteq> 0 \<and> re_verdict (last (wt_reviews t)) = ACCEPT) \<and>
      (tr_outcome r = ''implemented'' \<longrightarrow> \<not> pc_review cfg) \<and>
      (tr_outcome r = ''reworked-unreviewed'' \<longrightarrow> pc_budget cfg = Some n \<and> wt_rounds t = n + 1) \<and>
      (tr_outcome r = ''lead-fixed'' \<longrightarrow> n = m + 1 \<and> (\<forall>b. pc_budget cfg = Some b \<longrightarrow> m + 1 < b)))"

definition held_ok :: "pipe_cfg \<Rightarrow> pipe \<Rightarrow> bool" where
  "held_ok cfg s =
     ((\<forall>x \<in> set (pp_pending s). snd x = new_wtask) \<and>
      (\<forall>a \<in> set (pc_impls cfg). \<forall>y \<in> set (pp_rework s a). idle_ok cfg (snd (fst y)) \<and> wt_agent (snd (fst y)) = Some a) \<and>
      (\<forall>a \<in> set (pc_impls cfg). \<forall>x. pp_impl s a = Some x \<longrightarrow>
         idle_ok cfg (snd x) \<and> wt_agent (snd x) \<in> {None, Some a}) \<and>
      (\<forall>x \<in> set (pp_leadq s). review_ok cfg (snd x)) \<and>
      (\<forall>l \<in> set (all_lanes cfg). \<forall>x. pp_lane s (fst l) = Some x \<longrightarrow>
         review_ok cfg (snd x) \<and> (fst l \<noteq> lead \<longrightarrow> \<not> wt_force_lead (snd x))) \<and>
      (\<forall>ir \<in> set (pp_records s). record_ok cfg (snd ir)) \<and>
      (pc_review cfg \<or> pp_leadq s = []))"

definition pipe_inv :: "pipe_cfg \<Rightarrow> pipe \<Rightarrow> bool" where
  "pipe_inv cfg s = (conserved cfg s \<and> held_ok cfg s)"

lemma new_wtask_ok: "pipe_cfg_ok cfg \<Longrightarrow> idle_ok cfg new_wtask"
  by (auto simp: idle_ok_def new_wtask_def spent_def in_budget_def infra_ok_def max_review_infra_def pipe_cfg_ok_def)

lemma spent_within: "spent cfg t \<Longrightarrow> in_budget cfg t \<Longrightarrow> pc_budget cfg = Some (length (wt_reviews t))"
  by (auto simp: spent_def in_budget_def)

lemma not_spent_within: "\<not> spent cfg t \<Longrightarrow> in_budget cfg t"
  by (auto simp: spent_def in_budget_def)

lemma same_reviews:
  "wt_reviews t' = wt_reviews t \<Longrightarrow> spent cfg t' = spent cfg t \<and> in_budget cfg t' = in_budget cfg t"
  by (simp add: spent_def in_budget_def)

lemma after_implement_ok:
  assumes ok: "idle_ok cfg t" and step: "after_implement (pc_review cfg) a t = (nx, t')" and a: "a \<in> set (pc_impls cfg)"
    and agent: "wt_agent t \<in> {None, Some a}"
  shows "(nx = ToReview \<and> pc_review cfg \<and> review_ok cfg t') \<or>
    (\<exists>o'. nx = Finalize o' \<and> record_ok cfg (record_of o' g t'))"
proof -
  from step have t': "wt_rounds t' = wt_rounds t + 1" "wt_reviews t' = wt_reviews t" "wt_final t' = wt_final t"
    "wt_infra t' = wt_infra t" "wt_force_lead t' = wt_force_lead t" "wt_agent t' = Some a"
    using agent by (auto simp: after_implement_def Let_def split: if_splits)
  have same: "spent cfg t' = spent cfg t" "in_budget cfg t' = in_budget cfg t" using same_reviews [OF t'(2)] by auto
  from ok have n: "wt_rounds t = length (wt_reviews t)" "in_budget cfg t" "infra_ok t" "wt_final t \<longleftrightarrow> spent cfg t"
    "wt_rounds t \<le> lm_max_rounds (pc_limits cfg) + (if wt_final t then 1 else 0)" by (auto simp: idle_ok_def)
  have m: "length (wt_reviews t) \<le> lm_max_rounds (pc_limits cfg) + 1" using n by (auto split: if_splits)
  consider (plain) "\<not> pc_review cfg" | (final) "pc_review cfg" "wt_final t" | (more) "pc_review cfg" "\<not> wt_final t" by blast
  then show ?thesis
  proof cases
    case plain
    with step have "nx = Finalize ''implemented''" by (simp add: after_implement_def Let_def)
    moreover have "record_ok cfg (record_of ''implemented'' g t')"
      using plain m n(1,2) by (simp add: record_ok_def record_of_def t' same Let_def)
    ultimately show ?thesis by blast
  next
    case final
    with step have "nx = Finalize ''reworked-unreviewed''" by (simp add: after_implement_def Let_def)
    moreover have "record_ok cfg (record_of ''reworked-unreviewed'' g t')"
      using final m n spent_within [of cfg t] by (simp add: record_ok_def record_of_def t' same Let_def)
    ultimately show ?thesis by blast
  next
    case more
    with step have "nx = ToReview" by (simp add: after_implement_def Let_def)
    moreover have "review_ok cfg t'"
      using more ok a by (simp add: review_ok_def idle_ok_def t' same infra_ok_def)
    ultimately show ?thesis using more by blast
  qed
qed

lemma record_ok_stopped:
  assumes "wt_rounds t \<le> lm_max_rounds (pc_limits cfg) + 2" "length (wt_reviews t) \<le> lm_max_rounds (pc_limits cfg) + 1"
    "in_budget cfg t" "o' \<in> {''infra-error'', ''harness-error''}"
  shows "record_ok cfg (record_of o' None t)"
  using assms by (auto simp: record_ok_def record_of_def Let_def)

lemma idle_stopped: "idle_ok cfg t \<Longrightarrow> o' \<in> {''infra-error'', ''harness-error''} \<Longrightarrow> record_ok cfg (record_of o' None t)"
  by (rule record_ok_stopped) (auto simp: idle_ok_def split: if_splits)

lemma review_stopped: "review_ok cfg t \<Longrightarrow> o' \<in> {''infra-error'', ''harness-error''} \<Longrightarrow> record_ok cfg (record_of o' None t)"
  by (rule record_ok_stopped) (auto simp: review_ok_def not_spent_within)

lemma after_review_ok:
  assumes ok: "review_ok cfg t" and step: "after_review (pc_limits cfg) (pc_budget cfg) ef t = (nx, t')"
  shows "(\<exists>fb a. nx = Rework fb \<and> idle_ok cfg t' \<and> wt_agent t' = Some a \<and> a \<in> set (pc_impls cfg)) \<or>
    (\<exists>o'. nx = Finalize o' \<and> record_ok cfg (record_of o' g t')) \<or>
    (nx = LeadFix \<and> record_ok cfg (record_of ''lead-fixed'' g t'))"
proof -
  let ?m = "lm_max_rounds (pc_limits cfg)"
  from ok have n: "wt_rounds t = length (wt_reviews t) + 1" "\<not> wt_final t" "\<not> spent cfg t" "infra_ok t" "wt_rounds t \<le> ?m + 1"
    "\<exists>a \<in> set (pc_impls cfg). wt_agent t = Some a" by (auto simp: review_ok_def)
  have w: "b \<ge> length (wt_reviews t) + 1" if "pc_budget cfg = Some b" for b
    using n(3) that by (auto simp: spent_def)
  from step have t': "wt_rounds t' = wt_rounds t" "wt_reviews t' = wt_reviews t @ [fst ef]" "wt_infra t' = wt_infra t"
    "wt_force_lead t' = wt_force_lead t" "wt_agent t' = wt_agent t"
    by (auto simp: after_review_def Let_def split: if_splits)
  have wthn: "in_budget cfg t'" using w by (auto simp: in_budget_def t')
  show ?thesis
  proof (cases "re_verdict (fst ef) = ACCEPT")
    case True
    with step have "nx = Finalize ''implementer-accepted''" by (simp add: after_review_def Let_def)
    moreover have "record_ok cfg (record_of ''implementer-accepted'' g t')"
      using n(1,5) True wthn by (simp add: record_ok_def record_of_def t' Let_def)
    ultimately show ?thesis by blast
  next
    case False
    with step n(2) have f: "wt_final t' = spent cfg t'" and
      nx: "nx = (if spent cfg t' \<or> wt_rounds t \<le> ?m then Rework (if re_verdict (fst ef) = REVISE then snd ef
                       else ''The reviewer gave no clear verdict; re-check the request.'') else LeadFix)"
      by (auto simp: after_review_def Let_def spent_def split: if_splits)
    show ?thesis
    proof (cases "spent cfg t' \<or> wt_rounds t \<le> ?m")
      case True
      have "idle_ok cfg t'"
        using True n(1,4,5) ok False f wthn by (auto simp: idle_ok_def review_ok_def t' infra_ok_def)
      with True nx n(6) t'(5) show ?thesis by auto
    next
      case no: False
      have "record_ok cfg (record_of ''lead-fixed'' g t')"
        using no n(1,5) wthn by (auto simp: record_ok_def record_of_def t' Let_def spent_def)
      with no nx show ?thesis by auto
    qed
  qed
qed

lemma after_worker_failure_ok:
  assumes "review_ok cfg t" "\<not> wt_force_lead t"
  shows "review_ok cfg (after_worker_failure t)"
  using assms
  by (auto simp: review_ok_def after_worker_failure_def infra_ok_def spent_def max_review_infra_def)

section \<open>Every step keeps it\<close>

lemma open_not_recorded:
  assumes "conserved cfg s" "distinct (pc_ids cfg)" "(i, t) \<in># open_items cfg s"
  shows "i \<notin> fst ` set (pp_records s)"
proof
  assume "i \<in> fst ` set (pp_records s)"
  then have "i \<in># mset (map fst (pp_records s))" by simp
  moreover from assms(3) have "i \<in># image_mset fst (open_items cfg s)" by force
  ultimately have "count (mset (map fst (pp_records s))) i > 0" "count (image_mset fst (open_items cfg s)) i > 0"
    by (simp_all only: count_greater_zero_iff)
  moreover have "count (mset (pc_ids cfg)) i =
      count (image_mset fst (open_items cfg s)) i + count (mset (map fst (pp_records s))) i"
    using assms(1) unfolding conserved_def by (metis count_union)
  moreover have "count (mset (pc_ids cfg)) i \<le> 1"
    using assms(2) by (simp add: distinct_count_atmost_1)
  ultimately show False by linarith
qed

lemma complete_records:
  "i \<notin> fst ` set (pp_records s) \<Longrightarrow> pp_records (complete i r s) = pp_records s @ [(i, r)]"
  by (simp add: complete_def)

lemma held_ok_complete:
  "held_ok cfg s \<Longrightarrow> record_ok cfg r \<Longrightarrow> held_ok cfg (complete i r s)"
  by (auto simp: held_ok_def complete_def)

lemma conserved_complete:
  assumes "conserved cfg s" "distinct (pc_ids cfg)" and "open_items cfg s = add_mset (i, t) (open_items cfg s1)"
    and "pp_records s1 = pp_records s"
  shows "conserved cfg (complete i r s1)"
proof -
  have "i \<notin> fst ` set (pp_records s1)"
    using open_not_recorded [OF assms(1,2), of i t] assms(3,4) by simp
  with assms(1,3,4) show ?thesis by (simp add: conserved_def complete_def)
qed

lemma hand_on_inv:
  assumes ok: "lanes_ok cfg" "distinct (pc_ids cfg)" and c: "conserved cfg s" and h: "held_ok cfg s1"
    and o1: "open_items cfg s = add_mset (i, t) (open_items cfg s1)" and r: "pp_records s1 = pp_records s"
    and nx: "(nx = ToReview \<and> pc_review cfg \<and> review_ok cfg t') \<or>
      (\<exists>fb a. nx = Rework fb \<and> idle_ok cfg t' \<and> wt_agent t' = Some a \<and> a \<in> set (pc_impls cfg)) \<or>
      (\<exists>o'. nx = Finalize o' \<and> record_ok cfg (record_of o' g t')) \<or>
      (nx = LeadFix \<and> record_ok cfg (record_of ''lead-fixed'' g t'))"
  shows "pipe_inv cfg (hand_on i nx g t' s1)"
proof -
  consider (rev) "nx = ToReview" "pc_review cfg" "review_ok cfg t'"
    | (rew) fb a where "nx = Rework fb" "idle_ok cfg t'" "wt_agent t' = Some a" "a \<in> set (pc_impls cfg)"
    | (fin) o' where "hand_on i nx g t' s1 = complete i (record_of o' g t') s1" "record_ok cfg (record_of o' g t')"
    using nx by (auto simp: hand_on_def)
  then show ?thesis
  proof cases
    case rev
    with h have "held_ok cfg (hand_on i nx g t' s1)" by (auto simp: hand_on_def held_ok_def)
    moreover have "open_items cfg (hand_on i nx g t' s1) = open_items cfg s1 + {#(i, t')#}"
      using open_hand_on [OF ok(1), of nx t' i g s1] rev by simp
    ultimately show ?thesis using c o1 r rev by (simp add: pipe_inv_def conserved_def hand_on_def)
  next
    case rew
    with h have "held_ok cfg (hand_on i nx g t' s1)" by (auto simp: hand_on_def held_ok_def)
    moreover have "open_items cfg (hand_on i nx g t' s1) = open_items cfg s1 + {#(i, t')#}"
      using open_hand_on [OF ok(1), of nx t' i g s1] rew by auto
    ultimately show ?thesis using c o1 r rew by (simp add: pipe_inv_def conserved_def hand_on_def)
  next
    case fin
    with held_ok_complete [OF h fin(2)] conserved_complete [OF c ok(2) o1 r] show ?thesis
      by (simp add: pipe_inv_def)
  qed
qed

lemma held_ok_impl_None: "held_ok cfg s \<Longrightarrow> held_ok cfg (s\<lparr>pp_impl := (pp_impl s)(a := None)\<rparr>)"
  by (auto simp: held_ok_def)

lemma held_ok_lane_None: "held_ok cfg s \<Longrightarrow> held_ok cfg (s\<lparr>pp_lane := (pp_lane s)(l := None)\<rparr>)"
  by (auto simp: held_ok_def)

lemma open_take:
  assumes "lanes_ok cfg"
  shows "a \<in> set (pc_impls cfg) \<Longrightarrow> pp_impl s a = None \<Longrightarrow> pp_rework s a = y # r \<Longrightarrow>
      open_items cfg (s\<lparr>pp_rework := (pp_rework s)(a := r), pp_impl := (pp_impl s)(a := Some (fst y))\<rparr>) = open_items cfg s"
    and "a \<in> set (pc_impls cfg) \<Longrightarrow> pp_impl s a = None \<Longrightarrow> pp_pending s = x # p \<Longrightarrow>
      open_items cfg (s\<lparr>pp_pending := p, pp_impl := (pp_impl s)(a := Some x)\<rparr>) = open_items cfg s"
    and "(lane, url) \<in> set (all_lanes cfg) \<Longrightarrow> pp_lane s lane = None \<Longrightarrow> pp_leadq s = us @ x # vs \<Longrightarrow>
      open_items cfg (s\<lparr>pp_leadq := us @ vs, pp_lane := (pp_lane s)(lane := Some x)\<rparr>) = open_items cfg s"
proof -
  assume h: "a \<in> set (pc_impls cfg)" "pp_impl s a = None" "pp_rework s a = y # r"
  let ?s = "s\<lparr>pp_rework := (pp_rework s)(a := r)\<rparr>"
  show "open_items cfg (s\<lparr>pp_rework := (pp_rework s)(a := r), pp_impl := (pp_impl s)(a := Some (fst y))\<rparr>) = open_items cfg s"
    using impl_upd [OF assms h(1), of ?s "Some (fst y)"] rework_upd [OF assms h(1), of s r] h by (simp add: held_def)
next
  assume h: "a \<in> set (pc_impls cfg)" "pp_impl s a = None" "pp_pending s = x # p"
  let ?s = "s\<lparr>pp_pending := p\<rparr>"
  show "open_items cfg (s\<lparr>pp_pending := p, pp_impl := (pp_impl s)(a := Some x)\<rparr>) = open_items cfg s"
    using impl_upd [OF assms h(1), of ?s "Some x"] open_items_pending [where s = s and q = p] h by (simp add: held_def)
next
  assume h: "(lane, url) \<in> set (all_lanes cfg)" "pp_lane s lane = None" "pp_leadq s = us @ x # vs"
  let ?s = "s\<lparr>pp_leadq := us @ vs\<rparr>"
  show "open_items cfg (s\<lparr>pp_leadq := us @ vs, pp_lane := (pp_lane s)(lane := Some x)\<rparr>) = open_items cfg s"
    using lane_upd [OF assms h(1), of ?s "Some x"] open_items_leadq [where s = s and q = "us @ vs"] h by (simp add: held_def)
qed

definition cfg_ok :: "pipe_cfg \<Rightarrow> bool" where
  "cfg_ok cfg = (pipe_cfg_ok cfg \<and> lanes_ok cfg)"

lemma review_task_Inl: "review_task cfg lane r v rr steps inspected = Inl rc \<Longrightarrow> lane \<noteq> lead"
  by (auto simp: review_task_def verdict_turn_def worker_died_def Let_def split: if_splits sum.splits)

lemma pipe_step_inv:
  assumes ok: "cfg_ok cfg" and inv: "pipe_inv cfg s" and step: "pipe_step cfg k s s'"
  shows "pipe_inv cfg s'"
proof -
  from ok have l: "lanes_ok cfg" and d: "distinct (pc_ids cfg)" by (auto simp: cfg_ok_def pipe_cfg_ok_def)
  from inv have c: "conserved cfg s" and h: "held_ok cfg s" by (auto simp: pipe_inv_def)
  show ?thesis using step
  proof (cases rule: pipe_step.cases)
    case (take_rework a x fb r)
    have "conserved cfg s'" using open_take(1) [OF l take_rework(3,4,5)] c take_rework(2) by (simp add: conserved_def)
    moreover have "held_ok cfg s'" using h take_rework by (auto simp: held_ok_def)
    ultimately show ?thesis by (simp add: pipe_inv_def)
  next
    case (take_new a x r)
    have "conserved cfg s'" using open_take(2) [OF l take_new(3,4,6)] c take_new(2) by (simp add: conserved_def)
    moreover have "held_ok cfg s'" using h take_new new_wtask_ok [of cfg] ok
      by (auto simp: held_ok_def cfg_ok_def new_wtask_def)
    ultimately show ?thesis by (simp add: pipe_inv_def)
  next
    case (implemented a i t run res nx t' g)
    from h implemented(3,4) have t: "idle_ok cfg t" "wt_agent t \<in> {None, Some a}" by (auto simp: held_ok_def)
    from after_implement_ok [OF t(1) implemented(6,3) t(2), of "Some g"]
    show ?thesis unfolding implemented(2)
      by (intro hand_on_inv [OF l d c held_ok_impl_None [OF h] impl_free [OF l implemented(3,4)]]) auto
  next
    case (implement_failed a i t run)
    from h implement_failed(3,4) have t: "idle_ok cfg t" by (auto simp: held_ok_def)
    show ?thesis unfolding implement_failed(2) pipe_inv_def
      using conserved_complete [OF c d impl_free [OF l implement_failed(3,4)]]
        held_ok_complete [OF held_ok_impl_None [OF h] idle_stopped [OF t]] by simp
  next
    case (implement_crashed a i t)
    from h implement_crashed(3,4) have t: "idle_ok cfg t" by (auto simp: held_ok_def)
    show ?thesis unfolding implement_crashed(2) pipe_inv_def
      using conserved_complete [OF c d impl_free [OF l implement_crashed(3,4)]]
        held_ok_complete [OF held_ok_impl_None [OF h] idle_stopped [OF t]] by simp
  next
    case (take_review lane url us x vs)
    have "conserved cfg s'" using open_take(3) [OF l take_review(3,4,5)] c take_review(2) by (simp add: conserved_def)
    moreover have "held_ok cfg s'" using h take_review by (auto simp: held_ok_def eligible_def)
    ultimately show ?thesis by (simp add: pipe_inv_def)
  next
    case (reviewed lane url i t r v rr steps inspected ef nx t' g)
    from h reviewed(3,4) have t: "review_ok cfg t" by (force simp: held_ok_def)
    from after_review_ok [OF t reviewed(6), of "Some g"]
    show ?thesis unfolding reviewed(2)
      by (intro hand_on_inv [OF l d c held_ok_lane_None [OF h] lane_free [OF l reviewed(3,4)]]) auto
  next
    case (worker_failed lane url i t r v rr steps inspected rc)
    from review_task_Inl [OF worker_failed(5)] have "lane \<noteq> lead" .
    with h worker_failed(3,4) have t: "review_ok cfg t" "\<not> wt_force_lead t" by (force simp: held_ok_def)+
    let ?t = "after_worker_failure t"
    let ?s = "s\<lparr>pp_lane := (pp_lane s)(lane := None)\<rparr>"
    have rev: "pc_review cfg" using worker_failed(3) by (auto simp: all_lanes_def split: if_splits)
    have "held_ok cfg s'"
      using held_ok_lane_None [OF h, of lane] after_worker_failure_ok [OF t] rev worker_failed(2) by (auto simp: held_ok_def)
    moreover have "open_items cfg s' = add_mset (i, ?t) (open_items cfg ?s)"
      using worker_failed(2) by (simp add: open_items_def)
    then have "conserved cfg s'"
      using c lane_free [OF l worker_failed(3,4)] worker_failed(2) by (simp add: conserved_def)
    ultimately show ?thesis by (simp add: pipe_inv_def)
  next
    case (review_crashed lane url i t)
    from h review_crashed(3,4) have t: "review_ok cfg t" by (force simp: held_ok_def)
    show ?thesis unfolding review_crashed(2) pipe_inv_def
      using conserved_complete [OF c d lane_free [OF l review_crashed(3,4)]]
        held_ok_complete [OF held_ok_lane_None [OF h] review_stopped [OF t]] by simp
  next
    case (health_changed up)
    with c h show ?thesis by (simp add: pipe_inv_def conserved_def held_ok_def)
  qed
qed

section \<open>The run ends\<close>

text \<open>
  What a task can still do: rounds, reviews and worker failures are bounded, and every item in a queue
  must be taken once more.
\<close>

definition still :: "pipe_cfg \<Rightarrow> wtask \<Rightarrow> nat" where
  "still cfg t =
     2 * (lm_max_rounds (pc_limits cfg) + 3 - wt_rounds t) + 2 * (lm_max_rounds (pc_limits cfg) + 3 - length (wt_reviews t)) +
     2 * (max_review_infra - wt_infra t) + 2"

definition queued :: "pipe_cfg \<Rightarrow> pipe \<Rightarrow> nat" where
  "queued cfg s =
     length (pp_pending s) + length (concat (map (\<lambda>a. map fst (pp_rework s a)) (pc_impls cfg))) + length (pp_leadq s)"

definition left_to_do :: "pipe_cfg \<Rightarrow> pipe \<Rightarrow> nat" where
  "left_to_do cfg s = (\<Sum>x \<in># open_items cfg s. still cfg (snd x)) + queued cfg s"

lemma queued_rework:
  assumes "lanes_ok cfg" "a \<in> set (pc_impls cfg)"
  shows "queued cfg (s\<lparr>pp_rework := (pp_rework s)(a := q)\<rparr>) + length (pp_rework s a) = queued cfg s + length q"
proof -
  have "mset (concat (map (\<lambda>b. map fst (((pp_rework s)(a := q)) b)) (pc_impls cfg))) + mset (map fst (pp_rework s a)) =
      mset (concat (map (\<lambda>b. map fst (pp_rework s b)) (pc_impls cfg))) + mset (map fst (((pp_rework s)(a := q)) a))"
    using assms by (intro concat_upd [where h = "\<lambda>b. map fst (pp_rework s b)"]) (auto simp: lanes_ok_def)
  from arg_cong [OF this, of size] show ?thesis by (simp add: queued_def)
qed

lemma queued_simps [simp]:
  "queued cfg (s\<lparr>pp_impl := f\<rparr>) = queued cfg s" "queued cfg (s\<lparr>pp_lane := g\<rparr>) = queued cfg s"
  "queued cfg (s\<lparr>pp_up := up\<rparr>) = queued cfg s" "queued cfg (complete i r s) = queued cfg s"
  by (simp_all add: queued_def complete_def)

text \<open>Handing on a task that has less to do than before.\<close>

lemma left_hand_on:
  assumes l: "lanes_ok cfg" and o1: "open_items cfg s = add_mset (i, t) (open_items cfg s1)" and q: "queued cfg s1 = queued cfg s"
    and less: "nx \<in> {ToReview} \<union> range Rework \<Longrightarrow> still cfg t' + 2 \<le> still cfg t"
    and agent: "\<And>fb. nx = Rework fb \<Longrightarrow> \<exists>a \<in> set (pc_impls cfg). wt_agent t' = Some a"
  shows "left_to_do cfg (hand_on i nx g t' s1) < left_to_do cfg s"
proof -
  have o2: "open_items cfg (hand_on i nx g t' s1) =
      open_items cfg s1 + (case nx of Finalize _ \<Rightarrow> {#} | LeadFix \<Rightarrow> {#} | _ \<Rightarrow> {#(i, t')#})"
    by (rule open_hand_on [OF l agent])
  have pos: "0 < still cfg t" by (simp add: still_def)
  show ?thesis
  proof (cases nx)
    case (Finalize o')
    with o1 o2 q pos show ?thesis by (simp add: left_to_do_def hand_on_def)
  next
    case ToReview
    have "queued cfg (hand_on i nx g t' s1) = queued cfg s + 1" using q ToReview by (simp add: hand_on_def queued_def)
    with ToReview o1 o2 less show ?thesis by (simp add: left_to_do_def)
  next
    case (Rework fb)
    with agent obtain a where a: "a \<in> set (pc_impls cfg)" "wt_agent t' = Some a" by auto
    have "queued cfg (hand_on i nx g t' s1) = queued cfg s + 1"
      using queued_rework [OF l a(1), of s1 "pp_rework s1 a @ [((i, t'), fb)]"] Rework a(2) q by (simp add: hand_on_def)
    with Rework o1 o2 less show ?thesis by (simp add: left_to_do_def)
  next
    case LeadFix
    with o1 o2 q pos show ?thesis by (simp add: left_to_do_def hand_on_def)
  qed
qed

lemma left_complete:
  assumes "open_items cfg s = add_mset (i, t) (open_items cfg s1)" "queued cfg s1 = queued cfg s"
  shows "left_to_do cfg (complete i r s1) < left_to_do cfg s"
  using assms by (simp add: left_to_do_def still_def)

lemma pipe_step_less:
  assumes ok: "cfg_ok cfg" and inv: "pipe_inv cfg s" and step: "pipe_step cfg k s s'"
  shows "if k = Health then left_to_do cfg s' = left_to_do cfg s else left_to_do cfg s' < left_to_do cfg s"
proof -
  from ok have l: "lanes_ok cfg" by (auto simp: cfg_ok_def)
  from inv have h: "held_ok cfg s" by (auto simp: pipe_inv_def)
  show ?thesis using step
  proof (cases rule: pipe_step.cases)
    case (take_rework a x fb r)
    have "queued cfg s' + 1 = queued cfg s"
      using queued_rework [OF l take_rework(3), of s r] take_rework by simp
    with open_take(1) [OF l take_rework(3,4,5)] take_rework(1,2) show ?thesis by (simp add: left_to_do_def)
  next
    case (take_new a x r)
    with open_take(2) [OF l take_new(3,4,6)] show ?thesis by (simp add: left_to_do_def queued_def)
  next
    case (implemented a i t run res nx t' g)
    from h implemented(3,4) have t: "idle_ok cfg t" "wt_agent t \<in> {None, Some a}" by (auto simp: held_ok_def)
    have "wt_rounds t' = wt_rounds t + 1" "wt_reviews t' = wt_reviews t" "wt_infra t' = wt_infra t"
      using implemented(6) by (auto simp: after_implement_def Let_def split: if_splits)
    moreover have "wt_rounds t \<le> lm_max_rounds (pc_limits cfg) + 1"
      using t(1) by (auto simp: idle_ok_def split: if_splits)
    ultimately have "still cfg t' + 2 \<le> still cfg t" unfolding still_def by simp
    moreover have "nx \<noteq> Rework fb" for fb using implemented(6) by (auto simp: after_implement_def Let_def split: if_splits)
    ultimately show ?thesis using implemented(1)
      unfolding implemented(2) by (auto intro!: left_hand_on [OF l impl_free [OF l implemented(3,4)]])
  next
    case (implement_failed a i t run)
    with left_complete [OF impl_free [OF l implement_failed(3,4)]] show ?thesis by simp
  next
    case (implement_crashed a i t)
    with left_complete [OF impl_free [OF l implement_crashed(3,4)]] show ?thesis by simp
  next
    case (take_review lane url us x vs)
    with open_take(3) [OF l take_review(3,4,5)] show ?thesis by (simp add: left_to_do_def queued_def)
  next
    case (reviewed lane url i t r v rr steps inspected ef nx t' g)
    from h reviewed(3,4) have t: "review_ok cfg t" by (force simp: held_ok_def)
    have "wt_rounds t' = wt_rounds t" "length (wt_reviews t') = length (wt_reviews t) + 1" "wt_infra t' = wt_infra t"
      "wt_agent t' = wt_agent t"
      using reviewed(6) by (auto simp: after_review_def Let_def split: if_splits)
    then have "still cfg t' + 2 \<le> still cfg t" "\<exists>a \<in> set (pc_impls cfg). wt_agent t' = Some a"
      using t by (auto simp: still_def review_ok_def)
    then show ?thesis using reviewed(1)
      unfolding reviewed(2) by (auto intro!: left_hand_on [OF l lane_free [OF l reviewed(3,4)]])
  next
    case (worker_failed lane url i t r v rr steps inspected rc)
    from review_task_Inl [OF worker_failed(5)] h worker_failed(3,4) have t: "review_ok cfg t" "\<not> wt_force_lead t"
      by (force simp: held_ok_def)+
    then have less: "still cfg (after_worker_failure t) + 2 = still cfg t"
      by (auto simp: still_def after_worker_failure_def review_ok_def infra_ok_def)
    have "open_items cfg s' = add_mset (i, after_worker_failure t) (open_items cfg (s\<lparr>pp_lane := (pp_lane s)(lane := None)\<rparr>))"
      using worker_failed(2) by (simp add: open_items_def)
    with lane_free [OF l worker_failed(3,4)] worker_failed(1,2) less show ?thesis
      by (simp add: left_to_do_def queued_def)
  next
    case (review_crashed lane url i t)
    with left_complete [OF lane_free [OF l review_crashed(3,4)]] show ?thesis by simp
  next
    case (health_changed up)
    then show ?thesis by (simp add: left_to_do_def)
  qed
qed

section \<open>Some thread can always go on\<close>

lemma implement_possible:
  assumes "a \<in> set (pc_impls cfg)" "pp_impl s a = Some x"
  shows "\<exists>s'. pipe_step cfg Work s s'"
proof -
  obtain i t where x: "x = (i, t)" by (cases x)
  obtain nx t' where n: "after_implement (pc_review cfg) a t = (nx, t')" by fastforce
  have "implement_turn (pc_limits cfg) (\<lambda>_. \<lparr>oc_rc = 0, oc_timed_out = False, oc_session = [], oc_text = []\<rparr>) =
      Some (\<lparr>oc_rc = 0, oc_timed_out = False, oc_session = [], oc_text = []\<rparr>, 0)"
    by (simp add: implement_turn_def)
  from implemented [OF assms(1) assms(2) [unfolded x] this n] show ?thesis by blast
qed

lemma review_possible:
  assumes "(lane, url) \<in> set (all_lanes cfg)" "pp_lane s lane = Some x"
  shows "\<exists>s'. pipe_step cfg Work s s'"
proof -
  obtain i t where x: "x = (i, t)" by (cases x)
  let ?r = "\<lparr>oc_rc = 0, oc_timed_out = False, oc_session = [], oc_text = []\<rparr>"
  obtain ef where r: "review_task (pc_rcfg cfg) lane ?r ?r ?r 0 True = Inr ef"
    by (simp add: review_task_def worker_died_def verdict_turn_def Let_def)
  obtain nx t' where n: "after_review (pc_limits cfg) (pc_budget cfg) ef t = (nx, t')" by fastforce
  from reviewed [OF assms(1) assms(2) [unfolded x] r n] show ?thesis by blast
qed

lemma take_possible:
  assumes "a \<in> set (pc_impls cfg)" "pp_rework s a \<noteq> [] \<or> pp_pending s \<noteq> []"
  shows "\<exists>s'. pipe_step cfg Take s s' \<or> pipe_step cfg Work s s'"
proof (cases "pp_impl s a")
  case None
  show ?thesis
  proof (cases "pp_rework s a")
    case Nil
    with assms(2) obtain x r where "pp_pending s = x # r" by (cases "pp_pending s") auto
    with take_new [OF assms(1) None Nil] show ?thesis by blast
  next
    case (Cons y r)
    obtain x fb where "y = (x, fb)" by (cases y)
    with take_rework [OF assms(1) None] Cons show ?thesis by blast
  qed
next
  case (Some x)
  with implement_possible assms(1) show ?thesis by blast
qed

lemma some_lane_eligible:
  assumes "pc_review cfg" "lanes_ok cfg"
  shows "\<exists>lane url. (lane, url) \<in> set (all_lanes cfg) \<and> eligible cfg s lane url x"
proof (cases "wt_force_lead (snd x) \<or> \<not> list_ex (\<lambda>l. pp_up s (snd l)) (pc_lanes cfg)")
  case True
  then have "eligible cfg s lead [] x" by (simp add: eligible_def)
  moreover have "(lead, []) \<in> set (all_lanes cfg)" using assms(1) by (simp add: all_lanes_def)
  ultimately show ?thesis by blast
next
  case False
  then obtain lane url where l: "(lane, url) \<in> set (pc_lanes cfg)" "pp_up s url" by (auto simp: list_ex_iff)
  moreover have "lane \<noteq> lead" using l(1) assms(2) by (force simp: lanes_ok_def)
  ultimately have "eligible cfg s lane url x" using False by (simp add: eligible_def)
  moreover have "(lane, url) \<in> set (all_lanes cfg)" using l(1) assms(1) by (simp add: all_lanes_def)
  ultimately show ?thesis by blast
qed

lemma take_review_possible:
  assumes "pc_review cfg" "lanes_ok cfg" "pp_leadq s \<noteq> []"
  shows "\<exists>s'. pipe_step cfg Take s s' \<or> pipe_step cfg Work s s'"
proof -
  obtain x where x: "x \<in> set (pp_leadq s)" using assms(3) by (cases "pp_leadq s") auto
  obtain lane url where l: "(lane, url) \<in> set (all_lanes cfg)" "eligible cfg s lane url x"
    using some_lane_eligible [OF assms(1,2)] by blast
  show ?thesis
  proof (cases "pp_lane s lane")
    case None
    from x l(2) obtain us y vs where "pp_leadq s = us @ y # vs" "eligible cfg s lane url y" "\<forall>u \<in> set us. \<not> eligible cfg s lane url u"
      using split_list_first_prop [of "pp_leadq s" "eligible cfg s lane url"] by blast
    with take_review [OF l(1) None, of us y vs] show ?thesis by (auto simp: list_ex_iff)
  next
    case (Some y)
    with review_possible l(1) show ?thesis by blast
  qed
qed

lemma some_thread_can:
  assumes "cfg_ok cfg" "pipe_inv cfg s"
  shows "mset (map fst (pp_records s)) = mset (pc_ids cfg) \<or> (\<exists>s'. pipe_step cfg Take s s' \<or> pipe_step cfg Work s s')"
proof (cases "open_items cfg s = {#}")
  case True
  with assms(2) show ?thesis by (simp add: pipe_inv_def conserved_def)
next
  case False
  from assms have l: "lanes_ok cfg" "pc_review cfg \<or> pp_leadq s = []" by (auto simp: cfg_ok_def pipe_inv_def held_ok_def)
  from l(1) obtain a0 where a0: "a0 \<in> set (pc_impls cfg)" by (cases "pc_impls cfg") (auto simp: lanes_ok_def)
  from False consider "pp_pending s \<noteq> []" | a where "a \<in> set (pc_impls cfg)" "pp_rework s a \<noteq> []" | "pp_leadq s \<noteq> []"
    | a where "a \<in> set (pc_impls cfg)" "held (pp_impl s) a \<noteq> []"
    | la where "la \<in> set (all_lanes cfg)" "held (pp_lane s) (fst la) \<noteq> []"
    unfolding open_items_def by auto
  then show ?thesis
  proof cases
    case 1
    with take_possible [OF a0] show ?thesis by blast
  next
    case 2
    with take_possible [OF 2(1)] show ?thesis by blast
  next
    case 3
    with take_review_possible [OF _ l(1)] l(2) show ?thesis by blast
  next
    case (4 a)
    then obtain x where "pp_impl s a = Some x" by (auto simp: held_def split: option.splits)
    with implement_possible 4(1) show ?thesis by blast
  next
    case (5 la)
    then obtain x where "pp_lane s (fst la) = Some x" by (auto simp: held_def split: option.splits)
    with review_possible [of "fst la" "snd la" cfg s x] 5(1) have "\<exists>s'. pipe_step cfg Work s s'" by simp
    then show ?thesis by blast
  qed
qed

section \<open>Properties\<close>

lemma start_inv: "cfg_ok cfg \<Longrightarrow> pipe_inv cfg (pipe_start cfg)"
  by (auto simp: pipe_inv_def conserved_def held_ok_def pipe_start_def open_items_def held_def comp_def
      cong: map_cong simp flip: mset_map)

lemma start_left: "left_to_do cfg (pipe_start cfg) = length (pc_ids cfg) * (4 * lm_max_rounds (pc_limits cfg) + 19)"
proof -
  have "open_items cfg (pipe_start cfg) = mset (map (\<lambda>i. (i, new_wtask)) (pc_ids cfg))"
    by (simp add: open_items_def pipe_start_def held_def)
  then have "(\<Sum>x \<in># open_items cfg (pipe_start cfg). still cfg (snd x)) = length (pc_ids cfg) * still cfg new_wtask"
    by (simp add: image_mset.compositionality comp_def)
  moreover have "queued cfg (pipe_start cfg) = length (pc_ids cfg)" by (simp add: queued_def pipe_start_def)
  moreover have "still cfg new_wtask = 4 * lm_max_rounds (pc_limits cfg) + 18"
    by (simp add: still_def new_wtask_def max_review_infra_def)
  ultimately show ?thesis by (simp add: left_to_do_def algebra_simps)
qed

lemma pipe_run_inv:
  assumes "cfg_ok cfg" "pipe_run cfg n s"
  shows "pipe_inv cfg s \<and> n + left_to_do cfg s \<le> left_to_do cfg (pipe_start cfg)"
  using assms(2)
proof (induction rule: pipe_run.induct)
  case begun
  show ?case using start_inv [OF assms(1)] by simp
next
  case (on n s k s')
  with pipe_step_inv [OF assms(1) _ on(2)] pipe_step_less [OF assms(1) _ on(2)] show ?case
    by (auto split: if_splits)
qed

text \<open>
  C8: However the agents' runs, the grades, the health of the workers and exceptions fall, in every state
  of a run each task is in exactly one place, open or recorded once; and a record keeps its promises: at
  most two implementer turns and one review more than the limit of rounds, reviews within the budget,
  accepted only with a passing grade, accepted by the implementer only after an ACCEPT, shipped
  unreviewed only when the budget is used up, and fixed by the lead only after one review more than the
  limit of rounds.
\<close>

theorem pipeline_conserves_tasks:
  assumes "cfg_ok cfg" "pipe_run cfg n s"
  shows "image_mset fst (open_items cfg s) + mset (map fst (pp_records s)) = mset (pc_ids cfg) \<and>
    list_all (\<lambda>ir. record_ok cfg (snd ir)) (pp_records s)"
  using pipe_run_inv [OF assms] by (auto simp: pipe_inv_def conserved_def held_ok_def list_all_iff)

text \<open>
  C11: A run of the pipeline ends: besides changes of health it takes at most \<open>4 * max_rounds + 19\<close> steps
  per task, and as long as a task has no record some thread can take a task or finish with one, so no
  distribution of queues, hands and health leaves the threads waiting for each other.
\<close>

theorem pipeline_ends:
  assumes "cfg_ok cfg" "pipe_run cfg n s"
  shows "n \<le> length (pc_ids cfg) * (4 * lm_max_rounds (pc_limits cfg) + 19) \<and>
    (mset (map fst (pp_records s)) = mset (pc_ids cfg) \<or> (\<exists>s'. pipe_step cfg Take s s' \<or> pipe_step cfg Work s s'))"
  using pipe_run_inv [OF assms] start_left [of cfg] some_thread_can [OF assms(1), of s] by auto

definition sample_cfg :: pipe_cfg where
  "sample_cfg = \<lparr>pc_ids = [''a''], pc_impls = [''impl-1''], pc_lanes = [(''w1'', ''http://w1'')], pc_review = True,
     pc_budget = Some 2, pc_limits = \<lparr>lm_max_rounds = 2, lm_retries = 3\<rparr>,
     pc_rcfg = \<lparr>rv_enforce_read = False, rv_steps = 20\<rparr>\<rparr>"

lemma sample_cfg_ok: "cfg_ok sample_cfg"
  by (simp add: cfg_ok_def pipe_cfg_ok_def lanes_ok_def sample_cfg_def lead_def)

definition sample_pipe :: pipe where
  "sample_pipe = (pipe_start sample_cfg)\<lparr>pp_pending := [], pp_impl := (\<lambda>_. None)(''impl-1'' := Some (''a'', new_wtask))\<rparr>"

lemma sample_pipe_run: "pipe_run sample_cfg 1 sample_pipe"
proof -
  have "pipe_step sample_cfg Take (pipe_start sample_cfg) sample_pipe"
    using take_new [of "''impl-1''" sample_cfg "pipe_start sample_cfg" "(''a'', new_wtask)" "[]"]
    by (simp add: sample_pipe_def pipe_start_def sample_cfg_def)
  from on [OF begun this] show ?thesis by simp
qed

lemma pipeline_conserves_tasks_witness:
  "image_mset fst (open_items sample_cfg sample_pipe) + mset (map fst (pp_records sample_pipe)) = mset (pc_ids sample_cfg) \<and>
    list_all (\<lambda>ir. record_ok sample_cfg (snd ir)) (pp_records sample_pipe)"
  by (rule pipeline_conserves_tasks [OF sample_cfg_ok sample_pipe_run])

lemma pipeline_ends_witness:
  "1 \<le> length (pc_ids sample_cfg) * (4 * lm_max_rounds (pc_limits sample_cfg) + 19) \<and>
    (mset (map fst (pp_records sample_pipe)) = mset (pc_ids sample_cfg) \<or>
     (\<exists>s'. pipe_step sample_cfg Take sample_pipe s' \<or> pipe_step sample_cfg Work sample_pipe s'))"
  by (rule pipeline_ends [OF sample_cfg_ok sample_pipe_run])

text \<open>
  A budget above the limit of rounds does not keep the lead from fixing: the third round of a task with
  five reviews allowed goes to the lead.
\<close>

lemma budget_leaves_lead_fix:
  assumes "re_verdict e = REVISE"
  shows "fst (after_review \<lparr>lm_max_rounds = 2, lm_retries = 3\<rparr> (Some 5) (e, fb)
    (new_wtask\<lparr>wt_rounds := 3, wt_reviews := [e, e]\<rparr>)) = LeadFix"
  using assms by (simp add: after_review_def new_wtask_def Let_def)

end
