(* ===== verification/WfGrade.thy ===== *)
theory WfGrade
  imports WfReview
begin

text \<open>
  Grading, \<^verbatim>\<open>scripts/tools/workforce/grade.py\<close>, with the paths that may leave a workspace
  (\<^verbatim>\<open>paths.py\<close>) and the changes and patches of \<^verbatim>\<open>workspace.py\<close>. A tree is its regular files, path to
  content; symbolic links of a snapshot are left out. \<^verbatim>\<open>git apply\<close>, \<^verbatim>\<open>ast.parse\<close>, the XML parser, the
  archive's content and the run of the tests are parameters.
\<close>

section \<open>Paths\<close>

abbreviation slash :: char where
  "slash \<equiv> CHR ''/''"

text \<open>\<^verbatim>\<open>posixpath.normpath\<close>\<close>

fun norm_comps :: "bool \<Rightarrow> string list \<Rightarrow> string list \<Rightarrow> string list" where
  "norm_comps rooted st [] = rev st"
| "norm_comps rooted st (c # cs) =
     (if c = [] \<or> c = ''.'' then norm_comps rooted st cs
      else if c \<noteq> ''..'' \<or> (\<not> rooted \<and> st = []) \<or> (st \<noteq> [] \<and> hd st = ''..'') then norm_comps rooted (c # st) cs
      else norm_comps rooted (tl st) cs)"

definition normpath :: "string \<Rightarrow> string" where
  "normpath p =
     (if p = [] then ''.''
      else (let n = (if startswith p ''//'' \<and> \<not> startswith p ''///'' then 2 else if startswith p ''/'' then 1 else 0);
                r = replicate n slash @ join ''/'' (norm_comps (n > 0) [] (split_char slash p))
            in if r = [] then ''.'' else r))"

definition safe_path :: "string \<Rightarrow> bool" where
  "safe_path p =
     (p \<noteq> [] \<and> CHR 0x5C \<notin> set p \<and> CHR '':'' \<notin> set p \<and> \<not> startswith p ''/'' \<and> normpath p = p \<and>
      p \<noteq> ''..'' \<and> \<not> startswith p ''../'')"

fun safe_rel :: "pyval \<Rightarrow> bool" where
  "safe_rel (PStr p) = safe_path p"
| "safe_rel _ = False"

definition protected_names :: "string list" where
  "protected_names =
     [''.mcp.json'', ''AGENTS.md'', ''CLAUDE.md'', ''opencode.json'', ''conftest.py'', ''pytest.ini'',
      ''setup.cfg'', ''pyproject.toml'', ''.gitattributes'', ''.lfsconfig'', ''.gitmodules'',
      ''.pre-commit-config.yaml'']"

definition protected_dirs :: "string list" where
  "protected_dirs = [''.claude'', ''.opencode'', ''.git'', ''.githooks'', ''.husky'']"

definition is_protected :: "string \<Rightarrow> bool" where
  "is_protected path =
     (let parts = split_char slash path in
      last parts \<in> set protected_names \<or> list_ex (\<lambda>p. p \<in> set protected_dirs) (butlast parts))"

definition mode_reason :: "string \<Rightarrow> string option" where
  "mode_reason m = map_of [(''120000'', ''symlink''), (''160000'', ''submodule'')] m"

type_synonym change = "string \<times> string \<times> string"

fun classify_loop :: "string list \<Rightarrow> change list \<Rightarrow> string list \<Rightarrow> (string \<times> string) list \<Rightarrow> string list \<times> (string \<times> string) list" where
  "classify_loop declared [] allowed dropped = (allowed, dropped)"
| "classify_loop declared ((status, mode, path) # cs) allowed dropped =
     (if is_protected path then classify_loop declared cs allowed (alist_put path ''protected'' dropped)
      else case (if status \<noteq> ''D'' then mode_reason mode else None) of
             Some why \<Rightarrow> classify_loop declared cs allowed (alist_put path why dropped)
           | None \<Rightarrow>
               if path \<notin> set declared then classify_loop declared cs allowed (alist_put path ''undeclared'' dropped)
               else classify_loop declared cs (allowed @ [path]) dropped)"

definition classify :: "change list \<Rightarrow> string list \<Rightarrow> string list \<times> (string \<times> string) list" where
  "classify changes declared = classify_loop (map normpath declared) changes [] []"

section \<open>Changes and patches\<close>

fun pairs_of :: "'a list \<Rightarrow> ('a \<times> 'a) list" where
  "pairs_of (x # y # r) = (x, y) # pairs_of r"
| "pairs_of _ = []"

definition change_of :: "string \<times> string \<Rightarrow> change res" where
  "change_of mp =
     (case split_ws (lstrip_by (\<lambda>c. c = CHR '':'') (fst mp)) of
        [old_mode, new_mode, a, b, status] \<Rightarrow> Inr (take 1 status, new_mode, snd mp)
      | _ \<Rightarrow> Inl ValueError)"

definition changes_of :: "string \<Rightarrow> change list res" where
  "changes_of raw =
     map_res change_of (pairs_of (filter (\<lambda>f. f \<noteq> []) (split_char (CHR 0x00) raw)))"

definition noise :: "string list" where
  "noise = [''__pycache__/'', ''.pytest_cache/'', ''.workforce_review/'']"

definition export_patch :: "(string list \<Rightarrow> string) \<Rightarrow> string list \<Rightarrow> string" where
  "export_patch git_diff paths = (if paths = [] then [] else git_diff paths)"

definition filtered_patch :: "(string list \<Rightarrow> string) \<Rightarrow> change list \<Rightarrow> string list \<Rightarrow> string \<times> (string \<times> string) list" where
  "filtered_patch git_diff changes declared =
     (let (allowed, dropped) = classify changes declared in
      (export_patch git_diff allowed,
       filter (\<lambda>(p, why). \<not> list_ex (\<lambda>x. contains p x) noise) dropped))"

section \<open>The task of a bundle\<close>

record gtask =
  gt_id :: string
  gt_files :: "string list"
  gt_tests :: "string list"
  gt_hidden :: "(string \<times> string) list"
  gt_conftest :: bool
  gt_timeout :: int
  gt_pytest :: "string list"

fun cut_at :: "string \<Rightarrow> string \<Rightarrow> string \<times> string" where
  "cut_at p [] = ([], [])"
| "cut_at p (c # s) =
     (if startswith (c # s) p then ([], drop (length p) (c # s))
      else (case cut_at p s of (a, b) \<Rightarrow> (c # a, b)))"

definition required :: "(string \<times> (pyval \<Rightarrow> bool)) list" where
  "required =
     [(''id'', is_pstr), (''commit'', is_pstr), (''parent'', is_pstr), (''request'', is_pstr), (''files'', is_plist),
      (''tests'', is_plist), (''hidden'', is_pdict), (''needs_conftest'', is_pbool), (''timeout_s'', is_pint)]"

definition plain_name :: "string \<Rightarrow> bool" where
  "plain_name n = (slash \<notin> set n \<and> CHR 0x5C \<notin> set n \<and> n \<notin> {[], ''.'', ''..''})"

definition list_of :: "pyval \<Rightarrow> pyval list" where
  "list_of v = (case v of PList xs \<Rightarrow> xs | _ \<Rightarrow> [])"

definition dict_of :: "pyval \<Rightarrow> pydict" where
  "dict_of v = (case v of PDict d \<Rightarrow> d | _ \<Rightarrow> [])"

definition text_of :: "pyval \<Rightarrow> string" where
  "text_of v = (case v of PStr s \<Rightarrow> s | _ \<Rightarrow> [])"

fun int_of_val :: "pyval \<Rightarrow> int" where
  "int_of_val (PInt i) = i"
| "int_of_val (PBool b) = (if b then 1 else 0)"
| "int_of_val _ = 0"

definition seq_of :: "pyval \<Rightarrow> pyval list res" where
  "seq_of v =
     (if \<not> truthy v then Inr []
      else case v of
             PList xs \<Rightarrow> Inr xs
           | PStr s \<Rightarrow> Inr (map (\<lambda>c. PStr [c]) s)
           | PDict d \<Rightarrow> Inr (map fst d)
           | _ \<Rightarrow> Inl TypeError)"

definition str_item :: "pyval \<Rightarrow> string res" where
  "str_item v = (case v of PStr s \<Rightarrow> Inr s | _ \<Rightarrow> Inl AttributeError)"

definition load_checked :: "pydict \<Rightarrow> string list \<Rightarrow> gtask res" where
  "load_checked d args =
     (let files = list_of (dget d ''files''); tests = list_of (dget d ''tests''); hidden = dict_of (dget d ''hidden'');
          paths = files @ tests @ map snd hidden @ map (\<lambda>a. PStr (fst (cut_at ''::'' a))) args;
          t = \<lparr>gt_id = text_of (dget d ''id''), gt_files = map text_of files, gt_tests = map text_of tests,
               gt_hidden = map (\<lambda>(n, v). (text_of n, text_of v)) hidden, gt_conftest = truthy (dget d ''needs_conftest''),
               gt_timeout = int_of_val (dget d ''timeout_s''), gt_pytest = args\<rparr>
      in if \<not> list_all safe_rel paths \<or> \<not> list_all (\<lambda>(n, v). is_pstr n \<and> plain_name (text_of n)) hidden then Inl ValueError
         else if list_ex (\<lambda>f. f \<in> set (gt_tests t) \<or> f \<in> snd ` set (gt_hidden t)) (gt_files t) then Inl ValueError
         else if list_ex (\<lambda>h. h \<in> set (gt_tests t)) (map snd (gt_hidden t)) then Inl ValueError
         else Inr t)"

definition load_task :: "pyval \<Rightarrow> gtask res" where
  "load_task j =
     (case j of
        PDict d \<Rightarrow>
          if \<not> list_all (\<lambda>(k, ok). ok (dget d k)) required then Inl ValueError
          else bind_res (seq_of (dget d ''pytest_args'')) (\<lambda>vs. bind_res (map_res str_item vs) (load_checked d))
      | _ \<Rightarrow> Inl AttributeError)"

section \<open>The grading tree\<close>

type_synonym tree = "(string \<times> string) list"

definition below :: "string \<Rightarrow> string \<Rightarrow> bool" where
  "below p q = startswith q (p @ ''/'')"

text \<open>Creating a file fails under a file and on a directory.\<close>

definition put_file :: "string \<Rightarrow> string \<Rightarrow> tree \<Rightarrow> tree res" where
  "put_file p c t =
     (if list_ex (\<lambda>(q, x). below q p \<or> below p q) t then Inl OSError else Inr (alist_put p c t))"

fun put_files :: "(string \<times> string) list \<Rightarrow> tree \<Rightarrow> tree res" where
  "put_files [] t = Inr t"
| "put_files ((p, c) # ms) t = bind_res (put_file p c t) (put_files ms)"

definition unpack :: "(string \<times> string) list \<Rightarrow> tree res" where
  "unpack members = put_files members []"

text \<open>A directory at the place is removed with all it holds, anything else alone.\<close>

definition clear_path :: "string \<Rightarrow> tree \<Rightarrow> tree" where
  "clear_path p t =
     (if list_ex (\<lambda>(q, x). below p q) t then filter (\<lambda>(q, x). \<not> below p q) t else filter (\<lambda>(q, x). q \<noteq> p) t)"

definition restore_visible_tests :: "(string \<times> string) list \<Rightarrow> gtask \<Rightarrow> tree \<Rightarrow> tree res" where
  "restore_visible_tests members task t =
     (let ms = filter (\<lambda>(p, c). p \<in> set (gt_tests task)) members in
      put_files ms (fold (\<lambda>(p, c). clear_path p) ms t))"

definition ini :: string where
  "ini = ''.workforce_pytest.ini''"

definition junit_file :: string where
  "junit_file = ''.workforce_junit.xml''"

fun copy_hidden :: "(string \<Rightarrow> string option) \<Rightarrow> (string \<times> string) list \<Rightarrow> tree \<Rightarrow> tree res" where
  "copy_hidden source [] t = Inr t"
| "copy_hidden source ((name, dest) # hs) t =
     (case source name of
        None \<Rightarrow> Inl OSError
      | Some c \<Rightarrow> bind_res (put_file dest c t) (copy_hidden source hs))"

record hbundle =
  bu_task :: pyval
  bu_snapshot :: "(string \<times> string) list"
  bu_hidden :: "string \<Rightarrow> string option"

definition apply_patch :: "(tree \<Rightarrow> string \<Rightarrow> string + tree) \<Rightarrow> tree \<Rightarrow> string \<Rightarrow> string + tree" where
  "apply_patch git_apply t patch = (if patch = [] then Inr t else git_apply t patch)"

text \<open>\<open>Inl\<close> is the message of a patch that does not apply.\<close>

definition prepare_tree :: "(tree \<Rightarrow> string \<Rightarrow> string + tree) \<Rightarrow> hbundle \<Rightarrow> gtask \<Rightarrow> string \<Rightarrow> (string + tree) res" where
  "prepare_tree git_apply b task patch =
     bind_res (unpack (bu_snapshot b)) (\<lambda>t0.
       case apply_patch git_apply t0 patch of
         Inl msg \<Rightarrow> Inr (Inl msg)
       | Inr t1 \<Rightarrow>
           bind_res (restore_visible_tests (bu_snapshot b) task t1) (\<lambda>t2.
           bind_res (copy_hidden (bu_hidden b) (gt_hidden task) t2) (\<lambda>t3.
           bind_res (put_file ini (''[pytest]'' @ newline) t3) (\<lambda>t4. Inr (Inr t4)))))"

section \<open>The tests that must pass\<close>

text \<open>What \<^verbatim>\<open>ast.parse\<close> gives of a module: functions and classes with the names of their functions.\<close>

datatype ast_node = AFun string | AClass string "string list" | AOther

definition node_tests :: "ast_node \<Rightarrow> string list" where
  "node_tests n =
     (case n of
        AFun f \<Rightarrow> if startswith f ''test'' then [f] else []
      | AClass c fs \<Rightarrow>
          if startswith c ''Test'' then map (\<lambda>f. c @ ''::'' @ f) (filter (\<lambda>f. startswith f ''test'') fs) else []
      | AOther \<Rightarrow> [])"

definition expected_tests :: "(string \<Rightarrow> ast_node list res) \<Rightarrow> string \<Rightarrow> string list res" where
  "expected_tests parse src = bind_res (parse src) (\<lambda>ns. Inr (concat (map node_tests ns)))"

definition visible_targets :: "gtask \<Rightarrow> string list" where
  "visible_targets task = (if gt_pytest task \<noteq> [] then gt_pytest task else gt_tests task)"

definition targets :: "gtask \<Rightarrow> string list" where
  "targets task = visible_targets task @ sort (map snd (gt_hidden task))"

type_synonym test_id = "string \<times> string"

definition module_of :: "string \<Rightarrow> string" where
  "module_of path = map (\<lambda>c. if c = slash then CHR ''.'' else c) (take (length path - 3) path)"

definition target_ids :: "(string \<Rightarrow> ast_node list res) \<Rightarrow> tree \<Rightarrow> string \<Rightarrow> test_id list res" where
  "target_ids parse t target =
     (let (path, node) = cut_at ''::'' target in
      if node \<noteq> [] then Inr [(module_of path, node)]
      else case map_of t path of
             None \<Rightarrow> Inl OSError
           | Some src \<Rightarrow>
               bind_res (expected_tests parse src) (\<lambda>names. Inr (map (\<lambda>n. (module_of path, n)) names)))"

definition expected_ids :: "(string \<Rightarrow> ast_node list res) \<Rightarrow> tree \<Rightarrow> string list \<Rightarrow> test_id list res" where
  "expected_ids parse t ts = bind_res (map_res (target_ids parse t) ts) (\<lambda>ids. Inr (remdups (concat ids)))"

text \<open>A test case of the report: whether it has a failure, an error or a skip.\<close>

record test_case =
  tcs_class :: string
  tcs_name :: string
  tcs_bad :: bool

definition case_id :: "test_case \<Rightarrow> test_id" where
  "case_id c =
     (let name = takeWhile (\<lambda>x. x \<noteq> CHR ''['') (tcs_name c); parts = split_char (CHR ''.'') (tcs_class c) in
      if startswith (last parts) ''Test''
      then (if length parts = 1 then last parts else join ''.'' (butlast parts), last parts @ ''::'' @ name)
      else (tcs_class c, name))"

definition add_case :: "test_case \<Rightarrow> (test_id \<times> bool) list \<Rightarrow> (test_id \<times> bool) list" where
  "add_case c res =
     alist_put (case_id c) ((case map_of res (case_id c) of None \<Rightarrow> True | Some b \<Rightarrow> b) \<and> \<not> tcs_bad c) res"

definition junit_results :: "test_case list \<Rightarrow> (test_id \<times> bool) list" where
  "junit_results cases = fold add_case cases []"

definition run_flags :: "gtask \<Rightarrow> string list" where
  "run_flags task =
     [''-m'', ''pytest'', ''-c'', ini, ''-p'', ''no:cacheprovider'', ''-q'', ''--junitxml='' @ junit_file] @
     (if gt_conftest task then [] else [''--noconftest''])"

definition pytest_args :: "gtask \<Rightarrow> string list" where
  "pytest_args task = run_flags task @ targets task"

section \<open>The grade\<close>

text \<open>
  What a run of the tests leaves: its exit code, its output, whether it ran out of time, and the test
  cases of the report, if there is one that parses. The run gets the tree, which the code under test may
  do anything to.
\<close>

record test_run =
  rn_rc :: int
  rn_out :: string
  rn_timed_out :: bool
  rn_report :: "test_case list option"

record runner =
  rr_apply :: "tree \<Rightarrow> string \<Rightarrow> string + tree"
  rr_parse :: "string \<Rightarrow> ast_node list res"
  rr_run :: "tree \<Rightarrow> string list \<Rightarrow> int \<Rightarrow> test_run"

record grade_rec =
  gr_pass :: bool
  gr_stage :: string
  gr_summary :: string
  gr_rc :: "int option"
  gr_counts :: "(nat \<times> nat) option"

definition last_chars :: "nat \<Rightarrow> string \<Rightarrow> string" where
  "last_chars n s = drop (length s - n) s"

definition tail_line :: "string \<Rightarrow> string" where
  "tail_line s =
     (let ls = filter (\<lambda>x. strip x \<noteq> []) (splitlines (strip s)) in if ls = [] then [] else last ls)"

definition passed_of :: "(test_id \<times> bool) list \<Rightarrow> test_id list \<Rightarrow> nat" where
  "passed_of res ids = length (filter (\<lambda>k. map_of res k = Some True) ids)"

definition judge :: "gtask \<Rightarrow> test_id list \<Rightarrow> test_run \<Rightarrow> grade_rec" where
  "judge task ids r =
     (if rn_timed_out r
      then \<lparr>gr_pass = False, gr_stage = ''timeout'', gr_summary = ''over '' @ show_int (gt_timeout task) @ '' s'',
            gr_rc = None, gr_counts = None\<rparr>
      else
        (let res = (case rn_report r of None \<Rightarrow> [] | Some cs \<Rightarrow> junit_results cs);
             passed = passed_of res ids;
             ok = (rn_rc r = 0 \<and> ids \<noteq> [] \<and> passed = length ids \<and> list_all snd res);
             tl = tail_line (rn_out r)
         in \<lparr>gr_pass = ok, gr_stage = ''tests'',
             gr_summary = (if tl = [] then ''no pytest summary (the test process ended early)'' else tl),
             gr_rc = Some (rn_rc r), gr_counts = Some (length ids, passed)\<rparr>))"

definition grade :: "runner \<Rightarrow> hbundle \<Rightarrow> string \<Rightarrow> grade_rec res" where
  "grade w b patch =
     bind_res (load_task (bu_task b)) (\<lambda>task.
     bind_res (prepare_tree (rr_apply w) b task patch) (\<lambda>p.
       case p of
         Inl msg \<Rightarrow> Inr \<lparr>gr_pass = False, gr_stage = ''apply'', gr_summary = last_chars 300 msg, gr_rc = None, gr_counts = None\<rparr>
       | Inr t \<Rightarrow>
           bind_res (expected_ids (rr_parse w) t (targets task)) (\<lambda>ids.
             Inr (judge task ids (rr_run w (clear_path junit_file t) (pytest_args task) (gt_timeout task))))))"

section \<open>The visible check\<close>

definition last_lines :: "nat \<Rightarrow> string \<Rightarrow> string" where
  "last_lines n s = (let ls = splitlines (strip s) in join newline (drop (length ls - n) ls))"

definition check_visible :: "runner \<Rightarrow> hbundle \<Rightarrow> string \<Rightarrow> int \<Rightarrow> (string \<times> string) res" where
  "check_visible w b patch timeout =
     bind_res (load_task (bu_task b)) (\<lambda>task.
     bind_res (unpack (bu_snapshot b)) (\<lambda>t0.
       case apply_patch (rr_apply w) t0 patch of
         Inl msg \<Rightarrow> Inr (''(the change does not apply to the task'' @ [CHR 0x27] @ ''s snapshot: '' @ last_chars 300 msg @ '')'',
                       ''visible tests: not run (the change does not apply)'')
       | Inr t1 \<Rightarrow>
           bind_res (restore_visible_tests (bu_snapshot b) task t1) (\<lambda>t2.
           bind_res (put_file ini (''[pytest]'' @ newline) t2) (\<lambda>t3.
           bind_res (expected_ids (rr_parse w) t3 (visible_targets task)) (\<lambda>ids.
             (let r = rr_run w t3 (run_flags task @ visible_targets task) timeout in
              if rn_timed_out r
              then Inr (''(tests did not finish within '' @ show_int timeout @ '' s)'', ''visible tests: not run (timeout)'')
              else
                (let passed = (case rn_report r of None \<Rightarrow> 0 | Some cs \<Rightarrow> passed_of (junit_results cs) ids)
                 in Inr (last_lines 200 (rn_out r),
                         ''visible tests: '' @ show_nat passed @ '' of '' @ show_nat (length ids) @ '' expected passed, rc '' @
                         show_int (rn_rc r))))))))) "

section \<open>Lemmas on trees\<close>

definition tree_ok :: "tree \<Rightarrow> bool" where
  "tree_ok t = (\<forall>p \<in> fst ` set t. \<forall>q \<in> fst ` set t. \<not> below p q)"

lemma put_file_Inr:
  "put_file p c t = Inr t' \<longleftrightarrow> t' = alist_put p c t \<and> (\<forall>q \<in> fst ` set t. \<not> below q p \<and> \<not> below p q)"
  by (auto simp: put_file_def list_ex_iff split_beta)

lemma not_below_self [simp]: "\<not> below p p"
  by (simp add: below_def)

lemma put_file_ok: "tree_ok t \<Longrightarrow> put_file p c t = Inr t' \<Longrightarrow> tree_ok t'"
  by (auto simp: put_file_Inr tree_ok_def)

lemma put_files_ok: "tree_ok t \<Longrightarrow> put_files ms t = Inr t' \<Longrightarrow> tree_ok t'"
  by (induction ms t rule: put_files.induct) (auto simp: bind_res_Inr_iff dest: put_file_ok)

lemma put_files_lookup: "put_files ms t = Inr t' \<Longrightarrow> map_of t' p = (map_of t ++ map_of (rev ms)) p"
proof (induction ms t arbitrary: t' rule: put_files.induct)
  case (2 q c ms t)
  then obtain t1 where t1: "put_file q c t = Inr t1" "put_files ms t1 = Inr t'" by (auto simp: bind_res_Inr_iff)
  from 2(1) [OF t1(2)] t1(1) show ?case by (auto simp: put_file_Inr map_add_def split: option.splits)
qed simp

lemma unpack_lookup: "unpack ms = Inr t \<Longrightarrow> map_of t = map_of (rev ms)"
  using put_files_lookup [of ms "[]" t] by (auto simp: unpack_def map_add_def fun_eq_iff split: option.splits)

lemma unpack_ok: "unpack ms = Inr t \<Longrightarrow> tree_ok t"
  using put_files_ok [of "[]" ms t] by (simp add: unpack_def tree_ok_def)

lemma map_of_filter_key: "map_of (filter (\<lambda>(q, x). P q) t) p = (if P p then map_of t p else None)"
  by (induction t) auto

lemma clear_path_lookup: "\<not> below m p \<Longrightarrow> p \<noteq> m \<Longrightarrow> map_of (clear_path m t) p = map_of t p"
  by (auto simp: clear_path_def map_of_filter_key)

lemma clear_fold_lookup:
  "(\<And>m. m \<in> set ms \<Longrightarrow> \<not> below (fst m) p \<and> p \<noteq> fst m) \<Longrightarrow>
   map_of (fold (\<lambda>(m, c). clear_path m) ms t) p = map_of t p"
proof (induction ms arbitrary: t)
  case (Cons m ms)
  from Cons(2) [of m] have "\<not> below (fst m) p" "p \<noteq> fst m" by auto
  with Cons(1) [OF Cons(2)] show ?case by (cases m) (auto simp: clear_path_lookup)
qed simp

lemma clear_path_None: "map_of t p = None \<Longrightarrow> map_of (clear_path m t) p = None"
  by (auto simp: clear_path_def map_of_filter_key)

lemma clear_fold_None: "map_of t p = None \<Longrightarrow> map_of (fold (\<lambda>(m, c). clear_path m) ms t) p = None"
  by (induction ms arbitrary: t) (auto simp: clear_path_None split_beta)

lemma find_absent: "p \<notin> snd ` set hs \<Longrightarrow> find (\<lambda>h. snd h = p) hs = None"
  by (induction hs) auto

lemma find_present: "distinct (map snd hs) \<Longrightarrow> (n, p) \<in> set hs \<Longrightarrow> find (\<lambda>h. snd h = p) hs = Some (n, p)"
  by (induction hs) (auto simp: image_iff)

lemma copy_hidden_lookup:
  assumes "copy_hidden src hs t = Inr t'" "distinct (map snd hs)"
  shows "map_of t' p = (case find (\<lambda>h. snd h = p) hs of Some h \<Rightarrow> src (fst h) | None \<Rightarrow> map_of t p)"
  using assms
proof (induction src hs t arbitrary: t' rule: copy_hidden.induct)
  case (2 src name dest hs t)
  then obtain c t1 where c: "src name = Some c" "put_file dest c t = Inr t1" "copy_hidden src hs t1 = Inr t'"
    by (auto simp: bind_res_Inr_iff split: option.splits)
  have "find (\<lambda>h. snd h = dest) hs = None" using 2(3) by (simp add: find_absent)
  with 2(1) [OF c(1,3)] 2(3) c show ?case by (auto simp: put_file_Inr split: option.splits)
qed simp

lemma restored_test:
  assumes "unpack ms = Inr t0" "restore_visible_tests ms task t1 = Inr t2" "p \<in> set (gt_tests task)" "map_of t0 p = Some c"
  shows "map_of t2 p = Some c"
proof -
  have "map_of (rev (filter (\<lambda>(p, c). p \<in> set (gt_tests task)) ms)) p = Some c"
    using assms(3,4) unpack_lookup [OF assms(1)] by (simp add: rev_filter map_of_filter_key)
  with put_files_lookup [OF assms(2) [unfolded restore_visible_tests_def Let_def], of p] show ?thesis
    by (simp add: map_add_def)
qed

lemma restored_other:
  assumes "unpack ms = Inr t0" "restore_visible_tests ms task t1 = Inr t2" "map_of t1 p = map_of t0 p"
  shows "map_of t2 p = map_of t0 p"
proof (cases "p \<in> set (gt_tests task) \<and> map_of t0 p \<noteq> None")
  case True
  with restored_test [OF assms(1,2), of p] show ?thesis by auto
next
  case False
  define ts where "ts = filter (\<lambda>(p, c). p \<in> set (gt_tests task)) ms"
  have "map_of (rev ts) p = None"
    using False unpack_lookup [OF assms(1)] by (auto simp: ts_def rev_filter map_of_filter_key)
  then have t2: "map_of t2 p = map_of (fold (\<lambda>(m, c). clear_path m) ts t1) p"
    using put_files_lookup [OF assms(2) [unfolded restore_visible_tests_def Let_def], of p] by (simp add: map_add_def ts_def)
  show ?thesis
  proof (cases "map_of t0 p")
    case None
    with clear_fold_None [of t1 p ts] assms(3) t2 show ?thesis by simp
  next
    case (Some c)
    then have here: "p \<in> fst ` set t0" by (metis domI dom_map_of_conv_image_fst)
    have "\<not> below (fst m) p \<and> p \<noteq> fst m" if m: "m \<in> set ts" for m
    proof -
      have "fst m \<in> dom (map_of (rev ms))" using m by (auto simp: ts_def dom_map_of_conv_image_fst)
      then have "fst m \<in> fst ` set t0" using unpack_lookup [OF assms(1)] dom_map_of_conv_image_fst by metis
      moreover have "fst m \<in> set (gt_tests task)" using m by (auto simp: ts_def)
      ultimately show ?thesis using here unpack_ok [OF assms(1)] False Some unfolding tree_ok_def by blast
    qed
    from clear_fold_lookup [OF this] t2 assms(3) show ?thesis by simp
  qed
qed

lemma classify_loop_allowed:
  "set (fst (classify_loop declared cs allowed dropped)) =
   set allowed \<union> {p. \<exists>st m. (st, m, p) \<in> set cs \<and> \<not> is_protected p \<and> p \<in> set declared \<and> (st = ''D'' \<or> mode_reason m = None)}"
proof (induction declared cs allowed dropped rule: classify_loop.induct)
  case (2 declared st m p cs allowed dropped)
  show ?case
  proof (cases "is_protected p")
    case True
    with 2(1) show ?thesis by auto
  next
    case False
    show ?thesis
    proof (cases "if st \<noteq> ''D'' then mode_reason m else None")
      case None
      with 2(2,3) [OF False None] False show ?thesis by (cases "p \<in> set declared") (auto split: if_splits)
    next
      case (Some why)
      with 2(4) [OF False Some] False show ?thesis by (auto split: if_splits)
    qed
  qed
qed simp

section \<open>Properties of grading\<close>

text \<open>What \<^verbatim>\<open>git apply\<close> documents: only paths named in the patch change.\<close>

definition confined :: "(tree \<Rightarrow> string \<Rightarrow> string + tree) \<Rightarrow> (string \<Rightarrow> string \<Rightarrow> bool) \<Rightarrow> bool" where
  "confined git_apply names = (\<forall>t t' patch p. git_apply t patch = Inr t' \<longrightarrow> \<not> names patch p \<longrightarrow> map_of t' p = map_of t p)"

lemma safe_norm: "safe_path p \<Longrightarrow> normpath p = p"
  by (simp add: safe_path_def)

lemma safe_text: "safe_rel v \<Longrightarrow> safe_path (text_of v)"
  by (cases v) (auto simp: text_of_def)

lemma all_safe_text: "list_all safe_rel vs \<Longrightarrow> list_all safe_path (map text_of vs)"
  by (induction vs) (auto simp: safe_text)

lemma load_task_Inr:
  assumes "load_task j = Inr task"
  shows "list_all safe_path (gt_files task @ gt_tests task @ map snd (gt_hidden task) @ map (\<lambda>a. fst (cut_at ''::'' a)) (gt_pytest task))"
    and "set (gt_files task) \<inter> set (gt_tests task) = {}" "set (gt_files task) \<inter> snd ` set (gt_hidden task) = {}"
    and "set (gt_tests task) \<inter> snd ` set (gt_hidden task) = {}"
proof -
  obtain d args where l: "load_checked d args = Inr task"
    using assms by (auto simp: load_task_def bind_res_Inr_iff split: pyval.splits if_splits)
  let ?paths = "list_of (dget d ''files'') @ list_of (dget d ''tests'') @ map snd (dict_of (dget d ''hidden'')) @
    map (\<lambda>a. PStr (fst (cut_at ''::'' a))) args"
  have safe: "list_all safe_rel ?paths" using l by (simp add: load_checked_def Let_def split: if_splits)
  have task: "gt_files task = map text_of (list_of (dget d ''files''))" "gt_tests task = map text_of (list_of (dget d ''tests''))"
    "map snd (gt_hidden task) = map text_of (map snd (dict_of (dget d ''hidden'')))" "gt_pytest task = args"
    using l by (auto simp: load_checked_def Let_def split: if_splits)
  have "gt_files task @ gt_tests task @ map snd (gt_hidden task) @ map (\<lambda>a. fst (cut_at ''::'' a)) (gt_pytest task) = map text_of ?paths"
    unfolding task by (simp add: text_of_def)
  then show "list_all safe_path (gt_files task @ gt_tests task @ map snd (gt_hidden task) @ map (\<lambda>a. fst (cut_at ''::'' a)) (gt_pytest task))"
    using all_safe_text [OF safe] by (simp only:)
  have "\<not> list_ex (\<lambda>f. f \<in> set (gt_tests task) \<or> f \<in> snd ` set (gt_hidden task)) (gt_files task)"
    "\<not> list_ex (\<lambda>h. h \<in> set (gt_tests task)) (map snd (gt_hidden task))"
    using l by (auto simp: load_checked_def Let_def split: if_splits)
  then show "set (gt_files task) \<inter> set (gt_tests task) = {}" "set (gt_files task) \<inter> snd ` set (gt_hidden task) = {}"
    "set (gt_tests task) \<inter> snd ` set (gt_hidden task) = {}"
    by (auto simp: list_ex_iff)
qed

text \<open>
  C19: The grading tree is the harness's own, whatever patch it is given. The prepared tree has the
  harness's pytest configuration, at every hidden test's destination the bundle's file, and at every
  visible test of the snapshot the snapshot's file. If the patch is the one exported by \<open>filtered_patch\<close>
  from the changes of a workspace (which names only the paths asked for), the tree has at every path that
  is protected or not declared exactly what the snapshot has there.
\<close>

theorem grading_tree_pristine:
  assumes "load_task (bu_task b) = Inr task" "distinct (map snd (gt_hidden task))"
    and "confined git_apply names" "\<And>paths p. names (git_diff paths) p \<Longrightarrow> p \<in> set paths"
    and "prepare_tree git_apply b task patch = Inr (Inr t)" "unpack (bu_snapshot b) = Inr t0"
  shows "map_of t ini = Some (''[pytest]'' @ newline) \<and>
    list_all (\<lambda>(n, dest). dest = ini \<or> map_of t dest = bu_hidden b n) (gt_hidden task) \<and>
    list_all (\<lambda>p. p = ini \<or> map_of t0 p = None \<or> map_of t p = map_of t0 p) (gt_tests task) \<and>
    (patch = fst (filtered_patch git_diff changes (gt_files task)) \<longrightarrow>
      (\<forall>p. is_protected p \<or> p \<notin> set (gt_files task) \<longrightarrow> p = ini \<or> p \<in> snd ` set (gt_hidden task) \<or> map_of t p = map_of t0 p))"
proof -
  obtain t1 t2 t3 where t: "apply_patch git_apply t0 patch = Inr t1"
    "restore_visible_tests (bu_snapshot b) task t1 = Inr t2" "copy_hidden (bu_hidden b) (gt_hidden task) t2 = Inr t3"
    "t = alist_put ini (''[pytest]'' @ newline) t3"
    using assms(5,6) by (auto simp: prepare_tree_def bind_res_Inr_iff put_file_Inr split: sum.splits)
  note load = load_task_Inr [OF assms(1)]
  have other: "map_of t p = map_of t2 p" if "p \<noteq> ini" "p \<notin> snd ` set (gt_hidden task)" for p
    using copy_hidden_lookup [OF t(3) assms(2), of p] that(1) t(4) find_absent [OF that(2)] by simp
  have hid: "map_of t dest = bu_hidden b n" if "(n, dest) \<in> set (gt_hidden task)" "dest \<noteq> ini" for n dest
    using copy_hidden_lookup [OF t(3) assms(2), of dest] that(2) t(4) find_present [OF assms(2) that(1)] by simp
  have tests: "map_of t p = map_of t0 p" if "p \<in> set (gt_tests task)" "p \<noteq> ini" "map_of t0 p \<noteq> None" for p
  proof -
    have "p \<notin> snd ` set (gt_hidden task)" using load(4) that(1) by blast
    with other [OF that(2)] that(3) restored_test [OF assms(6) t(2) that(1)] show ?thesis by auto
  qed
  have rest: "map_of t p = map_of t0 p"
    if "patch = fst (filtered_patch git_diff changes (gt_files task))" "is_protected p \<or> p \<notin> set (gt_files task)"
      "p \<noteq> ini" "p \<notin> snd ` set (gt_hidden task)" for p
  proof -
    have norm: "map normpath (gt_files task) = gt_files task"
      using load(1) by (intro map_idI) (auto simp: list_all_iff safe_norm)
    have "p \<notin> set (fst (classify changes (gt_files task)))"
      using that(2) classify_loop_allowed [of "gt_files task" changes "[]" "[]"] by (auto simp: classify_def norm)
    then have "patch = [] \<or> \<not> names patch p"
      using assms(4) [of "fst (classify changes (gt_files task))" p] that(1)
      by (auto simp: filtered_patch_def export_patch_def split_beta split: if_splits)
    then have "map_of t1 p = map_of t0 p"
      using t(1) assms(3) by (auto simp: apply_patch_def confined_def split: if_splits)
    with restored_other [OF assms(6) t(2)] other [OF that(3,4)] show ?thesis by simp
  qed
  show ?thesis
  proof (intro conjI impI allI)
    show "map_of t ini = Some (''[pytest]'' @ newline)" using t(4) by simp
    show "list_all (\<lambda>(n, dest). dest = ini \<or> map_of t dest = bu_hidden b n) (gt_hidden task)"
      using hid by (auto simp: list_all_iff)
    show "list_all (\<lambda>p. p = ini \<or> map_of t0 p = None \<or> map_of t p = map_of t0 p) (gt_tests task)"
      using tests unfolding list_all_iff by blast
    show "p = ini \<or> p \<in> snd ` set (gt_hidden task) \<or> map_of t p = map_of t0 p"
      if "patch = fst (filtered_patch git_diff changes (gt_files task))" "is_protected p \<or> p \<notin> set (gt_files task)" for p
      using rest [OF that] by blast
  qed
qed

lemma junit_snoc: "junit_results (cs @ [c]) = add_case c (junit_results cs)"
  by (simp add: junit_results_def)

lemma junit_facts:
  "distinct (map fst (junit_results cs)) \<and>
   map_of (junit_results cs) k =
     (if k \<in> case_id ` set cs then Some (\<forall>c \<in> set cs. case_id c = k \<longrightarrow> \<not> tcs_bad c) else None)"
proof (induction cs arbitrary: k rule: rev_induct)
  case (snoc c cs)
  have d: "distinct (map fst (junit_results cs))" using snoc [of k] by blast
  have ih: "map_of (junit_results cs) j =
      (if j \<in> case_id ` set cs then Some (\<forall>c \<in> set cs. case_id c = j \<longrightarrow> \<not> tcs_bad c) else None)" for j
    using snoc [of j] by blast
  show ?case
  proof (cases "k = case_id c")
    case True
    then show ?thesis using d by (cases "case_id c \<in> case_id ` set cs") (auto simp: junit_snoc add_case_def ih intro: rev_image_eqI)
  next
    case False
    then show ?thesis using d by (auto simp: junit_snoc add_case_def ih)
  qed
qed (simp add: junit_results_def)

lemma junit_all: "list_all snd (junit_results cs) \<longleftrightarrow> list_all (\<lambda>c. \<not> tcs_bad c) cs"
proof -
  have d: "distinct (map fst (junit_results cs))" using junit_facts by blast
  have "list_all snd (junit_results cs) \<longleftrightarrow> (\<forall>k. map_of (junit_results cs) k \<noteq> Some False)"
  proof -
    have "list_all snd xs \<longleftrightarrow> (\<forall>k. (k, False) \<notin> set xs)" for xs :: "(test_id \<times> bool) list"
      by (induction xs) force+
    then show ?thesis using d by (simp add: map_of_eq_Some_iff)
  qed
  also have "\<dots> \<longleftrightarrow> list_all (\<lambda>c. \<not> tcs_bad c) cs" 
  proof -
    have "map_of (junit_results cs) k = Some False \<longleftrightarrow> (\<exists>c \<in> set cs. case_id c = k \<and> tcs_bad c)" for k
      using junit_facts [of cs k] by auto
    then show ?thesis unfolding list_all_iff by blast
  qed
  finally show ?thesis .
qed

lemma passed_all: "passed_of res ids = length ids \<longleftrightarrow> list_all (\<lambda>k. map_of res k = Some True) ids"
proof -
  have "length (filter P xs) = length xs \<longleftrightarrow> list_all P xs" for P and xs :: "test_id list"
  proof (induction xs)
    case (Cons x xs)
    then show ?case using length_filter_le [of P xs] by (cases "P x") (simp_all del: length_filter_le)
  qed simp
  then show ?thesis by (simp add: passed_of_def)
qed

text \<open>
  C20: What a passing grade means. A grade passes exactly when the bundle loads, the patch applies and the
  tree can be prepared, the test modules of that tree (read before any code of the patch runs) name at
  least one test, and the run ends in time with status 0 and leaves a report in which each of these tests
  has a case and no case at all failed, erred or was skipped. Ending the process early with status 0
  leaves no such report and does not pass.
\<close>

theorem grade_passes_iff:
  assumes "grade w b patch = Inr g"
  shows "gr_pass g \<longleftrightarrow>
    (\<exists>task t ids cases r. load_task (bu_task b) = Inr task \<and> prepare_tree (rr_apply w) b task patch = Inr (Inr t) \<and>
       expected_ids (rr_parse w) t (targets task) = Inr ids \<and> ids \<noteq> [] \<and>
       r = rr_run w (clear_path junit_file t) (pytest_args task) (gt_timeout task) \<and>
       \<not> rn_timed_out r \<and> rn_rc r = 0 \<and> rn_report r = Some cases \<and>
       list_all (\<lambda>k. k \<in> case_id ` set cases) ids \<and> list_all (\<lambda>c. \<not> tcs_bad c) cases)"
proof -
  obtain task p where tp: "load_task (bu_task b) = Inr task" "prepare_tree (rr_apply w) b task patch = Inr p"
    using assms by (auto simp: grade_def bind_res_Inr_iff)
  show ?thesis
  proof (cases p)
    case (Inl msg)
    with assms tp show ?thesis by (auto simp: grade_def)
  next
    case (Inr t)
    with assms tp obtain ids where ids: "expected_ids (rr_parse w) t (targets task) = Inr ids"
      by (auto simp: grade_def bind_res_Inr_iff)
    define r where "r = rr_run w (clear_path junit_file t) (pytest_args task) (gt_timeout task)"
    have g: "g = judge task ids r" using assms tp Inr ids by (simp add: grade_def r_def)
    have all: "list_all (\<lambda>k. map_of (junit_results cases) k = Some True) ids \<longleftrightarrow> list_all (\<lambda>k. k \<in> case_id ` set cases) ids"
      if "list_all (\<lambda>c. \<not> tcs_bad c) cases" for cases
      using that junit_facts [of cases] by (auto simp: list_all_iff)
    have "gr_pass g \<longleftrightarrow> ids \<noteq> [] \<and> \<not> rn_timed_out r \<and> rn_rc r = 0 \<and>
        (\<exists>cases. rn_report r = Some cases \<and> list_all (\<lambda>k. k \<in> case_id ` set cases) ids \<and> list_all (\<lambda>c. \<not> tcs_bad c) cases)"
    proof (cases "rn_report r")
      case None
      then show ?thesis by (auto simp: g judge_def Let_def passed_of_def)
    next
      case (Some cases)
      have "gr_pass g \<longleftrightarrow> ids \<noteq> [] \<and> \<not> rn_timed_out r \<and> rn_rc r = 0 \<and> list_all (\<lambda>c. \<not> tcs_bad c) cases \<and>
          list_all (\<lambda>k. map_of (junit_results cases) k = Some True) ids"
        unfolding g judge_def Let_def Some by (simp add: passed_all junit_all conj_ac)
      with Some all [of cases] show ?thesis by auto
    qed
    then show ?thesis using tp Inr ids r_def by auto
  qed
qed

section \<open>Paths of a task stay in the tree\<close>

definition ups_last :: "string list \<Rightarrow> bool" where
  "ups_last st = (\<exists>k rest. st = rest @ replicate k ''..'' \<and> ''..'' \<notin> set rest)"

lemma ups_last_Cons: "ups_last st \<Longrightarrow> c \<noteq> ''..'' \<or> st = [] \<or> hd st = ''..'' \<Longrightarrow> ups_last (c # st)"
proof -
  assume "ups_last st" and c: "c \<noteq> ''..'' \<or> st = [] \<or> hd st = ''..''"
  then obtain k rest where st: "st = rest @ replicate k ''..''" "''..'' \<notin> set rest" by (auto simp: ups_last_def)
  show ?thesis
  proof (cases "c = ''..''")
    case True
    with c st have "rest = []" by (cases rest) auto
    with st True have "c # st = [] @ replicate (Suc k) ''..''" by simp
    then show ?thesis unfolding ups_last_def by fastforce
  next
    case False
    with st have "c # st = (c # rest) @ replicate k ''..'' \<and> ''..'' \<notin> set (c # rest)" by simp
    then show ?thesis unfolding ups_last_def by blast
  qed
qed

lemma ups_last_tl: "ups_last st \<Longrightarrow> st = [] \<or> hd st \<noteq> ''..'' \<Longrightarrow> ups_last (tl st)"
proof -
  assume "ups_last st" and h: "st = [] \<or> hd st \<noteq> ''..''"
  then obtain k rest where st: "st = rest @ replicate k ''..''" "''..'' \<notin> set rest" by (auto simp: ups_last_def)
  show ?thesis
  proof (cases rest)
    case Nil
    with st h have "st = []" by (cases k) auto
    then show ?thesis by (auto simp: ups_last_def)
  next
    case (Cons r rs)
    with st have "tl st = rs @ replicate k ''..'' \<and> ''..'' \<notin> set rs" by simp
    then show ?thesis unfolding ups_last_def by blast
  qed
qed

lemma norm_comps_shape:
  assumes "ups_last st"
  shows "ups_last (rev (norm_comps rooted st cs)) \<and> set (norm_comps rooted st cs) \<subseteq> set st \<union> (set cs - {[], ''.''})"
  using assms
proof (induction rooted st cs rule: norm_comps.induct)
  case (2 rooted st c cs)
  consider "c = [] \<or> c = ''.''" | "\<not> (c = [] \<or> c = ''.'')" "c \<noteq> ''..'' \<or> (\<not> rooted \<and> st = []) \<or> (st \<noteq> [] \<and> hd st = ''..'')"
    | "\<not> (c = [] \<or> c = ''.'')" "\<not> (c \<noteq> ''..'' \<or> (\<not> rooted \<and> st = []) \<or> (st \<noteq> [] \<and> hd st = ''..''))" by blast
  then show ?case
  proof cases
    case 1
    with 2(1) [OF 1 2(4)] show ?thesis by auto
  next
    case h: 2
    have "ups_last (c # st)" using ups_last_Cons [OF 2(4)] h(2) by blast
    with 2(2) [OF h] h show ?thesis by auto
  next
    case h: 3
    have "ups_last (tl st)" using ups_last_tl [OF 2(4)] h(2) by blast
    moreover have "norm_comps rooted st (c # cs) = norm_comps rooted (tl st) cs"
      using h by (simp only: norm_comps.simps if_False)
    moreover have "set (tl st) \<subseteq> set st" by (cases st) auto
    ultimately show ?thesis using 2(3) [OF h] by auto
  qed
qed simp

definition inside :: "string \<Rightarrow> bool" where
  "inside p = list_all (\<lambda>c. c \<notin> {[], ''..''}) (split_char slash p)"

lemma split_pieces: "c \<in> set (split_char d s) \<Longrightarrow> d \<notin> set c"
  unfolding split_char_def by (rule split_aux_free [of d "[]"]) simp_all

lemma safe_path_inside:
  assumes "safe_path p"
  shows "inside p"
proof -
  define cs where "cs = norm_comps False [] (split_char slash p)"
  have shape: "ups_last (rev cs)" "set cs \<subseteq> set (split_char slash p) - {[], ''.''}"
    using norm_comps_shape [of "[]" False "split_char slash p"] by (auto simp: cs_def ups_last_def)
  have slashes: "\<not> startswith p ''/''" "\<not> startswith p ''//''"
    using assms by (cases p; simp add: safe_path_def)+
  have norm: "p = (if join ''/'' cs = [] then ''.'' else join ''/'' cs)"
  proof -
    have "p \<noteq> []" "normpath p = p" using assms by (simp_all add: safe_path_def)
    moreover from slashes \<open>p \<noteq> []\<close> have "normpath p = (if join ''/'' cs = [] then ''.'' else join ''/'' cs)"
      unfolding normpath_def Let_def cs_def by simp
    ultimately show ?thesis by simp
  qed
  show ?thesis
  proof (cases "join ''/'' cs = []")
    case True
    with norm have "p = ''.''" by simp
    then show ?thesis by (simp add: inside_def split_char_def)
  next
    case False
    then have ne: "cs \<noteq> []" by auto
    from norm False have p: "p = join ''/'' cs" by simp
    have "split_char slash (join [slash] cs) = cs"
      by (rule split_join [OF ne]) (use shape(2) split_pieces in blast)
    with p have split: "split_char slash p = cs" by simp
    from shape(1) obtain k rest where "rev cs = rest @ replicate k ''..''" and rest: "''..'' \<notin> set rest"
      by (auto simp: ups_last_def)
    then have "rev (rev cs) = replicate k ''..'' @ rev rest" by (simp only: rev_append rev_replicate)
    then have cs: "cs = replicate k ''..'' @ rev rest" by simp
    have "k = 0"
    proof (rule ccontr)
      assume "k \<noteq> 0"
      with cs obtain r where r: "cs = ''..'' # r" by (cases k) auto
      then show False using assms p by (cases r) (auto simp: safe_path_def)
    qed
    with cs rest shape(2) split show ?thesis by (auto simp: inside_def list_all_iff)
  qed
qed

text \<open>
  C38: Every path a loaded task can make the grader read or write lies in the tree: no component of a
  declared file, a visible test, a hidden test's destination or a pytest target is empty or \<^verbatim>\<open>..\<close>, and none
  is absolute; a declared file is neither a visible test nor a hidden one's destination.
\<close>

theorem loaded_paths_inside:
  assumes "load_task j = Inr task"
  shows "list_all inside (gt_files task @ gt_tests task @ map snd (gt_hidden task) @ map (\<lambda>a. fst (cut_at ''::'' a)) (gt_pytest task)) \<and>
    set (gt_files task) \<inter> (set (gt_tests task) \<union> snd ` set (gt_hidden task)) = {}"
proof (intro conjI)
  show "list_all inside (gt_files task @ gt_tests task @ map snd (gt_hidden task) @ map (\<lambda>a. fst (cut_at ''::'' a)) (gt_pytest task))"
    by (rule list.pred_mono_strong [OF load_task_Inr(1) [OF assms]]) (rule safe_path_inside)
  show "set (gt_files task) \<inter> (set (gt_tests task) \<union> snd ` set (gt_hidden task)) = {}"
    using load_task_Inr(2,3) [OF assms] by blast
qed

section \<open>A sample bundle\<close>

definition sample_task_json :: pyval where
  "sample_task_json =
     PDict [(PStr ''id'', PStr ''t1''), (PStr ''commit'', PStr ''c1''), (PStr ''parent'', PStr ''c0''),
            (PStr ''request'', PStr ''request.md''), (PStr ''files'', PList [PStr ''src/a.py'']),
            (PStr ''tests'', PList [PStr ''tests/test_a.py'']), (PStr ''hidden'', PDict [(PStr ''h.py'', PStr ''tests/test_h.py'')]),
            (PStr ''needs_conftest'', PBool False), (PStr ''timeout_s'', PInt 60)]"

definition sample_gtask :: gtask where
  "sample_gtask = \<lparr>gt_id = ''t1'', gt_files = [''src/a.py''], gt_tests = [''tests/test_a.py''],
     gt_hidden = [(''h.py'', ''tests/test_h.py'')], gt_conftest = False, gt_timeout = 60, gt_pytest = []\<rparr>"

definition sample_bundle :: hbundle where
  "sample_bundle = \<lparr>bu_task = sample_task_json,
     bu_snapshot = [(''conftest.py'', ''c''), (''src/a.py'', ''old''), (''tests/test_a.py'', ''t'')],
     bu_hidden = (\<lambda>n. if n = ''h.py'' then Some ''h'' else None)\<rparr>"

definition sample_apply :: "tree \<Rightarrow> string \<Rightarrow> string + tree" where
  "sample_apply t patch = (if patch = [] then Inr t else Inr (alist_put ''src/a.py'' patch t))"

definition sample_diff :: "string list \<Rightarrow> string" where
  "sample_diff paths = (if ''src/a.py'' \<in> set paths then ''new'' else [])"

definition sample_changes :: "change list" where
  "sample_changes = [(''M'', ''100644'', ''src/a.py''), (''M'', ''100644'', ''conftest.py''), (''A'', ''120000'', ''tests/x'')]"

definition sample_tree :: tree where
  "sample_tree = [(''conftest.py'', ''c''), (''src/a.py'', ''new''), (''tests/test_a.py'', ''t''), (''tests/test_h.py'', ''h''),
     (''.workforce_pytest.ini'', ''[pytest]'' @ newline)]"

lemma sample_loaded: "load_task (bu_task sample_bundle) = Inr sample_gtask"
  by code_simp

lemma sample_unpacked: "unpack (bu_snapshot sample_bundle) = Inr [(''conftest.py'', ''c''), (''src/a.py'', ''old''), (''tests/test_a.py'', ''t'')]"
  by code_simp

lemma sample_prepared:
  "prepare_tree sample_apply sample_bundle sample_gtask (fst (filtered_patch sample_diff sample_changes (gt_files sample_gtask))) =
   Inr (Inr sample_tree)"
  by code_simp

lemma sample_confined: "confined sample_apply (\<lambda>patch p. patch \<noteq> [] \<and> p = ''src/a.py'')"
  by (auto simp: confined_def sample_apply_def split: if_splits)

theorem loaded_paths_inside_witness:
  "list_all inside [''src/a.py'', ''tests/test_a.py'', ''tests/test_h.py''] \<and>
   set [''src/a.py''] \<inter> (set [''tests/test_a.py''] \<union> snd ` set [(''h.py'', ''tests/test_h.py'')]) = {}"
  using loaded_paths_inside [OF sample_loaded] by (simp add: sample_gtask_def)

theorem grading_tree_pristine_witness:
  "map_of sample_tree ini = Some (''[pytest]'' @ newline) \<and> map_of sample_tree ''tests/test_h.py'' = Some ''h'' \<and>
   map_of sample_tree ''tests/test_a.py'' = Some ''t'' \<and> map_of sample_tree ''conftest.py'' = Some ''c'' \<and>
   map_of sample_tree ''tests/x'' = None"
proof -
  let ?names = "\<lambda>patch p. patch \<noteq> [] \<and> p = ''src/a.py''"
  have names: "?names (sample_diff paths) p \<Longrightarrow> p \<in> set paths" for paths p
    by (auto simp: sample_diff_def split: if_splits)
  have dist: "distinct (map snd (gt_hidden sample_gtask))" by (simp add: sample_gtask_def)
  note pristine = grading_tree_pristine [OF sample_loaded dist sample_confined names sample_prepared sample_unpacked,
    where changes = sample_changes]
  then have keep: "is_protected p \<or> p \<notin> set (gt_files sample_gtask) \<Longrightarrow> p = ini \<or> p \<in> snd ` set (gt_hidden sample_gtask) \<or>
      map_of sample_tree p = map_of [(''conftest.py'', ''c''), (''src/a.py'', ''old''), (''tests/test_a.py'', ''t'')] p" for p
    by blast
  from pristine keep [of "''conftest.py''"] keep [of "''tests/x''"] show ?thesis
    by (simp add: sample_gtask_def ini_def sample_bundle_def)
qed

definition sample_cases :: "test_case list" where
  "sample_cases = [\<lparr>tcs_class = ''tests.test_a'', tcs_name = ''test_a[1]'', tcs_bad = False\<rparr>,
     \<lparr>tcs_class = ''tests.test_a'', tcs_name = ''test_a[2]'', tcs_bad = False\<rparr>,
     \<lparr>tcs_class = ''tests.test_h.TestH'', tcs_name = ''test_h'', tcs_bad = False\<rparr>]"

definition sample_runner :: runner where
  "sample_runner = \<lparr>rr_apply = sample_apply,
     rr_parse = (\<lambda>src. Inr (if src = ''h'' then [AClass ''TestH'' [''setup'', ''test_h'']] else [AFun ''test_a'', AOther])),
     rr_run = (\<lambda>t args timeout. \<lparr>rn_rc = 0, rn_out = ''2 passed'', rn_timed_out = False, rn_report = Some sample_cases\<rparr>)\<rparr>"

definition sample_grade :: grade_rec where
  "sample_grade = \<lparr>gr_pass = True, gr_stage = ''tests'', gr_summary = ''2 passed'', gr_rc = Some 0, gr_counts = Some (2, 2)\<rparr>"

lemma sample_graded: "grade sample_runner sample_bundle ''new'' = Inr sample_grade"
  by code_simp

theorem grade_passes_iff_witness:
  "\<exists>task t ids cases r. load_task (bu_task sample_bundle) = Inr task \<and>
     prepare_tree (rr_apply sample_runner) sample_bundle task ''new'' = Inr (Inr t) \<and>
     expected_ids (rr_parse sample_runner) t (targets task) = Inr ids \<and> ids \<noteq> [] \<and>
     r = rr_run sample_runner (clear_path junit_file t) (pytest_args task) (gt_timeout task) \<and>
     \<not> rn_timed_out r \<and> rn_rc r = 0 \<and> rn_report r = Some cases \<and>
     list_all (\<lambda>k. k \<in> case_id ` set cases) ids \<and> list_all (\<lambda>c. \<not> tcs_bad c) cases"
  using grade_passes_iff [OF sample_graded] by (simp add: sample_grade_def)

end
