(* ===== verification/LiveTracker.thy ===== *)
theory LiveTracker
  imports PyVal "HOL-Library.Multiset"
begin

text \<open>
  The request tracker of the live dashboard, \<^verbatim>\<open>scripts/files/live_dashboard/tracker.py\<close>: the state machine
  that the chat server's journal and its \<^verbatim>\<open>/slots\<close> answers drive. Times are the caller's; the key of a
  row is the triple the source formats into a string.
\<close>

section \<open>Rows and state\<close>

type_synonym row_key = "rat \<times> int \<times> int option"

record timing =
  tm_ms :: rat
  tm_n :: int

record row =
  rw_key :: row_key
  rw_slot :: int
  rw_task :: "int option"
  rw_started :: rat
  rw_finished :: "rat option"
  rw_status :: string
  rw_prompt :: "int option"
  rw_new :: "int option"
  rw_cached :: "int option"
  rw_output :: "int option"
  rw_prefill_s :: "rat option"
  rw_gen_s :: "rat option"
  rw_duration :: "rat option"
  rw_accept :: "rat option"
  rw_slow :: bool
  rw_progress :: "rat option"
  rw_processed :: "int option"
  rw_live :: "rat option"
  rw_ctx :: pyval
  rw_dec :: "int option"
  rw_dec_t :: "rat option"
  rw_eval :: "timing option"
  rw_pe :: "timing option"
  rw_total :: "timing option"
  rw_est :: "int option"
  rw_rel :: "int option"
  rw_cache :: pyval

record tracker =
  tk_slots :: nat
  tk_grace :: rat
  tk_unreachable_s :: rat
  tk_run :: "rat option"
  tk_last_since :: "rat option"
  tk_restarting :: bool
  tk_journal_up :: bool
  tk_unreachable :: "rat option"
  tk_rekeyed :: bool
  tk_open :: "(int \<times> row) list"
  tk_cancelled :: "int list"
  tk_last_done :: "(int \<times> rat) list"
  tk_last_row :: "(int \<times> int option \<times> int option) list"
  tk_idle :: "(int \<times> rat) list"
  tk_finished :: "row list"

definition tracker_start :: "nat \<Rightarrow> rat \<Rightarrow> rat \<Rightarrow> tracker" where
  "tracker_start slots grace unreachable_s =
     \<lparr>tk_slots = slots, tk_grace = grace, tk_unreachable_s = unreachable_s, tk_run = None, tk_last_since = None,
      tk_restarting = False, tk_journal_up = True, tk_unreachable = None, tk_rekeyed = False, tk_open = [],
      tk_cancelled = [], tk_last_done = [], tk_last_row = [], tk_idle = [], tk_finished = []\<rparr>"

definition slow_new_tokens :: int where
  "slow_new_tokens = 5000"

text \<open>The server run, set to the time it is first needed.\<close>

definition ensure_run :: "rat \<Rightarrow> tracker \<Rightarrow> tracker" where
  "ensure_run now s = (case tk_run s of None \<Rightarrow> s\<lparr>tk_run := Some now\<rparr> | Some _ \<Rightarrow> s)"

definition run_of :: "tracker \<Rightarrow> rat" where
  "run_of s = (case tk_run s of None \<Rightarrow> 0 | Some r \<Rightarrow> r)"

definition blank_row :: "row_key \<Rightarrow> int \<Rightarrow> int option \<Rightarrow> rat \<Rightarrow> row" where
  "blank_row key slot task now =
     \<lparr>rw_key = key, rw_slot = slot, rw_task = task, rw_started = now, rw_finished = None, rw_status = ''reading'',
      rw_prompt = None, rw_new = None, rw_cached = None, rw_output = None, rw_prefill_s = None, rw_gen_s = None,
      rw_duration = None, rw_accept = None, rw_slow = False, rw_progress = None, rw_processed = None, rw_live = None,
      rw_ctx = PNone, rw_dec = None, rw_dec_t = None, rw_eval = None, rw_pe = None, rw_total = None, rw_est = None,
      rw_rel = None, rw_cache = PNone\<rparr>"

definition new_row :: "int \<Rightarrow> int option \<Rightarrow> rat \<Rightarrow> tracker \<Rightarrow> row \<times> tracker" where
  "new_row slot task now s =
     (let s1 = ensure_run now s; row = blank_row (run_of s1, slot, task) slot task now
      in (row, s1\<lparr>tk_idle := alist_del slot (tk_idle s1), tk_open := alist_put slot row (tk_open s1)\<rparr>))"

text \<open>The public fields of a closed row; the private ones are reset, as the source drops them.\<close>

definition rate :: "timing \<Rightarrow> rat option" where
  "rate t = (if tm_ms t > 0 then Some (of_int (tm_n t) / (tm_ms t / 1000)) else None)"

definition zero_or :: "int option \<Rightarrow> int" where
  "zero_or v = (case v of None \<Rightarrow> 0 | Some n \<Rightarrow> n)"

definition prompt_of :: "row \<Rightarrow> int option" where
  "prompt_of r =
     (case rw_rel r of
        Some n \<Rightarrow> Some (max 0 (n - (case rw_eval r of Some e \<Rightarrow> tm_n e | None \<Rightarrow> zero_or (rw_dec r))))
      | None \<Rightarrow> (case rw_est r of Some e \<Rightarrow> Some e | None \<Rightarrow> rw_prompt r))"

definition closed_row :: "string \<Rightarrow> rat \<Rightarrow> row \<Rightarrow> row" where
  "closed_row status now r =
     (let new = (case rw_pe r of Some p \<Rightarrow> Some (tm_n p) | None \<Rightarrow> rw_new r);
          out1 = (case rw_eval r of Some e \<Rightarrow> Some (tm_n e) | None \<Rightarrow> rw_output r);
          out = (if out1 = None \<and> (status = ''approx'' \<or> status = ''cancelled'') \<and> rw_dec r \<noteq> None then rw_dec r else out1);
          p0 = prompt_of r;
          p = (case (p0, new) of (Some a, Some b) \<Rightarrow> Some (max a b) | _ \<Rightarrow> p0);
          c = (case (p, new) of (Some a, Some b) \<Rightarrow> Some (max 0 (a - b)) | _ \<Rightarrow> rw_cached r)
      in (blank_row (rw_key r) (rw_slot r) (rw_task r) (rw_started r))
           \<lparr>rw_finished := Some now, rw_status := status, rw_prompt := p, rw_new := new, rw_cached := c, rw_output := out,
            rw_prefill_s := (case rw_pe r of Some t \<Rightarrow> rate t | None \<Rightarrow> rw_prefill_s r),
            rw_gen_s := (case rw_eval r of Some t \<Rightarrow> rate t | None \<Rightarrow> rw_gen_s r),
            rw_duration := Some (case rw_total r of Some t \<Rightarrow> tm_ms t / 1000 | None \<Rightarrow> now - rw_started r),
            rw_accept := rw_accept r, rw_slow := (case new of Some n \<Rightarrow> n \<noteq> 0 \<and> n > slow_new_tokens | None \<Rightarrow> False)\<rparr>)"

definition finish :: "int \<Rightarrow> string \<Rightarrow> rat \<Rightarrow> tracker \<Rightarrow> tracker" where
  "finish slot status now s =
     (let s1 = s\<lparr>tk_open := alist_del slot (tk_open s), tk_idle := alist_del slot (tk_idle s)\<rparr> in
      case map_of (tk_open s) slot of
        None \<Rightarrow> s1
      | Some r \<Rightarrow>
          (let c = closed_row status now r
           in s1\<lparr>tk_last_done := alist_put slot now (tk_last_done s1),
                 tk_last_row := alist_put slot (rw_prompt c, rw_cached c) (tk_last_row s1),
                 tk_finished := tk_finished s1 @ [c]\<rparr>))"

definition finish_all :: "rat \<Rightarrow> tracker \<Rightarrow> tracker" where
  "finish_all now s = fold (\<lambda>slot. finish slot ''interrupted'' now) (map fst (tk_open s)) s"

definition restart :: "rat \<Rightarrow> tracker \<Rightarrow> tracker" where
  "restart now s = (finish_all now s)\<lparr>tk_idle := [], tk_run := Some now, tk_cancelled := []\<rparr>"

section \<open>Inputs\<close>

datatype jkind =
    ServerStart | ServerReady | Cancel int
  | Start int int
  | Prefill int int int rat rat
  | Gen int int rat
  | PromptEval int int timing
  | EvalTime int int timing
  | TotalTime int int timing
  | Draft int int int int
  | Release int int int

definition serving :: "jkind \<Rightarrow> bool" where
  "serving k =
     (case k of Start _ _ \<Rightarrow> True | Prefill _ _ _ _ _ \<Rightarrow> True | Gen _ _ _ \<Rightarrow> True | PromptEval _ _ _ \<Rightarrow> True
      | Release _ _ _ \<Rightarrow> True | _ \<Rightarrow> False)"

definition backwards :: "rat option \<Rightarrow> tracker \<Rightarrow> bool" where
  "backwards since s = (case (since, tk_last_since s) of (Some a, Some b) \<Rightarrow> a < b - 1 | _ \<Rightarrow> False)"

text \<open>The event of an open row; None when the row is not open for this task.\<close>

definition with_row :: "int \<Rightarrow> int \<Rightarrow> (row \<Rightarrow> row) \<Rightarrow> tracker \<Rightarrow> tracker" where
  "with_row slot task f s =
     (case map_of (tk_open s) slot of
        Some r \<Rightarrow> if rw_task r = Some task then s\<lparr>tk_open := alist_put slot (f r) (tk_open s)\<rparr> else s
      | None \<Rightarrow> s)"

definition prefill_row :: "int \<Rightarrow> rat \<Rightarrow> rat \<Rightarrow> row \<Rightarrow> row" where
  "prefill_row n progress tok_s r =
     (if rw_status r = ''generating'' then r
      else (let r1 = r\<lparr>rw_progress := Some progress, rw_processed := Some n, rw_live := Some tok_s, rw_ctx := PInt n\<rparr>
            in if progress > 0 then r1\<lparr>rw_est := Some (round_half_even (of_int n / progress))\<rparr> else r1))"

definition gen_row :: "rat \<Rightarrow> row \<Rightarrow> row" where
  "gen_row tok_s r = r\<lparr>rw_status := ''generating'', rw_progress := Some 1, rw_live := Some tok_s\<rparr>"

definition on_start :: "int \<Rightarrow> int \<Rightarrow> rat \<Rightarrow> tracker \<Rightarrow> tracker" where
  "on_start slot task now s =
     (case map_of (tk_open s) slot of
        Some r \<Rightarrow>
          if rw_task r = Some task then s else snd (new_row slot (Some task) now (finish slot ''approx'' now s))
      | None \<Rightarrow> snd (new_row slot (Some task) now s))"

definition on_release :: "int \<Rightarrow> int \<Rightarrow> int \<Rightarrow> rat \<Rightarrow> tracker \<Rightarrow> tracker" where
  "on_release slot task n now s =
     (case map_of (tk_open s) slot of
        Some r \<Rightarrow>
          if rw_task r = Some task
          then (let status = (if task \<in> set (tk_cancelled s) then ''cancelled''
                              else if rw_eval r \<noteq> None then ''done'' else ''approx'');
                    s1 = with_row slot task (\<lambda>r. r\<lparr>rw_rel := Some n\<rparr>) s
                in finish slot status now (s1\<lparr>tk_cancelled := removeAll task (tk_cancelled s1)\<rparr>))
          else s
      | None \<Rightarrow> s)"

definition on_row_event :: "jkind \<Rightarrow> rat \<Rightarrow> tracker \<Rightarrow> tracker" where
  "on_row_event k now s =
     (case k of
        Cancel task \<Rightarrow> s\<lparr>tk_cancelled := List.insert task (tk_cancelled s)\<rparr>
      | Start slot task \<Rightarrow> on_start slot task now s
      | Prefill slot task n progress tok_s \<Rightarrow> with_row slot task (prefill_row n progress tok_s) s
      | Gen slot task tok_s \<Rightarrow> with_row slot task (gen_row tok_s) s
      | PromptEval slot task t \<Rightarrow> with_row slot task (\<lambda>r. r\<lparr>rw_pe := Some t\<rparr>) s
      | EvalTime slot task t \<Rightarrow> with_row slot task (\<lambda>r. r\<lparr>rw_eval := Some t\<rparr>) s
      | TotalTime slot task t \<Rightarrow> with_row slot task (\<lambda>r. r\<lparr>rw_total := Some t\<rparr>) s
      | Draft slot task accepted generated \<Rightarrow>
          with_row slot task
            (\<lambda>r. r\<lparr>rw_accept := (if generated \<noteq> 0 then Some (of_int accepted / of_int generated) else None)\<rparr>) s
      | Release slot task n \<Rightarrow> on_release slot task n now s
      | _ \<Rightarrow> s)"

definition on_journal :: "jkind \<Rightarrow> rat option \<Rightarrow> rat \<Rightarrow> tracker \<Rightarrow> tracker" where
  "on_journal k since now s =
     (let s1 = (if k = ServerStart \<or> backwards since s then restart now s else s);
          s2 = s1\<lparr>tk_restarting := (if k = ServerStart then True else tk_restarting s1), tk_last_since := since\<rparr>
      in if k = ServerReady then s2\<lparr>tk_restarting := False\<rparr>
         else if k = ServerStart then s2
         else (let s3 = (if serving k then s2\<lparr>tk_restarting := False\<rparr> else s2) in on_row_event k now (ensure_run now s3)))"

record slot_info =
  si_id :: int
  si_busy :: bool
  si_task :: "int option"
  si_prompt :: pyval
  si_cache :: pyval
  si_dec :: int

definition busy_row :: "slot_info \<Rightarrow> rat \<Rightarrow> bool \<Rightarrow> row \<Rightarrow> row" where
  "busy_row i now up r =
     (let r1 = r\<lparr>rw_cache := si_cache i\<rparr>;
          r2 = (if si_dec i > 0 \<or> \<not> up then r1\<lparr>rw_ctx := si_prompt i\<rparr> else r1)
      in if si_dec i > 0
         then (let live0 = (if rw_status r2 \<noteq> ''generating'' then None else rw_live r2);
                   live = (case (rw_dec r2, rw_dec_t r2) of
                             (Some d, Some t) \<Rightarrow> if now > t then Some (max 0 (of_int (si_dec i - d) / (now - t))) else live0
                           | _ \<Rightarrow> live0)
               in r2\<lparr>rw_live := live, rw_status := ''generating'', rw_progress := Some 1, rw_dec := Some (si_dec i),
                     rw_dec_t := Some now\<rparr>)
         else r2)"

definition busy_slot :: "slot_info \<Rightarrow> rat \<Rightarrow> tracker \<Rightarrow> tracker" where
  "busy_slot i now s0 =
     (let s = s0\<lparr>tk_restarting := False\<rparr>; slot = si_id i; up = tk_journal_up s;
          update = (\<lambda>r s. s\<lparr>tk_idle := alist_del slot (tk_idle s),
                           tk_open := alist_put slot (busy_row i now up r) (tk_open s)\<rparr>);
          open_new = (\<lambda>s. case new_row slot (si_task i) now s of (r, s') \<Rightarrow> update r s')
      in case map_of (tk_open s) slot of
           Some r \<Rightarrow>
             if rw_task r \<noteq> si_task i
             then (if up then s else open_new (finish slot ''approx'' now s))
             else update r s
         | None \<Rightarrow> if up then s else open_new s)"

definition idle_slot :: "slot_info \<Rightarrow> rat \<Rightarrow> tracker \<Rightarrow> tracker" where
  "idle_slot i now s =
     (case map_of (tk_open s) (si_id i) of
        None \<Rightarrow> s
      | Some r \<Rightarrow>
          (let first = (case map_of (tk_idle s) (si_id i) of Some t \<Rightarrow> t | None \<Rightarrow> now);
               s1 = (if map_of (tk_idle s) (si_id i) = None then s\<lparr>tk_idle := alist_put (si_id i) now (tk_idle s)\<rparr> else s)
           in if \<not> tk_journal_up s \<or> now - first \<ge> tk_grace s then finish (si_id i) ''approx'' now s1 else s1))"

definition on_slot :: "rat \<Rightarrow> slot_info \<Rightarrow> tracker \<Rightarrow> tracker" where
  "on_slot now i s = (if si_busy i then busy_slot i now s else idle_slot i now s)"

definition unreachable :: "rat \<Rightarrow> tracker \<Rightarrow> tracker" where
  "unreachable now s =
     (let since = (case tk_unreachable s of None \<Rightarrow> now | Some t \<Rightarrow> t); s1 = s\<lparr>tk_unreachable := Some since\<rparr>
      in if \<not> tk_journal_up s1 \<and> now - since \<ge> tk_unreachable_s s1
         then (let s2 = finish_all now s1
               in if tk_rekeyed s2 then s2 else s2\<lparr>tk_rekeyed := True, tk_run := Some now, tk_cancelled := []\<rparr>)
         else s1)"

definition on_slots :: "slot_info list option \<Rightarrow> rat \<Rightarrow> tracker \<Rightarrow> tracker" where
  "on_slots infos now s =
     (case infos of
        None \<Rightarrow> unreachable now s
      | Some infs \<Rightarrow> fold (on_slot now) infs (s\<lparr>tk_unreachable := None, tk_rekeyed := False\<rparr>))"

definition set_journal_up :: "bool \<Rightarrow> tracker \<Rightarrow> tracker" where
  "set_journal_up up s = s\<lparr>tk_journal_up := up, tk_last_since := None\<rparr>"

section \<open>Outputs\<close>

record slot_view =
  sv_id :: int
  sv_state :: string
  sv_row :: "row option"
  sv_prompt :: "int option"
  sv_cached :: "int option"
  sv_done :: "rat option"

definition known_cache :: "pyval \<Rightarrow> int option" where
  "known_cache c = (case c of PInt n \<Rightarrow> if n > 0 then Some n else None | _ \<Rightarrow> None)"

definition slot_view_of :: "tracker \<Rightarrow> int \<Rightarrow> slot_view" where
  "slot_view_of s i =
     (let row = map_of (tk_open s) i;
          last = (case map_of (tk_last_row s) i of Some l \<Rightarrow> l | None \<Rightarrow> (None, None))
      in \<lparr>sv_id = i,
          sv_state = (if tk_restarting s then ''restarting'' else case row of Some r \<Rightarrow> rw_status r | None \<Rightarrow> ''idle''),
          sv_row = row,
          sv_prompt = (case row of
                         Some r \<Rightarrow> (if rw_prompt r \<noteq> None then rw_prompt r else rw_est r)
                       | None \<Rightarrow> fst last),
          sv_cached = (case row of
                         Some r \<Rightarrow> (if rw_cached r \<noteq> None then rw_cached r else known_cache (rw_cache r))
                       | None \<Rightarrow> snd last),
          sv_done = map_of (tk_last_done s) i\<rparr>)"

definition slot_views :: "tracker \<Rightarrow> slot_view list" where
  "slot_views s = map (\<lambda>i. slot_view_of s (int i)) [0..<tk_slots s]"

definition open_rows :: "tracker \<Rightarrow> row list" where
  "open_rows s = map snd (tk_open s)"

definition pop_finished :: "tracker \<Rightarrow> row list \<times> tracker" where
  "pop_finished s = (tk_finished s, s\<lparr>tk_finished := []\<rparr>)"

section \<open>Invariant\<close>

definition open_ok :: "rat \<Rightarrow> int \<times> row \<Rightarrow> bool" where
  "open_ok t kr =
     (rw_slot (snd kr) = fst kr \<and> rw_status (snd kr) \<in> {''reading'', ''generating''} \<and> rw_started (snd kr) \<le> t \<and>
      rw_finished (snd kr) = None)"

definition closed_ok :: "row \<Rightarrow> bool" where
  "closed_ok r =
     (rw_status r \<in> {''done'', ''cancelled'', ''approx'', ''interrupted''} \<and>
      (\<exists>t. rw_finished r = Some t \<and> rw_started r \<le> t) \<and>
      (rw_status r = ''done'' \<longrightarrow> rw_output r \<noteq> None) \<and>
      (\<forall>p n. rw_prompt r = Some p \<longrightarrow> rw_new r = Some n \<longrightarrow> n \<le> p \<and> rw_cached r = Some (p - n)))"

definition track_ok :: "rat \<Rightarrow> tracker \<Rightarrow> bool" where
  "track_ok t s =
     (distinct (map fst (tk_open s)) \<and> (\<forall>kr \<in> set (tk_open s). open_ok t kr) \<and>
      fst ` set (tk_idle s) \<subseteq> fst ` set (tk_open s) \<and> (\<forall>r \<in> set (tk_finished s). closed_ok r))"

text \<open>The keys of all rows not yet handed out, and what an input may do to them.\<close>

definition row_keys :: "tracker \<Rightarrow> row_key multiset" where
  "row_keys s = mset (map (\<lambda>kr. rw_key (snd kr)) (tk_open s)) + mset (map rw_key (tk_finished s))"

definition extends :: "tracker \<Rightarrow> tracker \<Rightarrow> bool" where
  "extends s s' = (row_keys s \<subseteq># row_keys s' \<and> (\<exists>rs. tk_finished s' = tk_finished s @ rs))"

lemma extends_refl [simp]: "extends s s"
  by (simp add: extends_def)

lemma extends_trans: "extends s s' \<Longrightarrow> extends s' s'' \<Longrightarrow> extends s s''"
  by (auto simp: extends_def intro: subset_mset.trans)

lemma extends_same: "tk_open s' = tk_open s \<Longrightarrow> tk_finished s' = tk_finished s \<Longrightarrow> extends s s'"
  by (simp add: extends_def row_keys_def)

lemma open_ok_later: "open_ok t kr \<Longrightarrow> t \<le> t' \<Longrightarrow> open_ok t' kr"
  by (auto simp: open_ok_def)

lemma track_ok_later: "track_ok t s \<Longrightarrow> t \<le> t' \<Longrightarrow> track_ok t' s"
  by (auto simp: track_ok_def intro: open_ok_later)

lemma track_ok_same:
  "track_ok t s \<Longrightarrow> tk_open s' = tk_open s \<Longrightarrow> tk_finished s' = tk_finished s \<Longrightarrow> fst ` set (tk_idle s') \<subseteq> fst ` set (tk_idle s) \<Longrightarrow> track_ok t s'"
  unfolding track_ok_def by (simp, erule subset_trans, simp)

lemma set_del_fst: "fst ` set (alist_del k xs) = fst ` set xs - {k}"
  by simp

lemma in_alist_del: "x \<in> set (alist_del k xs) \<Longrightarrow> x \<in> set xs"
  by (auto simp: alist_del_def)

lemma in_alist_put: "x \<in> set (alist_put k v xs) \<Longrightarrow> x = (k, v) \<or> x \<in> set xs"
  by (induction k v xs rule: alist_put.induct) (auto split: if_splits)

lemma keys_del:
  "distinct (map fst xs) \<Longrightarrow> map_of xs k = Some r \<Longrightarrow>
   mset (map (\<lambda>kr. g (snd kr)) xs) = add_mset (g r) (mset (map (\<lambda>kr. g (snd kr)) (alist_del k xs)))"
proof (induction xs)
  case (Cons x xs)
  show ?case
  proof (cases "fst x = k")
    case True
    with Cons.prems(1) have "alist_del k xs = xs" by (intro alist_del_absent) auto
    with True Cons.prems(2) show ?thesis by (cases x) (simp add: alist_del_def)
  next
    case False
    with Cons show ?thesis by (cases x) (simp add: alist_del_def)
  qed
qed simp

lemma keys_put:
  "map_of xs k = Some r \<Longrightarrow> g r' = g r \<Longrightarrow> map (\<lambda>kr. g (snd kr)) (alist_put k r' xs) = map (\<lambda>kr. g (snd kr)) xs"
  by (induction k r' xs rule: alist_put.induct) auto

lemma keys_new: "map_of xs k = None \<Longrightarrow> alist_put k r xs = xs @ [(k, r)]"
  by (induction k r xs rule: alist_put.induct) (auto split: if_splits)

lemma closed_row_ok:
  assumes "open_ok t (k, r)" "t \<le> now" "status \<in> {''cancelled'', ''approx'', ''interrupted''} \<or> status = ''done'' \<and> rw_eval r \<noteq> None"
  shows "closed_ok (closed_row status now r)"
  using assms by (auto simp: closed_ok_def closed_row_def Let_def blank_row_def open_ok_def split: option.splits)

lemma closed_row_key [simp]: "rw_key (closed_row status now r) = rw_key r"
  by (simp add: closed_row_def Let_def blank_row_def)

lemma finish_props:
  assumes "track_ok t s" "t \<le> now"
    and "\<And>r. map_of (tk_open s) slot = Some r \<Longrightarrow>
      status \<in> {''cancelled'', ''approx'', ''interrupted''} \<or> status = ''done'' \<and> rw_eval r \<noteq> None"
  shows "track_ok now (finish slot status now s)" "extends s (finish slot status now s)"
    and "tk_open (finish slot status now s) = alist_del slot (tk_open s)"
proof -
  show o: "tk_open (finish slot status now s) = alist_del slot (tk_open s)"
    by (simp add: finish_def Let_def split: option.splits)
  have fin: "tk_finished (finish slot status now s) =
      tk_finished s @ (case map_of (tk_open s) slot of None \<Rightarrow> [] | Some r \<Rightarrow> [closed_row status now r])"
    by (simp add: finish_def Let_def split: option.splits)
  have idle: "tk_idle (finish slot status now s) = alist_del slot (tk_idle s)"
    by (simp add: finish_def Let_def split: option.splits)
  have closed: "closed_ok (closed_row status now r)" if r: "map_of (tk_open s) slot = Some r" for r
  proof -
    from r assms(1) have "open_ok t (slot, r)" by (auto simp: track_ok_def dest: map_of_SomeD)
    from closed_row_ok [OF this assms(2,3)] r show ?thesis by blast
  qed
  have "track_ok now s" using assms(1,2) by (rule track_ok_later)
  then show "track_ok now (finish slot status now s)"
    using closed by (auto simp: track_ok_def o fin idle dest: in_alist_del split: option.splits)
  show "extends s (finish slot status now s)"
  proof (cases "map_of (tk_open s) slot")
    case None
    then have "alist_del slot (tk_open s) = tk_open s" by (intro alist_del_absent) (simp add: map_of_eq_None_iff)
    with None show ?thesis by (simp add: extends_def row_keys_def o fin)
  next
    case (Some r)
    have "distinct (map fst (tk_open s))" using assms(1) by (simp add: track_ok_def)
    from keys_del [OF this Some, of rw_key] Some show ?thesis by (simp add: extends_def row_keys_def o fin)
  qed
qed

lemma finish_all_props:
  assumes "track_ok t s" "t \<le> now"
  shows "track_ok now (finish_all now s)" "extends s (finish_all now s)"
proof -
  have "track_ok now (fold (\<lambda>slot. finish slot ''interrupted'' now) ks s) \<and> extends s (fold (\<lambda>slot. finish slot ''interrupted'' now) ks s)"
    if "track_ok now s" for ks s
    using that
  proof (induction ks arbitrary: s)
    case (Cons k ks)
    note f = finish_props [OF Cons.prems order_refl, of k "''interrupted''"]
    from Cons.IH [of "finish k ''interrupted'' now s"] f(1,2) show ?case by (auto intro: extends_trans)
  qed simp
  from this [OF track_ok_later [OF assms]] show "track_ok now (finish_all now s)" "extends s (finish_all now s)"
    by (auto simp: finish_all_def)
qed

lemma restart_props:
  assumes "track_ok t s" "t \<le> now"
  shows "track_ok now (restart now s)" "extends s (restart now s)"
proof -
  note f = finish_all_props [OF assms]
  show "track_ok now (restart now s)" using f(1) by (rule track_ok_same) (simp_all add: restart_def)
  show "extends s (restart now s)"
    using f(2) extends_same [of "restart now s" "finish_all now s"] by (auto simp: restart_def intro: extends_trans)
qed

lemma new_row_props:
  assumes "track_ok t s" "t \<le> now" "map_of (tk_open s) slot = None"
  shows "track_ok now (snd (new_row slot task now s))" "extends s (snd (new_row slot task now s))"
    and "map_of (tk_open (snd (new_row slot task now s))) slot = Some (fst (new_row slot task now s))"
proof -
  have e: "tk_open (ensure_run now s) = tk_open s" "tk_finished (ensure_run now s) = tk_finished s" "tk_idle (ensure_run now s) = tk_idle s"
    by (auto simp: ensure_run_def split: option.splits)
  have "track_ok now s" using assms(1,2) by (rule track_ok_later)
  then show "track_ok now (snd (new_row slot task now s))"
    by (auto simp: new_row_def Let_def track_ok_def e open_ok_def blank_row_def dest!: in_alist_put)
  show "extends s (snd (new_row slot task now s))"
    by (simp add: new_row_def Let_def extends_def row_keys_def e keys_new [OF assms(3)])
  show "map_of (tk_open (snd (new_row slot task now s))) slot = Some (fst (new_row slot task now s))"
    by (simp add: new_row_def Let_def)
qed

text \<open>Changing an open row in place, when its key, slot, start and end stay.\<close>

definition in_place :: "row \<Rightarrow> row \<Rightarrow> bool" where
  "in_place r r' =
     (rw_key r' = rw_key r \<and> rw_slot r' = rw_slot r \<and> rw_started r' = rw_started r \<and> rw_finished r' = rw_finished r \<and>
      (rw_status r' = rw_status r \<or> rw_status r' = ''generating''))"

lemma put_row_props:
  assumes "track_ok t s" "map_of (tk_open s) slot = Some r" "in_place r r'"
    and "tk_open s' = alist_put slot r' (tk_open s)" "tk_finished s' = tk_finished s"
    and "fst ` set (tk_idle s') \<subseteq> fst ` set (tk_idle s)"
  shows "track_ok t s'" "extends s s'"
proof -
  have "open_ok t (slot, r)" using assms(1,2) by (auto simp: track_ok_def dest: map_of_SomeD)
  with assms(3) have r': "open_ok t (slot, r')" by (auto simp: open_ok_def in_place_def)
  have here: "slot \<in> fst ` set (tk_open s)" using assms(2) by (metis domI dom_map_of_conv_image_fst)
  then have keys: "fst ` set (alist_put slot r' (tk_open s)) = fst ` set (tk_open s)" by auto
  show "track_ok t s'"
    unfolding track_ok_def assms(4,5) keys
  proof (intro conjI ballI)
    show "fst ` set (tk_idle s') \<subseteq> fst ` set (tk_open s)"
      using assms(1) by (intro subset_trans [OF assms(6)]) (simp add: track_ok_def)
  qed (use assms(1) r' in \<open>auto simp: track_ok_def dest!: in_alist_put\<close>)
  show "extends s s'"
    using keys_put [OF assms(2), of rw_key r'] assms(3) by (simp add: extends_def row_keys_def assms(4,5) in_place_def)
qed

lemma with_row_props:
  assumes "track_ok t s" "\<And>r. in_place r (f r)"
  shows "track_ok t (with_row slot task f s)" "extends s (with_row slot task f s)"
proof -
  have "track_ok t (with_row slot task f s) \<and> extends s (with_row slot task f s)"
  proof (cases "map_of (tk_open s) slot")
    case None
    with assms(1) show ?thesis by (simp add: with_row_def)
  next
    case (Some r)
    from put_row_props [OF assms(1) Some assms(2), of "s\<lparr>tk_open := alist_put slot (f r) (tk_open s)\<rparr>"] assms(1) Some
    show ?thesis by (simp add: with_row_def)
  qed
  then show "track_ok t (with_row slot task f s)" "extends s (with_row slot task f s)" by simp_all
qed

lemma on_start_props:
  assumes "track_ok t s" "t \<le> now"
  shows "track_ok now (on_start slot task now s) \<and> extends s (on_start slot task now s)"
proof (cases "map_of (tk_open s) slot")
  case None
  from new_row_props [OF assms None] None show ?thesis by (simp add: on_start_def)
next
  case (Some r)
  note f = finish_props [OF assms, of slot "''approx''"]
  have "map_of (tk_open (finish slot ''approx'' now s)) slot = None" using f(3) by simp
  from new_row_props [OF f(1) order_refl this, of "Some task"] f(2) Some track_ok_later [OF assms] show ?thesis
    by (auto simp: on_start_def intro: extends_trans)
qed

lemma on_release_props:
  assumes "track_ok t s" "t \<le> now"
  shows "track_ok now (on_release slot task n now s) \<and> extends s (on_release slot task n now s)"
proof (cases "\<exists>r. map_of (tk_open s) slot = Some r \<and> rw_task r = Some task")
  case False
  with track_ok_later [OF assms] show ?thesis by (auto simp: on_release_def split: option.splits)
next
  case True
  then obtain r where r: "map_of (tk_open s) slot = Some r" "rw_task r = Some task" by blast
  define s1 where "s1 = with_row slot task (\<lambda>r. r\<lparr>rw_rel := Some n\<rparr>) s"
  define s2 where "s2 = s1\<lparr>tk_cancelled := removeAll task (tk_cancelled s1)\<rparr>"
  define status where "status = (if task \<in> set (tk_cancelled s) then ''cancelled'' else if rw_eval r \<noteq> None then ''done'' else ''approx'')"
  have s1: "track_ok t s1" "extends s s1" unfolding s1_def by (rule with_row_props [OF assms(1)], simp add: in_place_def)+
  have s2: "track_ok t s2" "extends s1 s2" using track_ok_same [OF s1(1), of s2] extends_same [of s2 s1] by (simp_all add: s2_def)
  have open2: "map_of (tk_open s2) slot = Some (r\<lparr>rw_rel := Some n\<rparr>)" using r by (simp add: s2_def s1_def with_row_def)
  have "status \<in> {''cancelled'', ''approx'', ''interrupted''} \<or> status = ''done'' \<and> rw_eval q \<noteq> None"
    if "map_of (tk_open s2) slot = Some q" for q using that open2 by (auto simp: status_def)
  note f = finish_props [OF s2(1) assms(2) this]
  have "on_release slot task n now s = finish slot status now s2"
    using r by (simp add: on_release_def Let_def s1_def s2_def status_def)
  with f(1,2) s1(2) s2(2) show ?thesis by (auto intro: extends_trans)
qed

lemma on_row_event_props:
  assumes "track_ok t s" "t \<le> now"
  shows "track_ok now (on_row_event k now s) \<and> extends s (on_row_event k now s)"
proof -
  have ok: "track_ok now s" by (rule track_ok_later [OF assms])
  have w: "track_ok now (with_row slot task f s) \<and> extends s (with_row slot task f s)" if "\<And>r. in_place r (f r)" for slot task f
    using with_row_props [OF ok that] by simp
  show ?thesis
  proof (cases k)
    case (Cancel task)
    then show ?thesis using track_ok_same [OF ok] by (auto simp: on_row_event_def intro: extends_same)
  next
    case (Start slot task)
    then show ?thesis using on_start_props [OF assms] by (simp add: on_row_event_def)
  next
    case (Release slot task n)
    then show ?thesis using on_release_props [OF assms] by (simp add: on_row_event_def)
  next
    case (Prefill slot task n progress tok_s)
    then show ?thesis using w [of "prefill_row n progress tok_s"] by (simp add: on_row_event_def in_place_def prefill_row_def Let_def)
  next
    case (Gen slot task tok_s)
    then show ?thesis using w [of "gen_row tok_s"] by (simp add: on_row_event_def in_place_def gen_row_def)
  qed (simp_all add: on_row_event_def ok w in_place_def)
qed

lemma on_journal_props:
  assumes "track_ok t s" "t \<le> now"
  shows "track_ok now (on_journal k since now s) \<and> extends s (on_journal k since now s)"
proof -
  define s1 where "s1 = (if k = ServerStart \<or> backwards since s then restart now s else s)"
  have s1: "track_ok now s1 \<and> extends s s1"
    using restart_props [OF assms] track_ok_later [OF assms] by (simp add: s1_def)
  define s2 where "s2 = s1\<lparr>tk_restarting := (if k = ServerStart then True else tk_restarting s1), tk_last_since := since\<rparr>"
  have s2: "track_ok now s2 \<and> extends s s2"
    using s1 track_ok_same [of now s1 s2] extends_same [of s2 s1] by (auto simp: s2_def intro: extends_trans)
  define s3 where "s3 = ensure_run now (if serving k then s2\<lparr>tk_restarting := False\<rparr> else s2)"
  have eq3: "tk_open s3 = tk_open s2" "tk_finished s3 = tk_finished s2" "tk_idle s3 = tk_idle s2"
    by (auto simp: s3_def ensure_run_def split: option.splits)
  have s3: "track_ok now s3 \<and> extends s s3"
    using s2 track_ok_same [of now s2 s3] extends_same [of s3 s2] by (auto simp: eq3 intro: extends_trans)
  consider "k = ServerReady" | "k = ServerStart" | "k \<noteq> ServerReady" "k \<noteq> ServerStart" by blast
  then show ?thesis
  proof cases
    case 1
    then have "on_journal k since now s = s2\<lparr>tk_restarting := False\<rparr>" by (simp add: on_journal_def Let_def s1_def s2_def)
    with s2 track_ok_same [of now s2 "s2\<lparr>tk_restarting := False\<rparr>"] extends_same [of "s2\<lparr>tk_restarting := False\<rparr>" s2] show ?thesis
      by (auto intro: extends_trans)
  next
    case 2
    then have "on_journal k since now s = s2" by (simp add: on_journal_def Let_def s1_def s2_def)
    with s2 show ?thesis by simp
  next
    case 3
    then have "on_journal k since now s = on_row_event k now s3" by (simp add: on_journal_def Let_def s1_def s2_def s3_def)
    with on_row_event_props [of now s3 now k] s3 show ?thesis by (auto intro: extends_trans)
  qed
qed

lemma busy_row_in_place: "in_place r (busy_row i now up r)"
  by (simp add: in_place_def busy_row_def Let_def)

lemma busy_slot_props:
  assumes "track_ok t s" "t \<le> now"
  shows "track_ok now (busy_slot i now s) \<and> extends s (busy_slot i now s)"
proof -
  define s0 where "s0 = s\<lparr>tk_restarting := False\<rparr>"
  have s0: "track_ok now s0 \<and> extends s s0"
    using track_ok_same [OF track_ok_later [OF assms], of s0] extends_same [of s0 s] by (simp add: s0_def)
  define up where "up = tk_journal_up s0"
  define update where "update = (\<lambda>r (s' :: tracker). s'\<lparr>tk_idle := alist_del (si_id i) (tk_idle s'),
      tk_open := alist_put (si_id i) (busy_row i now up r) (tk_open s')\<rparr>)"
  have upd: "track_ok now (update r s') \<and> extends s' (update r s')"
    if "track_ok now s'" "map_of (tk_open s') (si_id i) = Some r" for r s'
    using put_row_props [OF that busy_row_in_place, of "update r s'" i now up] by (auto simp: update_def)
  have fresh: "track_ok now (case new_row (si_id i) (si_task i) now s' of (r, s'') \<Rightarrow> update r s'') \<and>
      extends s' (case new_row (si_id i) (si_task i) now s' of (r, s'') \<Rightarrow> update r s'')"
    if "track_ok now s'" "map_of (tk_open s') (si_id i) = None" for s'
  proof -
    note n = new_row_props [OF that(1) order_refl that(2), of "si_task i"]
    from upd [OF n(1,3)] n(2) show ?thesis by (auto simp: case_prod_beta intro: extends_trans)
  qed
  note unfold = busy_slot_def Let_def s0_def [symmetric] up_def [symmetric] update_def [symmetric]
  show ?thesis
  proof (cases "map_of (tk_open s0) (si_id i)")
    case None
    then have "busy_slot i now s = (if up then s0 else case new_row (si_id i) (si_task i) now s0 of (r, s'') \<Rightarrow> update r s'')"
      unfolding unfold by simp
    with fresh [of s0] s0 None show ?thesis by (auto intro: extends_trans)
  next
    case (Some r)
    define s1 where "s1 = finish (si_id i) ''approx'' now s0"
    from s0 have "track_ok now s0" by simp
    note f = finish_props [OF this order_refl, of "si_id i" "''approx''", folded s1_def]
    have "map_of (tk_open s1) (si_id i) = None" using f(3) by simp
    with fresh [of s1] f(1,2) have new: "track_ok now (case new_row (si_id i) (si_task i) now s1 of (r, s'') \<Rightarrow> update r s'') \<and>
        extends s0 (case new_row (si_id i) (si_task i) now s1 of (r, s'') \<Rightarrow> update r s'')"
      by (auto intro: extends_trans)
    have "busy_slot i now s = (if rw_task r \<noteq> si_task i
        then (if up then s0 else case new_row (si_id i) (si_task i) now s1 of (r, s'') \<Rightarrow> update r s'') else update r s0)"
      unfolding unfold s1_def by (simp add: Some update_def)
    with new upd [of s0 r] s0 Some show ?thesis by (auto intro: extends_trans)
  qed
qed

lemma idle_slot_props:
  assumes "track_ok t s" "t \<le> now"
  shows "track_ok now (idle_slot i now s) \<and> extends s (idle_slot i now s)"
proof (cases "map_of (tk_open s) (si_id i)")
  case None
  with track_ok_later [OF assms] show ?thesis by (simp add: idle_slot_def)
next
  case (Some r)
  define s1 where "s1 = (if map_of (tk_idle s) (si_id i) = None then s\<lparr>tk_idle := alist_put (si_id i) now (tk_idle s)\<rparr> else s)"
  have "si_id i \<in> fst ` set (tk_open s)" using Some by (metis domI dom_map_of_conv_image_fst)
  then have s1: "track_ok now s1" using track_ok_later [OF assms] by (auto simp: s1_def track_ok_def)
  have e1: "extends s s1" by (rule extends_same) (simp_all add: s1_def)
  note f = finish_props [OF s1 order_refl, of "si_id i" "''approx''"]
  have "idle_slot i now s \<in> {s1, finish (si_id i) ''approx'' now s1}" using Some by (auto simp: idle_slot_def Let_def s1_def)
  with f(1,2) s1 e1 show ?thesis by (auto intro: extends_trans)
qed

lemma on_slots_props:
  assumes "track_ok t s" "t \<le> now"
  shows "track_ok now (on_slots infos now s) \<and> extends s (on_slots infos now s)"
proof (cases infos)
  case None
  define s1 where "s1 = s\<lparr>tk_unreachable := Some (case tk_unreachable s of None \<Rightarrow> now | Some t \<Rightarrow> t)\<rparr>"
  have s1: "track_ok now s1" "extends s s1"
    using track_ok_same [OF track_ok_later [OF assms], of s1] extends_same [of s1 s] by (simp_all add: s1_def)
  note f = finish_all_props [OF s1(1) order_refl]
  let ?s2 = "finish_all now s1"
  have s3: "track_ok now (?s2\<lparr>tk_rekeyed := True, tk_run := Some now, tk_cancelled := []\<rparr>)"
    "extends ?s2 (?s2\<lparr>tk_rekeyed := True, tk_run := Some now, tk_cancelled := []\<rparr>)"
    using track_ok_same [OF f(1), of "?s2\<lparr>tk_rekeyed := True, tk_run := Some now, tk_cancelled := []\<rparr>"] by (simp_all add: extends_same)
  have "unreachable now s \<in> {s1, ?s2, ?s2\<lparr>tk_rekeyed := True, tk_run := Some now, tk_cancelled := []\<rparr>}"
    by (simp add: unreachable_def Let_def s1_def)
  with s1 f s3 None show ?thesis by (auto simp: on_slots_def intro: extends_trans)
next
  case (Some infs)
  have "track_ok now (fold (on_slot now) infs s') \<and> extends s' (fold (on_slot now) infs s')" if "track_ok now s'" for s'
    using that
  proof (induction infs arbitrary: s')
    case (Cons i infs)
    have "track_ok now (on_slot now i s') \<and> extends s' (on_slot now i s')"
      using busy_slot_props [OF Cons.prems order_refl] idle_slot_props [OF Cons.prems order_refl] by (simp add: on_slot_def)
    with Cons.IH [of "on_slot now i s'"] show ?case by (auto intro: extends_trans)
  qed simp
  moreover define s0 where "s0 = s\<lparr>tk_unreachable := None, tk_rekeyed := False\<rparr>"
  moreover have "track_ok now s0" "extends s s0"
    using track_ok_same [OF track_ok_later [OF assms], of s0] extends_same [of s0 s] by (simp_all add: s0_def)
  ultimately show ?thesis using Some by (auto simp: on_slots_def intro: extends_trans)
qed

section \<open>Runs\<close>

datatype track_input = Journal jkind "rat option" | Slots "slot_info list option" | JournalUp bool

definition track_input_step :: "track_input \<Rightarrow> rat \<Rightarrow> tracker \<Rightarrow> tracker" where
  "track_input_step inp now s =
     (case inp of
        Journal k since \<Rightarrow> on_journal k since now s
      | Slots infos \<Rightarrow> on_slots infos now s
      | JournalUp up \<Rightarrow> set_journal_up up s)"

text \<open>Any sequence of inputs at times that do not go back, and of hand-outs of the finished rows.\<close>

inductive tracked :: "rat \<Rightarrow> tracker \<Rightarrow> bool" where
  tracked_start: "tracked t (tracker_start slots grace unreachable_s)"
| tracked_input: "tracked t s \<Longrightarrow> t \<le> now \<Longrightarrow> tracked now (track_input_step inp now s)"
| tracked_pop: "tracked t s \<Longrightarrow> tracked t (snd (pop_finished s))"

lemma track_input_props:
  assumes "track_ok t s" "t \<le> now"
  shows "track_ok now (track_input_step inp now s) \<and> extends s (track_input_step inp now s)"
proof (cases inp)
  case (JournalUp up)
  then show ?thesis using track_ok_same [OF track_ok_later [OF assms], of "set_journal_up up s"] extends_same [of "set_journal_up up s" s]
    by (simp add: track_input_step_def set_journal_up_def)
qed (simp_all add: track_input_step_def on_journal_props [OF assms] on_slots_props [OF assms])

lemma tracked_ok: "tracked t s \<Longrightarrow> track_ok t s"
proof (induction rule: tracked.induct)
  case (tracked_start t slots grace unreachable_s)
  show ?case by (simp add: tracker_start_def track_ok_def)
next
  case (tracked_input t s now inp)
  then show ?case using track_input_props by blast
next
  case (tracked_pop t s)
  then show ?case by (auto simp: pop_finished_def track_ok_def)
qed

text \<open>
  No request the dashboard has seen gets lost. In every state reached by any order of journal events,
  \<^verbatim>\<open>/slots\<close> answers, restarts and journal failures, a slot has at most one open row; and whatever input
  comes next, each row that was open is afterwards still open or finished exactly once, finished rows stay
  as they were, and every finished row ends as done, cancelled, approx or interrupted, not before it
  started, with an output count when it is done, and with its cached tokens the prompt less the newly
  read ones.
\<close>

theorem rows_conserved:
  assumes "tracked t s" "t \<le> now"
  shows "distinct (map fst (tk_open s)) \<and>
    row_keys s \<subseteq># row_keys (track_input_step inp now s) \<and>
    take (length (tk_finished s)) (tk_finished (track_input_step inp now s)) = tk_finished s \<and>
    list_all closed_ok (tk_finished (track_input_step inp now s))"
  using tracked_ok [OF assms(1)] track_input_props [OF tracked_ok [OF assms(1)] assms(2), of inp]
  by (auto simp: track_ok_def extends_def list_all_iff)

definition demo_tracker :: tracker where
  "demo_tracker = track_input_step (Journal (Start 0 7) (Some 12)) 100 (tracker_start 3 10 10)"

lemma demo_tracked: "tracked 100 demo_tracker"
  unfolding demo_tracker_def by (rule tracked_input [OF tracked_start [of 0]]) simp

end
