(* ===== verification/LiveParse.thy ===== *)
theory LiveParse
  imports LiveTracker PyRegex
begin

text \<open>
  The parsers of the live dashboard, \<^verbatim>\<open>scripts/files/live_dashboard/parsers.py\<close>: journal lines of the chat
  server, its metrics and \<^verbatim>\<open>/slots\<close> answer, and the host's \<^verbatim>\<open>/proc\<close> texts. Python's \<^verbatim>\<open>int\<close> and \<^verbatim>\<open>float\<close> of a
  text and \<^verbatim>\<open>strptime\<close> are parameters where the text is not already a plain number; the readers of
  sysfs are in the theory of the collectors.
\<close>

section \<open>Journal lines\<close>

definition cap_of :: "nat \<Rightarrow> mstate \<Rightarrow> string" where
  "cap_of n st = (case group n st of None \<Rightarrow> [] | Some s \<Rightarrow> s)"

abbreviation digit1 :: rx where
  "digit1 \<equiv> plus (Cls is_digit)"

abbreviation space1 :: rx where
  "space1 \<equiv> plus (Cls is_space)"

abbreviation space0 :: rx where
  "space0 \<equiv> star (Cls is_space)"

abbreviation number :: rx where
  "number \<equiv> plus (Cls (\<lambda>c. is_digit c \<or> c = CHR ''.''))"

definition prefix_re :: rx where
  "prefix_re =
     cats [Bos, Grp 1 digit1, lit ''.'', Grp 2 (Rep True 2 (Some 2) (Cls is_digit)), lit ''.'',
           Grp 3 (Rep True 3 (Some 3) (Cls is_digit)), lit ''.'', Grp 4 (Rep True 3 (Some 3) (Cls is_digit)), lit '' '',
           Cls (\<lambda>c. c \<in> set ''IWE''), lit '' '']"

text \<open>\<^verbatim>\<open>id <slot> | task <task> | \<close> as groups 1 and 2.\<close>

definition id_re :: "rx list" where
  "id_re = [lit ''id'', space1, Grp 1 digit1, lit '' | task '', Grp 2 (Cat (opt (ch (CHR ''-''))) digit1), lit '' | '']"

definition start_re :: rx where
  "start_re = cats ([lit ''slot launch_slot_: ''] @ id_re @ [lit ''processing task''])"

definition prefill_re :: rx where
  "prefill_re =
     cats ([lit ''slot print_timing: ''] @ id_re @
           [lit ''prompt processing, n_tokens ='', space1, Grp 3 digit1, lit '', progress = '', Grp 4 number, lit '', t ='', space1,
            number, lit '' s / '', Grp 5 number, lit '' tokens per second''])"

definition gen_re :: rx where
  "gen_re =
     cats ([lit ''slot print_timing: ''] @ id_re @ [lit ''n_gen ='', space1, Grp 3 digit1, lit '', tg ='', space1, Grp 4 number, lit '' t/s''])"

definition time_re :: "rx list \<Rightarrow> rx" where
  "time_re what =
     cats ([lit ''print_timing: ''] @ id_re @ what @ [space1, Grp 3 number, lit '' ms /'', space1, Grp 4 digit1, lit '' tokens''])"

definition draft_re :: rx where
  "draft_re =
     cats ([lit ''print_timing: ''] @ id_re @
           [lit ''draft acceptance = '', Grp 3 number, lit '' ('', space0, Grp 4 digit1, lit '' accepted /'', space0,
            Grp 5 digit1, lit '' generated)''])"

definition release_re :: rx where
  "release_re =
     cats ([lit ''slot'', space1, lit ''release: ''] @ id_re @ [lit ''stop processing: n_tokens = '', Grp 3 digit1])"

definition cancel_re :: rx where
  "cancel_re = cats [lit ''srv'', space1, lit ''stop: cancel task, id_task = '', Grp 1 digit1]"

definition server_start_re :: rx where
  "server_start_re = lit ''llama_server: initializing ...''"

definition server_ready_re :: rx where
  "server_ready_re = lit ''llama_server: listening on ''"

text \<open>\<^verbatim>\<open>float\<close> of a text of digits and points: more than one point, or no digit, raises ValueError.\<close>

definition float_of :: "string \<Rightarrow> rat res" where
  "float_of s =
     (case split_char (CHR ''.'') s of
        [a] \<Rightarrow> if a = [] then Inl ValueError else Inr (of_nat (nat_of_digits a))
      | [a, b] \<Rightarrow>
          if a @ b = [] then Inl ValueError else Inr (of_nat (nat_of_digits (a @ b)) / 10 ^ length b)
      | _ \<Rightarrow> Inl ValueError)"

definition int_of_digits :: "string \<Rightarrow> int" where
  "int_of_digits s = (if startswith s ''-'' then - int (nat_of_digits (tl s)) else int (nat_of_digits s))"

definition int_cap :: "nat \<Rightarrow> mstate \<Rightarrow> int" where
  "int_cap n m = int_of_digits (cap_of n m)"

definition timing_of :: "mstate \<Rightarrow> timing res" where
  "timing_of m = bind_res (float_of (cap_of 3 m)) (\<lambda>ms. Inr \<lparr>tm_ms = ms, tm_n = int_cap 4 m\<rparr>)"

definition line_events :: "(rx \<times> (mstate \<Rightarrow> jkind res)) list" where
  "line_events =
     [(start_re, \<lambda>m. Inr (Start (int_cap 1 m) (int_cap 2 m))),
      (prefill_re, \<lambda>m. bind_res (float_of (cap_of 4 m)) (\<lambda>p. bind_res (float_of (cap_of 5 m)) (\<lambda>t.
         Inr (Prefill (int_cap 1 m) (int_cap 2 m) (int_cap 3 m) p t)))),
      (gen_re, \<lambda>m. bind_res (float_of (cap_of 4 m)) (\<lambda>t. Inr (Gen (int_cap 1 m) (int_cap 2 m) t))),
      (time_re [lit ''prompt eval time =''], \<lambda>m. bind_res (timing_of m) (\<lambda>t. Inr (PromptEval (int_cap 1 m) (int_cap 2 m) t))),
      (time_re [space1, lit ''eval time =''], \<lambda>m. bind_res (timing_of m) (\<lambda>t. Inr (EvalTime (int_cap 1 m) (int_cap 2 m) t))),
      (time_re [space1, lit ''total time =''], \<lambda>m. bind_res (timing_of m) (\<lambda>t. Inr (TotalTime (int_cap 1 m) (int_cap 2 m) t))),
      (draft_re, \<lambda>m. bind_res (float_of (cap_of 3 m)) (\<lambda>r. Inr (Draft (int_cap 1 m) (int_cap 2 m) (int_cap 4 m) (int_cap 5 m)))),
      (release_re, \<lambda>m. Inr (Release (int_cap 1 m) (int_cap 2 m) (int_cap 3 m)))]"

fun first_event :: "(rx \<times> (mstate \<Rightarrow> jkind res)) list \<Rightarrow> string \<Rightarrow> jkind option res" where
  "first_event [] body = Inr None"
| "first_event ((rx, f) # rest) body =
     (case re_search rx body of
        Some (u, m) \<Rightarrow> bind_res (f m) (\<lambda>k. Inr (Some k))
      | None \<Rightarrow> first_event rest body)"

definition body_event :: "string \<Rightarrow> jkind option res" where
  "body_event body =
     (if re_search server_start_re body \<noteq> None then Inr (Some ServerStart)
      else if re_search server_ready_re body \<noteq> None then Inr (Some ServerReady)
      else case re_search cancel_re body of
             Some (u, m) \<Rightarrow> Inr (Some (Cancel (int_cap 1 m)))
           | None \<Rightarrow> first_event line_events body)"

definition since_of :: "mstate \<Rightarrow> rat" where
  "since_of m =
     of_int (int_cap 1 m * 60 + int_cap 2 m) + of_int (int_cap 3 m) / 1000 + of_int (int_cap 4 m) / 1000000"

definition parse_journal_line :: "string \<Rightarrow> (jkind \<times> rat) option res" where
  "parse_journal_line line =
     (case re_match prefix_re line of
        None \<Rightarrow> Inr None
      | Some m \<Rightarrow>
          bind_res (body_event (ahead m)) (\<lambda>k. Inr (case k of None \<Rightarrow> None | Some k \<Rightarrow> Some (k, since_of m))))"

section \<open>Metrics\<close>

text \<open>\<^verbatim>\<open>line.rpartition(" ")\<close>: what is before and after the last space.\<close>

definition rpartition_space :: "string \<Rightarrow> string \<times> string" where
  "rpartition_space l =
     (let after = rev (takeWhile (\<lambda>c. c \<noteq> CHR '' '') (rev l))
      in (take (length l - length after - 1) l, after))"

fun prometheus_lines :: "(string \<Rightarrow> pyfloat option) \<Rightarrow> string list \<Rightarrow> (string \<times> rat) list \<Rightarrow> (string \<times> rat) list" where
  "prometheus_lines to_float [] out = out"
| "prometheus_lines to_float (l # ls) out =
     (if l = [] \<or> startswith l ''#'' then prometheus_lines to_float ls out
      else (let (name, v) = rpartition_space l in
            prometheus_lines to_float ls
              (case to_float v of Some (Fin r) \<Rightarrow> alist_put name r out | _ \<Rightarrow> out)))"

definition parse_prometheus :: "(string \<Rightarrow> pyfloat option) \<Rightarrow> string \<Rightarrow> (string \<times> rat) list" where
  "parse_prometheus to_float s = prometheus_lines to_float (splitlines s) []"

section \<open>The slots\<close>

text \<open>\<^verbatim>\<open>int(v)\<close>: a text is the parameter's business.\<close>

definition to_int :: "(string \<Rightarrow> int option) \<Rightarrow> pyval \<Rightarrow> int res" where
  "to_int text_int v =
     (case v of
        PInt n \<Rightarrow> Inr n
      | PBool b \<Rightarrow> Inr (if b then 1 else 0)
      | PFloat (Fin r) \<Rightarrow> Inr (if r < 0 then \<lceil>r\<rceil> else \<lfloor>r\<rfloor>)
      | PFloat NaN \<Rightarrow> Inl ValueError
      | PFloat _ \<Rightarrow> Inl OverflowError
      | PStr s \<Rightarrow> (case text_int s of None \<Rightarrow> Inl ValueError | Some n \<Rightarrow> Inr n)
      | _ \<Rightarrow> Inl TypeError)"

definition next_token_of :: "pydict \<Rightarrow> pyval" where
  "next_token_of d =
     (case dget d ''next_token'' of
        PList (x # xs) \<Rightarrow> x
      | _ \<Rightarrow> PDict [])"

record parsed_slot =
  ps_info :: "int \<times> bool \<times> pyval"
  ps_n_ctx :: pyval
  ps_prompt :: pyval
  ps_processed :: pyval
  ps_cached :: pyval
  ps_decoded :: int

definition parse_slot :: "(string \<Rightarrow> int option) \<Rightarrow> pyval \<Rightarrow> parsed_slot res" where
  "parse_slot text_int v =
     (case v of
        PDict d \<Rightarrow>
          (case dlook d ''id'' of
             None \<Rightarrow> Inl KeyError
           | Some i \<Rightarrow>
               bind_res (to_int text_int i) (\<lambda>n.
               bind_res (case next_token_of d of
                           PDict t \<Rightarrow>
                             if truthy (dget t ''n_decoded'') then to_int text_int (dget t ''n_decoded'') else Inr 0
                         | _ \<Rightarrow> Inl AttributeError) (\<lambda>dec.
                 Inr \<lparr>ps_info = (n, truthy (dget d ''is_processing''), dget d ''id_task''), ps_n_ctx = dget d ''n_ctx'',
                      ps_prompt = dget d ''n_prompt_tokens'', ps_processed = dget d ''n_prompt_tokens_processed'',
                      ps_cached = dget d ''n_prompt_tokens_cache'', ps_decoded = dec\<rparr>)))
      | _ \<Rightarrow> Inl AttributeError)"

definition parse_slots :: "(string \<Rightarrow> int option) \<Rightarrow> pyval \<Rightarrow> parsed_slot list res" where
  "parse_slots text_int v =
     (if \<not> truthy v then Inr []
      else case v of
             PList xs \<Rightarrow> map_res (parse_slot text_int) xs
           | PStr s \<Rightarrow> Inl AttributeError
           | PDict d \<Rightarrow> map_res (parse_slot text_int) (map fst d)
           | _ \<Rightarrow> Inl TypeError)"

section \<open>The host\<close>

definition int_text :: "(string \<Rightarrow> int option) \<Rightarrow> string \<Rightarrow> int res" where
  "int_text text_int s = (case text_int s of None \<Rightarrow> Inl ValueError | Some n \<Rightarrow> Inr n)"

definition cpu_line :: "int list \<Rightarrow> (int \<times> int) res" where
  "cpu_line v =
     (if length v \<le> 3 then Inl IndexError
      else (let idle = v ! 3 + (if length v > 4 then v ! 4 else 0); total = sum_list (take 8 v) in Inr (total - idle, total)))"

fun cpu_lines :: "(string \<Rightarrow> int option) \<Rightarrow> string list \<Rightarrow> (int \<times> int) res" where
  "cpu_lines text_int [] = Inl ValueError"
| "cpu_lines text_int (l # ls) =
     (if startswith l ''cpu '' then bind_res (map_res (int_text text_int) (tl (split_ws l))) cpu_line
      else cpu_lines text_int ls)"

definition cpu_times :: "(string \<Rightarrow> int option) \<Rightarrow> string \<Rightarrow> (int \<times> int) res" where
  "cpu_times text_int s = cpu_lines text_int (splitlines s)"

fun mem_lines :: "(string \<Rightarrow> int option) \<Rightarrow> string list \<Rightarrow> (string \<times> int) list \<Rightarrow> (string \<times> int) list res" where
  "mem_lines text_int [] kv = Inr kv"
| "mem_lines text_int (l # ls) kv =
     (let (k, here, rest) = partition_char (CHR '':'') l in
      if strip rest = [] then mem_lines text_int ls kv
      else bind_res (int_text text_int (hd (split_ws rest))) (\<lambda>n. mem_lines text_int ls (alist_put k (n * 1024) kv)))"

definition mem_from_meminfo :: "(string \<Rightarrow> int option) \<Rightarrow> string \<Rightarrow> (int \<times> int) res" where
  "mem_from_meminfo text_int s =
     bind_res (mem_lines text_int (splitlines s) []) (\<lambda>kv.
       case (map_of kv ''MemTotal'', map_of kv ''MemAvailable'') of
         (Some t, Some a) \<Rightarrow> Inr (t - a, t)
       | _ \<Rightarrow> Inl KeyError)"

fun disk_lines :: "(string \<Rightarrow> int option) \<Rightarrow> string list \<Rightarrow> string list \<Rightarrow> int \<times> int \<Rightarrow> (int \<times> int) res" where
  "disk_lines text_int devices [] rw = Inr rw"
| "disk_lines text_int devices (l # ls) rw =
     (let f = split_ws l in
      if length f \<ge> 10 \<and> f ! 2 \<in> set devices
      then bind_res (int_text text_int (f ! 5)) (\<lambda>r. bind_res (int_text text_int (f ! 9)) (\<lambda>w.
             disk_lines text_int devices ls (fst rw + r, snd rw + w)))
      else disk_lines text_int devices ls rw)"

definition disk_sectors :: "(string \<Rightarrow> int option) \<Rightarrow> string \<Rightarrow> string list \<Rightarrow> (int \<times> int) res" where
  "disk_sectors text_int s devices = disk_lines text_int devices (splitlines s) (0, 0)"

fun arc_lines :: "(string \<Rightarrow> int option) \<Rightarrow> string list \<Rightarrow> (string \<times> int) list \<Rightarrow> (string \<times> int) list res" where
  "arc_lines text_int [] vals = Inr vals"
| "arc_lines text_int (l # ls) vals =
     (let f = split_ws l in
      if length f = 3 \<and> f ! 0 \<in> {''size'', ''c_max''} \<and> f ! 2 \<noteq> [] \<and> list_all is_digit (f ! 2)
      then bind_res (int_text text_int (f ! 2)) (\<lambda>n. arc_lines text_int ls (alist_put (f ! 0) n vals))
      else arc_lines text_int ls vals)"

definition arc_from_arcstats :: "(string \<Rightarrow> int option) \<Rightarrow> string \<Rightarrow> (int \<times> int) res" where
  "arc_from_arcstats text_int s =
     bind_res (arc_lines text_int (splitlines s) []) (\<lambda>vals.
       case (map_of vals ''size'', map_of vals ''c_max'') of
         (Some a, Some b) \<Rightarrow> Inr (a, b)
       | _ \<Rightarrow> Inl KeyError)"

definition parse_next_elapse :: "(string \<Rightarrow> rat option) \<Rightarrow> string \<Rightarrow> rat option" where
  "parse_next_elapse utc_time s =
     (let (k, here, rest) = partition_char (CHR ''='') (strip s); v = strip rest in
      if v = [] then None else utc_time v)"

section \<open>Recorded lines\<close>

lemma start_line:
  "parse_journal_line ''3.07.123.456 I slot launch_slot_: id  2 | task 1234 | processing task'' =
   Inr (Some (Start 2 1234, 187123456 / 1000000))"
  by code_simp

lemma two_points_raise:
  "parse_journal_line ''0.59.000.000 I slot print_timing: id  0 | task 5 | n_gen =   10, tg = 1.2.3 t/s'' = Inl ValueError"
  by code_simp

end
