(* ===== verification/LiveHub.thy ===== *)
theory LiveHub
  imports LiveParse
begin

text \<open>
  The collectors and the hub of the live dashboard, \<^verbatim>\<open>scripts/files/live_dashboard/collectors.py\<close>: the keys
  found in the host's \<^verbatim>\<open>/proc\<close>, what of other services' answers reaches the page, the sample windows, and
  the hub's tracker with the rows it hands to the history. HTTP, \<^verbatim>\<open>/proc\<close> and the clock are parameters;
  threads take the hub's lock, so its operations are steps.
\<close>

section \<open>Keys\<close>

text \<open>\<^verbatim>\<open>/proc\<close>: the process directories, and per process three files that may not be readable.\<close>

record procfs =
  pf_pids :: "string list"
  pf_cmdline :: "string \<Rightarrow> string option"
  pf_cgroup :: "string \<Rightarrow> string option"
  pf_environ :: "string \<Rightarrow> string option"

definition nul :: char where
  "nul = CHR 0x00"

definition argv_of :: "procfs \<Rightarrow> string \<Rightarrow> string list" where
  "argv_of fs pid = (case pf_cmdline fs pid of None \<Rightarrow> [] | Some s \<Rightarrow> filter (\<lambda>a. a \<noteq> []) (split_char nul s))"

definition pids_of :: "procfs \<Rightarrow> string list" where
  "pids_of fs = sort_key nat_of_digits (filter (\<lambda>p. p \<noteq> [] \<and> list_all is_digit p) (pf_pids fs))"

text \<open>\<^verbatim>\<open>ln.split(":", 2)\<close>, the third part.\<close>

definition cgroup_path :: "string \<Rightarrow> string option" where
  "cgroup_path l =
     (let (a, here1, r) = partition_char (CHR '':'') l; (b, here2, p) = partition_char (CHR '':'') r
      in if here1 \<and> here2 then Some p else None)"

definition in_ct :: "procfs \<Rightarrow> string \<Rightarrow> int \<Rightarrow> bool" where
  "in_ct fs pid ct =
     (case pf_cgroup fs pid of
        None \<Rightarrow> False
      | Some s \<Rightarrow>
          list_ex (\<lambda>l. case cgroup_path l of
                         None \<Rightarrow> False
                       | Some p \<Rightarrow> p = ''/lxc/'' @ show_int ct \<or> startswith p (''/lxc/'' @ show_int ct @ ''/''))
            (splitlines s))"

text \<open>The argument that follows the first \<open>flag\<close>.\<close>

fun arg_after :: "string \<Rightarrow> string list \<Rightarrow> string option" where
  "arg_after flag [] = None"
| "arg_after flag (a # as) = (if a = flag then (case as of [] \<Rightarrow> None | v # _ \<Rightarrow> Some v) else arg_after flag as)"

definition is_llama :: "string list \<Rightarrow> string \<Rightarrow> bool" where
  "is_llama a port = (a \<noteq> [] \<and> endswith (hd a) ''llama-server'' \<and> arg_after ''--port'' a = Some port)"

definition find_llama_key :: "procfs \<Rightarrow> string \<Rightarrow> int \<Rightarrow> string option" where
  "find_llama_key fs port ct =
     first_some (\<lambda>pid. let a = argv_of fs pid in
                   if is_llama a port \<and> in_ct fs pid ct then arg_after ''--api-key'' a else None) (pids_of fs)"

definition key_name :: string where
  "key_name = ''ROUTER_API_KEY=''"

definition router_key_of :: "procfs \<Rightarrow> string \<Rightarrow> string option" where
  "router_key_of fs pid =
     (case pf_environ fs pid of
        None \<Rightarrow> None
      | Some s \<Rightarrow> first_some (\<lambda>kv. if startswith kv key_name then Some (drop (length key_name) kv) else None) (split_char nul s))"

definition find_router_key :: "procfs \<Rightarrow> int \<Rightarrow> string option" where
  "find_router_key fs ct =
     first_some (\<lambda>pid. let a = argv_of fs pid in
                   if list_ex (\<lambda>x. endswith x ''uvicorn'') a \<and> ''app:app'' \<in> set a \<and> in_ct fs pid ct then router_key_of fs pid
                   else None) (pids_of fs)"

section \<open>What reaches the page\<close>

fun finite_copy :: "pyval \<Rightarrow> pyval" where
  "finite_copy (PFloat f) = (if is_finite f then PFloat f else PNone)"
| "finite_copy (PList xs) = PList (map finite_copy xs)"
| "finite_copy (PDict d) = PDict (map (\<lambda>(k, v). (k, finite_copy v)) d)"
| "finite_copy v = v"

definition num_or_none :: "pyval \<Rightarrow> pyval" where
  "num_or_none v = (case v of PInt _ \<Rightarrow> v | PFloat _ \<Rightarrow> v | _ \<Rightarrow> PNone)"

definition short_text :: "nat \<Rightarrow> pyval \<Rightarrow> pyval" where
  "short_text n v = (case v of PStr s \<Rightarrow> PStr (take n s) | _ \<Rightarrow> PNone)"

definition pick :: "(string \<times> (pyval \<Rightarrow> pyval)) list \<Rightarrow> pyval \<Rightarrow> pyval" where
  "pick spec v = (case v of PDict d \<Rightarrow> PDict (map (\<lambda>(k, conv). (PStr k, conv (dget d k))) spec) | _ \<Rightarrow> PNone)"

definition spend_spec :: "(string \<times> (pyval \<Rightarrow> pyval)) list" where
  "spend_spec = [(''spent_usd'', num_or_none), (''cap_usd'', num_or_none)]"

definition call_spec :: "(string \<times> (pyval \<Rightarrow> pyval)) list" where
  "call_spec =
     [(''ts'', num_or_none), (''alias'', short_text 64), (''model'', short_text 64), (''origin'', short_text 64),
      (''input_tokens'', num_or_none), (''output_tokens'', num_or_none), (''cost_usd'', num_or_none), (''outcome'', short_text 64)]"

definition left_spec :: "(string \<times> (pyval \<Rightarrow> pyval)) list" where
  "left_spec = map (\<lambda>a. (a, num_or_none)) [''claude-ask'', ''claude-auto'', ''claude-hard'']"

definition resets_spec :: "(string \<times> (pyval \<Rightarrow> pyval)) list" where
  "resets_spec = [(''day'', short_text 64), (''month'', short_text 64)]"

definition sanitize_escalation :: "pyval \<Rightarrow> pyval" where
  "sanitize_escalation v =
     (case v of
        PDict d \<Rightarrow>
          PDict [(PStr ''month'', pick spend_spec (dget d ''month'')), (PStr ''day'', pick spend_spec (dget d ''day'')),
                 (PStr ''calls_left'', pick left_spec (dget d ''calls_left'')),
                 (PStr ''resets'', pick resets_spec (dget d ''resets'')),
                 (PStr ''recent'', case dget d ''recent'' of
                    PList rs \<Rightarrow> PList (map (pick call_spec) (filter is_pdict (take 10 rs)))
                  | _ \<Rightarrow> PList [])]
      | _ \<Rightarrow> PNone)"

section \<open>Sources and windows\<close>

record source =
  sr_ok :: bool
  sr_stale :: "rat option"
  sr_error :: "string option"

definition source_start :: source where
  "source_start = \<lparr>sr_ok = False, sr_stale = None, sr_error = Some ''not polled yet''\<rparr>"

definition mark_ok :: "source \<Rightarrow> source" where
  "mark_ok s = \<lparr>sr_ok = True, sr_stale = None, sr_error = None\<rparr>"

definition mark_fail :: "string \<Rightarrow> rat \<Rightarrow> source \<Rightarrow> source" where
  "mark_fail err now s =
     \<lparr>sr_ok = False, sr_stale = (if sr_ok s \<or> sr_stale s = None then Some now else sr_stale s), sr_error = Some (take 200 err)\<rparr>"

record ring =
  rg_window :: rat
  rg_pts :: "(rat \<times> rat) list"

definition ring_push :: "rat \<Rightarrow> rat option \<Rightarrow> ring \<Rightarrow> ring" where
  "ring_push t v r =
     (case v of
        None \<Rightarrow> r
      | Some x \<Rightarrow> r\<lparr>rg_pts := dropWhile (\<lambda>p. fst p < t - rg_window r) (rg_pts r @ [(t, x)])\<rparr>)"

definition ring_avg :: "ring \<Rightarrow> rat option" where
  "ring_avg r = (if rg_pts r = [] then None else Some (sum_list (map snd (rg_pts r)) / of_nat (length (rg_pts r))))"

section \<open>Metrics and host\<close>

type_synonym metrics = "(string \<times> rat) list"

definition metric :: "metrics \<Rightarrow> string \<Rightarrow> rat" where
  "metric m k = (case map_of m (''llamacpp:'' @ k) of None \<Rightarrow> 0 | Some v \<Rightarrow> v)"

definition metric_rate :: "metrics \<Rightarrow> metrics \<Rightarrow> string \<Rightarrow> string \<Rightarrow> rat option" where
  "metric_rate m prev tok sec =
     (let dt = metric m sec - metric prev sec; dn = metric m tok - metric prev tok
      in if dt > 0 \<and> dn \<ge> 0 then Some (dn / dt) else None)"

definition cache_share :: "metrics \<Rightarrow> metrics \<Rightarrow> rat option" where
  "cache_share m prev =
     (let new = metric m ''prompt_tokens_total'' - metric prev ''prompt_tokens_total'';
          cached = metric m ''prompt_tokens_cached_total'' - metric prev ''prompt_tokens_cached_total''
      in if new + cached > 0 \<and> new \<ge> 0 \<and> cached \<ge> 0 then Some (100 * cached / (new + cached)) else None)"

record speeds =
  sd_prev :: metrics
  sd_gen :: ring
  sd_prefill :: ring
  sd_mtp :: ring
  sd_cache15 :: ring
  sd_accept :: "rat option"
  sd_pos :: "rat option list"

definition pos_name :: "nat \<Rightarrow> string" where
  "pos_name i =
     ''llamacpp:spec_decode_num_accepted_tokens_per_pos_total{position='' @ [CHR 0x22] @ show_nat i @ [CHR 0x22] @ ''}''"

text \<open>
  Drafted tokens without accepted ones raise a TypeError, after the windows have been fed; the speeds then
  stay as they were.
\<close>

definition apply_metrics :: "metrics \<Rightarrow> rat \<Rightarrow> speeds \<Rightarrow> exn option \<times> speeds" where
  "apply_metrics m now s =
     (let prev = sd_prev s;
          s1 = (if prev = [] then s
                else s\<lparr>sd_gen := ring_push now (metric_rate m prev ''tokens_predicted_total'' ''tokens_predicted_seconds_total'') (sd_gen s),
                       sd_prefill := ring_push now (metric_rate m prev ''prompt_tokens_total'' ''prompt_seconds_total'') (sd_prefill s),
                       sd_cache15 := ring_push now (cache_share m prev) (sd_cache15 s)\<rparr>)\<lparr>sd_prev := m\<rparr>;
          drafted = map_of m ''llamacpp:spec_decode_num_draft_tokens_total'';
          accepted = map_of m ''llamacpp:spec_decode_num_accepted_tokens_total'';
          drafts = map_of m ''llamacpp:spec_decode_num_drafts_total'';
          pos = map (\<lambda>i. case (drafts, map_of m (pos_name i)) of
                           (Some n, Some a) \<Rightarrow> if n \<noteq> 0 then Some (a / n) else None
                         | _ \<Rightarrow> None) [0..<3];
          done = (\<lambda>acc. (None, s1\<lparr>sd_accept := acc, sd_pos := pos, sd_mtp := ring_push now acc (sd_mtp s1)\<rparr>))
      in case drafted of
           None \<Rightarrow> done None
         | Some n \<Rightarrow>
             if n = 0 then done None
             else (case accepted of None \<Rightarrow> (Some TypeError, s1) | Some a \<Rightarrow> done (Some (a / n))))"

record host_read =
  hr_busy :: int
  hr_total :: int
  hr_rs :: int
  hr_ws :: int
  hr_t :: rat

definition cpu_pct :: "host_read option \<Rightarrow> host_read \<Rightarrow> rat option" where
  "cpu_pct prev r =
     (case prev of
        None \<Rightarrow> None
      | Some p \<Rightarrow>
          if hr_total r > hr_total p \<and> hr_busy r \<ge> hr_busy p
          then Some (100 * of_int (hr_busy r - hr_busy p) / of_int (hr_total r - hr_total p)) else None)"

definition disk_mbs :: "(host_read \<Rightarrow> int) \<Rightarrow> host_read option \<Rightarrow> host_read \<Rightarrow> rat option" where
  "disk_mbs sel prev r =
     (case prev of
        None \<Rightarrow> None
      | Some p \<Rightarrow>
          if hr_t r - hr_t p > 0 \<and> sel r \<ge> sel p
          then Some (of_int (sel r - sel p) * 512 / 1000000 / (hr_t r - hr_t p)) else None)"

definition decode_activity :: "rat option \<Rightarrow> (rat \<times> rat) option \<Rightarrow> rat \<Rightarrow> rat option" where
  "decode_activity cur prev now =
     (case (cur, prev) of
        (Some c, Some (n, t)) \<Rightarrow> if now > t \<and> c \<ge> n then Some ((c - n) * 60 / (now - t)) else None
      | _ \<Rightarrow> None)"

text \<open>The restart timer: what the poll read (None: it failed) and what is shown.\<close>

definition restart_shown :: "(rat option \<times> rat option) option \<Rightarrow> rat \<Rightarrow> rat option \<times> rat option \<Rightarrow> rat option \<times> rat option" where
  "restart_shown data now shown =
     (let nxt = (case data of None \<Rightarrow> None | Some d \<Rightarrow> fst d);
          stamp = (case data of None \<Rightarrow> None | Some d \<Rightarrow> snd d);
          known = (\<lambda>v. case v of Some x \<Rightarrow> if x \<noteq> 0 then [x] else [] | None \<Rightarrow> []);
          cands = known nxt @ known (case stamp of Some x \<Rightarrow> if x \<noteq> 0 then Some (x + 43200) else None | None \<Rightarrow> None);
          fresh = (data \<noteq> None \<and> nxt \<noteq> None)
      in (if cands = [] then fst shown else Some (foldr max cands (hd cands)),
          if fresh then None
          else case snd shown of Some t \<Rightarrow> if t \<noteq> 0 then Some t else Some now | None \<Rightarrow> Some now))"

section \<open>The hub and its rows\<close>

record hub =
  hb_tracker :: tracker
  hb_gen :: nat
  hb_slots_src :: source
  hb_journal_src :: source
  hb_raw :: "parsed_slot list option"
  hb_held_gen :: "rat option"
  hb_held_prefill :: "rat option"
  hb_held_cache :: "rat option"
  hb_recent :: "row list"
  hb_sent :: "row list"

definition hub_start :: "nat \<Rightarrow> hub" where
  "hub_start slots =
     \<lparr>hb_tracker = tracker_start slots 10 10, hb_gen = 0, hb_slots_src = source_start, hb_journal_src = source_start,
      hb_raw = None, hb_held_gen = None, hb_held_prefill = None, hb_held_cache = None, hb_recent = [], hb_sent = []\<rparr>"

definition keep_new :: "'a option \<Rightarrow> 'a option \<Rightarrow> 'a option" where
  "keep_new new old = (case new of Some _ \<Rightarrow> new | None \<Rightarrow> old)"

definition hold :: "row \<Rightarrow> hub \<Rightarrow> hub" where
  "hold r h =
     h\<lparr>hb_held_gen := keep_new (rw_gen_s r) (hb_held_gen h), hb_held_prefill := keep_new (rw_prefill_s r) (hb_held_prefill h),
       hb_held_cache := (case (rw_prompt r, rw_cached r) of
                           (Some p, Some c) \<Rightarrow> if p > 0 then Some (100 * of_int c / of_int p) else hb_held_cache h
                         | _ \<Rightarrow> hb_held_cache h)\<rparr>"

definition send_row :: "row \<Rightarrow> hub \<Rightarrow> hub" where
  "send_row r h = (let h1 = hold r h in h1\<lparr>hb_sent := hb_sent h1 @ [r], hb_recent := r # hb_recent h1\<rparr>)"

definition drain_finished :: "hub \<Rightarrow> hub" where
  "drain_finished h =
     (let (rows, tk) = pop_finished (hb_tracker h); h1 = fold send_row rows (h\<lparr>hb_tracker := tk\<rparr>)
      in h1\<lparr>hb_recent := take 50 (hb_recent h1)\<rparr>)"

text \<open>A line that raises is dropped; one that is no event changes nothing.\<close>

definition on_journal_line :: "string \<Rightarrow> rat \<Rightarrow> hub \<Rightarrow> hub" where
  "on_journal_line line now h =
     (case parse_journal_line line of
        Inr (Some (k, since)) \<Rightarrow> drain_finished (h\<lparr>hb_tracker := on_journal k (Some since) now (hb_tracker h)\<rparr>)
      | _ \<Rightarrow> h)"

definition on_journal_state :: "bool \<Rightarrow> rat \<Rightarrow> hub \<Rightarrow> hub" where
  "on_journal_state up now h =
     h\<lparr>hb_gen := hb_gen h + 1, hb_tracker := set_journal_up up (hb_tracker h),
       hb_journal_src := (if up then mark_ok (hb_journal_src h) else mark_fail ''journal stream down'' now (hb_journal_src h))\<rparr>"

definition info_of :: "parsed_slot \<Rightarrow> slot_info" where
  "info_of p =
     (case ps_info p of (i, busy, task) \<Rightarrow>
        \<lparr>si_id = i, si_busy = busy, si_task = (case task of PInt n \<Rightarrow> Some n | _ \<Rightarrow> None), si_prompt = ps_prompt p,
         si_cache = ps_cached p, si_dec = ps_decoded p\<rparr>)"

definition exn_name :: "exn \<Rightarrow> string" where
  "exn_name e =
     (case e of TypeError \<Rightarrow> ''TypeError'' | ValueError \<Rightarrow> ''ValueError'' | KeyError \<Rightarrow> ''KeyError''
      | IndexError \<Rightarrow> ''IndexError'' | AttributeError \<Rightarrow> ''AttributeError'' | OverflowError \<Rightarrow> ''OverflowError''
      | OSError \<Rightarrow> ''OSError'' | RuntimeError \<Rightarrow> ''RuntimeError'')"

text \<open>
  What a fetch of \<^verbatim>\<open>/slots\<close> gave: the name of the exception it died of, or a status with the parsed body,
  None for a body that is no JSON.
\<close>

type_synonym slots_fetch = "string + int \<times> pyval option"

definition slots_gone :: "string \<Rightarrow> rat \<Rightarrow> hub \<Rightarrow> hub" where
  "slots_gone err now h =
     h\<lparr>hb_slots_src := mark_fail err now (hb_slots_src h), hb_tracker := on_slots None now (hb_tracker h)\<rparr>"

definition apply_slots :: "(string \<Rightarrow> int option) \<Rightarrow> slots_fetch \<Rightarrow> rat \<Rightarrow> hub \<Rightarrow> hub" where
  "apply_slots text_int fetched now h =
     (case fetched of
        Inl err \<Rightarrow> slots_gone (''slots: '' @ err) now h
      | Inr (status, body) \<Rightarrow>
          if status \<noteq> 200 then slots_gone (''/slots HTTP '' @ show_int status) now h
          else (case (case body of None \<Rightarrow> Inl ValueError | Some v \<Rightarrow> parse_slots text_int v) of
                  Inl e \<Rightarrow>
                    if e \<in> {ValueError, KeyError, TypeError, AttributeError}
                    then h\<lparr>hb_slots_src := mark_fail (''/slots parse: '' @ exn_name e) now (hb_slots_src h)\<rparr>
                    else slots_gone (''slots: '' @ exn_name e) now h
                | Inr slots \<Rightarrow>
                    h\<lparr>hb_slots_src := mark_ok (hb_slots_src h), hb_raw := Some slots,
                      hb_tracker := on_slots (Some (map info_of slots)) now (hb_tracker h)\<rparr>))"

text \<open>One fast poll, with the journal's generation when its fetches began.\<close>

definition poll_slots :: "(string \<Rightarrow> int option) \<Rightarrow> nat \<Rightarrow> slots_fetch \<Rightarrow> rat \<Rightarrow> hub \<Rightarrow> hub" where
  "poll_slots text_int gen fetched now h =
     drain_finished (if gen = hb_gen h then apply_slots text_int fetched now h else h)"

definition recent_rows :: "hub \<Rightarrow> row list" where
  "recent_rows h = take 20 (open_rows (hb_tracker h) @ hb_recent h)"

datatype hub_input = JournalLine string | JournalState bool | FastPoll nat slots_fetch

definition hub_step :: "(string \<Rightarrow> int option) \<Rightarrow> hub_input \<Rightarrow> rat \<Rightarrow> hub \<Rightarrow> hub" where
  "hub_step text_int inp now h =
     (case inp of
        JournalLine l \<Rightarrow> on_journal_line l now h
      | JournalState up \<Rightarrow> on_journal_state up now h
      | FastPoll gen fetched \<Rightarrow> poll_slots text_int gen fetched now h)"

inductive hub_run :: "(string \<Rightarrow> int option) \<Rightarrow> rat \<Rightarrow> hub \<Rightarrow> bool" for text_int where
  hub_begun: "hub_run text_int t (hub_start slots)"
| hub_on: "hub_run text_int t h \<Longrightarrow> t \<le> now \<Longrightarrow> hub_run text_int now (hub_step text_int inp now h)"

section \<open>Properties\<close>

lemma first_some_in: "first_some f xs = Some y \<Longrightarrow> \<exists>x \<in> set xs. f x = Some y"
  by (induction xs) (auto split: option.splits)

text \<open>
  The chat server's key is only ever read from a process inside its container. A key found is the
  argument after \<^verbatim>\<open>--api-key\<close> of a process of the host whose program is a \<^verbatim>\<open>llama-server\<close> on the configured
  port and whose control group has a path that is the container's or below it; nothing another process
  puts on its command line or in its name makes it the source of the key.
\<close>

theorem llama_key_from_container:
  assumes "find_llama_key fs port ct = Some key"
  shows "\<exists>pid a s l p. pid \<in> set (pf_pids fs) \<and> a = argv_of fs pid \<and> arg_after ''--api-key'' a = Some key \<and>
    endswith (hd a) ''llama-server'' \<and> arg_after ''--port'' a = Some port \<and>
    pf_cgroup fs pid = Some s \<and> l \<in> set (splitlines s) \<and> cgroup_path l = Some p \<and>
    (p = ''/lxc/'' @ show_int ct \<or> startswith p (''/lxc/'' @ show_int ct @ ''/''))"
proof -
  obtain pid where pid: "pid \<in> set (pids_of fs)" "is_llama (argv_of fs pid) port" "in_ct fs pid ct"
    "arg_after ''--api-key'' (argv_of fs pid) = Some key"
    using first_some_in [OF assms [unfolded find_llama_key_def]] by (auto simp: Let_def split: if_splits)
  from pid(3) obtain s l p where "pf_cgroup fs pid = Some s" "l \<in> set (splitlines s)" "cgroup_path l = Some p"
    "p = ''/lxc/'' @ show_int ct \<or> startswith p (''/lxc/'' @ show_int ct @ ''/'')"
    by (auto simp: in_ct_def list_ex_iff split: option.splits)
  moreover have "pid \<in> set (pf_pids fs)" using pid(1) by (auto simp: pids_of_def)
  ultimately show ?thesis using pid(2,4) unfolding is_llama_def by blast
qed

definition demo_proc :: procfs where
  "demo_proc =
     \<lparr>pf_pids = [''self'', ''31'', ''7''],
      pf_cmdline = (\<lambda>pid. if pid = ''7'' then Some (join [nul] [''/tmp/llama-server'', ''--port'', ''8080'', ''--api-key'', ''fake''])
                          else if pid = ''31'' then Some (join [nul] [''/usr/bin/llama-server'', ''--port'', ''8080'', ''--api-key'', ''k1'']) else None),
      pf_cgroup = (\<lambda>pid. if pid = ''31'' then Some ''0::/lxc/151/ns/system.slice'' else if pid = ''7'' then Some ''0::/x/lxc/151'' else None),
      pf_environ = (\<lambda>_. None)\<rparr>"

lemma demo_key: "find_llama_key demo_proc ''8080'' 151 = Some ''k1''"
  by code_simp

theorem llama_key_from_container_witness:
  "\<exists>pid a s l p. pid \<in> set (pf_pids demo_proc) \<and> a = argv_of demo_proc pid \<and> arg_after ''--api-key'' a = Some ''k1'' \<and>
    endswith (hd a) ''llama-server'' \<and> arg_after ''--port'' a = Some ''8080'' \<and>
    pf_cgroup demo_proc pid = Some s \<and> l \<in> set (splitlines s) \<and> cgroup_path l = Some p \<and>
    (p = ''/lxc/'' @ show_int 151 \<or> startswith p (''/lxc/'' @ show_int 151 @ ''/''))"
  by (rule llama_key_from_container [OF demo_key])

text \<open>A value with no special float in it; one that holds only short texts and numbers.\<close>

fun all_finite :: "pyval \<Rightarrow> bool" where
  "all_finite (PFloat f) = is_finite f"
| "all_finite (PList xs) = list_all all_finite xs"
| "all_finite (PDict d) = list_all (\<lambda>kv. all_finite (snd kv)) d"
| "all_finite v = True"

fun small :: "string list \<Rightarrow> pyval \<Rightarrow> bool" where
  "small ks (PStr s) = (length s \<le> 64)"
| "small ks (PBool b) = False"
| "small ks (PList xs) = (length xs \<le> 10 \<and> list_all (small ks) xs)"
| "small ks (PDict d) = list_all (\<lambda>kv. fst kv \<in> PStr ` set ks \<and> small ks (snd kv)) d"
| "small ks v = True"

lemma finite_copy_finite: "all_finite (finite_copy v)"
  by (induction v rule: finite_copy.induct) (auto simp: list_all_iff)

lemma finite_copy_same: "all_finite v \<Longrightarrow> finite_copy v = v"
proof (induction v rule: finite_copy.induct)
  case (2 xs)
  then show ?case by (simp add: list_all_iff map_idI)
next
  case (3 d)
  have "map (\<lambda>(k, v). (k, finite_copy v)) d = d"
    by (rule map_idI) (use 3 in \<open>force simp: list_all_iff\<close>)
  then show ?case by simp
qed simp_all

definition page_keys :: "string list" where
  "page_keys =
     [''month'', ''day'', ''calls_left'', ''resets'', ''recent'', ''spent_usd'', ''cap_usd'', ''claude-ask'', ''claude-auto'',
      ''claude-hard'', ''ts'', ''alias'', ''model'', ''origin'', ''input_tokens'', ''output_tokens'', ''cost_usd'', ''outcome'']"

lemma small_leaf: "small ks (num_or_none v)" "small ks (short_text 64 v)"
  by (cases v; simp add: num_or_none_def short_text_def)+

lemma small_pick:
  assumes "list_all (\<lambda>kc. fst kc \<in> set ks \<and> (snd kc = num_or_none \<or> snd kc = short_text 64)) spec"
  shows "small ks (pick spec v)"
proof (cases v)
  case (PDict d)
  then show ?thesis using assms small_leaf by (fastforce simp: pick_def list_all_iff)
qed (simp_all add: pick_def)

text \<open>
  Only whitelisted numbers and short texts of another service's answer reach the page, and nothing in
  it breaks its JSON. Whatever the router answers on its budget route, what is shown is nothing or a value
  in which every key is one of the page's own, every text has at most 64 characters, every list at most ten
  entries and no boolean occurs; and a copied snapshot has no infinite or undefined float, being the
  snapshot itself if it had none.
\<close>

theorem page_values_confined:
  "small page_keys (sanitize_escalation answer) \<and> all_finite (finite_copy snapshot) \<and>
   (all_finite snapshot \<longleftrightarrow> finite_copy snapshot = snapshot)"
proof (intro conjI)
  have specs: "list_all (\<lambda>kc. fst kc \<in> set page_keys \<and> (snd kc = num_or_none \<or> snd kc = short_text 64)) spec"
    if "spec \<in> {spend_spec, left_spec, resets_spec, call_spec}" for spec
    using that by (auto simp: spend_spec_def left_spec_def resets_spec_def call_spec_def page_keys_def)
  have keys: "PStr k \<in> PStr ` set page_keys" if "k \<in> {''month'', ''day'', ''calls_left'', ''resets'', ''recent''}" for k
    using that by (auto simp: page_keys_def)
  have recent: "small page_keys (case v of PList rs \<Rightarrow> PList (map (pick call_spec) (filter is_pdict (take 10 rs))) | _ \<Rightarrow> PList [])" for v
  proof (cases v)
    case (PList rs)
    have "length (filter is_pdict (take 10 rs)) \<le> 10"
      by (rule order_trans [OF length_filter_le]) simp
    with PList show ?thesis using small_pick [OF specs] by (simp add: list_all_iff)
  qed simp_all
  show "small page_keys (sanitize_escalation answer)"
  proof (cases answer)
    case (PDict d)
    then show ?thesis using small_pick [OF specs] keys recent by (simp add: sanitize_escalation_def)
  qed (simp_all add: sanitize_escalation_def)
  show "all_finite (finite_copy snapshot)" by (rule finite_copy_finite)
  show "all_finite snapshot \<longleftrightarrow> finite_copy snapshot = snapshot"
    using finite_copy_same finite_copy_finite [of snapshot] by fastforce
qed

text \<open>
  A window holds exactly the samples of its last seconds. However many samples (or gaps) are pushed at
  times that do not go back, the points kept are, in order, those not older than the window before the
  latest sample.
\<close>

theorem window_exact:
  assumes "sorted (map fst samples)" "rg_pts r = []"
  shows "rg_pts (fold (\<lambda>(t, v). ring_push t (Some v)) samples r) =
    filter (\<lambda>p. fst p \<ge> fst (last samples) - rg_window r) samples"
  using assms(1)
proof (induction samples rule: rev_induct)
  case Nil
  then show ?case by (simp add: assms(2))
next
  case (snoc p ps)
  let ?r = "fold (\<lambda>(t, v). ring_push t (Some v)) ps r"
  have w: "rg_window (fold (\<lambda>(t, v). ring_push t (Some v)) ps r') = rg_window r'" for r'
    by (induction ps arbitrary: r') (auto simp: ring_push_def)
  have s: "sorted (map fst ps)" and le: "\<And>q. q \<in> set ps \<Longrightarrow> fst q \<le> fst p"
    using snoc.prems by (auto simp: sorted_append)
  have drop: "dropWhile (\<lambda>q. fst q < c) xs = filter (\<lambda>q. c \<le> fst q) xs" if "sorted (map fst xs)" for xs :: "(rat \<times> rat) list" and c
    using that
  proof (induction xs)
    case (Cons x xs)
    then show ?case by (cases "fst x < c") (auto intro!: filter_True [symmetric])
  qed simp
  have "rg_pts (fold (\<lambda>(t, v). ring_push t (Some v)) (ps @ [p]) r) =
      dropWhile (\<lambda>q. fst q < fst p - rg_window r) (rg_pts ?r @ [p])"
    by (cases p) (simp add: ring_push_def w)
  also have "\<dots> = filter (\<lambda>q. fst p - rg_window r \<le> fst q) (rg_pts ?r @ [p])"
  proof (rule drop)
    show "sorted (map fst (rg_pts ?r @ [p]))"
      using s le by (auto simp: snoc.IH [OF s] sorted_append sorted_filter)
  qed
  also have "\<dots> = filter (\<lambda>q. fst p - rg_window r \<le> fst q) (ps @ [p])"
  proof (cases "ps = []")
    case True
    then show ?thesis using assms(2) by simp
  next
    case False
    then have "fst (last ps) \<le> fst p" using le by simp
    then show ?thesis by (simp add: snoc.IH [OF s]) (rule filter_cong; auto)
  qed
  finally show ?case by simp
qed

text \<open>The rows of the hub: open in the tracker, finished there, or handed to the history.\<close>

definition hub_keys :: "hub \<Rightarrow> row_key multiset" where
  "hub_keys h = row_keys (hb_tracker h) + mset (map rw_key (hb_sent h))"

definition hub_ok :: "rat \<Rightarrow> hub \<Rightarrow> bool" where
  "hub_ok t h = (track_ok t (hb_tracker h) \<and> tk_finished (hb_tracker h) = [] \<and> list_all closed_ok (hb_sent h))"

lemma send_rows:
  "hb_tracker (fold send_row rows h) = hb_tracker h" "hb_sent (fold send_row rows h) = hb_sent h @ rows"
  by (induction rows arbitrary: h) (auto simp: send_row_def hold_def Let_def)

lemma drain_props:
  assumes "track_ok t (hb_tracker h)" "list_all closed_ok (hb_sent h)"
  shows "hub_ok t (drain_finished h)" "hub_keys (drain_finished h) = hub_keys h"
    and "hb_sent (drain_finished h) = hb_sent h @ tk_finished (hb_tracker h)"
proof -
  have d: "hb_tracker (drain_finished h) = (hb_tracker h)\<lparr>tk_finished := []\<rparr>"
    "hb_sent (drain_finished h) = hb_sent h @ tk_finished (hb_tracker h)"
    by (simp_all add: drain_finished_def pop_finished_def Let_def send_rows)
  then show "hb_sent (drain_finished h) = hb_sent h @ tk_finished (hb_tracker h)" by simp
  show "hub_ok t (drain_finished h)" using assms by (auto simp: hub_ok_def d track_ok_def list_all_iff)
  show "hub_keys (drain_finished h) = hub_keys h" by (simp add: hub_keys_def row_keys_def d)
qed

text \<open>An operation that feeds the tracker and leaves the sent rows alone.\<close>

definition feeds :: "rat \<Rightarrow> hub \<Rightarrow> hub \<Rightarrow> bool" where
  "feeds now h h' =
     (track_ok now (hb_tracker h') \<and> extends (hb_tracker h) (hb_tracker h') \<and> hb_sent h' = hb_sent h)"

lemma feeds_drain:
  assumes "hub_ok t h" "feeds now h h'"
  shows "hub_ok now (drain_finished h') \<and> hub_keys h \<subseteq># hub_keys (drain_finished h') \<and>
    take (length (hb_sent h)) (hb_sent (drain_finished h')) = hb_sent h"
proof -
  have ok: "track_ok now (hb_tracker h')" "list_all closed_ok (hb_sent h')" using assms by (auto simp: hub_ok_def feeds_def)
  note d = drain_props [OF ok]
  from assms(2) d show ?thesis by (simp add: feeds_def extends_def hub_keys_def)
qed

lemma gone_feeds: "track_ok t (hb_tracker h) \<Longrightarrow> t \<le> now \<Longrightarrow> feeds now h (slots_gone err now h)"
  by (simp add: feeds_def slots_gone_def on_slots_props)

lemma slots_feeds:
  assumes "track_ok t (hb_tracker h)" "t \<le> now"
  shows "feeds now h (apply_slots text_int fetched now h)"
proof -
  have same: "feeds now h h'" if "hb_tracker h' = hb_tracker h" "hb_sent h' = hb_sent h" for h'
    using that track_ok_later [OF assms] by (simp add: feeds_def)
  have ok: "feeds now h h'" if "hb_tracker h' = on_slots infos now (hb_tracker h)" "hb_sent h' = hb_sent h" for h' infos
    using that on_slots_props [OF assms] by (simp add: feeds_def)
  show ?thesis
  proof (cases fetched)
    case (Inl err)
    with gone_feeds [OF assms] show ?thesis by (simp add: apply_slots_def)
  next
    case (Inr sb)
    obtain status body where sb: "sb = (status, body)" by (cases sb)
    show ?thesis
    proof (cases "case body of None \<Rightarrow> Inl ValueError | Some v \<Rightarrow> parse_slots text_int v")
      case (Inl e)
      with Inr sb gone_feeds [OF assms] same show ?thesis by (simp add: apply_slots_def)
    next
      case (Inr slots)
      with \<open>fetched = Inr sb\<close> sb gone_feeds [OF assms] show ?thesis
        by (cases "status = 200") (simp_all add: apply_slots_def ok [of _ "Some (map info_of slots)"])
    qed
  qed
qed

lemma hub_step_props:
  assumes "hub_ok t h" "t \<le> now"
  shows "hub_ok now (hub_step text_int inp now h) \<and> hub_keys h \<subseteq># hub_keys (hub_step text_int inp now h) \<and>
    take (length (hb_sent h)) (hb_sent (hub_step text_int inp now h)) = hb_sent h"
proof -
  have tk: "track_ok t (hb_tracker h)" using assms(1) by (simp add: hub_ok_def)
  have later: "hub_ok now h" using assms track_ok_later [OF tk assms(2)] by (simp add: hub_ok_def)
  have id: "feeds now h h" using track_ok_later [OF tk assms(2)] by (simp add: feeds_def)
  show ?thesis
  proof (cases inp)
    case (JournalLine l)
    show ?thesis
    proof (cases "\<exists>k since. parse_journal_line l = Inr (Some (k, since))")
      case True
      then obtain k since where p: "parse_journal_line l = Inr (Some (k, since))" by blast
      have "feeds now h (h\<lparr>hb_tracker := on_journal k (Some since) now (hb_tracker h)\<rparr>)"
        using on_journal_props [OF tk assms(2)] by (simp add: feeds_def)
      from feeds_drain [OF assms(1) this] p JournalLine show ?thesis by (simp add: hub_step_def on_journal_line_def)
    next
      case False
      then have "on_journal_line l now h = h" by (auto simp: on_journal_line_def split: sum.splits option.splits)
      with later JournalLine show ?thesis by (simp add: hub_step_def)
    qed
  next
    case (JournalState up)
    have "track_ok now (set_journal_up up (hb_tracker h))"
      using track_ok_same [OF track_ok_later [OF tk assms(2)], of "set_journal_up up (hb_tracker h)"] by (simp add: set_journal_up_def)
    with assms(1) JournalState show ?thesis
      by (simp add: hub_step_def on_journal_state_def hub_ok_def hub_keys_def row_keys_def set_journal_up_def)
  next
    case (FastPoll gen fetched)
    have "feeds now h (if gen = hb_gen h then apply_slots text_int fetched now h else h)"
      using slots_feeds [OF tk assms(2)] id by simp
    from feeds_drain [OF assms(1) this] FastPoll show ?thesis by (simp add: hub_step_def poll_slots_def)
  qed
qed

lemma hub_run_ok: "hub_run text_int t h \<Longrightarrow> hub_ok t h"
proof (induction rule: hub_run.induct)
  case (hub_begun t slots)
  show ?case by (simp add: hub_start_def hub_ok_def tracker_start_def track_ok_def)
next
  case (hub_on t h now inp)
  then show ?case using hub_step_props by blast
qed



end
