(* ===== verification/LiveHistory.thy ===== *)
theory LiveHistory
  imports LiveParse "HOL-Library.Multiset"
begin

text \<open>
  The request history of the live dashboard, \<^verbatim>\<open>scripts/files/live_dashboard/history.py\<close>: the queue, the one
  writer thread with its retries, backlog and recovery, and the answers of \<^verbatim>\<open>flush\<close>. What SQLite does with
  a statement is open in every attempt: it takes it, finds the data bad, is locked, or is broken.
\<close>

section \<open>The table\<close>

definition columns :: "string list" where
  "columns =
     [''key'', ''server_run'', ''slot'', ''task'', ''started'', ''finished'', ''status'', ''prompt_tokens'',
      ''new_prompt_tokens'', ''cached_tokens'', ''output_tokens'', ''prefill_tok_s'', ''gen_tok_s'', ''duration_s'',
      ''draft_accept'', ''slow'']"

text \<open>The values of an insert; a row without a usable \<^verbatim>\<open>slow\<close> is bad data.\<close>

definition row_values :: "(string \<Rightarrow> int option) \<Rightarrow> pydict \<Rightarrow> pyval list res" where
  "row_values text_int d =
     bind_res (case dlook d ''slow'' of None \<Rightarrow> Inl KeyError | Some v \<Rightarrow> to_int text_int v) (\<lambda>slow.
       Inr (map (\<lambda>c. if c = ''slow'' then PInt slow else dget d c) columns))"

type_synonym table = "(pyval \<times> pyval list) list"

definition insert_row :: "pydict \<Rightarrow> pyval list \<Rightarrow> table \<Rightarrow> table" where
  "insert_row d vals t = alist_put (dget d ''key'') vals t"

definition num_of :: "pyval \<Rightarrow> rat option" where
  "num_of v = (case v of PInt n \<Rightarrow> Some (of_int n) | PBool b \<Rightarrow> Some (if b then 1 else 0) | PFloat (Fin r) \<Rightarrow> Some r | _ \<Rightarrow> None)"

definition finished_before :: "rat \<Rightarrow> pyval list \<Rightarrow> bool" where
  "finished_before cutoff vals = (case num_of (vals ! 5) of Some f \<Rightarrow> f < cutoff | None \<Rightarrow> False)"

definition prune_rows :: "rat \<Rightarrow> table \<Rightarrow> table" where
  "prune_rows cutoff t = filter (\<lambda>(k, vals). \<not> finished_before cutoff vals) t"

section \<open>The writer\<close>

datatype item = Add pydict | Prune rat | Noop

datatype db_answer = Took | BadData | Locked | Broken

datatype ran = Applied | Dropped | Failed

definition retry_backoff :: "rat list" where
  "retry_backoff = [1/5, 1/2, 1]"

text \<open>
  \<open>_run\<close>: a locked database is tried again after each pause of the backoff and the write then dropped; bad
  data is dropped at once; anything else is a persistent failure.
\<close>

fun attempt :: "nat \<Rightarrow> nat \<Rightarrow> (nat \<Rightarrow> db_answer) \<Rightarrow> ran" where
  "attempt left k answer =
     (case answer k of
        Took \<Rightarrow> Applied
      | BadData \<Rightarrow> Dropped
      | Broken \<Rightarrow> Failed
      | Locked \<Rightarrow> (case left of 0 \<Rightarrow> Dropped | Suc l \<Rightarrow> attempt l (k + 1) answer))"

declare attempt.simps [simp del]

definition run_write :: "(nat \<Rightarrow> db_answer) \<Rightarrow> ran" where
  "run_write answer = attempt (length retry_backoff) 0 answer"

definition queue_max :: nat where
  "queue_max = 10000"

definition backlog_max :: nat where
  "backlog_max = 1000"

text \<open>
  The store. The last four fields are history variables: the rows the writer has taken from the queue,
  those it has written, those it has dropped, and how many had been dropped when it last answered a flush.
\<close>

record store =
  hs_ok :: bool
  hs_queue :: "item list"
  hs_backlog :: "pydict list"
  hs_lost :: bool
  hs_resetting :: bool
  hs_table :: table
  hs_taken :: "pydict list"
  hs_written :: "pydict list"
  hs_dropped :: "pydict list"
  hs_mark :: nat

definition store_start :: "bool \<Rightarrow> store" where
  "store_start ok =
     \<lparr>hs_ok = ok, hs_queue = [], hs_backlog = [], hs_lost = False, hs_resetting = False, hs_table = [], hs_taken = [],
      hs_written = [], hs_dropped = [], hs_mark = 0\<rparr>"

definition drop_row :: "pydict \<Rightarrow> store \<Rightarrow> store" where
  "drop_row d s = s\<lparr>hs_lost := True, hs_dropped := hs_dropped s @ [d]\<rparr>"

text \<open>\<open>_keep\<close>: a full backlog loses its oldest row.\<close>

definition keep_row :: "pydict \<Rightarrow> store \<Rightarrow> store" where
  "keep_row d s =
     (if length (hs_backlog s) = backlog_max
      then (drop_row (hd (hs_backlog s)) s)\<lparr>hs_backlog := tl (hs_backlog s) @ [d]\<rparr>
      else s\<lparr>hs_backlog := hs_backlog s @ [d]\<rparr>)"

definition write_row :: "(string \<Rightarrow> int option) \<Rightarrow> pydict \<Rightarrow> (nat \<Rightarrow> db_answer) \<Rightarrow> store \<Rightarrow> store" where
  "write_row text_int d answer s =
     (if \<not> hs_ok s then keep_row d s
      else case row_values text_int d of
             Inl e \<Rightarrow> drop_row d s
           | Inr vals \<Rightarrow>
               (case run_write answer of
                  Applied \<Rightarrow> s\<lparr>hs_table := insert_row d vals (hs_table s), hs_written := hs_written s @ [d]\<rparr>
                | Dropped \<Rightarrow> drop_row d s
                | Failed \<Rightarrow> keep_row d (s\<lparr>hs_ok := False\<rparr>)))"

definition write_prune :: "rat \<Rightarrow> (nat \<Rightarrow> db_answer) \<Rightarrow> store \<Rightarrow> store" where
  "write_prune cutoff answer s =
     (if \<not> hs_ok s then s
      else case run_write answer of
             Applied \<Rightarrow> s\<lparr>hs_table := prune_rows cutoff (hs_table s)\<rparr>
           | Dropped \<Rightarrow> s\<lparr>hs_lost := True\<rparr>
           | Failed \<Rightarrow> s\<lparr>hs_ok := False\<rparr>)"

text \<open>Recovery: the backlog is written until it is empty or the database fails again.\<close>

lemma write_row_ok:
  "hs_ok (write_row text_int d answer s) \<Longrightarrow> hs_ok s \<and> hs_backlog (write_row text_int d answer s) = hs_backlog s"
  by (auto simp: write_row_def keep_row_def drop_row_def split: if_splits sum.splits ran.splits)

function drain_backlog :: "(string \<Rightarrow> int option) \<Rightarrow> (nat \<Rightarrow> nat \<Rightarrow> db_answer) \<Rightarrow> nat \<Rightarrow> store \<Rightarrow> store" where
  "drain_backlog text_int answers i s =
     (if hs_ok s \<and> hs_backlog s \<noteq> []
      then drain_backlog text_int answers (i + 1)
             (write_row text_int (hd (hs_backlog s)) (answers i) (s\<lparr>hs_backlog := tl (hs_backlog s)\<rparr>))
      else s)"
  by pat_completeness auto
termination
proof (relation "measure (\<lambda>(ti, a, i, s). if hs_ok s then Suc (length (hs_backlog s)) else 0)")
  fix text_int and answers :: "nat \<Rightarrow> nat \<Rightarrow> db_answer" and i and s :: store
  assume h: "hs_ok s \<and> hs_backlog s \<noteq> []"
  let ?s = "write_row text_int (hd (hs_backlog s)) (answers i) (s\<lparr>hs_backlog := tl (hs_backlog s)\<rparr>)"
  show "((text_int, answers, i + 1, ?s), text_int, answers, i, s)
      \<in> measure (\<lambda>(ti, a, i, s). if hs_ok s then Suc (length (hs_backlog s)) else 0)"
    using h write_row_ok [of text_int "hd (hs_backlog s)" "answers i" "s\<lparr>hs_backlog := tl (hs_backlog s)\<rparr>"]
    by (cases "hs_ok ?s") auto
qed simp

declare drain_backlog.simps [simp del]

definition try_recover :: "(string \<Rightarrow> int option) \<Rightarrow> bool \<Rightarrow> (nat \<Rightarrow> nat \<Rightarrow> db_answer) \<Rightarrow> store \<Rightarrow> store" where
  "try_recover text_int setup_ok answers s =
     (if \<not> hs_ok s \<and> setup_ok then drain_backlog text_int answers 0 (s\<lparr>hs_ok := True\<rparr>) else s)"

definition take_item :: "(string \<Rightarrow> int option) \<Rightarrow> (nat \<Rightarrow> db_answer) \<Rightarrow> item \<Rightarrow> store \<Rightarrow> bool option \<times> store" where
  "take_item text_int answer it s =
     (case it of
        Add d \<Rightarrow> (None, write_row text_int d answer (s\<lparr>hs_taken := hs_taken s @ [d]\<rparr>))
      | Prune c \<Rightarrow> (None, write_prune c answer s)
      | Noop \<Rightarrow> (Some (hs_ok s \<and> \<not> hs_lost s), s\<lparr>hs_resetting := True, hs_mark := length (hs_dropped s)\<rparr>))"

definition acceptable :: "pyval \<Rightarrow> bool" where
  "acceptable r = (case r of PDict d \<Rightarrow> dget d ''key'' \<noteq> PNone \<and> dget d ''finished'' \<noteq> PNone | _ \<Rightarrow> False)"

definition add_row :: "pyval \<Rightarrow> store \<Rightarrow> store" where
  "add_row r s =
     (case r of
        PDict d \<Rightarrow>
          if acceptable r \<and> length (hs_queue s) < queue_max then s\<lparr>hs_queue := hs_queue s @ [Add d]\<rparr>
          else s\<lparr>hs_lost := True\<rparr>
      | _ \<Rightarrow> s\<lparr>hs_lost := True\<rparr>)"

text \<open>
  Steps of the callers and of the writer, with the answer to a flush when one is given. The writer resets
  the loss flag in a step of its own, after it has read it; a recovery may come before any item.
\<close>

inductive store_step :: "(string \<Rightarrow> int option) \<Rightarrow> bool option \<Rightarrow> store \<Rightarrow> store \<Rightarrow> bool" for text_int where
  row_added: "store_step text_int None s (add_row r s)"
| request_queued:
    "it \<in> {Noop, Prune c} \<Longrightarrow> length (hs_queue s) < queue_max \<Longrightarrow>
     store_step text_int None s (s\<lparr>hs_queue := hs_queue s @ [it]\<rparr>)"
| recovered:
    "\<not> hs_resetting s \<Longrightarrow> store_step text_int None s (try_recover text_int setup_ok answers s)"
| item_taken:
    "\<not> hs_resetting s \<Longrightarrow> hs_queue s = it # q \<Longrightarrow> take_item text_int answer it (s\<lparr>hs_queue := q\<rparr>) = (a, s') \<Longrightarrow>
     store_step text_int a s s'"
| flag_reset:
    "hs_resetting s \<Longrightarrow> store_step text_int None s (s\<lparr>hs_resetting := False, hs_lost := False\<rparr>)"

inductive store_run :: "(string \<Rightarrow> int option) \<Rightarrow> store \<Rightarrow> bool" for text_int where
  store_begun: "store_run text_int (store_start ok)"
| store_on: "store_run text_int s \<Longrightarrow> store_step text_int a s s' \<Longrightarrow> store_run text_int s'"

section \<open>Reading\<close>

definition bands_limits :: "(int \<times> string) list" where
  "bands_limits = [(8192, ''0-8K''), (32768, ''8-32K''), (65536, ''32-64K''), (98304, ''64-96K'')]"

definition last_band :: string where
  "last_band = ''96-128K''"

definition band_of :: "int \<Rightarrow> string" where
  "band_of n = (case find (\<lambda>b. n < fst b) bands_limits of Some b \<Rightarrow> snd b | None \<Rightarrow> last_band)"

definition median :: "rat list \<Rightarrow> rat option" where
  "median xs =
     (let s = sort xs; n = length s in
      if n = 0 then None
      else if odd n then Some (s ! (n div 2)) else Some ((s ! (n div 2 - 1) + s ! (n div 2)) / 2))"

record band_row =
  br_prompt :: "int option"
  br_gen :: "rat option"
  br_pre :: "rat option"

definition in_band :: "string \<Rightarrow> band_row list \<Rightarrow> band_row list" where
  "in_band name rows = filter (\<lambda>r. case br_prompt r of Some n \<Rightarrow> band_of n = name | None \<Rightarrow> False) rows"

text \<open>The finished rows with a prompt, as selected: one entry per band that has any.\<close>

definition bands :: "band_row list \<Rightarrow> (string \<times> nat \<times> rat option \<times> rat option) list" where
  "bands rows =
     map (\<lambda>name. (name, length (in_band name rows), median (List.map_filter br_gen (in_band name rows)),
                   median (List.map_filter br_pre (in_band name rows))))
       (filter (\<lambda>name. in_band name rows \<noteq> []) (map snd bands_limits @ [last_band]))"

definition clamp :: "int \<Rightarrow> int \<Rightarrow> int \<Rightarrow> int" where
  "clamp lo hi n = max lo (min n hi)"

section \<open>A flush tells the truth\<close>

definition store_ok :: "store \<Rightarrow> bool" where
  "store_ok s =
     (mset (hs_taken s) = mset (hs_written s) + mset (hs_backlog s) + mset (hs_dropped s) \<and>
      length (hs_backlog s) \<le> backlog_max \<and> (hs_ok s \<longrightarrow> hs_backlog s = []) \<and> hs_mark s \<le> length (hs_dropped s) \<and>
      (\<not> hs_lost s \<longrightarrow> hs_mark s = length (hs_dropped s)) \<and>
      (hs_resetting s \<longrightarrow> hs_mark s = length (hs_dropped s)))"

lemma store_ok_start: "store_ok (store_start ok)"
  by (simp add: store_ok_def store_start_def)

text \<open>The part of the invariant that holds with a row in hand and while the backlog is written.\<close>

definition store_half :: "pydict multiset \<Rightarrow> store \<Rightarrow> bool" where
  "store_half m s =
     (mset (hs_taken s) = m + mset (hs_written s) + mset (hs_backlog s) + mset (hs_dropped s) \<and>
      length (hs_backlog s) + size m \<le> backlog_max + 1 \<and> length (hs_backlog s) \<le> backlog_max \<and>
      hs_mark s \<le> length (hs_dropped s) \<and> (\<not> hs_lost s \<longrightarrow> hs_mark s = length (hs_dropped s)) \<and> \<not> hs_resetting s)"

lemma drop_half: "store_half (add_mset d m) s \<Longrightarrow> store_half m (drop_row d s)"
  by (auto simp: store_half_def drop_row_def)

lemma keep_half: "store_half {#d#} s \<Longrightarrow> store_half {#} (keep_row d s)"
proof (cases "length (hs_backlog s) = backlog_max")
  case True
  assume h: "store_half {#d#} s"
  from True obtain x xs where b: "hs_backlog s = x # xs" by (cases "hs_backlog s") (auto simp: backlog_max_def)
  with h True show ?thesis by (auto simp: store_half_def keep_row_def drop_row_def)
next
  case False
  assume "store_half {#d#} s"
  with False show ?thesis by (auto simp: store_half_def keep_row_def)
qed

lemma write_row_half:
  assumes "store_half {#d#} s"
  shows "store_half {#} (write_row text_int d answer s)"
proof -
  have f: "store_half {#d#} (s\<lparr>hs_ok := False\<rparr>)" using assms by (simp add: store_half_def)
  have w: "store_half {#} (s\<lparr>hs_table := t, hs_written := hs_written s @ [d]\<rparr>)" for t using assms by (simp add: store_half_def)
  show ?thesis
    using keep_half [OF assms] keep_half [OF f] drop_half [OF assms] w by (simp add: write_row_def split: sum.splits ran.splits)
qed

lemma backlog_props:
  assumes "store_half {#} s"
  shows "store_half {#} (drain_backlog text_int answers i s) \<and>
    (hs_ok (drain_backlog text_int answers i s) \<longrightarrow> hs_backlog (drain_backlog text_int answers i s) = [])"
  using assms
proof (induction text_int answers i s rule: drain_backlog.induct)
  case (1 text_int answers i s)
  show ?case
  proof (cases "hs_ok s \<and> hs_backlog s \<noteq> []")
    case True
    let ?s = "s\<lparr>hs_backlog := tl (hs_backlog s)\<rparr>"
    from True obtain x xs where "hs_backlog s = x # xs" by (cases "hs_backlog s") auto
    with 1(2) have "store_half {#hd (hs_backlog s)#} ?s" by (auto simp: store_half_def)
    from 1(1) [OF True write_row_half [OF this]] True show ?thesis by (subst (1 2 3) drain_backlog.simps) simp
  next
    case False
    with 1(2) show ?thesis by (subst (1 2 3) drain_backlog.simps) auto
  qed
qed

lemma store_ok_half: "store_ok s \<longleftrightarrow> (store_half {#} (s\<lparr>hs_resetting := False\<rparr>) \<and> (hs_ok s \<longrightarrow> hs_backlog s = []) \<and>
    (hs_resetting s \<longrightarrow> hs_mark s = length (hs_dropped s)))"
  by (auto simp: store_ok_def store_half_def)

lemma write_row_backlog:
  "(hs_ok s \<longrightarrow> hs_backlog s = []) \<Longrightarrow> hs_ok (write_row text_int d answer s) \<Longrightarrow> hs_backlog (write_row text_int d answer s) = []"
  using write_row_ok by fastforce

lemma half_ok: "store_half {#} s \<Longrightarrow> (hs_ok s \<longrightarrow> hs_backlog s = []) \<Longrightarrow> store_ok s"
  by (auto simp: store_ok_def store_half_def)

lemma ok_half: "store_ok s \<Longrightarrow> \<not> hs_resetting s \<Longrightarrow> store_half {#} s"
  by (auto simp: store_ok_def store_half_def)

lemma store_ok_prune: "store_ok s \<Longrightarrow> store_ok (write_prune c answer s)"
  by (cases "run_write answer") (simp_all add: write_prune_def store_ok_def)

lemma store_step_ok:
  assumes "store_ok s" "store_step text_int a s s'"
  shows "store_ok s'"
  using assms(2)
proof (cases rule: store_step.cases)
  case (row_added r)
  with assms(1) show ?thesis by (auto simp: store_ok_def add_row_def split: pyval.splits)
next
  case (request_queued it c)
  with assms(1) show ?thesis by (auto simp: store_ok_def)
next
  case (recovered setup_ok answers)
  show ?thesis
  proof (cases "\<not> hs_ok s \<and> setup_ok")
    case True
    have "store_half {#} (s\<lparr>hs_ok := True\<rparr>)" using ok_half [OF assms(1) recovered(3)] by (simp add: store_half_def)
    from backlog_props [OF this] True recovered(2) show ?thesis by (auto simp: try_recover_def intro: half_ok)
  next
    case False
    with assms(1) recovered(2) show ?thesis by (auto simp: try_recover_def)
  qed
next
  case (item_taken it q answer)
  have base: "store_ok (s\<lparr>hs_queue := q\<rparr>)" using assms(1) by (simp add: store_ok_def)
  show ?thesis
  proof (cases it)
    case (Add d)
    have "store_half {#d#} (s\<lparr>hs_queue := q, hs_taken := hs_taken s @ [d]\<rparr>)"
      using ok_half [OF assms(1) item_taken(1)] by (simp add: store_half_def)
    note w = write_row_half [OF this, of text_int answer]
    have "hs_ok s \<longrightarrow> hs_backlog s = []" using assms(1) by (simp add: store_ok_def)
    with w item_taken(3) Add show ?thesis
      by (auto simp: take_item_def intro!: half_ok dest!: write_row_backlog [rotated])
  next
    case (Prune c)
    with item_taken(3) have "s' = write_prune c answer (s\<lparr>hs_queue := q\<rparr>)" by (simp add: take_item_def)
    with store_ok_prune [OF base] show ?thesis by simp
  next
    case Noop
    with item_taken(3) have "s' = s\<lparr>hs_queue := q, hs_resetting := True, hs_mark := length (hs_dropped s)\<rparr>"
      by (simp add: take_item_def)
    with base show ?thesis by (simp add: store_ok_def)
  qed
next
  case flag_reset
  with assms(1) show ?thesis by (auto simp: store_ok_def)
qed

lemma store_run_ok: "store_run text_int s \<Longrightarrow> store_ok s"
  by (induction rule: store_run.induct) (auto intro: store_ok_start store_step_ok)

text \<open>
  C31: A flush that reports success tells the truth. Whatever SQLite answers, in every state of the store
  each row the writer has taken is written, kept for recovery or dropped, at most a thousand are kept and
  none while the store is healthy; and when the writer answers a flush with success, every row taken
  before it has been written or had been dropped before the previous flush was answered.
\<close>

theorem flush_truthful:
  assumes "store_run text_int s" "store_step text_int a s s'"
  shows "mset (hs_taken s) = mset (hs_written s) + mset (hs_backlog s) + mset (hs_dropped s) \<and>
    length (hs_backlog s) \<le> backlog_max \<and> (\<not> hs_ok s \<or> hs_backlog s = []) \<and>
    (a \<noteq> Some True \<or>
      mset (hs_taken s) = mset (hs_written s) + mset (take (hs_mark s) (hs_dropped s)))"
proof -
  have ok: "store_ok s" by (rule store_run_ok [OF assms(1)])
  have "mset (hs_taken s) = mset (hs_written s) + mset (take (hs_mark s) (hs_dropped s))" if "a = Some True"
    using assms(2)
  proof (cases rule: store_step.cases)
    case (item_taken it q answer)
    with that have "hs_ok s \<and> \<not> hs_lost s" by (cases it) (auto simp: take_item_def)
    with ok show ?thesis by (auto simp: store_ok_def)
  qed (use that in simp_all)
  with ok show ?thesis by (auto simp: store_ok_def)
qed

definition flushed :: "nat \<Rightarrow> store" where
  "flushed n = (store_start True)\<lparr>hs_queue := replicate n Noop\<rparr>"

lemma flushed_run: "n \<le> queue_max \<Longrightarrow> store_run text_int (flushed n)"
proof (induction n)
  case 0
  then show ?case using store_begun [of text_int True] by (simp add: flushed_def store_start_def)
next
  case (Suc n)
  then have "store_step text_int None (flushed n) ((flushed n)\<lparr>hs_queue := hs_queue (flushed n) @ [Noop]\<rparr>)"
    by (intro request_queued) (simp_all add: flushed_def)
  with Suc have "store_run text_int ((flushed n)\<lparr>hs_queue := hs_queue (flushed n) @ [Noop]\<rparr>)" by (auto intro: store_on)
  then show ?case by (simp add: flushed_def replicate_append_same)
qed

lemma flushed_step:
  "store_step text_int (Some True) (flushed (Suc n)) ((flushed n)\<lparr>hs_resetting := True\<rparr>)"
  by (rule item_taken [of _ Noop "replicate n Noop"]) (simp_all add: flushed_def take_item_def store_start_def)

theorem flush_truthful_witness:
  "mset (hs_taken (flushed 1)) = mset (hs_written (flushed 1)) + mset (hs_backlog (flushed 1)) + mset (hs_dropped (flushed 1)) \<and>
   length (hs_backlog (flushed 1)) \<le> backlog_max \<and>
   mset (hs_taken (flushed 1)) = mset (hs_written (flushed 1)) + mset (take (hs_mark (flushed 1)) (hs_dropped (flushed 1)))"
proof -
  have r: "store_run (\<lambda>_. None) (flushed (Suc 0))" by (rule flushed_run) (simp add: queue_max_def)
  from flush_truthful [OF r flushed_step] show ?thesis by auto
qed

text \<open>
  A refused row can escape the report: \<^verbatim>\<open>add\<close> raises the flag between the writer's reading and resetting it,
  and the next flush reports success although a row was refused since the last one.
\<close>

lemma refusal_unreported:
  "\<exists>s1 s2 s3 s4. store_step text_int (Some True) (flushed 2) s1 \<and> s2 = add_row PNone s1 \<and> hs_lost s2 \<and>
     store_step text_int None s1 s2 \<and> store_step text_int None s2 s3 \<and> store_step text_int (Some True) s3 s4"
proof -
  define s1 where "s1 = (flushed 1)\<lparr>hs_resetting := True\<rparr>"
  have a: "store_step text_int (Some True) (flushed 2) s1" using flushed_step [of text_int 1] by (simp add: s1_def numeral_2_eq_2)
  have b: "hs_lost (add_row PNone s1)" "hs_resetting (add_row PNone s1)" by (simp_all add: add_row_def s1_def)
  have c: "(add_row PNone s1)\<lparr>hs_resetting := False, hs_lost := False\<rparr> = flushed 1"
    by (simp add: add_row_def s1_def flushed_def store_start_def)
  from a b(1) row_added [of text_int s1 PNone] flag_reset [OF b(2), of text_int] flushed_step [of text_int 0] show ?thesis
    unfolding c by auto
qed

end
