(* ===== verification/RagPlan.thy ===== *)
theory RagPlan
  imports PyVal "HOL-Library.List_Lexorder" "HOL-Library.Char_ord" "HOL-Library.Product_Lexorder"
begin

text \<open>
  The plan of a corpus refresh: \<^verbatim>\<open>scripts/rag/lib/plan.py\<close> and \<^verbatim>\<open>scripts/rag/lib/state.py\<close>, the order in which
  a budgeted handler spends its fetches (\<^verbatim>\<open>scripts/rag/handlers/sphinx_sitemap.py\<close>) and the URL list of
  \<^verbatim>\<open>scripts/rag/handlers/url_list_hashed.py\<close>. SHA-256 and the ISO date parser are parameters; the state of a
  source is its \<^verbatim>\<open>documents.json\<close>, URLs with their entries.
\<close>

section \<open>The plan\<close>

record doc =
  dc_url :: string
  dc_content :: string
  dc_title :: string
  dc_meta :: pydict

type_synonym docs = "(string \<times> pydict) list"

definition content_hash :: "(string \<Rightarrow> string) \<Rightarrow> string \<Rightarrow> string" where
  "content_hash sha text = ''sha256:'' @ sha (join '' '' (split_ws text))"

record plan =
  pl_adds :: "doc list"
  pl_updates :: "doc list"
  pl_removes :: "string list"
  pl_existing :: nat

definition total_changes :: "plan \<Rightarrow> nat" where
  "total_changes p = length (pl_adds p) + length (pl_updates p) + length (pl_removes p)"

definition is_noop :: "plan \<Rightarrow> bool" where
  "is_noop p = (pl_adds p = [] \<and> pl_updates p = [] \<and> pl_removes p = [])"

definition changed :: "(string \<Rightarrow> string) \<Rightarrow> docs \<Rightarrow> doc \<Rightarrow> bool" where
  "changed sha persisted d =
     (case map_of persisted (dc_url d) of
        None \<Rightarrow> False
      | Some prev \<Rightarrow> dget prev ''hash'' \<noteq> PStr (content_hash sha (dc_content d)))"

text \<open>
  The URLs that still exist: those the handler enumerated, when it reports them, else those it collected.
\<close>

definition present_urls :: "doc list \<Rightarrow> string list option \<Rightarrow> string list" where
  "present_urls collected known = (case known of Some k \<Rightarrow> k | None \<Rightarrow> map dc_url collected)"

definition compute :: "(string \<Rightarrow> string) \<Rightarrow> doc list \<Rightarrow> docs \<Rightarrow> bool \<Rightarrow> string list option \<Rightarrow> plan" where
  "compute sha collected persisted remove_missing known =
     \<lparr>pl_adds = filter (\<lambda>d. map_of persisted (dc_url d) = None) collected,
      pl_updates = filter (changed sha persisted) collected,
      pl_removes =
        (if remove_missing then filter (\<lambda>u. u \<notin> set (present_urls collected known)) (map fst persisted) else []),
      pl_existing = length persisted\<rparr>"

definition safety_check :: "rat \<Rightarrow> plan \<Rightarrow> bool" where
  "safety_check max_delete p =
     (pl_removes p = [] \<or> pl_existing p = 0 \<or> length (pl_removes p) < 5 \<or>
      of_nat (length (pl_removes p)) / of_nat (pl_existing p) \<le> max_delete)"

section \<open>Intervals\<close>

definition unit_seconds :: "char \<Rightarrow> nat option" where
  "unit_seconds c =
     map_of [(CHR ''s'', 1), (CHR ''m'', 60), (CHR ''h'', 3600), (CHR ''d'', 86400), (CHR ''w'', 7 * 86400)] c"

definition parse_interval :: "string \<Rightarrow> nat res" where
  "parse_interval spec =
     (let s = lstrip_by is_space spec; digits = takeWhile is_digit s; rest = strip (dropWhile is_digit s)
      in case rest of
           [c] \<Rightarrow>
             (case unit_seconds c of
                Some k \<Rightarrow> if digits = [] then Inl ValueError else Inr (nat_of_digits digits * k)
              | None \<Rightarrow> Inl ValueError)
         | _ \<Rightarrow> Inl ValueError)"

text \<open>What the ISO parser makes of a text: no date, a date without a zone, or a time.\<close>

datatype iso_time = NoTime | Naive | At rat

definition parse_iso :: "(string \<Rightarrow> iso_time) \<Rightarrow> pyval \<Rightarrow> iso_time res" where
  "parse_iso from_iso v =
     (if \<not> truthy v then Inr NoTime
      else case v of PStr s \<Rightarrow> Inr (from_iso (replace ''Z'' ''+00:00'' s)) | _ \<Rightarrow> Inl AttributeError)"

definition is_due :: "(string \<Rightarrow> iso_time) \<Rightarrow> rat \<Rightarrow> pydict \<Rightarrow> string \<Rightarrow> bool res" where
  "is_due from_iso now manifest interval =
     bind_res (parse_iso from_iso (dget manifest ''last_success'')) (\<lambda>last.
       if last = NoTime then Inr True
       else bind_res (parse_interval interval) (\<lambda>seconds.
         case last of At t \<Rightarrow> Inr (now - t \<ge> of_nat seconds) | _ \<Rightarrow> Inl TypeError))"

section \<open>The fetch budget\<close>

text \<open>The entries the program writes hold \<^verbatim>\<open>last_fetched\<close> as a text; anything else sorts as none.\<close>

definition fetched_at :: "pydict \<Rightarrow> string" where
  "fetched_at e = (case dget e ''last_fetched'' of PStr s \<Rightarrow> s | _ \<Rightarrow> [])"

definition fetch_key :: "docs \<Rightarrow> string \<Rightarrow> nat \<times> string" where
  "fetch_key prior u =
     (case map_of prior u of
        None \<Rightarrow> (0, [])
      | Some e \<Rightarrow> if e = [] then (0, []) else (1, fetched_at e))"

definition prioritise :: "string list \<Rightarrow> docs \<Rightarrow> nat \<Rightarrow> string list" where
  "prioritise urls prior budget = take budget (sort_key (fetch_key prior) urls)"

definition tranche :: "string list \<Rightarrow> docs \<Rightarrow> nat \<Rightarrow> string list" where
  "tranche urls prior budget =
     (if budget \<noteq> 0 \<and> budget < length urls then prioritise urls prior budget else urls)"

text \<open>The curated list: comments and blank lines skipped, the configured URLs after it, each once.\<close>

definition list_lines :: "string \<Rightarrow> string list" where
  "list_lines text = filter (\<lambda>l. l \<noteq> [] \<and> \<not> startswith l ''#'') (map strip (splitlines text))"

definition once :: "'a list \<Rightarrow> 'a list" where
  "once xs = rev (remdups (rev xs))"

definition load_urls :: "string option option \<Rightarrow> string list \<Rightarrow> string list res" where
  "load_urls list_file inline =
     (case list_file of
        None \<Rightarrow> Inr (once inline)
      | Some None \<Rightarrow> Inl RuntimeError
      | Some (Some text) \<Rightarrow> Inr (once (list_lines text @ inline)))"

section \<open>Facts of the plan\<close>

lemma changed_known: "changed sha persisted d \<Longrightarrow> dc_url d \<in> fst ` set persisted"
  by (auto simp: changed_def split: option.splits dest!: map_of_SomeD intro: rev_image_eqI)

lemma removes_known: "u \<in> set (pl_removes (compute sha collected persisted rm known)) \<Longrightarrow>
    u \<in> fst ` set persisted \<and> rm \<and> u \<notin> set (present_urls collected known)"
  by (auto simp: compute_def split: if_splits)

lemma set_once [simp]: "set (once xs) = set xs"
  by (simp add: once_def)

lemma distinct_once [simp]: "distinct (once xs)"
  by (simp add: once_def)

lemma prioritise_in: "set (prioritise urls prior budget) \<subseteq> set urls"
  unfolding prioritise_def using set_take_subset [of budget "sort_key (fetch_key prior) urls"] by simp

lemma tranche_in: "set (tranche urls prior budget) \<subseteq> set urls"
  using prioritise_in by (auto simp: tranche_def)

text \<open>What is left out of a tranche is no more urgent than what is in it.\<close>


lemma prioritise_urgent:
  assumes "v \<in> set (prioritise urls prior budget)" "u \<in> set urls" "u \<notin> set (prioritise urls prior budget)"
  shows "fetch_key prior v \<le> fetch_key prior u"
proof -
  let ?ys = "sort_key (fetch_key prior) urls"
  from assms(1) obtain i where i: "i < budget" "i < length ?ys" "v = ?ys ! i"
    by (auto simp: prioritise_def in_set_conv_nth)
  from assms(2) obtain j where j: "j < length ?ys" "u = ?ys ! j" by (metis in_set_conv_nth set_sort)
  have "\<not> j < budget" using assms(3) j by (auto simp: prioritise_def in_set_conv_nth)
  with i have "i \<le> j" by simp
  have "sorted (map (fetch_key prior) ?ys)" by simp
  from sorted_nth_mono [OF this \<open>i \<le> j\<close>] i j show ?thesis by simp
qed

lemma prioritise_full: "distinct urls \<Longrightarrow> budget \<le> length urls \<Longrightarrow> card (set (prioritise urls prior budget)) = budget"
  by (simp add: prioritise_def distinct_card)

end
