(* ===== verification/RagRefresh.thy ===== *)
theory RagRefresh
  imports RagPlan
begin

text \<open>
  One source's refresh, \<^verbatim>\<open>scripts/rag/refresh.py\<close> with \<^verbatim>\<open>scripts/rag/lib/allm.py\<close>: the safety check or the
  approval, the uploads with the state saved after each, the removals, the embedding batches and the
  manifest. The answers of AnythingLLM to the uploads and to the batches, the clock and what the handler
  collects are parameters.
\<close>

section \<open>Uploads\<close>

definition por :: "pyval \<Rightarrow> pyval \<Rightarrow> pyval" where
  "por a b = (if truthy a then a else b)"

text \<open>The docpath in the answer to an upload: the location, docpath or name of its first document.\<close>

definition docpath_of :: "pyval \<Rightarrow> pyval res" where
  "docpath_of resp =
     (case resp of
        PDict r \<Rightarrow>
          (let docs = dget r ''documents'' in
           if \<not> truthy docs then Inr PNone
           else case docs of
                  PList (PDict d # _) \<Rightarrow> Inr (por (por (dget d ''location'') (dget d ''docpath'')) (dget d ''name''))
                | PList _ \<Rightarrow> Inl AttributeError
                | PStr _ \<Rightarrow> Inl AttributeError
                | _ \<Rightarrow> Inl TypeError)
      | _ \<Rightarrow> Inl AttributeError)"

definition doc_name :: "doc \<Rightarrow> string" where
  "doc_name d = take 120 (if dc_title d = [] then dc_url d else dc_title d)"

definition upload_payload :: "string \<Rightarrow> doc \<Rightarrow> pydict" where
  "upload_payload doc_prefix d =
     [(PStr ''textContent'', PStr (dc_content d)),
      (PStr ''metadata'',
       PDict ([(PStr ''title'', PStr (doc_name d)), (PStr ''docSource'', PStr doc_prefix)] @
              (if dc_url d = [] then [] else [(PStr ''sourceURL'', PStr (dc_url d))]) @
              (let p = dget (dc_meta d) ''published'' in if truthy p then [(PStr ''published'', p)] else [])))]"

definition new_entry :: "(string \<Rightarrow> string) \<Rightarrow> string \<Rightarrow> pyval \<Rightarrow> doc \<Rightarrow> pydict" where
  "new_entry sha now path d =
     [(PStr ''hash'', PStr (content_hash sha (dc_content d))), (PStr ''last_fetched'', PStr now),
      (PStr ''allm_doc_path'', path), (PStr ''allm_doc_name'', PStr (doc_name d)), (PStr ''metadata'', PDict (dc_meta d))]"

text \<open>The path of the replaced document, unless the entry was adopted by the migration.\<close>

definition old_path :: "docs \<Rightarrow> string \<Rightarrow> pyval list" where
  "old_path persisted u =
     (case map_of persisted u of
        None \<Rightarrow> []
      | Some e \<Rightarrow>
          if dget e ''hash'' = PStr ''migrated'' then []
          else if truthy (dget e ''allm_doc_path'') then [dget e ''allm_doc_path''] else [])"

text \<open>
  The loop's state: the new state, the docpaths to attach and to detach, the URLs whose upload failed, and
  the content of \<^verbatim>\<open>documents.json\<close>.
\<close>

record upload =
  up_docs :: docs
  up_adds :: "pyval list"
  up_removes :: "pyval list"
  up_failed :: "string list"
  up_saved :: docs

text \<open>One document; the answer is None when the upload raised. What is not the answer's shape raises out of the run.\<close>

definition upload_one :: "(string \<Rightarrow> string) \<Rightarrow> docs \<Rightarrow> pyval option \<Rightarrow> string \<Rightarrow> doc \<Rightarrow> upload \<Rightarrow> upload res" where
  "upload_one sha persisted answer now d s =
     (case answer of
        None \<Rightarrow> Inr (s\<lparr>up_failed := up_failed s @ [dc_url d]\<rparr>)
      | Some resp \<Rightarrow>
          bind_res (docpath_of resp) (\<lambda>path.
            let s1 = (if truthy path
                      then s\<lparr>up_adds := up_adds s @ [path], up_removes := up_removes s @ old_path persisted (dc_url d)\<rparr>
                      else s);
                docs = alist_put (dc_url d) (new_entry sha now path d) (up_docs s)
            in Inr (s1\<lparr>up_docs := docs, up_saved := docs\<rparr>)))"

fun upload_all ::
  "(string \<Rightarrow> string) \<Rightarrow> docs \<Rightarrow> (nat \<Rightarrow> pyval option) \<Rightarrow> (nat \<Rightarrow> string) \<Rightarrow> nat \<Rightarrow> doc list \<Rightarrow> upload \<Rightarrow> exn option \<times> upload"
where
  "upload_all sha persisted answers clock i [] s = (None, s)"
| "upload_all sha persisted answers clock i (d # ds) s =
     (case upload_one sha persisted (answers i) (clock i) d s of
        Inl e \<Rightarrow> (Some e, s)
      | Inr s1 \<Rightarrow> upload_all sha persisted answers clock (i + 1) ds s1)"

text \<open>Every document that was fetched gets a new \<^verbatim>\<open>last_fetched\<close>, also an unchanged one.\<close>

definition stamp :: "string \<Rightarrow> doc list \<Rightarrow> docs \<Rightarrow> docs" where
  "stamp now collected persisted =
     map (\<lambda>(u, e). (u, if u \<in> set (map dc_url collected) then dput ''last_fetched'' (PStr now) e else e)) persisted"

definition drop_urls :: "string list \<Rightarrow> docs \<Rightarrow> docs" where
  "drop_urls us docs = filter (\<lambda>(u, e). u \<notin> set us) docs"

definition removed_paths :: "docs \<Rightarrow> string list \<Rightarrow> pyval list" where
  "removed_paths persisted us =
     filter truthy (map (\<lambda>u. case map_of persisted u of None \<Rightarrow> PNone | Some e \<Rightarrow> dget e ''allm_doc_path'') us)"

section \<open>Embedding batches\<close>

function chunks :: "nat \<Rightarrow> 'a list \<Rightarrow> 'a list list" where
  "chunks n xs = (if xs = [] then [] else take (max 1 n) xs # chunks n (drop (max 1 n) xs))"
  by pat_completeness auto
termination by (relation "measure (\<lambda>(n, xs). length xs)") auto

declare chunks.simps [simp del]

definition nth_or :: "'a list list \<Rightarrow> nat \<Rightarrow> 'a list" where
  "nth_or xs i = (if i < length xs then xs ! i else [])"

definition plan_embed_batches :: "'a list \<Rightarrow> 'a list \<Rightarrow> nat \<Rightarrow> ('a list \<times> 'a list) list" where
  "plan_embed_batches adds removes batch =
     (let a = chunks batch adds; r = chunks batch removes
      in map (\<lambda>i. (nth_or a i, nth_or r i)) [0..<max (max (length a) (length r)) 1])"

datatype embed_answer = Embedded | EmbedFails | Interrupt

datatype embed_end = AllEmbedded | FailedAt nat | InterruptedAt nat

text \<open>The batches in order, until one fails.\<close>

fun embed_all :: "(nat \<Rightarrow> embed_answer) \<Rightarrow> nat \<Rightarrow> 'b list \<Rightarrow> embed_end" where
  "embed_all answers i [] = AllEmbedded"
| "embed_all answers i (b # bs) =
     (case answers i of
        Embedded \<Rightarrow> embed_all answers (i + 1) bs
      | EmbedFails \<Rightarrow> FailedAt i
      | Interrupt \<Rightarrow> InterruptedAt i)"

definition batches_sent :: "embed_end \<Rightarrow> 'b list \<Rightarrow> 'b list" where
  "batches_sent e bs = (case e of AllEmbedded \<Rightarrow> bs | FailedAt i \<Rightarrow> take (i + 1) bs | InterruptedAt i \<Rightarrow> take (i + 1) bs)"

section \<open>One refresh\<close>

record rag_cfg =
  rc_additive :: bool
  rc_max_delete :: rat
  rc_batch :: nat
  rc_approved :: "string list option"
  rc_plan_only :: bool
  rc_dry_run :: bool

datatype outcome =
    CollectError
  | HaltedDrift "string list"
  | HaltedSafety
  | PlanOnly
  | DryRun
  | Raised exn
  | EmbedInterrupted
  | EmbedError
  | Applied nat

text \<open>The source's files after the run and the batches sent to AnythingLLM; None is a manifest left alone.\<close>

record rag_run =
  rr_docs :: docs
  rr_manifest :: "(bool \<times> nat) option"
  rr_batches :: "(pyval list \<times> pyval list) list"
  rr_proposal :: "string list option"

definition untouched :: "docs \<Rightarrow> rag_run" where
  "untouched persisted = \<lparr>rr_docs = persisted, rr_manifest = None, rr_batches = [], rr_proposal = None\<rparr>"

definition extra_removes :: "plan \<Rightarrow> string list \<Rightarrow> string list" where
  "extra_removes p approved = sort (remdups (filter (\<lambda>u. u \<notin> set approved) (pl_removes p)))"

text \<open>What stands in the way of the plan: nothing, a drift from the approval, or the threshold.\<close>

definition halted :: "rag_cfg \<Rightarrow> plan \<Rightarrow> outcome option" where
  "halted c p =
     (case rc_approved c of
        Some approved \<Rightarrow> (let extra = extra_removes p approved in if extra = [] then None else Some (HaltedDrift extra))
      | None \<Rightarrow> if safety_check (rc_max_delete c) p then None else Some HaltedSafety)"

text \<open>The end of a run: the embedding pass over what was collected for it, and the manifest.\<close>

definition embed_pass :: "rag_cfg \<Rightarrow> (nat \<Rightarrow> embed_answer) \<Rightarrow> upload \<Rightarrow> outcome \<times> rag_run" where
  "embed_pass c answers s =
     (let n = length (up_docs s); done = Applied (length (up_failed s));
          base = \<lparr>rr_docs = up_saved s, rr_manifest = Some (True, n), rr_batches = [], rr_proposal = None\<rparr>
      in if up_adds s = [] \<and> up_removes s = [] then (done, base)
         else let bs = plan_embed_batches (up_adds s) (up_removes s) (rc_batch c); e = embed_all answers 0 bs;
                  sent = base\<lparr>rr_batches := batches_sent e bs\<rparr>
              in case e of
                   AllEmbedded \<Rightarrow> (done, sent)
                 | FailedAt i \<Rightarrow> (EmbedError, sent\<lparr>rr_manifest := Some (False, n)\<rparr>)
                 | InterruptedAt i \<Rightarrow> (EmbedInterrupted, sent\<lparr>rr_manifest := Some (False, n)\<rparr>))"

text \<open>The removals, after the uploads: from the state at once, from the workspace with the batches.\<close>

definition remove_missing :: "docs \<Rightarrow> string list \<Rightarrow> upload \<Rightarrow> upload" where
  "remove_missing persisted us s =
     (let docs = drop_urls us (up_docs s)
      in s\<lparr>up_removes := up_removes s @ removed_paths persisted us, up_docs := docs, up_saved := docs\<rparr>)"

definition apply_plan ::
  "(string \<Rightarrow> string) \<Rightarrow> rag_cfg \<Rightarrow> (nat \<Rightarrow> pyval option) \<Rightarrow> (nat \<Rightarrow> embed_answer) \<Rightarrow> (nat \<Rightarrow> string) \<Rightarrow> docs \<Rightarrow>
   doc list \<Rightarrow> plan \<Rightarrow> outcome \<times> rag_run"
where
  "apply_plan sha c uploads embeds clock persisted collected p =
     (let s0 = \<lparr>up_docs = stamp (clock 0) collected persisted, up_adds = [], up_removes = [], up_failed = [],
                up_saved = persisted\<rparr>
      in case upload_all sha persisted uploads (\<lambda>i. clock (i + 1)) 0 (pl_adds p @ pl_updates p) s0 of
           (Some e, s) \<Rightarrow> (Raised e, (untouched (up_saved s)))
         | (None, s) \<Rightarrow> embed_pass c embeds (remove_missing persisted (pl_removes p) s))"

text \<open>
  What the handler gives: an exception, or the documents it fetched and the URLs it enumerated (none when it
  reports none).
\<close>

type_synonym collected = "exn + doc list \<times> string list"

definition known_of :: "string list \<Rightarrow> string list option" where
  "known_of discovered = (if discovered = [] then None else Some discovered)"

definition refresh_one ::
  "(string \<Rightarrow> string) \<Rightarrow> rag_cfg \<Rightarrow> (nat \<Rightarrow> pyval option) \<Rightarrow> (nat \<Rightarrow> embed_answer) \<Rightarrow> (nat \<Rightarrow> string) \<Rightarrow> docs \<Rightarrow>
   collected \<Rightarrow> outcome \<times> rag_run"
where
  "refresh_one sha c uploads embeds clock persisted got =
     (case got of
        Inl _ \<Rightarrow> (CollectError, untouched persisted)
      | Inr (collected, discovered) \<Rightarrow>
          (let p = compute sha collected persisted (\<not> rc_additive c) (known_of discovered)
           in case halted c p of
                Some out \<Rightarrow> (out, (untouched persisted)\<lparr>rr_proposal := Some (pl_removes p)\<rparr>)
              | None \<Rightarrow>
                  if rc_plan_only c then (PlanOnly, untouched persisted)
                  else if rc_dry_run c then (DryRun, untouched persisted)
                  else apply_plan sha c uploads embeds clock persisted collected p))"

section \<open>Facts of the uploads\<close>

lemma upload_one_cases:
  assumes "upload_one sha persisted answer now d s = Inr s'"
  obtains (failed) "answer = None" "s' = s\<lparr>up_failed := up_failed s @ [dc_url d]\<rparr>"
  | (put) path where "up_docs s' = alist_put (dc_url d) (new_entry sha now path d) (up_docs s)" "up_saved s' = up_docs s'"
      "up_failed s' = up_failed s"
      "up_adds s' = up_adds s @ (if truthy path then [path] else [])"
      "up_removes s' = up_removes s @ (if truthy path then old_path persisted (dc_url d) else [])"
proof (cases answer)
  case None
  with assms failed show ?thesis by (simp add: upload_one_def)
next
  case (Some resp)
  with assms obtain path where "docpath_of resp = Inr path" by (auto simp: upload_one_def bind_res_Inr_iff)
  with assms Some show ?thesis by (cases "truthy path") (auto intro!: put [of path] simp: upload_one_def Let_def)
qed

lemma upload_one_docs:
  "upload_one sha persisted answer now d s = Inr s' \<Longrightarrow> up_failed s' = up_failed s \<Longrightarrow>
   \<exists>path. up_docs s' = alist_put (dc_url d) (new_entry sha now path d) (up_docs s)"
  by (erule upload_one_cases) auto

lemma upload_one_fails: "upload_one sha persisted answer now d s = Inr s' \<Longrightarrow> \<exists>xs. up_failed s' = up_failed s @ xs"
  by (erule upload_one_cases) auto

lemma upload_one_other:
  "upload_one sha persisted answer now d s = Inr s' \<Longrightarrow> u \<noteq> dc_url d \<Longrightarrow> map_of (up_docs s') u = map_of (up_docs s) u"
  by (erule upload_one_cases) auto

lemma upload_one_keys:
  "upload_one sha persisted answer now d s = Inr s' \<Longrightarrow> fst ` set (up_docs s) \<subseteq> fst ` set (up_docs s')"
  by (erule upload_one_cases) (simp_all add: subset_insertI)

text \<open>What every upload keeps, all of them keep, also when one raises.\<close>

lemma upload_all_keeps:
  assumes "Q s"
    and "\<And>i d s s'. d \<in> set ds \<Longrightarrow> Q s \<Longrightarrow> upload_one sha persisted (answers i) (clock i) d s = Inr s' \<Longrightarrow> Q s'"
  shows "Q (snd (upload_all sha persisted answers clock i ds s))"
  using assms
proof (induction ds arbitrary: i s)
  case (Cons d ds)
  show ?case
  proof (cases "upload_one sha persisted (answers i) (clock i) d s")
    case (Inr s1)
    with Cons.prems have "Q s1" by auto
    have "Q (snd (upload_all sha persisted answers clock (i + 1) ds s1))"
      by (rule Cons.IH [OF \<open>Q s1\<close>]) (use Cons.prems(2) in auto)
    with Inr show ?thesis by simp
  qed (use Cons.prems in simp)
qed simp

lemma upload_all_other:
  assumes "u \<notin> set (map dc_url ds)"
  shows "map_of (up_docs (snd (upload_all sha persisted answers clock i ds s))) u = map_of (up_docs s) u"
proof (rule upload_all_keeps [where Q = "\<lambda>t. map_of (up_docs t) u = map_of (up_docs s) u"])
  fix i d s' s''
  assume a: "d \<in> set ds" "map_of (up_docs s') u = map_of (up_docs s) u" "upload_one sha persisted (answers i) (clock i) d s' = Inr s''"
  from a(1) assms have "u \<noteq> dc_url d" by auto
  from upload_one_other [OF a(3) this] a(2) show "map_of (up_docs s'') u = map_of (up_docs s) u" by simp
qed simp

lemma upload_all_keys:
  "fst ` set (up_docs s) \<subseteq> fst ` set (up_docs (snd (upload_all sha persisted answers clock i ds s)))"
proof (rule upload_all_keeps [where Q = "\<lambda>t. fst ` set (up_docs s) \<subseteq> fst ` set (up_docs t)"])
  fix i d s' s''
  assume a: "fst ` set (up_docs s) \<subseteq> fst ` set (up_docs s')" "upload_one sha persisted (answers i) (clock i) d s' = Inr s''"
  from a(1) upload_one_keys [OF a(2)] show "fst ` set (up_docs s) \<subseteq> fst ` set (up_docs s'')" by (rule subset_trans)
qed simp

lemma upload_all_fails:
  "\<exists>xs. up_failed (snd (upload_all sha persisted answers clock i ds s)) = up_failed s @ xs"
proof (rule upload_all_keeps [where Q = "\<lambda>t. \<exists>xs. up_failed t = up_failed s @ xs"])
  fix i d s' s''
  assume a: "\<exists>xs. up_failed s' = up_failed s @ xs" "upload_one sha persisted (answers i) (clock i) d s' = Inr s''"
  from upload_one_fails [OF a(2)] a(1) show "\<exists>xs. up_failed s'' = up_failed s @ xs" by auto
qed simp

text \<open>When no upload fails, every document of the queue is recorded with its hash and a time of the run.\<close>

lemma upload_all_done:
  assumes "upload_all sha persisted answers clock i ds s = (None, s')" "up_failed s' = up_failed s" "d \<in> set ds"
  shows "\<exists>d' now path. d' \<in> set ds \<and> dc_url d' = dc_url d \<and> now \<in> range clock \<and>
    map_of (up_docs s') (dc_url d) = Some (new_entry sha now path d')"
  using assms
proof (induction ds arbitrary: i s d)
  case (Cons x ds)
  from Cons.prems(1) obtain s1 where s1: "upload_one sha persisted (answers i) (clock i) x s = Inr s1"
      "upload_all sha persisted answers clock (i + 1) ds s1 = (None, s')"
    by (auto split: sum.splits)
  obtain xs where xs: "up_failed s' = up_failed s1 @ xs"
    using upload_all_fails [of sha persisted answers clock "i + 1" ds s1] s1(2) by auto
  obtain ys where ys: "up_failed s1 = up_failed s @ ys"
    using upload_one_fails [OF s1(1)] by auto
  from xs ys Cons.prems(2) have f: "up_failed s1 = up_failed s" "up_failed s' = up_failed s1" by simp_all
  show ?case
  proof (cases "\<exists>e \<in> set ds. dc_url e = dc_url d")
    case True
    then obtain e where "e \<in> set ds" "dc_url e = dc_url d" by auto
    from Cons.IH [OF s1(2) f(2) this(1)] this(2) show ?thesis by (auto intro: exI)
  next
    case False
    with Cons.prems(3) have "d = x" by auto
    have "dc_url d \<notin> set (map dc_url ds)" using False by auto
    then have "map_of (up_docs s') (dc_url d) = map_of (up_docs s1) (dc_url d)"
      using upload_all_other [of "dc_url d" ds sha persisted answers clock "i + 1" s1] s1(2) by (metis snd_conv)
    moreover obtain path where "up_docs s1 = alist_put (dc_url x) (new_entry sha (clock i) path x) (up_docs s)"
      using upload_one_docs [OF s1(1) f(1)] by auto
    ultimately have "map_of (up_docs s') (dc_url d) = Some (new_entry sha (clock i) path x)" using \<open>d = x\<close> by simp
    with \<open>d = x\<close> show ?thesis by (intro exI [of _ x] exI [of _ "clock i"] exI [of _ path]) simp
  qed
qed simp

text \<open>What is to be detached after the uploads is the old path of a document that has been replaced.\<close>

lemma upload_all_removes:
  "\<forall>p \<in> set (up_removes (snd (upload_all sha persisted answers clock i ds s))) - set (up_removes s).
     \<exists>d \<in> set ds. p \<in> set (old_path persisted (dc_url d))"
proof (rule upload_all_keeps [where Q = "\<lambda>t. \<forall>p \<in> set (up_removes t) - set (up_removes s). \<exists>d \<in> set ds. p \<in> set (old_path persisted (dc_url d))"])
  fix i d s' s''
  assume d: "d \<in> set ds"
    and q: "\<forall>p \<in> set (up_removes s') - set (up_removes s). \<exists>d \<in> set ds. p \<in> set (old_path persisted (dc_url d))"
    and u: "upload_one sha persisted (answers i) (clock i) d s' = Inr s''"
  from u have "set (up_removes s'') \<subseteq> set (up_removes s') \<union> set (old_path persisted (dc_url d))"
    by (rule upload_one_cases) (auto split: if_splits)
  with d q show "\<forall>p \<in> set (up_removes s'') - set (up_removes s). \<exists>d \<in> set ds. p \<in> set (old_path persisted (dc_url d))" by blast
qed simp

lemma upload_all_saved:
  assumes "upload_all sha persisted answers clock i ds s = (e, s')" "A \<subseteq> fst ` set (up_saved s)" "A \<subseteq> fst ` set (up_docs s)"
  shows "A \<subseteq> fst ` set (up_saved s') \<and> A \<subseteq> fst ` set (up_docs s')"
proof -
  have "A \<subseteq> fst ` set (up_saved (snd (upload_all sha persisted answers clock i ds s))) \<and>
      A \<subseteq> fst ` set (up_docs (snd (upload_all sha persisted answers clock i ds s)))"
  proof (rule upload_all_keeps [where Q = "\<lambda>t. A \<subseteq> fst ` set (up_saved t) \<and> A \<subseteq> fst ` set (up_docs t)"])
    fix i d s' s''
    assume a: "A \<subseteq> fst ` set (up_saved s') \<and> A \<subseteq> fst ` set (up_docs s')"
      "upload_one sha persisted (answers i) (clock i) d s' = Inr s''"
    from a(2) have "up_saved s'' = up_docs s'' \<or> up_saved s'' = up_saved s'" by (rule upload_one_cases) auto
    moreover have "A \<subseteq> fst ` set (up_docs s'')" using a(1) upload_one_keys [OF a(2)] by (elim conjE) (rule subset_trans)
    ultimately show "A \<subseteq> fst ` set (up_saved s'') \<and> A \<subseteq> fst ` set (up_docs s'')"
      using a(1) by (elim disjE) simp_all
  qed (use assms in simp)
  with assms(1) show ?thesis by simp
qed

section \<open>Facts of the batches\<close>

lemma concat_chunks [simp]: "concat (chunks n xs) = xs"
  by (induction n xs rule: chunks.induct) (subst chunks.simps, simp)

lemma chunks_bounded: "ch \<in> set (chunks n xs) \<Longrightarrow> length ch \<le> max 1 n"
proof (induction n xs rule: chunks.induct)
  case (1 n xs)
  then show ?case by (subst (asm) (2) chunks.simps) (auto split: if_splits)
qed

lemma nth_or_map: "length xs \<le> n \<Longrightarrow> concat (map (nth_or xs) [0..<n]) = concat xs"
proof -
  assume "length xs \<le> n"
  then have "[0..<n] = [0..<length xs] @ [length xs..<n]" by (metis le_add_diff_inverse upt_add_eq_append zero_le)
  moreover have "map (nth_or xs) [0..<length xs] = xs" by (rule nth_equalityI) (auto simp: nth_or_def)
  moreover have "concat (map (nth_or xs) [length xs..<n]) = []" by (simp add: nth_or_def)
  ultimately show ?thesis by simp
qed

lemma batches_whole:
  "concat (map fst (plan_embed_batches adds removes n)) = adds \<and> concat (map snd (plan_embed_batches adds removes n)) = removes"
  by (simp add: plan_embed_batches_def Let_def comp_def nth_or_map)

lemma batches_bounded:
  assumes "b \<in> set (plan_embed_batches adds removes n)"
  shows "length (fst b) \<le> max 1 n \<and> length (snd b) \<le> max 1 n"
proof -
  have "length (nth_or (chunks n xs) i) \<le> max 1 n" for xs :: "'a list" and i
    using chunks_bounded [of "chunks n xs ! i" n xs] by (auto simp: nth_or_def)
  with assms show ?thesis by (auto simp: plan_embed_batches_def Let_def)
qed

lemma batches_some: "plan_embed_batches adds removes n \<noteq> []"
  by (simp add: plan_embed_batches_def Let_def)

lemma sent_in: "set (batches_sent e bs) \<subseteq> set bs"
  by (cases e) (auto simp: batches_sent_def dest: in_set_takeD)

section \<open>What a refresh may remove\<close>

lemma embed_pass_docs: "rr_docs (snd (embed_pass c answers s)) = up_saved s"
  by (simp add: embed_pass_def Let_def split: embed_end.splits)

lemma embed_pass_batches:
  "set (rr_batches (snd (embed_pass c answers s))) \<subseteq> set (plan_embed_batches (up_adds s) (up_removes s) (rc_batch c))"
  by (auto simp: embed_pass_def Let_def split: embed_end.splits if_splits dest!: subsetD [OF sent_in])

text \<open>A run leaves everything as it was, or was allowed to apply its plan.\<close>

lemma refresh_cases:
  assumes "refresh_one sha c uploads embeds clock persisted (Inr (collected, discovered)) = (out, r)"
    "p = compute sha collected persisted (\<not> rc_additive c) (known_of discovered)"
  obtains (idle) "rr_docs r = persisted" "rr_batches r = []"
  | (raised) e s where "halted c p = None"
      "upload_all sha persisted uploads (\<lambda>i. clock (i + 1)) 0 (pl_adds p @ pl_updates p)
         \<lparr>up_docs = stamp (clock 0) collected persisted, up_adds = [], up_removes = [], up_failed = [], up_saved = persisted\<rparr> = (Some e, s)"
      "r = untouched (up_saved s)"
  | (embedded) s where "halted c p = None"
      "upload_all sha persisted uploads (\<lambda>i. clock (i + 1)) 0 (pl_adds p @ pl_updates p)
         \<lparr>up_docs = stamp (clock 0) collected persisted, up_adds = [], up_removes = [], up_failed = [], up_saved = persisted\<rparr> = (None, s)"
      "(out, r) = embed_pass c embeds (remove_missing persisted (pl_removes p) s)"
proof (cases "halted c p")
  case (Some h)
  with assms show ?thesis by (intro idle) (auto simp: refresh_one_def Let_def untouched_def)
next
  case None
  let ?s0 = "\<lparr>up_docs = stamp (clock 0) collected persisted, up_adds = [], up_removes = [], up_failed = [], up_saved = persisted\<rparr>"
  obtain e s where u: "upload_all sha persisted uploads (\<lambda>i. clock (i + 1)) 0 (pl_adds p @ pl_updates p) ?s0 = (e, s)" by fastforce
  show ?thesis
  proof (cases "rc_plan_only c \<or> rc_dry_run c")
    case True
    with assms None show ?thesis by (intro idle) (auto simp: refresh_one_def Let_def untouched_def split: if_splits)
  next
    case False
    with assms None have run: "apply_plan sha c uploads embeds clock persisted collected p = (out, r)"
      by (simp add: refresh_one_def Let_def)
    show ?thesis
    proof (cases e)
      case None': None
      show ?thesis by (rule embedded [OF None]) (use u None' run in \<open>auto simp: apply_plan_def Let_def\<close>)
    next
      case (Some x)
      show ?thesis by (rule raised [OF None]) (use u Some run in \<open>auto simp: apply_plan_def Let_def\<close>)
    qed
  qed
qed

lemma stamp_keys [simp]: "fst ` set (stamp now collected persisted) = fst ` set persisted"
  by (force simp: stamp_def)

lemma drop_urls_keys [simp]: "fst ` set (drop_urls us docs) = fst ` set docs - set us"
  by (force simp: drop_urls_def)

lemma halted_bound:
  assumes "halted c p = None"
  shows "case rc_approved c of Some approved \<Rightarrow> set (pl_removes p) \<subseteq> set approved
    | None \<Rightarrow> length (pl_removes p) < 5 \<or> pl_existing p = 0 \<or>
        of_nat (length (pl_removes p)) \<le> rc_max_delete c * of_nat (pl_existing p)"
proof (cases "rc_approved c")
  case None
  with assms show ?thesis
    by (auto simp: halted_def safety_check_def divide_le_eq split: if_splits)
next
  case (Some approved)
  with assms have "extra_removes p approved = []" by (auto simp: halted_def Let_def split: if_splits)
  then have "set (extra_removes p approved) = {}" by simp
  with Some show ?thesis by (auto simp: extra_removes_def)
qed

lemma lost_bound:
  assumes "L \<subseteq> set (pl_removes (compute sha collected persisted rm known))"
    "halted c (compute sha collected persisted rm known) = None"
  shows "case rc_approved c of Some approved \<Rightarrow> L \<subseteq> set approved
    | None \<Rightarrow> card L < 5 \<or> of_nat (card L) \<le> rc_max_delete c * of_nat (length persisted)"
proof (cases "rc_approved c")
  case None
  let ?p = "compute sha collected persisted rm known"
  have le: "card L \<le> length (pl_removes ?p)"
    using card_mono [OF _ assms(1)] card_length [of "pl_removes ?p"] by fastforce
  have "pl_existing ?p = 0 \<Longrightarrow> pl_removes ?p = []" by (simp add: compute_def)
  with halted_bound [OF assms(2)] None
  have "length (pl_removes ?p) < 5 \<or> of_nat (length (pl_removes ?p)) \<le> rc_max_delete c * of_nat (length persisted)"
    by (auto simp: compute_def)
  with le None show ?thesis by (auto intro: order_trans [of "of_nat (card L)" "of_nat (length (pl_removes ?p))"])
next
  case (Some approved)
  with halted_bound [OF assms(2)] assms(1) show ?thesis by auto
qed

lemma old_path_update:
  assumes "d \<in> set (pl_adds (compute sha collected persisted rm known) @ pl_updates (compute sha collected persisted rm known))"
    "q \<in> set (old_path persisted (dc_url d))"
  shows "d \<in> set collected \<and> changed sha persisted d"
  using assms by (auto simp: compute_def old_path_def)

text \<open>
  C9: A refresh removes nothing the source still has, and no more than was allowed. A URL is dropped from
  the state only if the source is not additive and the handler did not enumerate it; all that is dropped
  was approved by the operator or, without an approval, is fewer than five URLs or within the threshold; and
  AnythingLLM is asked to detach only documents of dropped URLs and documents replaced by new content.
\<close>

theorem refresh_removals_confined:
  assumes "refresh_one sha c uploads embeds clock persisted (Inr (collected, discovered)) = (out, r)"
    and "lost = fst ` set persisted - fst ` set (rr_docs r)"
  shows "lost \<inter> set (present_urls collected (known_of discovered)) = {} \<and>
    (rc_additive c \<longrightarrow> lost = {}) \<and>
    (case rc_approved c of Some approved \<Rightarrow> lost \<subseteq> set approved
     | None \<Rightarrow> card lost < 5 \<or> of_nat (card lost) \<le> rc_max_delete c * of_nat (length persisted)) \<and>
    (\<forall>b \<in> set (rr_batches r). \<forall>q \<in> set (snd b).
       q \<in> set (removed_paths persisted (filter (\<lambda>u. u \<in> lost) (map fst persisted))) \<or>
       (\<exists>d \<in> set collected. changed sha persisted d \<and> q \<in> set (old_path persisted (dc_url d))))"
proof -
  define p where "p = compute sha collected persisted (\<not> rc_additive c) (known_of discovered)"
  have known: "set (pl_removes p) \<inter> set (present_urls collected (known_of discovered)) = {}" "rc_additive c \<Longrightarrow> set (pl_removes p) = {}"
    using removes_known [of _ sha collected persisted "\<not> rc_additive c" "known_of discovered"] by (fastforce simp: p_def, simp add: p_def compute_def)
  from assms(1) p_def show ?thesis
  proof (cases rule: refresh_cases)
    case idle
    with assms(2) have "lost = {}" by simp
    with idle show ?thesis by (simp split: option.splits)
  next
    case (raised e s)
    from upload_all_saved [OF raised(2), of "fst ` set persisted"] raised(3) assms(2) have "lost = {}"
      by (simp add: untouched_def)
    with raised(3) show ?thesis by (simp add: untouched_def split: option.splits)
  next
    case (embedded s)
    let ?s = "remove_missing persisted (pl_removes p) s"
    have docs: "rr_docs r = up_saved ?s" using embed_pass_docs [of c embeds ?s] embedded(3) by (metis snd_conv)
    have "fst ` set persisted \<subseteq> fst ` set (up_docs s)" using upload_all_saved [OF embedded(2), of "fst ` set persisted"] by simp
    moreover have rem: "set (pl_removes p) \<subseteq> fst ` set persisted" using removes_known by (fastforce simp: p_def)
    ultimately have lost: "lost = set (pl_removes p)" using assms(2) docs by (auto simp: remove_missing_def Let_def)
    have detach: "q \<in> set (removed_paths persisted (filter (\<lambda>u. u \<in> lost) (map fst persisted))) \<or>
       (\<exists>d \<in> set collected. changed sha persisted d \<and> q \<in> set (old_path persisted (dc_url d)))"
      if "b \<in> set (rr_batches r)" "q \<in> set (snd b)" for b q
    proof -
      have "r = snd (embed_pass c embeds ?s)" using embedded(3) by (metis snd_conv)
      with that(1) embed_pass_batches [of c embeds ?s] have "b \<in> set (plan_embed_batches (up_adds ?s) (up_removes ?s) (rc_batch c))"
        by (simp only:) (rule subsetD)
      with that(2) have "q \<in> set (concat (map snd (plan_embed_batches (up_adds ?s) (up_removes ?s) (rc_batch c))))" by auto
      then have "q \<in> set (up_removes s) \<or> q \<in> set (removed_paths persisted (pl_removes p))"
        by (simp add: batches_whole remove_missing_def Let_def)
      moreover have "removed_paths persisted (pl_removes p) = removed_paths persisted (filter (\<lambda>u. u \<in> lost) (map fst persisted))"
      proof -
        have "filter (\<lambda>u. u \<in> lost) (map fst persisted) = pl_removes p"
          by (auto simp: lost p_def compute_def intro: filter_cong)
        then show ?thesis by simp
      qed
      moreover have "\<exists>d \<in> set collected. changed sha persisted d \<and> q \<in> set (old_path persisted (dc_url d))" if "q \<in> set (up_removes s)"
      proof -
        from upload_all_removes [of sha persisted uploads "\<lambda>i. clock (i + 1)" 0 "pl_adds p @ pl_updates p"
            "\<lparr>up_docs = stamp (clock 0) collected persisted, up_adds = [], up_removes = [], up_failed = [], up_saved = persisted\<rparr>"]
          embedded(2) that
        obtain d where "d \<in> set (pl_adds p @ pl_updates p)" "q \<in> set (old_path persisted (dc_url d))" by auto
        with old_path_update show ?thesis unfolding p_def by blast
      qed
      ultimately show ?thesis by auto
    qed
    from lost_bound [of lost sha collected persisted "\<not> rc_additive c" "known_of discovered" c] embedded(1) lost
    have bound: "case rc_approved c of Some approved \<Rightarrow> lost \<subseteq> set approved
       | None \<Rightarrow> card lost < 5 \<or> of_nat (card lost) \<le> rc_max_delete c * of_nat (length persisted)"
      unfolding p_def by simp
    show ?thesis
    proof (intro conjI impI ballI)
      show "lost \<inter> set (present_urls collected (known_of discovered)) = {}" using known(1) lost by simp
      show "rc_additive c \<Longrightarrow> lost = {}" using known(2) lost by simp
      show "case rc_approved c of Some approved \<Rightarrow> lost \<subseteq> set approved
        | None \<Rightarrow> card lost < 5 \<or> of_nat (card lost) \<le> rc_max_delete c * of_nat (length persisted)" by (rule bound)
    qed (rule detach)
  qed
qed

definition demo_docs :: docs where
  "demo_docs = [(''a'', [(PStr ''hash'', PStr ''h'')]), (''b'', [(PStr ''hash'', PStr ''h''), (PStr ''allm_doc_path'', PStr ''p'')])]"

definition demo_cfg :: rag_cfg where
  "demo_cfg = \<lparr>rc_additive = False, rc_max_delete = 1 / 10, rc_batch = 200, rc_approved = None, rc_plan_only = False, rc_dry_run = False\<rparr>"

definition demo_run :: "outcome \<times> rag_run" where
  "demo_run = refresh_one (\<lambda>s. s) demo_cfg (\<lambda>_. None) (\<lambda>_. Embedded) (\<lambda>_. []) demo_docs (Inr ([], [''a'']))"

lemma demo_run_docs: "rr_docs (snd demo_run) = [(''a'', [(PStr ''hash'', PStr ''h'')])]"
  by code_simp

theorem refresh_removals_confined_witness:
  "fst ` set demo_docs - fst ` set (rr_docs (snd demo_run)) = {''b''} \<and>
   (fst ` set demo_docs - fst ` set (rr_docs (snd demo_run))) \<inter> set (present_urls [] (known_of [''a''])) = {}"
proof -
  have d: "fst ` set demo_docs - fst ` set (rr_docs (snd demo_run)) = {''b''}" by (simp add: demo_run_docs demo_docs_def)
  have "refresh_one (\<lambda>s. s) demo_cfg (\<lambda>_. None) (\<lambda>_. Embedded) (\<lambda>_. []) demo_docs (Inr ([], [''a''])) = (fst demo_run, snd demo_run)"
    by (simp add: demo_run_def)
  from refresh_removals_confined [OF this refl] d show ?thesis by simp
qed

section \<open>An embedding pass that failed\<close>

lemma map_of_stamp: "map_of (stamp now collected persisted) u =
    map_option (\<lambda>e. if u \<in> set (map dc_url collected) then dput ''last_fetched'' (PStr now) e else e) (map_of persisted u)"
  by (induction persisted) (auto simp: stamp_def)

lemma map_of_drop_urls: "map_of (drop_urls us docs) u = (if u \<in> set us then None else map_of docs u)"
  by (induction docs) (auto simp: drop_urls_def)

lemma upload_all_new_keys:
  "fst ` set (up_docs (snd (upload_all sha persisted answers clock i ds s))) \<subseteq> fst ` set (up_docs s) \<union> set (map dc_url ds)"
proof (rule upload_all_keeps [where Q = "\<lambda>t. fst ` set (up_docs t) \<subseteq> fst ` set (up_docs s) \<union> set (map dc_url ds)"])
  fix i d s' s''
  assume a: "d \<in> set ds" "fst ` set (up_docs s') \<subseteq> fst ` set (up_docs s) \<union> set (map dc_url ds)"
    "upload_one sha persisted (answers i) (clock i) d s' = Inr s''"
  from a(3) have "fst ` set (up_docs s'') \<subseteq> insert (dc_url d) (fst ` set (up_docs s'))" by (rule upload_one_cases) auto
  moreover have "insert (dc_url d) (fst ` set (up_docs s')) \<subseteq> fst ` set (up_docs s) \<union> set (map dc_url ds)" using a(1,2) by simp
  ultimately show "fst ` set (up_docs s'') \<subseteq> fst ` set (up_docs s) \<union> set (map dc_url ds)" by (rule subset_trans)
qed simp

lemma upload_all_answered:
  assumes "\<forall>i. answers i \<noteq> None"
  shows "up_failed (snd (upload_all sha persisted answers clock i ds s)) = up_failed s"
proof (rule upload_all_keeps [where Q = "\<lambda>t. up_failed t = up_failed s"])
  fix i d s' s''
  assume a: "up_failed s' = up_failed s" "upload_one sha persisted (answers i) (clock i) d s' = Inr s''"
  from a(2) have "up_failed s'' = up_failed s'" by (rule upload_one_cases) (use assms in auto)
  with a(1) show "up_failed s'' = up_failed s" by simp
qed simp

text \<open>
  After an applied plan without failed uploads the state knows every collected document by its hash, and
  nothing the source no longer has.
\<close>

definition in_step :: "(string \<Rightarrow> string) \<Rightarrow> doc list \<Rightarrow> docs \<Rightarrow> bool" where
  "in_step sha collected docs =
     (\<forall>d \<in> set collected. \<exists>e. map_of docs (dc_url d) = Some e \<and> dget e ''hash'' = PStr (content_hash sha (dc_content d)))"

lemma uploaded_in_step:
  assumes "upload_all sha persisted uploads (\<lambda>i. clock (i + 1)) 0 (pl_adds p @ pl_updates p)
      \<lparr>up_docs = stamp now collected persisted, up_adds = [], up_removes = [], up_failed = [], up_saved = persisted\<rparr> = (None, s)"
    "p = compute sha collected persisted rm known" "up_failed s = []" "distinct (map dc_url collected)"
  shows "in_step sha collected (up_docs s)"
  unfolding in_step_def
proof
  fix d assume d: "d \<in> set collected"
  have q: "set (pl_adds p @ pl_updates p) \<subseteq> set collected" by (auto simp: assms(2) compute_def)
  have same: "d' \<in> set collected \<Longrightarrow> dc_url d' = dc_url d \<Longrightarrow> d' = d" for d'
    using assms(4) d by (auto simp: distinct_map dest: inj_onD)
  show "\<exists>e. map_of (up_docs s) (dc_url d) = Some e \<and> dget e ''hash'' = PStr (content_hash sha (dc_content d))"
  proof (cases "d \<in> set (pl_adds p @ pl_updates p)")
    case True
    from upload_all_done [OF assms(1) _ True] assms(3) obtain d' now path where
      "d' \<in> set (pl_adds p @ pl_updates p)" "dc_url d' = dc_url d" "map_of (up_docs s) (dc_url d) = Some (new_entry sha now path d')"
      by auto
    with same [of d'] q show ?thesis by (auto simp: new_entry_def dget_def)
  next
    case False
    then have "\<not> changed sha persisted d" "map_of persisted (dc_url d) \<noteq> None" using d by (auto simp: assms(2) compute_def)
    then obtain e where e: "map_of persisted (dc_url d) = Some e" "dget e ''hash'' = PStr (content_hash sha (dc_content d))"
      by (auto simp: changed_def)
    have "dc_url d \<notin> set (map dc_url (pl_adds p @ pl_updates p))" using same q False by auto
    from upload_all_other [OF this, of sha persisted uploads "\<lambda>i. clock (i + 1)" 0
        "\<lparr>up_docs = stamp now collected persisted, up_adds = [], up_removes = [], up_failed = [], up_saved = persisted\<rparr>"] assms(1) e
    show ?thesis by (simp add: map_of_stamp)
  qed
qed

lemma nothing_planned:
  assumes "in_step sha collected docs" "fst ` set docs \<inter> - set (present_urls collected known) = {} \<or> \<not> rm"
  shows "compute sha collected docs rm known = \<lparr>pl_adds = [], pl_updates = [], pl_removes = [], pl_existing = length docs\<rparr>"
  using assms by (auto simp: compute_def in_step_def changed_def filter_empty_conv)

lemma nothing_to_do:
  assumes "compute sha collected docs (\<not> rc_additive c) (known_of discovered) =
      \<lparr>pl_adds = [], pl_updates = [], pl_removes = [], pl_existing = length docs\<rparr>" "\<not> rc_plan_only c" "\<not> rc_dry_run c"
  shows "fst (refresh_one sha c uploads embeds clock docs (Inr (collected, discovered))) = Applied 0 \<and>
    rr_batches (snd (refresh_one sha c uploads embeds clock docs (Inr (collected, discovered)))) = [] \<and>
    rr_manifest (snd (refresh_one sha c uploads embeds clock docs (Inr (collected, discovered)))) = Some (True, length docs)"
  using assms
  by (simp add: refresh_one_def Let_def halted_def safety_check_def extra_removes_def apply_plan_def embed_pass_def
      remove_missing_def removed_paths_def drop_urls_def stamp_def split: option.splits)


definition demo_doc :: doc where
  "demo_doc = \<lparr>dc_url = ''u'', dc_content = ''text'', dc_title = [], dc_meta = []\<rparr>"

definition demo_answer :: "nat \<Rightarrow> pyval option" where
  "demo_answer i = Some (PDict [(PStr ''documents'', PList [PDict [(PStr ''location'', PStr ''p'')]])])"

definition demo_failed :: "outcome \<times> rag_run" where
  "demo_failed = refresh_one (\<lambda>s. s) demo_cfg demo_answer (\<lambda>_. EmbedFails) (\<lambda>_. []) [] (Inr ([demo_doc], []))"

lemma demo_failed_out: "fst demo_failed = EmbedError \<and> rr_batches (snd demo_failed) = [([PStr ''p''], [])]"
  by code_simp


section \<open>The rotation of a budgeted source\<close>

text \<open>A run that fetched its tranche and had every upload answered: what the entries look like after it.\<close>

definition full_run ::
  "(string \<Rightarrow> string) \<Rightarrow> rag_cfg \<Rightarrow> string list \<Rightarrow> nat \<Rightarrow> (nat \<Rightarrow> string) \<Rightarrow> docs \<Rightarrow> docs \<Rightarrow> bool"
where
  "full_run sha c urls budget clock before after =
     (\<exists>uploads embeds collected out r.
        map dc_url collected = tranche urls before budget \<and> (\<forall>i. uploads i \<noteq> None) \<and>
        refresh_one sha c uploads embeds clock before (Inr (collected, urls)) = (out, r) \<and>
        out \<in> {Applied 0, EmbedError, EmbedInterrupted} \<and> after = rr_docs r)"

lemma upload_all_entry:
  assumes "upload_all sha persisted answers clock i ds s = (None, s')" "\<forall>i. answers i \<noteq> None" "d \<in> set ds"
  shows "\<exists>now \<in> range clock. \<exists>e. map_of (up_docs s') (dc_url d) = Some e \<and> e \<noteq> [] \<and> fetched_at e = now"
proof -
  have "up_failed s' = up_failed s" using upload_all_answered [OF assms(2), of sha persisted clock i ds s] assms(1) by simp
  from upload_all_done [OF assms(1) this assms(3)] show ?thesis by (fastforce simp: new_entry_def fetched_at_def dget_def)
qed

lemma dput_some [simp]: "dput k v d \<noteq> []"
  by (cases d) (auto simp: dput_def split: if_splits)

lemma fetched_at_dput [simp]: "fetched_at (dput ''last_fetched'' (PStr now) e) = now"
  by (simp add: fetched_at_def)

lemma full_run_effect:
  assumes "full_run sha c urls budget clock before after" "u \<in> set urls"
  shows "if u \<in> set (tranche urls before budget)
    then \<exists>now \<in> range clock. \<exists>e. map_of after u = Some e \<and> e \<noteq> [] \<and> fetched_at e = now
    else map_of after u = map_of before u"
proof -
  from assms(1) obtain uploads embeds collected out r where f: "map dc_url collected = tranche urls before budget"
      "\<forall>i. uploads i \<noteq> None" "refresh_one sha c uploads embeds clock before (Inr (collected, urls)) = (out, r)"
      "out \<in> {Applied 0, EmbedError, EmbedInterrupted}" "after = rr_docs r"
    unfolding full_run_def by blast
  define p where "p = compute sha collected before (\<not> rc_additive c) (known_of urls)"
  have h: "\<not> rc_plan_only c \<and> \<not> rc_dry_run c \<and> halted c p = None"
  proof (cases "halted c p")
    case (Some x)
    then have "x \<notin> {Applied 0, EmbedError, EmbedInterrupted}" by (auto simp: halted_def Let_def split: option.splits if_splits)
    with Some f(3,4) show ?thesis by (auto simp: refresh_one_def Let_def p_def)
  next
    case None
    with f(3,4) show ?thesis by (auto simp: refresh_one_def Let_def p_def split: if_splits)
  qed
  let ?s0 = "\<lparr>up_docs = stamp (clock 0) collected before, up_adds = [], up_removes = [], up_failed = [], up_saved = before\<rparr>"
  obtain e s where s: "upload_all sha before uploads (\<lambda>i. clock (i + 1)) 0 (pl_adds p @ pl_updates p) ?s0 = (e, s)" by fastforce
  have run: "apply_plan sha c uploads embeds clock before collected p = (out, r)"
    using f(3) h by (simp add: refresh_one_def Let_def p_def)
  with s f(4) have e: "e = None" by (cases e) (auto simp: apply_plan_def Let_def)
  with s run have "r = snd (embed_pass c embeds (remove_missing before (pl_removes p) s))" by (simp add: apply_plan_def Let_def)
  then have docs: "after = drop_urls (pl_removes p) (up_docs s)" by (simp add: f(5) embed_pass_docs remove_missing_def Let_def)
  have "u \<notin> set (pl_removes p)" using assms(2) by (auto simp: p_def compute_def present_urls_def known_of_def)
  then have same: "map_of after u = map_of (up_docs s) u" by (simp add: docs map_of_drop_urls)
  have q: "set (map dc_url (pl_adds p @ pl_updates p)) \<subseteq> set (tranche urls before budget)"
    unfolding f(1) [symmetric] by (auto simp: p_def compute_def)
  show ?thesis
  proof (cases "u \<in> set (map dc_url (pl_adds p @ pl_updates p))")
    case True
    then obtain d where d: "d \<in> set (pl_adds p @ pl_updates p)" "u = dc_url d" by auto
    from upload_all_entry [OF s [unfolded e] f(2) d(1)] same d(2) q True show ?thesis by (auto 4 4)
  next
    case False
    from upload_all_other [OF False, of sha before uploads "\<lambda>i. clock (i + 1)" 0 ?s0] s
    have m: "map_of after u = map_of (stamp (clock 0) collected before) u" by (simp add: same)
    show ?thesis
    proof (cases "u \<in> set (tranche urls before budget)")
      case True
      then have "u \<in> set (map dc_url collected)" by (simp add: f(1))
      moreover from this obtain d where d: "d \<in> set collected" "u = dc_url d" by auto
      with False have "map_of before u \<noteq> None" by (auto simp: p_def compute_def)
      ultimately show ?thesis using m True
        by (auto simp: map_of_stamp)
    next
      case False
      then have "u \<notin> set (map dc_url collected)" by (simp add: f(1))
      with False m show ?thesis by (simp add: map_of_stamp option.map_ident)
    qed
  qed
qed

text \<open>Once fetched, an entry carries the time of that run or of a later one.\<close>

lemma stays_fetched:
  assumes runs: "\<And>i. full_run sha c urls budget (clk i) (st i) (st (Suc i))"
    and "v \<in> set urls" "v \<in> set (tranche urls (st i) budget)" "i < j"
  shows "\<exists>m e k. map_of (st j) v = Some e \<and> e \<noteq> [] \<and> fetched_at e = clk m k"
  using assms(4)
proof (induction j)
  case (Suc j)
  note eff = full_run_effect [OF runs [of j] assms(2)]
  show ?case
  proof (cases "v \<in> set (tranche urls (st j) budget)")
    case True
    with eff show ?thesis by auto
  next
    case False
    with Suc.prems assms(3) have "i < j" by (cases "i = j") auto
    from Suc.IH [OF this] False eff show ?thesis by simp
  qed
qed simp

lemma untouched_entry:
  assumes runs: "\<And>i. full_run sha c urls budget (clk i) (st i) (st (Suc i))"
    and "u \<in> set urls" "\<forall>i<n. u \<notin> set (tranche urls (st i) budget)" "j \<le> n"
  shows "map_of (st j) u = map_of (st 0) u"
  using assms(4)
proof (induction j)
  case (Suc j)
  with full_run_effect [OF runs [of j] assms(2)] assms(3) show ?case by simp
qed simp

text \<open>
  C13: The fetch budget reaches every page. When each run of a budgeted source fetches the tranche it chose
  and its uploads are answered, every enumerated URL is fetched within as many runs as the budget needs to
  cover the enumeration, whatever the times in the state and whatever becomes of the embedding.
\<close>

theorem rotation_reaches_all:
  assumes "distinct urls" "u \<in> set urls" "length urls \<le> budget * n"
    and runs: "\<And>i. full_run sha c urls budget (clk i) (st i) (st (Suc i))"
    and later: "\<And>i j k l. i < j \<Longrightarrow> clk i k < clk j l"
    and old: "\<And>v e k. map_of (st 0) v = Some e \<Longrightarrow> fetched_at e < clk 0 k"
  shows "\<exists>i < n. u \<in> set (tranche urls (st i) budget)"
proof (rule ccontr)
  let ?T = "\<lambda>i. set (tranche urls (st i) budget)"
  assume "\<not> ?thesis"
  then have out: "\<forall>i<n. u \<notin> ?T i" by simp
  have "budget \<noteq> 0" "0 < n" using assms(2,3) by (cases urls; cases n; cases budget; simp)+
  have small: "budget < length urls" using out \<open>0 < n\<close> assms(2) by (auto simp: tranche_def split: if_splits)
  with \<open>budget \<noteq> 0\<close> have T: "tranche urls (st i) budget = prioritise urls (st i) budget" for i by (simp add: tranche_def)
  have disjoint: "?T i \<inter> ?T j = {}" if "i < j" "j < n" for i j
  proof (rule ccontr)
    assume "?T i \<inter> ?T j \<noteq> {}"
    then obtain v where v: "v \<in> ?T i" "v \<in> ?T j" by auto
    have "v \<in> set urls" using v(1) tranche_in by auto
    from stays_fetched [OF runs this v(1) that(1)] obtain m e k where
      e: "map_of (st j) v = Some e" "e \<noteq> []" "fetched_at e = clk m k" by blast
    have le: "fetch_key (st j) v \<le> fetch_key (st j) u"
      using prioritise_urgent [of v urls "st j" budget u] v(2) out that(2) assms(2) T by simp
    have "map_of (st j) u = map_of (st 0) u" by (rule untouched_entry [OF runs assms(2) out]) (use that in simp)
    moreover have "clk 0 k' \<le> clk m k" if "k' = k" for k' using later [of 0 m k k] that by (cases "m = 0") auto
    ultimately show False
      using le e old [of u _ k] by (auto simp: fetch_key_def split: option.splits if_splits)
  qed
  have "card (\<Union>i<n. ?T i) = (\<Sum>i<n. card (?T i))"
  proof (rule card_UN_disjoint)
    show "\<forall>i\<in>{..<n}. \<forall>j\<in>{..<n}. i \<noteq> j \<longrightarrow> ?T i \<inter> ?T j = {}"
      using disjoint by (metis Int_commute lessThan_iff linorder_neqE_nat)
  qed auto
  also have "\<dots> = budget * n" using prioritise_full [OF assms(1)] small by (simp add: T)
  finally have "budget * n \<le> card (set urls - {u})"
    using card_mono [of "set urls - {u}" "\<Union>i<n. ?T i"] tranche_in out by (fastforce simp: subset_iff)
  moreover have "0 < length urls" using assms(2) by (cases urls) auto
  moreover have "card (set urls - {u}) = length urls - 1" using assms(1,2) by (simp add: distinct_card card_Diff_singleton)
  ultimately show False using assms(3) by linarith
qed

definition demo_clock :: "nat \<Rightarrow> nat \<Rightarrow> string" where
  "demo_clock i k = replicate (Suc i) (CHR ''a'')"

definition demo_state :: "nat \<Rightarrow> docs" where
  "demo_state i =
     (case i of 0 \<Rightarrow> [] | Suc j \<Rightarrow> [(''u'', new_entry (\<lambda>s. s) (replicate (Suc j) (CHR ''a'')) (PStr ''p'') demo_doc)])"

lemma demo_full_run: "full_run (\<lambda>s. s) demo_cfg [''u''] 1 (demo_clock i) (demo_state i) (demo_state (Suc i))"
proof -
  have "\<exists>out r. refresh_one (\<lambda>s. s) demo_cfg demo_answer (\<lambda>_. Embedded) (demo_clock i) (demo_state i) (Inr ([demo_doc], [''u''])) = (out, r) \<and>
      out = Applied 0 \<and> demo_state (Suc i) = rr_docs r"
    by (cases i)
      (simp_all add: refresh_one_def compute_def changed_def demo_state_def demo_doc_def demo_cfg_def halted_def safety_check_def
        known_of_def present_urls_def apply_plan_def stamp_def upload_one_def docpath_of_def demo_answer_def new_entry_def
        dget_def por_def embed_pass_def remove_missing_def removed_paths_def drop_urls_def plan_embed_batches_def chunks.simps
        nth_or_def demo_clock_def old_path_def dput_def doc_name_def content_hash_def Let_def)
  moreover have "map dc_url [demo_doc] = tranche [''u''] (demo_state i) 1" by (simp add: tranche_def demo_doc_def)
  moreover have "\<forall>i. demo_answer i \<noteq> None" by (simp add: demo_answer_def)
  ultimately show ?thesis unfolding full_run_def by blast
qed

theorem rotation_reaches_all_witness: "\<exists>i < 1. ''u'' \<in> set (tranche [''u''] (demo_state i) 1)"
proof (rule rotation_reaches_all [where clk = demo_clock and sha = "\<lambda>s. s" and c = demo_cfg])
  show "demo_clock i k < demo_clock j l" if "i < j" for i j k l :: nat
  proof -
    from that obtain d where "j = i + Suc d" using less_imp_Suc_add by auto
    moreover have "replicate m (CHR ''a'') < replicate (m + Suc d) (CHR ''a'')" for m by (induction m) simp_all
    ultimately show ?thesis using \<open>\<And>m. replicate m (CHR ''a'') < replicate (m + Suc d) (CHR ''a'')\<close> [of "Suc i"] by (simp add: demo_clock_def)
  qed
  show "fetched_at e < demo_clock 0 k" if "map_of (demo_state 0) v = Some e" for v e k using that by (simp add: demo_state_def)
  show "full_run (\<lambda>s. s) demo_cfg [''u''] 1 (demo_clock i) (demo_state i) (demo_state (Suc i))" for i by (rule demo_full_run)
qed simp_all

text \<open>
  Pages that cannot be fetched hold their place, though: a run whose tranche all failed leaves the same tranche
  for the next one.
\<close>

lemma sort_key_cong: "(\<And>x. x \<in> set xs \<Longrightarrow> f x = g x) \<Longrightarrow> sort_key f xs = sort_key g xs"
proof -
  have ins: "(\<And>y. y \<in> insert x (set ys) \<Longrightarrow> f y = g y) \<Longrightarrow> insort_key f x ys = insort_key g x ys" for x ys
    by (induction ys) auto
  assume "\<And>x. x \<in> set xs \<Longrightarrow> f x = g x"
  then show ?thesis
  proof (induction xs)
    case (Cons x xs)
    then have "sort_key f xs = sort_key g xs" by simp
    moreover have "insort_key f x (sort_key g xs) = insort_key g x (sort_key g xs)"
      by (rule ins) (use Cons.prems in simp)
    ultimately show ?case by (simp add: sort_key_def)
  qed simp
qed

lemma dead_tranche_repeats:
  assumes "refresh_one sha c uploads embeds clock before (Inr ([], urls)) = (out, r)" "urls \<noteq> []"
  shows "tranche urls (rr_docs r) budget = tranche urls before budget"
proof -
  have "map_of (rr_docs r) u = map_of before u" if u: "u \<in> set urls" for u
    using assms(1) refl
  proof (cases rule: refresh_cases)
    case (raised e s)
    then show ?thesis by (simp add: compute_def)
  next
    case (embedded s)
    let ?p = "compute sha [] before (\<not> rc_additive c) (known_of urls)"
    have s: "up_docs s = stamp (clock 0) [] before" using embedded(2) by (auto simp: compute_def)
    have "r = snd (embed_pass c embeds (remove_missing before (pl_removes ?p) s))" using embedded(3) by (metis snd_conv)
    then have "rr_docs r = drop_urls (pl_removes ?p) (stamp (clock 0) [] before)"
      by (simp add: embed_pass_docs remove_missing_def Let_def s)
    moreover have "u \<notin> set (pl_removes ?p)" using u assms(2) by (simp add: compute_def present_urls_def known_of_def)
    ultimately show ?thesis by (simp add: map_of_drop_urls map_of_stamp option.map_ident)
  qed simp
  then have "fetch_key (rr_docs r) u = fetch_key before u" if "u \<in> set urls" for u using that by (simp add: fetch_key_def)
  then show ?thesis by (simp add: tranche_def prioritise_def cong: sort_key_cong)
qed

end
