(* ===== verification/RagText.thy ===== *)
theory RagText
  imports RagPlan "HOL-Library.Sublist"
begin

text \<open>
  The text and the URLs of the documents: the source markers repeated through a page
  (\<^verbatim>\<open>scripts/rag/handlers/sphinx_sitemap.py\<close>) and the files of a repository grouped by their citation URL
  (\<^verbatim>\<open>scripts/rag/handlers/github_repo.py\<close>). Git and the file system are parameters.
\<close>

section \<open>Source markers\<close>

definition source_marker_every :: nat where
  "source_marker_every = 900"

definition para_sep :: string where
  "para_sep = [CHR 0x0A, CHR 0x0A]"

fun split_paras_aux :: "string \<Rightarrow> string \<Rightarrow> string list" where
  "split_paras_aux cur [] = [rev cur]"
| "split_paras_aux cur [c] = [rev (c # cur)]"
| "split_paras_aux cur (c # d # s) =
     (if c = CHR 0x0A \<and> d = CHR 0x0A then rev cur # split_paras_aux [] s else split_paras_aux (c # cur) (d # s))"

text \<open>\<^verbatim>\<open>text.split("\n\n")\<close>.\<close>

definition split_paras :: "string \<Rightarrow> string list" where
  "split_paras s = split_paras_aux [] s"

text \<open>\<^verbatim>\<open>re.split(r"(\s+)", para)\<close>: words and the white space between them, in turn.\<close>

function ws_tokens :: "string \<Rightarrow> string list" where
  "ws_tokens s =
     (let w = takeWhile (\<lambda>c. \<not> is_space c) s; r = dropWhile (\<lambda>c. \<not> is_space c) s
      in if r = [] then [w] else w # takeWhile is_space r # ws_tokens (dropWhile is_space r))"
  by pat_completeness auto
termination
proof (relation "measure length")
  fix s :: string and w r
  assume "r = dropWhile (\<lambda>c. \<not> is_space c) s" "r \<noteq> []"
  then have "is_space (hd r)" "length r \<le> length s" using hd_dropWhile [of "\<lambda>c. \<not> is_space c" s] length_dropWhile_le by auto
  moreover from this \<open>r \<noteq> []\<close> have "length (dropWhile is_space r) < length r"
    by (cases r) (auto simp: le_imp_less_Suc length_dropWhile_le)
  ultimately show "(dropWhile is_space r, s) \<in> measure length" by simp
qed simp

declare ws_tokens.simps [simp del]

text \<open>
  An oversized paragraph: pieces that end with the white space after which 900 characters are reached, each
  followed by a marker. The result is the output and what is left of the last piece, None when nothing is.
\<close>

fun cut_para :: "string \<Rightarrow> string list \<Rightarrow> string option \<Rightarrow> string list \<times> string option" where
  "cut_para marker [] piece = ([], piece)"
| "cut_para marker (tok # toks) piece =
     (let p = (case piece of None \<Rightarrow> tok | Some s \<Rightarrow> s @ tok) in
      if source_marker_every \<le> length p \<and> strip tok = []
      then (let (out, rest) = cut_para marker toks None in (p # marker # out, rest))
      else cut_para marker toks (Some p))"

definition rest_list :: "string option \<Rightarrow> string list" where
  "rest_list r = (case r of None \<Rightarrow> [] | Some p \<Rightarrow> [p])"

text \<open>The paragraphs with the running count since the last marker; an oversized one starts the count anew.\<close>

fun marked :: "string \<Rightarrow> string list \<Rightarrow> nat \<Rightarrow> string list" where
  "marked marker [] since = []"
| "marked marker (para # ps) since =
     (if source_marker_every < length para
      then (let (out, rest) = cut_para marker (ws_tokens para) None
            in out @ rest_list rest @ marked marker ps (case rest of None \<Rightarrow> 0 | Some p \<Rightarrow> length p))
      else let n = since + length para + length para_sep in
           if source_marker_every \<le> n then para # marker # marked marker ps 0 else para # marked marker ps n)"

definition marker_of :: "string \<Rightarrow> string" where
  "marker_of url = ''[Source: '' @ url @ '']''"

definition interleave_source :: "string \<Rightarrow> string \<Rightarrow> string" where
  "interleave_source text url =
     (if length text \<le> source_marker_every then text
      else let marker = marker_of url; out = marked marker (split_paras text) 0
           in join para_sep (if out \<noteq> [] \<and> last out \<noteq> marker then out @ [marker] else out))"

lemma concat_ws_tokens: "concat (ws_tokens s) = s"
proof (induction s rule: ws_tokens.induct)
  case (1 s)
  then show ?case by (subst ws_tokens.simps) (simp add: Let_def)
qed

lemma ws_tokens_some [simp]: "ws_tokens s \<noteq> []"
  by (subst ws_tokens.simps) (simp add: Let_def)

lemma split_paras_aux_some [simp]: "split_paras_aux cur s \<noteq> []"
  by (induction cur s rule: split_paras_aux.induct) simp_all

lemma join_Cons: "xs \<noteq> [] \<Longrightarrow> join sep (x # xs) = x @ sep @ join sep xs"
  by (cases xs) simp_all

lemma join_append: "xs \<noteq> [] \<Longrightarrow> ys \<noteq> [] \<Longrightarrow> join sep (xs @ ys) = join sep xs @ sep @ join sep ys"
proof (induction xs)
  case (Cons x xs)
  then show ?case by (cases "xs = []") (simp_all add: join_Cons)
qed simp

lemma join_split_paras_aux: "join para_sep (split_paras_aux cur s) = rev cur @ s"
  by (induction cur s rule: split_paras_aux.induct) (auto simp: join_Cons para_sep_def)

lemma join_split_paras: "join para_sep (split_paras s) = s"
  by (simp add: split_paras_def join_split_paras_aux)

lemma cut_para_subseq:
  assumes "cut_para marker toks piece = (out, rest)" "toks \<noteq> [] \<or> piece \<noteq> None"
  shows "out @ rest_list rest \<noteq> [] \<and>
    subseq ((case piece of None \<Rightarrow> [] | Some p \<Rightarrow> p) @ concat toks) (join para_sep (out @ rest_list rest))"
  using assms
proof (induction marker toks piece arbitrary: out rest rule: cut_para.induct)
  case (1 marker piece)
  then show ?case by (auto simp: rest_list_def split: option.splits)
next
  case (2 marker tok toks piece)
  let ?p = "case piece of None \<Rightarrow> tok | Some s \<Rightarrow> s @ tok"
  have p: "(case piece of None \<Rightarrow> [] | Some p \<Rightarrow> p) @ concat (tok # toks) = ?p @ concat toks" by (cases piece) simp_all
  show ?case
  proof (cases "source_marker_every \<le> length ?p \<and> strip tok = []")
    case True
    obtain out' rest' where o: "cut_para marker toks None = (out', rest')" by fastforce
    with True 2(3) have out: "out = ?p # marker # out'" "rest = rest'" by (simp_all add: Let_def)
    show ?thesis
    proof (cases toks)
      case Nil
      have "subseq ?p (?p @ para_sep @ marker)" by (intro subseq_rev_drop_many subseq_order.refl)
      with Nil o out p show ?thesis by (simp add: rest_list_def)
    next
      case (Cons t ts)
      from 2(1) [OF refl True o] Cons have ih: "out' @ rest_list rest' \<noteq> []" "subseq (concat toks) (join para_sep (out' @ rest_list rest'))"
        by auto
      have "join para_sep (out @ rest_list rest) = ?p @ (para_sep @ marker @ para_sep) @ join para_sep (out' @ rest_list rest')"
        using ih(1) by (simp add: out join_Cons)
      moreover have "subseq (concat toks) ((para_sep @ marker @ para_sep) @ join para_sep (out' @ rest_list rest'))"
        using ih(2) by (rule list_emb_append2)
      ultimately have "subseq (?p @ concat toks) (join para_sep (out @ rest_list rest))"
        by (simp only: append_assoc subseq_append')
      with out show ?thesis unfolding p by simp
    qed
  next
    case False
    with 2(3) have "cut_para marker toks (Some ?p) = (out, rest)" by (simp add: Let_def)
    from 2(2) [OF refl False this] show ?thesis unfolding p by simp
  qed
qed

lemma marked_subseq: "ps \<noteq> [] \<Longrightarrow> marked marker ps since \<noteq> [] \<and> subseq (join para_sep ps) (join para_sep (marked marker ps since))"
proof (induction ps arbitrary: since)
  case (Cons p ps)
  have step: "marked marker (p # ps) since \<noteq> [] \<and> subseq (join para_sep (p # ps)) (join para_sep (marked marker (p # ps) since))"
    if m: "marked marker (p # ps) since = b @ marked marker ps n" and b: "b \<noteq> []" "subseq p (join para_sep b)" for b n
  proof (cases "ps = []")
    case True
    with m b show ?thesis by simp
  next
    case False
    from Cons.IH [OF this, of n] b m False show ?thesis
      by (auto simp: join_append join_Cons intro!: list_emb_append_mono)
  qed
  show ?case
  proof (cases "source_marker_every < length p")
    case True
    obtain out rest where o: "cut_para marker (ws_tokens p) None = (out, rest)" by fastforce
    from cut_para_subseq [OF o] have "out @ rest_list rest \<noteq> []" "subseq p (join para_sep (out @ rest_list rest))"
      by (simp_all add: concat_ws_tokens)
    with step [of "out @ rest_list rest"] True o show ?thesis by simp
  next
    case False
    have "subseq p (join para_sep [p, marker])" by (simp add: subseq_rev_drop_many)
    with step [of "[p, marker]" 0] step [of "[p]"] False show ?thesis by (simp add: Let_def)
  qed
qed simp

text \<open>
  The markers add to a page and take nothing from it. Every character of the page is in what is uploaded,
  in its order, and a page longer than the interval ends with its source.
\<close>

theorem interleave_keeps_text:
  "subseq text (interleave_source text url) \<and>
   (length text \<le> source_marker_every \<or> suffix (marker_of url) (interleave_source text url))"
proof (cases "length text \<le> source_marker_every")
  case False
  let ?m = "marker_of url"
  let ?out = "marked ?m (split_paras text) 0"
  have ps: "split_paras text \<noteq> []" by (simp add: split_paras_def)
  from marked_subseq [OF this, of ?m 0] have out: "?out \<noteq> []" "subseq text (join para_sep ?out)" by (simp_all add: join_split_paras)
  have app: "join para_sep (?out @ [?m]) = join para_sep ?out @ para_sep @ ?m" using join_append [OF out(1), of "[?m]"] by simp
  show ?thesis
  proof (cases "last ?out = ?m")
    case True
    from out(1) obtain ys where "?out = ys @ [?m]" using True by (metis append_butlast_last_id)
    then have "suffix ?m (join para_sep ?out)" by (cases "ys = []") (simp_all add: join_append suffix_def)
    with False True out(2) show ?thesis by (simp add: interleave_source_def Let_def)
  next
    case differs: False
    have "subseq text (join para_sep ?out @ para_sep @ ?m)" using out(2) by (rule subseq_rev_drop_many)
    moreover have "suffix ?m (join para_sep ?out @ para_sep @ ?m)" by (simp add: suffix_def)
    ultimately show ?thesis using False differs out(1) by (simp add: interleave_source_def Let_def app)
  qed
qed (simp add: interleave_source_def)

text \<open>
  The spacing of the markers has no bound, though: a paragraph just over the interval whose last word crosses
  it gets no marker, and the count starts anew after it.
\<close>

definition two_words :: string where
  "two_words = replicate 890 (CHR ''a'') @ '' '' @ replicate 14 (CHR ''b'')"

lemma split_paras_aux_line: "CHR 0x0A \<notin> set p \<Longrightarrow> split_paras_aux cur p = [rev cur @ p]"
  by (induction cur p rule: split_paras_aux.induct) auto

lemma split_paras_aux_join:
  "CHR 0x0A \<notin> set p \<Longrightarrow> split_paras_aux cur (p @ para_sep @ s) = (rev cur @ p) # split_paras_aux [] s"
  by (induction cur p rule: split_paras_aux.induct) (auto simp: para_sep_def)

lemma split_paras_join: "ps \<noteq> [] \<Longrightarrow> \<forall>p \<in> set ps. CHR 0x0A \<notin> set p \<Longrightarrow> split_paras (join para_sep ps) = ps"
proof (induction ps)
  case (Cons p ps)
  then show ?case
    by (cases "ps = []") (simp_all add: join_Cons split_paras_def split_paras_aux_line split_paras_aux_join)
qed simp

lemma two_words_tokens: "ws_tokens two_words = [replicate 890 (CHR ''a''), '' '', replicate 14 (CHR ''b'')]"
proof -
  have a: "\<not> is_space (CHR ''a'')" "\<not> is_space (CHR ''b'')" "is_space (CHR '' '')" by (simp_all add: is_space_def)
  have tw: "takeWhile P (replicate n c @ xs) = (if P c then replicate n c @ takeWhile P xs else if n = 0 then takeWhile P xs else [])"
    "dropWhile P (replicate n c @ xs) = (if P c then dropWhile P xs else if n = 0 then dropWhile P xs else replicate n c @ xs)"
    for P n and c :: char and xs by (induction n) auto
  have "ws_tokens (replicate 14 (CHR ''b'')) = [replicate 14 (CHR ''b'')]"
    using tw [of "\<lambda>c. \<not> is_space c" 14 "CHR ''b''" "[]"] a by (subst ws_tokens.simps) (simp add: Let_def)
  moreover have "takeWhile is_space ('' '' @ replicate 14 (CHR ''b'')) = '' ''" "dropWhile is_space ('' '' @ replicate 14 (CHR ''b'')) = replicate 14 (CHR ''b'')"
    using tw [of is_space 14 "CHR ''b''" "[]"] a by simp_all
  ultimately show ?thesis
    unfolding two_words_def using a by (subst ws_tokens.simps) (simp add: Let_def tw)
qed

lemma two_words_uncut: "cut_para marker (ws_tokens two_words) None = ([], Some two_words) \<and> length two_words = 905"
proof -
  have "strip (replicate 14 (CHR ''b'')) \<noteq> []" by code_simp
  then show ?thesis
    unfolding two_words_tokens by (simp add: Let_def source_marker_every_def) (simp add: two_words_def)
qed

lemma unmarked: "marked marker (replicate n two_words) since = replicate n two_words"
  by (induction n arbitrary: since)
    (auto simp: two_words_uncut source_marker_every_def rest_list_def split: prod.split)

theorem long_page_unmarked:
  "interleave_source (join para_sep (replicate (Suc n) two_words)) url =
     join para_sep (replicate (Suc n) two_words) @ para_sep @ marker_of url"
proof -
  let ?ps = "replicate (Suc n) two_words"
  have "CHR 0x0A \<notin> set two_words" by (simp add: two_words_def)
  then have sp: "split_paras (join para_sep ?ps) = ?ps" by (intro split_paras_join) auto
  have "905 \<le> length (join para_sep ?ps)" using two_words_uncut by (cases n) (simp_all add: join_Cons)
  moreover have "last ?ps \<noteq> marker_of url"
  proof
    assume "last ?ps = marker_of url"
    moreover have "last ?ps = two_words" by (induction n) simp_all
    ultimately have "hd two_words = hd (marker_of url)" by simp
    then show False by (simp add: two_words_def marker_of_def numeral_eq_Suc)
  qed
  ultimately show ?thesis
    using join_append [of ?ps "[marker_of url]" para_sep]
    by (simp add: interleave_source_def sp unmarked Let_def source_marker_every_def del: replicate_Suc)
qed

section \<open>Citation URLs of a repository\<close>

record repo_cfg =
  rp_repo :: string
  rp_strip :: string
  rp_base :: string
  rp_from :: string
  rp_to :: string
  rp_depth :: "int option"
  rp_lower :: bool
  rp_quote :: bool

definition slash :: char where
  "slash = CHR ''/''"

definition strip_prefix :: "repo_cfg \<Rightarrow> string \<Rightarrow> string option" where
  "strip_prefix c path =
     (let p = lstrip_by (\<lambda>x. x = slash) (rp_strip c) in
      if p = [] then Some path else if startswith path p then Some (drop (length p) path) else None)"

definition hex_digit :: "nat \<Rightarrow> char" where
  "hex_digit n = (''0123456789ABCDEF'' ! n)"

definition percent :: "nat \<Rightarrow> string" where
  "percent b = [CHR ''%'', hex_digit (b div 16), hex_digit (b mod 16)]"

text \<open>\<^verbatim>\<open>quote(s, safe="/")\<close>: the UTF-8 bytes of what is neither unreserved nor a slash.\<close>

definition quote_char :: "char \<Rightarrow> string" where
  "quote_char c =
     (if is_alpha_az c \<or> is_digit c \<or> c \<in> set ''_.-~/'' then [c]
      else if cp c < 128 then percent (cp c)
      else percent (192 + cp c div 64) @ percent (128 + cp c mod 64))"

definition quote_path :: "string \<Rightarrow> string" where
  "quote_path s = concat (map quote_char s)"

definition build_url :: "repo_cfg \<Rightarrow> string \<Rightarrow> string" where
  "build_url c path =
     (let a = (if rp_from c \<noteq> [] \<and> endswith path (rp_from c) then take (length path - length (rp_from c)) path else path);
          b = (case rp_depth c of
                 Some n \<Rightarrow> if n > 0 then join [slash] (take (nat n) (split_char slash a)) else a
               | None \<Rightarrow> a);
          d = (if rp_to c = [] then b
               else if rp_to c = [slash] then (if endswith b [slash] then b else b @ [slash])
               else b @ rp_to c);
          e = (if rp_lower c then lower d else d);
          f = (if rp_quote c then quote_path e else e)
      in rstrip_by (\<lambda>x. x = slash) (rp_base c) @ [slash] @ lstrip_by (\<lambda>x. x = slash) f)"

text \<open>A file as listed: its path, its text unless it cannot be read, and the date of its last commit.\<close>

record repo_file =
  rf_path :: string
  rf_text :: "string option"
  rf_date :: string

record url_entry =
  ue_paths :: "string list"
  ue_texts :: "string list"
  ue_dates :: "string list"
  ue_first :: string

definition eligible :: "repo_cfg \<Rightarrow> (string \<Rightarrow> bool) \<Rightarrow> repo_file \<Rightarrow> (string \<times> string) option" where
  "eligible c excluded f =
     (case strip_prefix c (rf_path f) of
        None \<Rightarrow> None
      | Some stripped \<Rightarrow>
          if excluded (rf_path f) then None
          else case rf_text f of None \<Rightarrow> None | Some t \<Rightarrow> if strip t = [] then None else Some (stripped, t))"

definition add_file :: "repo_cfg \<Rightarrow> (string \<Rightarrow> bool) \<Rightarrow> repo_file \<Rightarrow> (string \<times> url_entry) list \<Rightarrow> (string \<times> url_entry) list" where
  "add_file c excluded f es =
     (case eligible c excluded f of
        None \<Rightarrow> es
      | Some (stripped, t) \<Rightarrow>
          let u = build_url c stripped;
              e = (case map_of es u of
                     Some e \<Rightarrow> e
                   | None \<Rightarrow> \<lparr>ue_paths = [], ue_texts = [], ue_dates = [], ue_first = stripped\<rparr>)
          in alist_put u (e\<lparr>ue_paths := ue_paths e @ [rf_path f], ue_texts := ue_texts e @ [t], ue_dates := ue_dates e @ [rf_date f]\<rparr>) es)"

definition by_url :: "repo_cfg \<Rightarrow> (string \<Rightarrow> bool) \<Rightarrow> repo_file list \<Rightarrow> (string \<times> url_entry) list" where
  "by_url c excluded files = fold (add_file c excluded) files []"

definition merge_sep :: string where
  "merge_sep = para_sep @ ''---'' @ para_sep"

definition newest :: "string list \<Rightarrow> string" where
  "newest ds = foldr max ds []"

definition repo_doc :: "repo_cfg \<Rightarrow> string \<times> url_entry \<Rightarrow> doc" where
  "repo_doc c ue =
     (let (u, e) = ue; date = newest (ue_dates e); nl = [CHR 0x0A] in
      \<lparr>dc_url = u,
       dc_content = ''Source: '' @ u @ nl @ ''URL: '' @ u @ nl @ ''Last-modified: '' @ date @ para_sep @
                    interleave_source (join merge_sep (ue_texts e)) u,
       dc_title = replace [slash] '' / '' (rstrip_by (\<lambda>x. x = slash) (ue_first e)),
       dc_meta =
         [(PStr ''last_modified'', PStr date), (PStr ''repo'', PStr (rp_repo c)),
          (PStr ''repo_path'', case ue_paths e of [p] \<Rightarrow> PStr p | ps \<Rightarrow> PList (map PStr ps))] @
         (if length (ue_paths e) > 1 then [(PStr ''merged_count'', PInt (int (length (ue_paths e))))] else [])\<rparr>)"

definition repo_docs :: "repo_cfg \<Rightarrow> (string \<Rightarrow> bool) \<Rightarrow> repo_file list \<Rightarrow> doc list" where
  "repo_docs c excluded files = map (repo_doc c) (by_url c excluded files)"

lemma by_url_distinct: "distinct (map fst (by_url c excluded files))"
proof -
  have "distinct (map fst es) \<Longrightarrow> distinct (map fst (fold (add_file c excluded) files es))" for es
    by (induction files arbitrary: es) (auto simp: add_file_def Let_def split: option.splits)
  from this [of "[]"] show ?thesis by (simp add: by_url_def)
qed

lemma add_file_keeps:
  assumes "map_of es u = Some e" "t \<in> set (ue_texts e)"
  shows "\<exists>e'. map_of (add_file c excluded f es) u = Some e' \<and> t \<in> set (ue_texts e')"
  using assms by (auto simp: add_file_def Let_def split: option.splits prod.splits)

lemma fold_add_file_keeps:
  "map_of es u = Some e \<Longrightarrow> t \<in> set (ue_texts e) \<Longrightarrow>
   \<exists>e'. map_of (fold (add_file c excluded) fs es) u = Some e' \<and> t \<in> set (ue_texts e')"
proof (induction fs arbitrary: es e)
  case (Cons f fs)
  from add_file_keeps [OF Cons.prems, of c excluded f] obtain e' where
    "map_of (add_file c excluded f es) u = Some e'" "t \<in> set (ue_texts e')" by auto
  from Cons.IH [OF this] show ?case by simp
qed auto

lemma by_url_has:
  assumes "f \<in> set files" "eligible c excluded f = Some (stripped, t)"
  shows "\<exists>e. map_of (by_url c excluded files) (build_url c stripped) = Some e \<and> t \<in> set (ue_texts e)"
proof -
  from assms(1) obtain as bs where files: "files = as @ f # bs" by (auto simp: in_set_conv_decomp)
  let ?es = "fold (add_file c excluded) as []"
  have "\<exists>e. map_of (add_file c excluded f ?es) (build_url c stripped) = Some e \<and> t \<in> set (ue_texts e)"
    using assms(2) by (simp add: add_file_def Let_def split: option.splits)
  then obtain e where "map_of (add_file c excluded f ?es) (build_url c stripped) = Some e" "t \<in> set (ue_texts e)" by auto
  from fold_add_file_keeps [OF this, of c excluded bs] show ?thesis by (simp add: by_url_def files)
qed

lemma subseq_join: "t \<in> set ts \<Longrightarrow> subseq t (join sep ts)"
proof (induction ts)
  case (Cons x ts)
  show ?case
  proof (cases "ts = []")
    case False
    with Cons show ?thesis by (auto simp: join_Cons intro: subseq_rev_drop_many list_emb_append2)
  qed (use Cons in auto)
qed simp

text \<open>
  C36: Every page of a repository is one document, with every file of it. The documents collected from a
  repository have distinct URLs, and each tracked file that is in scope, readable and not blank has its whole
  text, in order, in the document of its citation URL, however many files share that URL.
\<close>

theorem repo_files_collected:
  assumes "f \<in> set files" "eligible c excluded f = Some (stripped, t)"
  shows "distinct (map dc_url (repo_docs c excluded files)) \<and>
    (\<exists>d \<in> set (repo_docs c excluded files). dc_url d = build_url c stripped \<and> subseq t (dc_content d))"
proof
  have "map dc_url (repo_docs c excluded files) = map fst (by_url c excluded files)"
    by (simp add: repo_docs_def repo_doc_def Let_def split_beta)
  then show "distinct (map dc_url (repo_docs c excluded files))" using by_url_distinct by simp
  from by_url_has [OF assms] obtain e where
    e: "map_of (by_url c excluded files) (build_url c stripped) = Some e" "t \<in> set (ue_texts e)" by auto
  let ?d = "repo_doc c (build_url c stripped, e)"
  have "subseq t (interleave_source (join merge_sep (ue_texts e)) (build_url c stripped))"
    using subseq_join [OF e(2), of merge_sep] interleave_keeps_text subseq_order.trans by blast
  moreover have "\<exists>h. dc_content ?d = h @ interleave_source (join merge_sep (ue_texts e)) (build_url c stripped)"
    unfolding repo_doc_def Let_def by (simp add: append_assoc [symmetric] del: append_assoc)
  ultimately have "subseq t (dc_content ?d)" by (auto intro: list_emb_append2)
  moreover have "?d \<in> set (repo_docs c excluded files)" using map_of_SomeD [OF e(1)] by (force simp: repo_docs_def)
  moreover have "dc_url ?d = build_url c stripped" by (simp add: repo_doc_def Let_def)
  ultimately show "\<exists>d \<in> set (repo_docs c excluded files). dc_url d = build_url c stripped \<and> subseq t (dc_content d)" by blast
qed

definition demo_repo :: repo_cfg where
  "demo_repo =
     \<lparr>rp_repo = ''git'', rp_strip = ''/source/'', rp_base = ''https://docs/'', rp_from = ''.rst'', rp_to = ''.html'', rp_depth = None,
      rp_lower = False, rp_quote = True\<rparr>"

definition demo_file :: repo_file where
  "demo_file = \<lparr>rf_path = ''source/a b.rst'', rf_text = Some ''hi'', rf_date = ''2026''\<rparr>"

lemma demo_url: "build_url demo_repo ''a b.rst'' = ''https://docs/a%20b.html''"
  by code_simp

theorem repo_files_collected_witness:
  "distinct (map dc_url (repo_docs demo_repo (\<lambda>_. False) [demo_file])) \<and>
   (\<exists>d \<in> set (repo_docs demo_repo (\<lambda>_. False) [demo_file]). dc_url d = ''https://docs/a%20b.html'' \<and> subseq ''hi'' (dc_content d))"
proof -
  have "eligible demo_repo (\<lambda>_. False) demo_file = Some (''a b.rst'', ''hi'')" by code_simp
  from repo_files_collected [OF _ this, of "[demo_file]"] show ?thesis by (simp add: demo_url)
qed

end
