(* ===== verification/RagSources.thy ===== *)
theory RagSources
  imports RagText PyRegex
begin

text \<open>
  What the handlers collect: the discovery of a documentation site's URLs, the tranche a run fetches and the
  documents made of the pages (\<^verbatim>\<open>scripts/rag/handlers/sphinx_sitemap.py\<close>, \<^verbatim>\<open>url_list_hashed.py\<close>), and the
  entries of a feed (\<^verbatim>\<open>rss.py\<close>). The answers of the servers, the XML, JSON and feed parsers, the extraction of a
  page's text and the configured patterns are parameters.
\<close>

section \<open>Discovery\<close>

text \<open>The answer for a sitemap: its locations, and whether it is an index of sitemaps; none when it failed.\<close>

definition try_sitemap :: "(string \<Rightarrow> string list \<times> bool) \<Rightarrow> string \<Rightarrow> string list" where
  "try_sitemap fetch url =
     (let (locs, is_index) = fetch url in
      if \<not> is_index then locs else concat (map (\<lambda>child. let (ls, nested) = fetch child in if nested then [] else ls) locs))"

definition searchindex_urls :: "string \<Rightarrow> string list option \<Rightarrow> string list" where
  "searchindex_urls base names =
     (case names of None \<Rightarrow> [] | Some ns \<Rightarrow> sort (map (\<lambda>n. base @ [slash] @ n @ ''.html'') ns))"

definition dquote :: char where
  "dquote = CHR 0x22"

definition href_re :: rx where
  "href_re =
     cats [lit ''href='', ch dquote, Grp 1 (Cat (plus (Cls (\<lambda>c. c \<noteq> dquote))) (lit ''.html'')),
           opt (Cat (lit ''#'') (star (Cls (\<lambda>c. c \<noteq> dquote)))), ch dquote]"

text \<open>A link of an index page: absolute, from the root of the site, or beside the page.\<close>

definition href_url :: "(string \<Rightarrow> string \<Rightarrow> string) \<Rightarrow> string \<Rightarrow> string \<Rightarrow> string" where
  "href_url urljoin base href =
     (if startswith href ''http'' then href
      else if startswith href [slash] then urljoin (base @ [slash]) href
      else base @ [slash] @ href)"

definition fallback_urls :: "(string \<Rightarrow> string \<Rightarrow> string) \<Rightarrow> (string \<Rightarrow> string option) \<Rightarrow> string \<Rightarrow> string list \<Rightarrow> string list" where
  "fallback_urls urljoin get base pages =
     concat (map (\<lambda>page.
       case get (base @ [slash] @ lstrip_by (\<lambda>c. c = slash) page) of
         None \<Rightarrow> []
       | Some html \<Rightarrow> map (\<lambda>m. href_url urljoin base (case group 1 m of Some h \<Rightarrow> h | None \<Rightarrow> [])) (re_findall href_re html)) pages)"

definition in_patterns :: "(string \<Rightarrow> bool) option \<Rightarrow> (string \<Rightarrow> bool) option \<Rightarrow> string \<Rightarrow> bool" where
  "in_patterns include exclude u =
     ((case include of None \<Rightarrow> True | Some p \<Rightarrow> p u) \<and> (case exclude of None \<Rightarrow> True | Some p \<Rightarrow> \<not> p u))"

record site =
  st_searchindex :: string
  st_sitemap :: string
  st_base :: string
  st_pages :: "string list"
  st_include :: "(string \<Rightarrow> bool) option"
  st_exclude :: "(string \<Rightarrow> bool) option"
  st_budget :: nat

definition discover ::
  "(string \<Rightarrow> string list option) \<Rightarrow> (string \<Rightarrow> string list \<times> bool) \<Rightarrow> (string \<Rightarrow> string \<Rightarrow> string) \<Rightarrow> (string \<Rightarrow> string option) \<Rightarrow> site \<Rightarrow> string list"
where
  "discover index sitemap urljoin get s =
     (let base = rstrip_by (\<lambda>c. c = slash) (st_base s);
          a = (if st_searchindex s = [] then [] else searchindex_urls base (index (st_searchindex s)));
          b = (if a \<noteq> [] then a else try_sitemap sitemap (st_sitemap s))
      in if b \<noteq> [] then b else fallback_urls urljoin get base (st_pages s))"

definition site_urls :: "site \<Rightarrow> string list \<Rightarrow> string list" where
  "site_urls s found = sort (remdups (filter (in_patterns (st_include s) (st_exclude s)) found))"

section \<open>Pages\<close>

definition title_re :: rx where
  "title_re = cats [liti ''<title>'', Grp 1 (plus (Cls (\<lambda>c. c \<noteq> CHR ''<''))), liti ''</title>'']"

definition page_title :: "string \<Rightarrow> string option" where
  "page_title html =
     (case re_search title_re html of
        None \<Rightarrow> None
      | Some (_, m) \<Rightarrow> (case group 1 m of None \<Rightarrow> None | Some t \<Rightarrow> Some (strip t)))"

definition meta_re :: "string \<Rightarrow> rx" where
  "meta_re name =
     cats [lit ''name='', ch dquote, lit name, ch dquote, plus (Cls is_space), lit ''content='', ch dquote,
           Grp 1 (plus (Cls (\<lambda>c. c \<noteq> dquote))), ch dquote]"

definition meta_names :: "(string \<times> string) list" where
  "meta_names =
     [(''published'', ''citation_publication_date''), (''published'', ''article:published_time''),
      (''modified'', ''article:modified_time'')]"

text \<open>A dot in a name stands for any character in the pattern; the names have none.\<close>

definition page_metadata :: "string \<Rightarrow> pydict" where
  "page_metadata html =
     fold (\<lambda>(key, name) meta.
       case re_search (meta_re name) html of
         None \<Rightarrow> meta
       | Some (_, m) \<Rightarrow> (case group 1 m of Some v \<Rightarrow> if dhas meta key then meta else dput key (PStr v) meta | None \<Rightarrow> meta))
       meta_names []"

text \<open>
  One fetch: None when the request or the extraction raised, else the page and its extracted text, which is
  too short or missing for a page that is only navigation.
\<close>

definition page_header :: "string \<Rightarrow> string \<Rightarrow> string" where
  "page_header url published =
     (let nl = [CHR 0x0A] in ''Source: '' @ url @ nl @ ''URL: '' @ url @ nl @ published @ nl)"

definition page_doc :: "string \<Rightarrow> string \<Rightarrow> string option \<Rightarrow> doc option" where
  "page_doc url html extracted =
     (case extracted of
        None \<Rightarrow> None
      | Some text \<Rightarrow>
          if length (strip text) < 50 then None
          else
            let meta = page_metadata html; nl = [CHR 0x0A];
                title = (case page_title html of Some t \<Rightarrow> if t = [] then last (split_char slash url) else t
                         | None \<Rightarrow> last (split_char slash url));
                published = (case dget meta ''published'' of
                               PStr p \<Rightarrow> if p = [] then [] else ''Published: '' @ p @ nl | _ \<Rightarrow> [])
            in Some \<lparr>dc_url = url,
                     dc_content = page_header url published @ interleave_source text url,
                     dc_title = title, dc_meta = meta\<rparr>)"

definition page_docs :: "(string \<Rightarrow> (string \<times> string option) option) \<Rightarrow> string list \<Rightarrow> doc list" where
  "page_docs fetch urls =
     List.map_filter (\<lambda>u. case fetch u of None \<Rightarrow> None | Some (html, text) \<Rightarrow> page_doc u html text) urls"

text \<open>
  A run of the site handler with one worker: the documents, and all the URLs it enumerated. An empty
  enumeration raises. With more workers the documents come in the order their fetches end.
\<close>

definition collect_site ::
  "(string \<Rightarrow> string list option) \<Rightarrow> (string \<Rightarrow> string list \<times> bool) \<Rightarrow> (string \<Rightarrow> string \<Rightarrow> string) \<Rightarrow> (string \<Rightarrow> string option) \<Rightarrow>
   (string \<Rightarrow> (string \<times> string option) option) \<Rightarrow> site \<Rightarrow> docs \<Rightarrow> (doc list \<times> string list) res"
where
  "collect_site index sitemap urljoin get fetch s prior =
     (let urls = site_urls s (discover index sitemap urljoin get s) in
      if urls = [] then Inl RuntimeError else Inr (page_docs fetch (tranche urls prior (st_budget s)), urls))"

definition collect_list ::
  "string option option \<Rightarrow> string list \<Rightarrow> nat \<Rightarrow> (string \<Rightarrow> (string \<times> string option) option) \<Rightarrow> docs \<Rightarrow> (doc list \<times> string list) res"
where
  "collect_list list_file inline budget fetch prior =
     bind_res (load_urls list_file inline) (\<lambda>urls.
       if urls = [] then Inl RuntimeError else Inr (page_docs fetch (tranche urls prior budget), urls))"

section \<open>Feeds\<close>

definition longest :: "string list \<Rightarrow> string" where
  "longest vs = foldl (\<lambda>b v. if length b < length v then v else b) (hd vs) (tl vs)"

definition content_value :: "pyval \<Rightarrow> string option" where
  "content_value c = as_str (case c of PDict d \<Rightarrow> dget d ''value'' | v \<Rightarrow> v)"

definition blank_text :: "pyval \<Rightarrow> bool" where
  "blank_text v = (case v of PStr s \<Rightarrow> strip s = [] | _ \<Rightarrow> True)"

definition feed_content :: "pydict \<Rightarrow> string option" where
  "feed_content entry =
     (let blobs = (case dget entry ''content'' of PList cs \<Rightarrow> List.map_filter content_value cs | _ \<Rightarrow> []) in
      if blobs \<noteq> [] then Some (longest blobs)
      else first_some (\<lambda>k. if blank_text (dget entry k) then None else as_str (dget entry k)) [''summary'', ''description''])"

text \<open>The content of an entry and whether its page was fetched; the page's answer is None when the request failed.\<close>

definition extract_content :: "string option \<Rightarrow> string option option \<Rightarrow> string option \<times> bool" where
  "extract_content feed page =
     (case feed of
        Some f \<Rightarrow>
          if 1000 < length f then (Some f, False)
          else (case page of
                  None \<Rightarrow> (Some f, False)
                | Some (Some text) \<Rightarrow> if 50 \<le> length (strip text) then (Some text, True) else (Some f, True)
                | Some None \<Rightarrow> (Some f, True))
      | None \<Rightarrow>
          (case page of
             None \<Rightarrow> (None, False)
           | Some (Some text) \<Rightarrow> if 50 \<le> length (strip text) then (Some text, True) else (None, True)
           | Some None \<Rightarrow> (None, True)))"

definition or_text :: "pyval \<Rightarrow> string \<Rightarrow> string" where
  "or_text v dflt = (case v of PStr s \<Rightarrow> if s = [] then dflt else s | _ \<Rightarrow> dflt)"

definition rss_link :: "pydict \<Rightarrow> string option" where
  "rss_link entry =
     (case (if truthy (dget entry ''link'') then dget entry ''link'' else dget entry ''id'') of
        PStr l \<Rightarrow> if strip l = [] then None else Some l | _ \<Rightarrow> None)"

definition rss_doc :: "string \<Rightarrow> (string \<Rightarrow> bool) option \<Rightarrow> (string \<Rightarrow> string option option) \<Rightarrow> pydict \<Rightarrow> doc option" where
  "rss_doc feed_url in_domain get entry =
     (case rss_link entry of
        None \<Rightarrow> None
      | Some link \<Rightarrow>
          if (case in_domain of None \<Rightarrow> False | Some p \<Rightarrow> \<not> p link) then None
          else
            let (content, fetched) = extract_content (feed_content entry) (get link); nl = [CHR 0x0A] in
            case content of
              None \<Rightarrow> None
            | Some body \<Rightarrow>
                if strip body = [] then None
                else
                  let title = or_text (dget entry ''title'') ''(no title)'';
                      published = or_text (dget entry ''published'') (or_text (dget entry ''updated'') []);
                      summary = or_text (dget entry ''summary'') []
                  in Some \<lparr>dc_url = link,
                           dc_content = ''Source: '' @ link @ nl @ ''URL: '' @ link @ nl @ ''Title: '' @ title @ nl @
                             (if published = [] then [] else ''Published: '' @ published @ nl) @ nl @ body,
                           dc_title = title,
                           dc_meta = [(PStr ''rss_feed'', PStr feed_url), (PStr ''published'', PStr published),
                                      (PStr ''title'', PStr title),
                                      (PStr ''summary'', if summary = [] then PNone else PStr (take 500 summary)),
                                      (PStr ''fetched_from_url'', PBool fetched)]\<rparr>)"

definition collect_rss :: "string \<Rightarrow> (string \<Rightarrow> bool) option \<Rightarrow> nat \<Rightarrow> (string \<Rightarrow> string option option) \<Rightarrow> pydict list \<Rightarrow> doc list res" where
  "collect_rss feed_url in_domain max_entries get entries =
     (let es = take max_entries entries in
      if es = [] then Inl RuntimeError else Inr (List.map_filter (rss_doc feed_url in_domain get) es))"

section \<open>What a collection is\<close>

lemma page_doc_url: "page_doc url html text = Some d \<Longrightarrow> dc_url d = url"
  by (auto simp: page_doc_def Let_def split: option.splits if_splits)

lemma page_doc_text:
  assumes "page_doc url html (Some text) = Some d"
  shows "subseq text (dc_content d) \<and> 50 \<le> length (strip text)"
proof -
  from assms have len: "50 \<le> length (strip text)" by (auto simp: page_doc_def split: if_splits)
  have "\<exists>h. dc_content d = h @ interleave_source text url"
    using assms len unfolding page_doc_def Let_def by (auto split: if_splits)
  then obtain h where h: "dc_content d = h @ interleave_source text url" by blast
  from interleave_keeps_text [of "text" url] have "subseq text (h @ interleave_source text url)" by (blast intro: list_emb_append2)
  with h len show ?thesis by simp
qed

lemma page_docs_urls: "distinct urls \<Longrightarrow> distinct (map dc_url (page_docs fetch urls)) \<and> set (map dc_url (page_docs fetch urls)) \<subseteq> set urls"
proof (induction urls)
  case (Cons u urls)
  then show ?case
    by (auto simp: page_docs_def List.map_filter_simps dest!: page_doc_url split: option.splits)
qed (simp add: page_docs_def List.map_filter_simps)

text \<open>
  What a site or a list collects satisfies what the plan relies on: distinct URLs, all of them enumerated.
\<close>

theorem collected_as_planned:
  assumes "collect_site index sitemap urljoin get fetch s prior = Inr (docs, urls) \<or>
    collect_list list_file inline budget fetch prior = Inr (docs, urls)"
  shows "distinct (map dc_url docs) \<and> urls \<noteq> [] \<and> distinct urls \<and> set (map dc_url docs) \<subseteq> set urls"
proof -
  have tr: "distinct us \<Longrightarrow> distinct (tranche us prior b)" for us b
    by (simp add: tranche_def prioritise_def)
  have "distinct urls \<and> urls \<noteq> [] \<and> (\<exists>b. docs = page_docs fetch (tranche urls prior b))"
    using assms
  proof
    assume "collect_site index sitemap urljoin get fetch s prior = Inr (docs, urls)"
    then show ?thesis by (auto simp: collect_site_def site_urls_def Let_def split: if_splits)
  next
    assume a: "collect_list list_file inline budget fetch prior = Inr (docs, urls)"
    then obtain us where "load_urls list_file inline = Inr us" "us = urls" "urls \<noteq> []" "docs = page_docs fetch (tranche urls prior budget)"
      by (auto simp: collect_list_def bind_res_Inr_iff split: if_splits)
    then show ?thesis by (auto simp: load_urls_def split: option.splits)
  qed
  then obtain b where b: "distinct urls" "urls \<noteq> []" "docs = page_docs fetch (tranche urls prior b)" by blast
  from page_docs_urls [OF tr [OF b(1)], of fetch b] b show ?thesis using tranche_in by blast
qed

end
