(* ===== verification/RagTools.thy ===== *)
theory RagTools
  imports RagRefresh PyRegex
begin

text \<open>
  The run over all sources (\<^verbatim>\<open>scripts/rag/refresh.py\<close>) and the one-off tools on the same state: the adoption
  of an existing workspace (\<^verbatim>\<open>scripts/rag/migrate_backfill.py\<close>), the clean-up after an interrupted run
  (\<^verbatim>\<open>cleanup_interrupted_refresh.py\<close>) and the split of a source (\<^verbatim>\<open>split_truenas_blog.py\<close>). A URL's host, JSON
  and the configured patterns are parameters.
\<close>

section \<open>All sources\<close>

record rag_source =
  sc_id :: string
  sc_enabled :: bool
  sc_prefix :: string
  sc_list :: "string list"
  sc_sites :: "string list"
  sc_scope :: "string \<Rightarrow> bool"

text \<open>The approval: none asked for, a proposal that cannot be read, or its content.\<close>

datatype approval = NoApproval | BadProposal | Proposal string "string list"

text \<open>The sources of a run, with the approved removals and whether the interval is ignored; None ends it with status 2.\<close>

definition select_sources :: "string option \<Rightarrow> bool \<Rightarrow> approval \<Rightarrow> rag_source list \<Rightarrow> (rag_source list \<times> string list option \<times> bool) option" where
  "select_sources only force appr sources =
     (let named = (\<lambda>i rest. let ss = filter (\<lambda>s. sc_id s = i) sources in if ss = [] then None else Some (ss, rest)) in
      case appr of
        BadProposal \<Rightarrow> None
      | Proposal i removes \<Rightarrow>
          if i = [] \<or> (only \<noteq> None \<and> only \<noteq> Some [] \<and> only \<noteq> Some i) then None else named i (Some removes, True)
      | NoApproval \<Rightarrow>
          (case only of Some (c # cs) \<Rightarrow> named (c # cs) (None, force) | _ \<Rightarrow> Some (sources, None, force)))"

datatype run_status = Disabled | Skipped | Ran outcome

text \<open>
  The loop: what raises in the interval check ends the whole run, what raises in a refresh is that source's
  status.
\<close>

fun run_sources :: "bool \<Rightarrow> (rag_source \<Rightarrow> bool res) \<Rightarrow> (rag_source \<Rightarrow> outcome) \<Rightarrow> rag_source list \<Rightarrow> exn option \<times> (string \<times> run_status) list" where
  "run_sources force due refresh [] = (None, [])"
| "run_sources force due refresh (s # ss) =
     (let go = (\<lambda>st. let (e, rs) = run_sources force due refresh ss in (e, (sc_id s, st) # rs)) in
      if \<not> sc_enabled s then go Disabled
      else if force then go (Ran (refresh s))
      else case due s of
             Inl e \<Rightarrow> (Some e, [])
           | Inr d \<Rightarrow> if d then go (Ran (refresh s)) else go Skipped)"

definition bad_status :: "run_status \<Rightarrow> bool" where
  "bad_status st =
     (case st of
        Ran out \<Rightarrow>
          (case out of
             CollectError \<Rightarrow> True | HaltedDrift _ \<Rightarrow> True | HaltedSafety \<Rightarrow> True | Raised _ \<Rightarrow> True | EmbedError \<Rightarrow> True
           | _ \<Rightarrow> False)
      | _ \<Rightarrow> False)"

definition exit_status :: "(string \<times> run_status) list \<Rightarrow> int" where
  "exit_status rs = (if list_ex (\<lambda>(i, st). bad_status st) rs then 1 else 0)"

section \<open>Adopting a workspace\<close>

definition metadata_dict :: "(string \<Rightarrow> pyval option) \<Rightarrow> pydict \<Rightarrow> pydict" where
  "metadata_dict json doc =
     (case dget doc ''metadata'' of
        PDict d \<Rightarrow> d
      | PStr s \<Rightarrow> (case json s of Some (PDict d) \<Rightarrow> d | _ \<Rightarrow> [])
      | _ \<Rightarrow> [])"

definition web_url :: "pyval \<Rightarrow> string option" where
  "web_url v =
     (case v of
        PStr s \<Rightarrow>
          let a = (if startswith s ''web://'' then drop 6 s else s);
              b = (if endswith a ''.website'' then take (length a - 8) a else a)
          in if startswith b ''http'' then Some (strip b) else None
      | _ \<Rightarrow> None)"

definition plain_url :: "pyval \<Rightarrow> string option" where
  "plain_url v = (case v of PStr s \<Rightarrow> if startswith s ''http'' then Some (strip s) else None | _ \<Rightarrow> None)"

definition header_re :: rx where
  "header_re =
     cats [Bol, Alt (lit ''Source'') (lit ''URL''), star (Cls is_space), lit '':'', star (Cls is_space),
           Grp 1 (cats [lit ''http'', opt (lit ''s''), lit ''://'', plus (Cls (\<lambda>c. \<not> is_space c))])]"

definition header_url :: "pyval \<Rightarrow> string option" where
  "header_url v =
     (case v of
        PStr s \<Rightarrow>
          (case re_search header_re s of
             None \<Rightarrow> None
           | Some (_, m) \<Rightarrow> (case group 1 m of None \<Rightarrow> None | Some u \<Rightarrow> Some (strip u)))
      | _ \<Rightarrow> None)"

definition or_else :: "'a option \<Rightarrow> 'a option \<Rightarrow> 'a option" where
  "or_else a b = (case a of Some x \<Rightarrow> Some x | None \<Rightarrow> b)"

definition extract_url :: "(string \<Rightarrow> pyval option) \<Rightarrow> pydict \<Rightarrow> string option" where
  "extract_url json doc =
     (let md = metadata_dict json doc in
      or_else (first_some (\<lambda>k. web_url (dget md k)) [''sourceURL'', ''source_url'', ''url'', ''chunkSource'', ''docSource''])
       (or_else (header_url (por (dget doc ''pageContent'') (dget doc ''textContent'')))
         (or_else (case dget md ''chunkSource'' of
                     PStr s \<Rightarrow> if startswith s ''link://'' then Some (strip (drop 7 s)) else None | _ \<Rightarrow> None)
           (first_some (\<lambda>k. plain_url (dget doc k)) [''sourceURL'', ''url'']))))"

definition doc_source :: "pydict \<Rightarrow> pyval" where
  "doc_source md = por (dget md ''docSource'') (PStr [])"

text \<open>One text starts with the other; what is no text raises.\<close>

definition starts_either :: "pyval \<Rightarrow> string \<Rightarrow> bool res" where
  "starts_either v p = (case v of PStr s \<Rightarrow> Inr (startswith s p \<or> startswith p s) | _ \<Rightarrow> Inl AttributeError)"

fun find_res :: "('a \<Rightarrow> bool res) \<Rightarrow> 'a list \<Rightarrow> 'a option res" where
  "find_res f [] = Inr None"
| "find_res f (x # xs) = bind_res (f x) (\<lambda>b. if b then Inr (Some x) else find_res f xs)"

definition domain_of :: "(string \<Rightarrow> string option) \<Rightarrow> string \<Rightarrow> string" where
  "domain_of host url = (case host url of Some h \<Rightarrow> lower h | None \<Rightarrow> [])"

definition pick_source :: "(string \<Rightarrow> string option) \<Rightarrow> string \<Rightarrow> pydict \<Rightarrow> rag_source list \<Rightarrow> rag_source option res" where
  "pick_source host url md sources =
     (let src = doc_source md in
      case find (\<lambda>s. truthy src \<and> src = PStr (sc_prefix s)) sources of
        Some s \<Rightarrow> Inr (Some s)
      | None \<Rightarrow>
          bind_res (if truthy src then find_res (\<lambda>s. if sc_prefix s = [] then Inr False else starts_either src (sc_prefix s)) sources
                    else Inr None) (\<lambda>r.
            Inr (or_else r
              (or_else (find (\<lambda>s. url \<in> set (sc_list s)) sources)
                (find (\<lambda>s. list_ex (\<lambda>f. domain_of host f = domain_of host url) (sc_sites s) \<and> sc_scope s url) sources)))))"

definition doc_path :: "pydict \<Rightarrow> pyval" where
  "doc_path doc = por (por (dget doc ''docpath'') (dget doc ''location'')) (dget doc ''name'')"

definition migrated_entry :: "(string \<Rightarrow> pyval option) \<Rightarrow> string \<Rightarrow> string \<Rightarrow> pydict \<Rightarrow> pydict" where
  "migrated_entry json now url doc =
     [(PStr ''hash'', PStr ''migrated''), (PStr ''last_fetched'', PStr now), (PStr ''allm_doc_path'', doc_path doc),
      (PStr ''allm_doc_name'', por (dget doc ''title'') (PStr url)), (PStr ''metadata'', PDict (metadata_dict json doc))]"

text \<open>The documents by source; a URL without one, or a document without a URL, is unmatched.\<close>

type_synonym matched = "(string \<times> docs) list \<times> nat"

definition migrate_one ::
  "(string \<Rightarrow> pyval option) \<Rightarrow> (string \<Rightarrow> string option) \<Rightarrow> string \<Rightarrow> rag_source list \<Rightarrow> pydict \<Rightarrow> matched \<Rightarrow> matched res"
where
  "migrate_one json host now sources doc m =
     (case extract_url json doc of
        None \<Rightarrow> Inr (fst m, snd m + 1)
      | Some [] \<Rightarrow> Inr (fst m, snd m + 1)
      | Some url \<Rightarrow>
          bind_res (pick_source host url (metadata_dict json doc) sources) (\<lambda>src.
            case src of
              None \<Rightarrow> Inr (fst m, snd m + 1)
            | Some s \<Rightarrow>
                let entries = (case map_of (fst m) (sc_id s) of Some es \<Rightarrow> es | None \<Rightarrow> [])
                in Inr (alist_put (sc_id s) (alist_put url (migrated_entry json now url doc) entries) (fst m), snd m)))"

fun migrate_all ::
  "(string \<Rightarrow> pyval option) \<Rightarrow> (string \<Rightarrow> string option) \<Rightarrow> string \<Rightarrow> rag_source list \<Rightarrow> pydict list \<Rightarrow> matched \<Rightarrow> matched res"
where
  "migrate_all json host now sources [] m = Inr m"
| "migrate_all json host now sources (d # ds) m =
     bind_res (migrate_one json host now sources d m) (migrate_all json host now sources ds)"

definition migrate :: "(string \<Rightarrow> pyval option) \<Rightarrow> (string \<Rightarrow> string option) \<Rightarrow> string \<Rightarrow> rag_source list \<Rightarrow> pydict list \<Rightarrow> matched res" where
  "migrate json host now sources ds = migrate_all json host now sources ds (map (\<lambda>s. (sc_id s, [])) sources, 0)"

section \<open>Cleaning up after an interrupted run\<close>

definition tracked_paths :: "docs \<Rightarrow> pyval list" where
  "tracked_paths docs = filter truthy (map (\<lambda>(u, e). dget e ''allm_doc_path'') docs)"

definition matches_source :: "(string \<Rightarrow> pyval option) \<Rightarrow> string \<Rightarrow> pydict \<Rightarrow> bool res" where
  "matches_source json doc_prefix doc = starts_either (doc_source (metadata_dict json doc)) doc_prefix"

fun filter_res :: "('a \<Rightarrow> bool res) \<Rightarrow> 'a list \<Rightarrow> 'a list res" where
  "filter_res f [] = Inr []"
| "filter_res f (x # xs) = bind_res (f x) (\<lambda>b. bind_res (filter_res f xs) (\<lambda>ys. Inr (if b then x # ys else ys)))"

text \<open>The docpaths that an applied clean-up detaches from the workspace and then deletes.\<close>

definition orphan_paths :: "(string \<Rightarrow> pyval option) \<Rightarrow> string \<Rightarrow> docs \<Rightarrow> pydict list \<Rightarrow> pyval list res" where
  "orphan_paths json doc_prefix persisted all_docs =
     bind_res (filter_res (matches_source json doc_prefix) all_docs) (\<lambda>matching.
       Inr (filter truthy (map doc_path (filter (\<lambda>d. doc_path d \<notin> set (tracked_paths persisted)) matching))))"

section \<open>Splitting a source\<close>

definition split_entries :: "string \<Rightarrow> docs \<Rightarrow> docs \<times> docs" where
  "split_entries url_prefix src = (filter (\<lambda>(u, e). startswith u url_prefix) src, filter (\<lambda>(u, e). \<not> startswith u url_prefix) src)"

definition dict_update :: "docs \<Rightarrow> docs \<Rightarrow> docs" where
  "dict_update a b = fold (\<lambda>(k, v) d. alist_put k v d) b a"

text \<open>The states saved one after the other: the target with the moved entries first, then the source without them.\<close>

definition split_saves :: "string \<Rightarrow> docs \<Rightarrow> docs \<Rightarrow> (docs \<times> docs) list" where
  "split_saves url_prefix src tgt =
     (let (moved, kept) = split_entries url_prefix src
      in if moved = [] then [(src, tgt)]
         else let merged = dict_update moved tgt in [(src, tgt), (src, merged), (kept, merged)])"

section \<open>Properties\<close>

text \<open>A run with an approval refreshes the source it names and no other.\<close>

lemma run_sources_ids: "r \<in> set (snd (run_sources force due refresh ss)) \<Longrightarrow> fst r \<in> sc_id ` set ss"
  by (induction force due refresh ss rule: run_sources.induct) (auto simp: Let_def split: sum.splits prod.splits if_splits)

lemma approved_run_confined:
  assumes "select_sources only force (Proposal i removes) sources = Some (ss, appr, force')"
  shows "appr = Some removes \<and> force' \<and> fst ` set (snd (run_sources force' due refresh ss)) \<subseteq> {i}"
proof -
  from assms have "ss = filter (\<lambda>s. sc_id s = i) sources" "appr = Some removes" "force'"
    by (auto simp: select_sources_def Let_def split: if_splits)
  with run_sources_ids [of _ force' due refresh ss] show ?thesis by fastforce
qed

text \<open>An adopted document is uploaded again at the first refresh that collects it: no hash of a text is \<^verbatim>\<open>migrated\<close>.\<close>

lemma migrated_is_changed:
  "map_of persisted (dc_url d) = Some (migrated_entry json now url doc) \<Longrightarrow> changed sha persisted d"
  by (simp add: changed_def migrated_entry_def dget_def content_hash_def)

text \<open>Its old docpath is never detached when it is replaced.\<close>

lemma migrated_copy_stays: "map_of persisted u = Some (migrated_entry json now url doc) \<Longrightarrow> old_path persisted u = []"
  by (simp add: old_path_def migrated_entry_def dget_def)

lemma filter_res_in: "filter_res f xs = Inr ys \<Longrightarrow> y \<in> set ys \<longleftrightarrow> y \<in> set xs \<and> f y = Inr True"
  by (induction xs arbitrary: ys) (auto simp: bind_res_Inr_iff split: if_splits)

lemma orphan_iff:
  assumes "orphan_paths json doc_prefix persisted all_docs = Inr ps"
  shows "p \<in> set ps \<longleftrightarrow> (\<exists>d \<in> set all_docs. matches_source json doc_prefix d = Inr True \<and> p = doc_path d \<and> truthy p \<and>
    p \<notin> set (tracked_paths persisted))"
proof -
  from assms obtain m where m: "filter_res (matches_source json doc_prefix) all_docs = Inr m"
    "ps = filter truthy (map doc_path (filter (\<lambda>d. doc_path d \<notin> set (tracked_paths persisted)) m))"
    by (auto simp: orphan_paths_def bind_res_Inr_iff)
  then show ?thesis using filter_res_in [OF m(1)] by auto
qed

text \<open>
  The clean-up deletes what this source does not track, and that includes what never was its own. No
  docpath the source's state tracks is deleted; but every other document of the workspace whose metadata has
  no \<^verbatim>\<open>docSource\<close> is, whichever source is cleaned, because the empty text is a prefix of every \<^verbatim>\<open>doc_prefix\<close>.
\<close>

theorem cleanup_takes_untagged:
  assumes "orphan_paths json doc_prefix persisted all_docs = Inr ps"
    "d \<in> set all_docs" "\<not> truthy (dget (metadata_dict json d) ''docSource'')" "truthy (doc_path d)"
  shows "set ps \<inter> set (tracked_paths persisted) = {} \<and> (doc_path d \<in> set ps \<longleftrightarrow> doc_path d \<notin> set (tracked_paths persisted))"
proof -
  have "matches_source json doc_prefix d = Inr True"
    using assms(3) by (simp add: matches_source_def doc_source_def por_def starts_either_def)
  then show ?thesis using orphan_iff [OF assms(1)] assms(2,4) by blast
qed

definition demo_upload :: pydict where
  "demo_upload = [(PStr ''docpath'', PStr ''custom/notes.json''), (PStr ''metadata'', PDict [(PStr ''title'', PStr ''notes'')])]"

theorem cleanup_takes_untagged_witness:
  "orphan_paths (\<lambda>_. None) ''[OFFICIAL] opnsense'' [] [demo_upload] = Inr [PStr ''custom/notes.json''] \<and>
   PStr ''custom/notes.json'' \<notin> set (tracked_paths [])"
proof -
  have o: "orphan_paths (\<lambda>_. None) ''[OFFICIAL] opnsense'' [] [demo_upload] = Inr [PStr ''custom/notes.json'']" by code_simp
  have d: "doc_path demo_upload = PStr ''custom/notes.json''" by code_simp
  have "\<not> truthy (dget (metadata_dict (\<lambda>_. None) demo_upload) ''docSource'')" by code_simp
  from cleanup_takes_untagged [OF o _ this] o d show ?thesis by simp
qed

lemma map_of_dict_update: "distinct (map fst b) \<Longrightarrow> map_of (dict_update a b) u = (case map_of b u of Some v \<Rightarrow> Some v | None \<Rightarrow> map_of a u)"
  by (induction b arbitrary: a) (auto simp: dict_update_def split: option.splits dest: map_of_SomeD intro: rev_image_eqI)

lemma map_of_filter_url: "map_of (filter (\<lambda>(k, v). P k) xs) u = (if P u then map_of xs u else None)"
  by (induction xs) auto

text \<open>
  The split loses no document: after every save, so also when it is stopped between two, each URL is in the
  source's state or in the target's, the target keeps its own entries, and an entry that has left the source
  is in the target.
\<close>

lemma split_keeps_all:
  assumes "distinct (map fst tgt)" "(s, t) \<in> set (split_saves url_prefix src tgt)"
  shows "(map_of tgt u \<noteq> None \<longrightarrow> map_of t u = map_of tgt u) \<and>
    (map_of s u = map_of src u \<or> map_of s u = None \<and> startswith u url_prefix \<and>
      map_of t u = (case map_of tgt u of Some e \<Rightarrow> Some e | None \<Rightarrow> map_of src u))"
  using assms
  by (auto simp: split_saves_def split_entries_def Let_def map_of_dict_update map_of_filter_url split: if_splits option.splits)

end
