(* ===== verification/VcfDoc.thy ===== *)
theory VcfDoc
  imports PyVal RegexShape "HOL-Library.List_Lexorder" "HOL-Library.Char_ord"
begin

text \<open>
  What every part of \<^verbatim>\<open>vcf-spec-tools/vcfspec\<close> shares: the findings of \<^verbatim>\<open>findings.py\<close> and the
  severities of \<^verbatim>\<open>rules/catalogue.yaml\<close>, the coercions of \<^verbatim>\<open>rules/coerce.py\<close>, the rule that a
  credential is a reference (\<^verbatim>\<open>credentials.py\<close>) and the masking of \<^verbatim>\<open>redact.py\<close>. A finding carries
  the fields its message is formatted from instead of the formatted text.
\<close>

section \<open>Findings\<close>

datatype severity = SevCritical | SevError | SevWarning | SevInfo

definition blocking :: "severity list" where
  "blocking = [SevCritical, SevError]"

record finding =
  vf_code :: string
  vf_severity :: severity
  vf_path :: string
  vf_args :: "(string \<times> pyval) list"

definition result_valid :: "finding list \<Rightarrow> bool" where
  "result_valid fs = (\<not> list_ex (\<lambda>x. List.member blocking (vf_severity x)) fs)"

definition result_codes :: "finding list \<Rightarrow> string list" where
  "result_codes fs = map vf_code fs"

definition by_severity :: "severity \<Rightarrow> finding list \<Rightarrow> finding list" where
  "by_severity s fs = filter (\<lambda>x. vf_severity x = s) fs"

definition result_merge :: "finding list \<Rightarrow> finding list \<Rightarrow> finding list" where
  "result_merge fs gs = fs @ gs"

definition json_pointer :: "string list \<Rightarrow> string" where
  "json_pointer parts = (if parts = [] then ''/'' else ''/'' @ join ''/'' parts)"

text \<open>The severity of every code of the catalogue.\<close>

definition catalogue :: "(string \<times> severity) list" where
  "catalogue =
     [(''VCF-INPUT-UNRECOGNISED'', SevCritical),
      (''VCF-INPUT-BAD-KIND'', SevCritical),
      (''VCF-NO-VALIDATION-RAN'', SevCritical),
      (''VCF-INPUT-UNREADABLE'', SevCritical),
      (''VCF-INV-SCHEMA'', SevError),
      (''VCF-SCHEMA'', SevError),
      (''VCF-SCHEMA-VERSION-UNKNOWN'', SevCritical),
      (''VCF-SCHEMA-INTEGRITY'', SevCritical),
      (''VCF-VERSION-NOT-CONSULTED'', SevInfo),
      (''VCF-CRED-NOT-A-REFERENCE'', SevCritical),
      (''VCF-RENDER-UNMAPPED'', SevCritical),
      (''VCF-RENDER-WRONG-KIND'', SevError),
      (''VCF-RENDER-UNDECLARED-FIELD'', SevError),
      (''VCF-RENDER-DEFAULT-APPLIED'', SevInfo),
      (''VCF-RENDER-FAILED'', SevCritical),
      (''VCF-RENDER-INSECURE-CREDENTIAL'', SevCritical),
      (''VCF-DIFF-TRUNCATED'', SevError),
      (''VCF-EXPLAIN-UNKNOWN-CODE'', SevError),
      (''INTERNAL'', SevCritical),
      (''VCF-MCP-BAD-ARGS'', SevError),
      (''VCF-NET-GATEWAY-OUTSIDE-SUBNET'', SevError),
      (''VCF-NET-SUBNET-OVERLAP'', SevError),
      (''VCF-NET-VLAN-REUSED'', SevError),
      (''VCF-NSX-FABRIC-MTU-TOO-LOW'', SevError),
      (''VCF-NET-HOST-IP-OUTSIDE-SUBNET'', SevError),
      (''VCF-NET-DUPLICATE-IP'', SevError),
      (''VCF-NET-IP-POOL-MISSING'', SevError),
      (''VCF-NET-IP-POOL-TOO-SMALL'', SevError),
      (''VCF-NSX-TEP-POOL-TOO-SMALL'', SevWarning),
      (''VCF-NAME-NOT-LOWERCASE'', SevError),
      (''VCF-NAME-WRONG-DOMAIN'', SevWarning),
      (''VCF-VSP-POOL-TOO-SMALL'', SevError),
      (''VCF-VSP-POOL-CROSSES-SUBNET'', SevError),
      (''VCF-VSP-INTERNAL-CIDR-COLLISION'', SevError),
      (''VCF-CAP-RAM-SHORTFALL'', SevError),
      (''VCF-CAP-N1-SHORTFALL'', SevWarning),
      (''VCF-CAP-STORAGE-SHORTFALL'', SevError),
      (''VCF-CAP-UNKNOWN-HARDWARE'', SevError),
      (''VCF-LIC-EVALUATION'', SevInfo),
      (''VCF-PROBE-NO-REVERSE-DNS'', SevError),
      (''VCF-PROBE-REVERSE-MISMATCH'', SevError),
      (''VCF-PROBE-FORWARD-MISMATCH'', SevError),
      (''VCF-PROBE-TARGET-BLOCKED'', SevWarning),
      (''VCF-PROBE-NAME-BLOCKED'', SevWarning),
      (''VCF-PROBE-NOTHING-PERMITTED'', SevError),
      (''VCF-PROBE-SEAM-UNUSABLE'', SevError),
      (''VCF-PROBE-UNKNOWN'', SevInfo),
      (''VCF-PROBE-RESOLVER-MISMATCH'', SevInfo),
      (''VCF-PROV-NO-BOOT-SERVER'', SevError),
      (''VCF-PROV-NO-MGMT-NETWORK'', SevError),
      (''VCF-PROV-NO-MAC'', SevError),
      (''VCF-PROV-NO-BOOT-DISK'', SevError),
      (''VCF-PROV-NO-ESX-BOOT-CFG'', SevError),
      (''VCF-PROV-NO-ROOT-HASH'', SevError),
      (''VCF-PROV-BOOT-DISK-FIRSTDISK'', SevError),
      (''VCF-PROV-BOOT-DISK-RUNTIME-NAME'', SevError),
      (''VCF-CAP-TIERING-NEEDS-WORKAROUND'', SevError),
      (''VCF-PROV-BOOT-DISK-NOT-STABLE'', SevError),
      (''VCF-PROV-NO-TIERING-DEVICE'', SevError),
      (''VCF-PROV-TIERING-DEVICE-NOT-STABLE'', SevError),
      (''VCF-PROV-TIERING-RATIO-UNSUPPORTED'', SevError),
      (''VCF-PROV-BOOT-VMFS-MODE'', SevError),
      (''VCF-PROV-DEVICE-COLLISION'', SevError),
      (''VCF-PROV-WRONG-KIND'', SevError),
      (''VCF-PROV-INSECURE-CREDENTIAL'', SevCritical),
      (''VCF-PROV-FAILED'', SevCritical),
      (''VCF-PROV-SSH-KEY-NOT-PUBLIC'', SevError),
      (''VCF-NAME-VSP-LOCAL-SUFFIX'', SevWarning),
      (''VCF-SDDCM-EXISTING-NEEDS-CREDENTIALS'', SevError),
      (''VCF-VSAN-HCL-BYPASSED'', SevInfo)]"

definition finding_for :: "string \<Rightarrow> string \<Rightarrow> (string \<times> pyval) list \<Rightarrow> finding" where
  "finding_for code path args =
     \<lparr>vf_code = code, vf_severity = the (map_of catalogue code), vf_path = path, vf_args = args\<rparr>"

lemma finding_for_code [simp]: "vf_code (finding_for c p a) = c"
  by (simp add: finding_for_def)

section \<open>Coercions\<close>

definition as_mapping :: "pyval \<Rightarrow> pydict" where
  "as_mapping v = (case v of PDict d \<Rightarrow> d | _ \<Rightarrow> [])"

definition as_sequence :: "pyval \<Rightarrow> pyval list" where
  "as_sequence v = (case v of PList xs \<Rightarrow> xs | _ \<Rightarrow> [])"

lemma as_mapping_simps [simp]:
  "as_mapping (PDict d) = d" "as_mapping PNone = []" "as_mapping (PList xs) = []"
  "as_mapping (PStr s) = []" "as_mapping (PInt i) = []"
  by (simp_all add: as_mapping_def)

lemma as_sequence_simps [simp]:
  "as_sequence (PList xs) = xs" "as_sequence PNone = []" "as_sequence (PDict d) = []"
  "as_sequence (PStr s) = []" "as_sequence (PInt i) = []"
  by (simp_all add: as_sequence_def)

text \<open>
  \<^verbatim>\<open>str(v)\<close>: \<open>show\<close> is Python's text of a float, a list and a dictionary.
\<close>

definition py_text :: "(pyval \<Rightarrow> string) \<Rightarrow> pyval \<Rightarrow> string" where
  "py_text show v =
     (case v of
        PStr s \<Rightarrow> s
      | PNone \<Rightarrow> ''None''
      | PBool b \<Rightarrow> (if b then ''True'' else ''False'')
      | PInt i \<Rightarrow> show_int i
      | _ \<Rightarrow> show v)"

lemma py_text_PStr [simp]: "py_text show (PStr s) = s"
  by (simp add: py_text_def)

section \<open>Errors of the renderers\<close>

text \<open>
  What a renderer raises: the refusal of a literal credential, a version that is not vendored, a
  failed checksum, or an exception of Python's own.
\<close>

datatype vcf_error = InsecureCredential | FileNotFound | SchemaIntegrity | Raises exn

definition lift_res :: "'a res \<Rightarrow> vcf_error + 'a" where
  "lift_res r = (case r of Inl e \<Rightarrow> Inl (Raises e) | Inr x \<Rightarrow> Inr x)"

definition bind_vcf :: "vcf_error + 'a \<Rightarrow> ('a \<Rightarrow> vcf_error + 'b) \<Rightarrow> vcf_error + 'b" where
  "bind_vcf m f = (case m of Inl e \<Rightarrow> Inl e | Inr x \<Rightarrow> f x)"

lemma bind_vcf_simps [simp]: "bind_vcf (Inl e) f = Inl e" "bind_vcf (Inr x) f = f x"
  by (simp_all add: bind_vcf_def)

lemma bind_vcf_Inr: "bind_vcf m f = Inr y \<longleftrightarrow> (\<exists>x. m = Inr x \<and> f x = Inr y)"
  by (cases m) auto

lemma lift_res_Inr [simp]: "lift_res r = Inr x \<longleftrightarrow> r = Inr x"
  by (cases r) (auto simp: lift_res_def)

fun map_vcf :: "('a \<Rightarrow> vcf_error + 'b) \<Rightarrow> 'a list \<Rightarrow> vcf_error + 'b list" where
  "map_vcf f [] = Inr []"
| "map_vcf f (x # xs) = bind_vcf (f x) (\<lambda>y. bind_vcf (map_vcf f xs) (\<lambda>ys. Inr (y # ys)))"

lemma map_vcf_set:
  "map_vcf f xs = Inr ys \<Longrightarrow> y \<in> set ys \<Longrightarrow> \<exists>x \<in> set xs. f x = Inr y"
  by (induction xs arbitrary: ys) (auto simp: bind_vcf_Inr)

section \<open>References\<close>

definition reference_re :: rx where
  "reference_re =
     cats [Bos, lit ''${'', Cls (\<lambda>c. is_alpha_az c \<or> c = CHR ''_''),
           star (Cls (\<lambda>c. is_alpha_az c \<or> is_digit c \<or> c = CHR ''_'')), ch (CHR ''}''), Eos]"

definition ref_match :: "string \<Rightarrow> bool" where
  "ref_match s = (re_match reference_re s \<noteq> None)"

definition is_reference :: "pyval \<Rightarrow> bool" where
  "is_reference v = (case v of PStr s \<Rightarrow> ref_match s | _ \<Rightarrow> False)"

definition credential_key_re :: rx where
  "credential_key_re =
     alts [liti ''password'', liti ''passwd'', liti ''secret'', liti ''token'', liti ''apikey'',
           liti ''api_key'', liti ''privatekey'', liti ''private_key'', liti ''sshkey'', liti ''ssh_key'',
           liti ''esxroot'', liti ''ssoadmin'', liti ''nsxadmin'', liti ''rootpass'']"

definition credential_key :: "string \<Rightarrow> bool" where
  "credential_key s = (re_search credential_key_re s \<noteq> None)"

fun is_scalar :: "pyval \<Rightarrow> bool" where
  "is_scalar (PStr _) = True"
| "is_scalar (PInt _) = True"
| "is_scalar (PFloat _) = True"
| "is_scalar (PBool _) = True"
| "is_scalar _ = False"

section \<open>Credentials are references\<close>

definition non_secret_keys :: "string list" where
  "non_secret_keys = [''username'']"

definition escape_segment :: "string \<Rightarrow> string" where
  "escape_segment s = replace (replace s ''~'' ''~0'') ''/'' ''~1''"

definition cred_finding :: "string \<Rightarrow> string \<Rightarrow> finding" where
  "cred_finding pointer name =
     \<lparr>vf_code = ''VCF-CRED-NOT-A-REFERENCE'', vf_severity = SevCritical, vf_path = pointer,
      vf_args = [(''name'', PStr name)]\<rparr>"

definition credential_leaf :: "string \<Rightarrow> pyval \<Rightarrow> bool \<Rightarrow> bool" where
  "credential_leaf name v in_creds =
     (if in_creds \<and> List.member non_secret_keys (lower name) then False
      else if in_creds then \<not> is_reference v
      else if \<not> credential_key name then False
      else if \<not> is_scalar v then False
      else \<not> is_reference v)"

definition out_default :: "string \<Rightarrow> finding \<Rightarrow> (string \<times> finding) list \<Rightarrow> (string \<times> finding) list" where
  "out_default k f out = (if map_of out k = None then out @ [(k, f)] else out)"

text \<open>
  \<open>walk\<close> goes through a value, \<open>walk_dict\<close> through the entries of a dictionary and \<open>walk_list\<close>
  through a list from an index on; the findings gather under their pointers.
\<close>

function (sequential) walk :: "(pyval \<Rightarrow> string) \<Rightarrow> pyval \<Rightarrow> string \<Rightarrow> bool \<Rightarrow> (string \<times> finding) list \<Rightarrow> (string \<times> finding) list"
  and walk_dict :: "(pyval \<Rightarrow> string) \<Rightarrow> pydict \<Rightarrow> string \<Rightarrow> bool \<Rightarrow> (string \<times> finding) list \<Rightarrow> (string \<times> finding) list"
  and walk_list :: "(pyval \<Rightarrow> string) \<Rightarrow> pyval list \<Rightarrow> nat \<Rightarrow> string \<Rightarrow> bool \<Rightarrow> (string \<times> finding) list \<Rightarrow> (string \<times> finding) list"
where
  "walk show (PDict d) ptr ic out = walk_dict show d ptr ic out"
| "walk show (PList xs) ptr ic out = walk_list show xs 0 ptr ic out"
| "walk show _ ptr ic out = out"
| "walk_dict show [] ptr ic out = out"
| "walk_dict show ((k, v) # d) ptr ic out =
     (let name = py_text show k;
          child = ptr @ ''/'' @ escape_segment name;
          under = (ic \<or> lower name = ''credentials'');
          out' = (if credential_leaf name v ic then out_default child (cred_finding child name) out
                  else walk show v child under out)
      in walk_dict show d ptr ic out')"
| "walk_list show [] i ptr ic out = out"
| "walk_list show (v # xs) i ptr ic out =
     walk_list show xs (Suc i) ptr ic (walk show v (ptr @ ''/'' @ show_nat i) ic out)"
  by pat_completeness auto
termination
  by (relation "measure (\<lambda>x. case x of Inl (_, v, _) \<Rightarrow> size v
        | Inr (Inl (_, d, _)) \<Rightarrow> size_list (size_prod size size) d
        | Inr (Inr (_, xs, _)) \<Rightarrow> size_list size xs)") auto

definition credential_findings :: "(pyval \<Rightarrow> string) \<Rightarrow> pyval \<Rightarrow> finding list" where
  "credential_findings show doc = map snd (sort_key fst (walk show doc [] False []))"

section \<open>Masking\<close>

definition mask_text :: string where
  "mask_text = ''***REDACTED***''"

definition quote_char :: "char \<Rightarrow> bool" where
  "quote_char c = (c = CHR 0x27 \<or> c = CHR 0x22)"

definition quoted_secret_re :: rx where
  "quoted_secret_re =
     cats [ch (CHR 0x27), Grp 1 (plus (Cls (\<lambda>c. c \<noteq> CHR 0x27))), ch (CHR 0x27),
           Ahead (Cat (plus (Cls is_space))
             (alts [lit ''is too short'', lit ''is too long'', lit ''does not match'', lit ''is not of type'']))]"

definition inline_secret_re :: rx where
  "inline_secret_re =
     Cat (Grp 1 (cats [alts [liti ''password'', liti ''passwd'', liti ''secret'', liti ''token'', liti ''apikey'',
                             liti ''api_key''],
                       opt (Cls quote_char), star (Cls is_space),
                       Cls (\<lambda>c. c = CHR ''='' \<or> c = CHR '':''), star (Cls is_space)]))
         (Grp 2 (alts [cats [ch (CHR 0x27), star (Cls (\<lambda>c. c \<noteq> CHR 0x27)), ch (CHR 0x27)],
                       cats [ch (CHR 0x22), star (Cls (\<lambda>c. c \<noteq> CHR 0x22)), ch (CHR 0x22)],
                       plus (Cls (\<lambda>c. \<not> is_space c))]))"

definition mask_inline :: "string \<Rightarrow> mstate \<Rightarrow> string" where
  "mask_inline whole m =
     (let v = the (group 2 m);
          q = (if v \<noteq> [] \<and> quote_char (hd v) then [hd v] else []);
          inner = (if q \<noteq> [] then butlast (tl v) else v)
      in if ref_match inner then whole else the (group 1 m) @ q @ mask_text @ q)"

definition redact_text :: "string \<Rightarrow> string" where
  "redact_text s =
     re_sub quoted_secret_re (\<lambda>_ _. CHR 0x27 # mask_text @ [CHR 0x27]) (re_sub inline_secret_re mask_inline s)"

definition is_masked_scalar :: "pyval \<Rightarrow> pyval \<Rightarrow> bool" where
  "is_masked_scalar k v =
     (case k of
        PStr s \<Rightarrow> (if \<not> credential_key s then False else if \<not> is_scalar v then False else \<not> is_reference v)
      | _ \<Rightarrow> False)"

fun redact_doc :: "pyval \<Rightarrow> pyval" and redact_dict :: "pydict \<Rightarrow> pydict" and redact_list :: "pyval list \<Rightarrow> pyval list"
where
  "redact_doc (PDict d) = PDict (redact_dict d)"
| "redact_doc (PList xs) = PList (redact_list xs)"
| "redact_doc (PStr s) = PStr (redact_text s)"
| "redact_doc v = v"
| "redact_dict [] = []"
| "redact_dict ((k, v) # d) = (k, if is_masked_scalar k v then PStr mask_text else redact_doc v) # redact_dict d"
| "redact_list [] = []"
| "redact_list (v # xs) = redact_doc v # redact_list xs"

section \<open>What a match must consume\<close>

text \<open>
  \<open>must_eat P r\<close>: every match of \<open>r\<close> consumes a character of \<open>P\<close>, so a text without one has no
  match.
\<close>

primrec must_eat :: "(char \<Rightarrow> bool) \<Rightarrow> rx \<Rightarrow> bool" where
  "must_eat P Eps = False"
| "must_eat P (Cls Q) = (\<forall>c. Q c \<longrightarrow> P c)"
| "must_eat P (Cat r1 r2) = (must_eat P r1 \<or> must_eat P r2)"
| "must_eat P (Alt r1 r2) = (must_eat P r1 \<and> must_eat P r2)"
| "must_eat P (Rep g lo hi r) = (lo > 0 \<and> must_eat P r)"
| "must_eat P (Grp n r) = must_eat P r"
| "must_eat P Bos = False"
| "must_eat P Bol = False"
| "must_eat P Eos = False"
| "must_eat P Eol = False"
| "must_eat P WordB = False"
| "must_eat P (Ahead r) = False"
| "must_eat P (NotBehind Q) = False"

lemma advances_ahead: "advances st st' \<Longrightarrow> set (ahead st') \<subseteq> set (ahead st)"
  by (auto simp: advances_def)

lemma must_eat_none:
  "must_eat P r \<Longrightarrow> \<forall>c \<in> set (ahead st). \<not> P c \<Longrightarrow> mt r st = []"
proof (induction r arbitrary: st)
  case (Cls Q)
  then show ?case by (auto split: list.splits)
next
  case (Cat r1 r2)
  show ?case
  proof (cases "must_eat P r1")
    case True
    with Cat show ?thesis by simp
  next
    case False
    with Cat.prems have r2: "must_eat P r2" by simp
    have "mt r2 st' = []" if "st' \<in> set (mt r1 st)" for st'
      using Cat.IH(2) [OF r2] Cat.prems(2) advances_ahead [OF mt_advances [OF that]] by blast
    then show ?thesis by simp
  qed
next
  case (Rep g lo hi r)
  then show ?case by (cases "lo + length (ahead st)") auto
qed auto

lemma sub_none:
  assumes "must_eat P r"
  shows "\<forall>c \<in> set s. \<not> P c \<Longrightarrow> sub_fuel k r f pre s = s"
  using must_eat_none [OF assms] by (induction k arbitrary: pre s) (auto split: list.splits)

lemma re_sub_none: "must_eat P r \<Longrightarrow> \<forall>c \<in> set s. \<not> P c \<Longrightarrow> re_sub r f s = s"
  by (simp add: re_sub_def sub_none)

lemma search_from_None_iff:
  "search_from r pre s = None \<longleftrightarrow>
     (\<forall>u v. s = u @ v \<longrightarrow> mt r \<lparr>past = rev u @ pre, ahead = v, caps = []\<rparr> = [])"
proof (induction s arbitrary: pre)
  case Nil
  then show ?case by (auto split: list.splits)
next
  case (Cons c s)
  have "(\<forall>u v. c # s = u @ v \<longrightarrow> mt r \<lparr>past = rev u @ pre, ahead = v, caps = []\<rparr> = []) \<longleftrightarrow>
      mt r \<lparr>past = pre, ahead = c # s, caps = []\<rparr> = [] \<and>
      (\<forall>u v. s = u @ v \<longrightarrow> mt r \<lparr>past = rev u @ c # pre, ahead = v, caps = []\<rparr> = [])"
  proof (intro iffI conjI allI impI, goal_cases)
    case (1)
    then show ?case by (metis append_Nil rev.simps(1))
  next
    case (2 u v)
    from 2(1) [rule_format, of "c # u" v] 2(2) show ?case by simp
  next
    case (3 u v)
    then show ?case by (cases u) auto
  qed
  with Cons show ?case by (auto split: list.splits)
qed

lemma search_liti_words:
  "re_search (alts (map liti ws)) s \<noteq> None \<longleftrightarrow> (\<exists>w \<in> set ws. contains (lower s) (lower w))"
proof -
  have low: "lower (u @ v) = lower u @ lower v" for u v by (simp add: lower_def)
  have "re_search (alts (map liti ws)) s \<noteq> None \<longleftrightarrow>
      (\<exists>u v. s = u @ v \<and> (\<exists>w \<in> set ws. startswith (lower v) (lower w)))"
    by (auto simp: re_search_def search_from_None_iff mt_alts_Nil_iff mt_liti simp del: not_None_eq)
  also have "\<dots> \<longleftrightarrow> (\<exists>w \<in> set ws. contains (lower s) (lower w))"
  proof
    assume "\<exists>u v. s = u @ v \<and> (\<exists>w \<in> set ws. startswith (lower v) (lower w))"
    then obtain u v w where s: "s = u @ v" "w \<in> set ws" "startswith (lower v) (lower w)" by blast
    then have "lower s = lower u @ lower w @ drop (length (lower w)) (lower v)"
      by (metis low append_take_drop_id)
    then show "\<exists>w \<in> set ws. contains (lower s) (lower w)" using s(2) contains_iff by blast
  next
    assume "\<exists>w \<in> set ws. contains (lower s) (lower w)"
    then obtain w u v where w: "w \<in> set ws" "lower s = u @ lower w @ v" unfolding contains_iff by blast
    let ?v = "drop (length u) s"
    have "lower ?v = lower w @ v" using w(2) by (simp add: lower_def drop_map [symmetric])
    then have "startswith (lower ?v) (lower w)" by simp
    moreover have "s = take (length u) s @ ?v" by simp
    ultimately show "\<exists>u v. s = u @ v \<and> (\<exists>w \<in> set ws. startswith (lower v) (lower w))"
      using w(1) by blast
  qed
  finally show ?thesis .
qed

definition credential_words :: "string list" where
  "credential_words =
     [''password'', ''passwd'', ''secret'', ''token'', ''apikey'', ''api_key'', ''privatekey'',
      ''private_key'', ''sshkey'', ''ssh_key'', ''esxroot'', ''ssoadmin'', ''nsxadmin'', ''rootpass'']"

lemma credential_key_iff: "credential_key s \<longleftrightarrow> (\<exists>w \<in> set credential_words. contains (lower s) w)"
proof -
  have re: "credential_key_re = alts (map liti credential_words)"
    by (simp only: credential_key_re_def credential_words_def list.map)
  have low: "lower w = w" if "w \<in> set credential_words" for w
  proof -
    have "list_all (\<lambda>w. lower w = w) credential_words" by code_simp
    with that show ?thesis by (auto simp: list_all_iff)
  qed
  show ?thesis
    unfolding credential_key_def re search_liti_words using low by (intro bex_cong) simp_all
qed

text \<open>Lower case on the bits of a character, for evaluation.\<close>

definition lower_bits :: "char \<Rightarrow> char" where
  "lower_bits c = (case c of Char b0 b1 b2 b3 b4 b5 b6 b7 \<Rightarrow>
     if b6 \<and> \<not> b5 \<and> (b0 \<or> b1 \<or> b2 \<or> b3 \<or> b4 \<or> b7) \<and>
        \<not> (b4 \<and> b3 \<and> (b7 \<and> b0 \<and> b1 \<and> b2 \<or> \<not> b7 \<and> (b2 \<or> b1 \<and> b0))) \<and> \<not> (b7 \<and> b4 \<and> \<not> b3 \<and> b2 \<and> b1 \<and> b0)
     then Char b0 b1 b2 b3 b4 True b6 b7 else c)"

lemma lower_char_code [code]: "lower_char c = lower_bits c"
proof (cases c)
  case (Char b0 b1 b2 b3 b4 b5 b6 b7)
  show ?thesis
    unfolding Char lower_bits_def lower_char_def is_upper_az_def
    by (cases b0; cases b1; cases b2; cases b3; cases b4; cases b5; cases b6; cases b7)
       (simp_all add: char_of_def bit_0)
qed

text \<open>The same test by comparing characters, which evaluates faster than the matcher.\<close>

fun has_prefix :: "string \<Rightarrow> string \<Rightarrow> bool" where
  "has_prefix [] s = True"
| "has_prefix (c # p) [] = False"
| "has_prefix (c # p) (d # s) = (c = d \<and> has_prefix p s)"

fun has_word :: "string \<Rightarrow> string \<Rightarrow> bool" where
  "has_word [] w = (w = [])"
| "has_word (c # s) w = (has_prefix w (c # s) \<or> has_word s w)"

lemma has_prefix_iff: "has_prefix p s \<longleftrightarrow> startswith s p"
  by (induction p s rule: has_prefix.induct) auto

lemma has_word_iff: "has_word s w \<longleftrightarrow> contains s w"
  by (induction s w rule: has_word.induct) (auto simp: has_prefix_iff)

lemma credential_key_code [code]:
  "credential_key s = list_ex (has_word (lower s)) credential_words"
  by (simp add: credential_key_iff list_ex_iff has_word_iff)

lemma credential_key_lower: "lower n = lower m \<Longrightarrow> credential_key n = credential_key m"
  by (simp add: credential_key_iff)

text \<open>A pattern that ends in \<^verbatim>\<open>$\<close>.\<close>

primrec ends_eos :: "rx \<Rightarrow> bool" where
  "ends_eos Eps = False"
| "ends_eos (Cls Q) = False"
| "ends_eos (Cat r1 r2) = ends_eos r2"
| "ends_eos (Alt r1 r2) = (ends_eos r1 \<and> ends_eos r2)"
| "ends_eos (Rep g lo hi r) = False"
| "ends_eos (Grp n r) = False"
| "ends_eos Bos = False"
| "ends_eos Bol = False"
| "ends_eos Eos = True"
| "ends_eos Eol = False"
| "ends_eos WordB = False"
| "ends_eos (Ahead r) = False"
| "ends_eos (NotBehind Q) = False"

lemma ends_eos_end: "ends_eos r \<Longrightarrow> st' \<in> set (mt r st) \<Longrightarrow> at_end_dollar st'"
  by (induction r arbitrary: st st') (auto split: if_splits)

section \<open>A reference survives the masking\<close>

definition ref_char :: "char \<Rightarrow> bool" where
  "ref_char c = (c = CHR 0x24 \<or> c = CHR ''{'' \<or> c = CHR ''}'' \<or> is_alpha_az c \<or> is_digit c \<or> c = CHR ''_'' \<or> cp c = 10)"

lemma ref_char_not: "\<not> ref_char (CHR ''='')" "\<not> ref_char (CHR '':'')" "\<not> ref_char (CHR 0x27)" "\<not> ref_char (CHR 0x22)"
  by code_simp+

lemma ref_match_chars:
  assumes "ref_match s"
  shows "\<forall>c \<in> set s. ref_char c"
proof -
  from assms obtain st where st: "st \<in> set (mt reference_re (mstart s))"
    by (auto simp: ref_match_def re_match_def split: list.splits)
  have eats: "eats (may_eat reference_re) (min_len reference_re) (mstart s) st"
    by (rule mt_eats [OF st])
  have "at_end_dollar st" by (rule ends_eos_end [OF _ st]) (simp add: reference_re_def)
  then have tail: "\<forall>c \<in> set (ahead st). ref_char c"
    by (auto simp: at_end_dollar_def length_Suc_conv ref_char_def)
  have chars: "ref_char c" if "may_eat reference_re c" for c
    using that by (auto simp: reference_re_def ref_char_def)
  from eats obtain w where "s = w @ ahead st" "list_all (may_eat reference_re) w"
    by (auto simp: eats_def mstart_def)
  with tail chars show ?thesis by (auto simp: list_all_iff)
qed

lemma redact_reference:
  assumes "ref_match s"
  shows "redact_text s = s"
proof -
  have no: "\<not> (c = CHR ''='' \<or> c = CHR '':'') \<and> c \<noteq> CHR 0x27" if "c \<in> set s" for c
    using ref_match_chars [OF assms] that ref_char_not by blast
  have "re_sub inline_secret_re mask_inline s = s"
    by (rule re_sub_none [of "\<lambda>c. c = CHR ''='' \<or> c = CHR '':''"])
       (use no in \<open>auto simp: inline_secret_re_def\<close>)
  moreover have "re_sub quoted_secret_re f s = s" for f
    by (rule re_sub_none [of "\<lambda>c. c = CHR 0x27"])
       (use no in \<open>auto simp: quoted_secret_re_def\<close>)
  ultimately show ?thesis by (simp add: redact_text_def)
qed

section \<open>Every entry of a document\<close>

text \<open>The entries of the dictionaries of a document, at any depth.\<close>

fun entries :: "pyval \<Rightarrow> (pyval \<times> pyval) list" and entries_dict :: "pydict \<Rightarrow> (pyval \<times> pyval) list"
  and entries_list :: "pyval list \<Rightarrow> (pyval \<times> pyval) list"
where
  "entries (PDict d) = entries_dict d"
| "entries (PList xs) = entries_list xs"
| "entries _ = []"
| "entries_dict [] = []"
| "entries_dict ((k, v) # d) = (k, v) # entries v @ entries_dict d"
| "entries_list [] = []"
| "entries_list (v # xs) = entries v @ entries_list xs"

definition entry_masked :: "pyval \<times> pyval \<Rightarrow> bool" where
  "entry_masked e = (\<not> is_masked_scalar (fst e) (snd e) \<or> snd e = PStr mask_text)"

lemma scalar_redact [simp]: "is_scalar (redact_doc v) = is_scalar v"
  by (cases v) simp_all

lemma masked_kept: "\<not> is_masked_scalar k v \<Longrightarrow> \<not> is_masked_scalar k (redact_doc v)"
  by (cases v) (auto simp: is_masked_scalar_def is_reference_def redact_reference split: pyval.splits if_splits)

lemma redact_entries:
  "\<forall>e \<in> set (entries (redact_doc v)). entry_masked e"
  "\<forall>e \<in> set (entries_dict (redact_dict d)). entry_masked e"
  "\<forall>e \<in> set (entries_list (redact_list xs)). entry_masked e"
proof (induction v and d and xs rule: redact_doc_redact_dict_redact_list.induct)
  case (6 k v d)
  then show ?case
    using masked_kept [of k v] by (auto simp: entry_masked_def)
qed auto

section \<open>The walk finds every literal credential\<close>

text \<open>
  \<open>creds_ok v ic\<close>: no entry of \<open>v\<close> is a literal where a reference belongs, \<open>ic\<close> telling whether
  \<open>v\<close> stands under a \<^verbatim>\<open>credentials\<close> segment.
\<close>

fun creds_ok :: "(pyval \<Rightarrow> string) \<Rightarrow> pyval \<Rightarrow> bool \<Rightarrow> bool"
  and creds_ok_dict :: "(pyval \<Rightarrow> string) \<Rightarrow> pydict \<Rightarrow> bool \<Rightarrow> bool"
  and creds_ok_list :: "(pyval \<Rightarrow> string) \<Rightarrow> pyval list \<Rightarrow> bool \<Rightarrow> bool"
where
  "creds_ok show (PDict d) ic = creds_ok_dict show d ic"
| "creds_ok show (PList xs) ic = creds_ok_list show xs ic"
| "creds_ok show _ ic = True"
| "creds_ok_dict show [] ic = True"
| "creds_ok_dict show ((k, v) # d) ic =
     (\<not> credential_leaf (py_text show k) v ic \<and>
      creds_ok show v (ic \<or> lower (py_text show k) = ''credentials'') \<and> creds_ok_dict show d ic)"
| "creds_ok_list show [] ic = True"
| "creds_ok_list show (v # xs) ic = (creds_ok show v ic \<and> creds_ok_list show xs ic)"

lemma out_default_ne: "out_default k f out \<noteq> []"
  by (auto simp: out_default_def)

lemma walk_Nil_iff:
  "walk show v p ic out = [] \<longleftrightarrow> out = [] \<and> creds_ok show v ic"
  "walk_dict show d p ic out = [] \<longleftrightarrow> out = [] \<and> creds_ok_dict show d ic"
  "walk_list show xs i p ic out = [] \<longleftrightarrow> out = [] \<and> creds_ok_list show xs ic"
  by (induction v p ic out and d p ic out and xs i p ic out rule: walk_walk_dict_walk_list.induct)
     (auto simp: Let_def out_default_ne)

lemma credential_findings_Nil_iff: "credential_findings show doc = [] \<longleftrightarrow> creds_ok show doc False"
proof -
  have "sort_key f xs = [] \<longleftrightarrow> xs = []" for f :: "string \<times> finding \<Rightarrow> string" and xs
    by (metis length_0_conv length_sort)
  then show ?thesis by (simp add: credential_findings_def walk_Nil_iff)
qed

lemma username_no_key: "lower n = ''username'' \<Longrightarrow> \<not> credential_key n"
proof -
  have "\<not> credential_key ''username''" by code_simp
  moreover have "lower ''username'' = ''username''" by code_simp
  ultimately show "lower n = ''username'' \<Longrightarrow> \<not> credential_key n"
    using credential_key_lower [of n "''username''"] by simp
qed

lemma creds_ok_entries:
  "creds_ok show v ic \<Longrightarrow> \<forall>e \<in> set (entries v). \<not> is_masked_scalar (fst e) (snd e)"
  "creds_ok_dict show d ic \<Longrightarrow> \<forall>e \<in> set (entries_dict d). \<not> is_masked_scalar (fst e) (snd e)"
  "creds_ok_list show xs ic \<Longrightarrow> \<forall>e \<in> set (entries_list xs). \<not> is_masked_scalar (fst e) (snd e)"
proof (induction v ic and d ic and xs ic rule: creds_ok_creds_ok_dict_creds_ok_list.induct)
  case (5 sh k v d ic)
  have "\<not> is_masked_scalar k v"
    using 5(3) username_no_key
    by (auto simp: is_masked_scalar_def credential_leaf_def non_secret_keys_def split: pyval.splits if_splits)
  with 5 show ?case by auto
qed auto

section \<open>The redactor\<close>

lemma redact_keys:
  "map fst (entries (redact_doc v)) = map fst (entries v)"
  "map fst (entries_dict (redact_dict d)) = map fst (entries_dict d)"
  "map fst (entries_list (redact_list xs)) = map fst (entries_list xs)"
proof (induction v and d and xs rule: redact_doc_redact_dict_redact_list.induct)
  case (6 k v d)
  have "entries v = []" if "is_masked_scalar k v"
    using that by (cases v) (auto simp: is_masked_scalar_def split: pyval.splits if_splits)
  with 6 show ?case by auto
qed auto


end
