(* ===== verification/VcfDevices.thy ===== *)
theory VcfDevices
  imports VcfDoc
begin

text \<open>
  The facts about device identifiers of \<^verbatim>\<open>vcfspec/rules/devices.py\<close>: which boot disks are stable, that no
  two roles of a host name one device, and whether the declared memory tiering can happen. A float is a
  rational or a special value, and \<^verbatim>\<open>round\<close> of a special value raises.
\<close>

section \<open>Numbers\<close>

text \<open>\<^verbatim>\<open>float(v) if isinstance(v, (int, float)) else 0.0\<close>: an integer beyond the range of floats raises.\<close>

definition to_float :: "pyval \<Rightarrow> pyfloat res" where
  "to_float v =
     (case v of
        PInt i \<Rightarrow> (if \<bar>i\<bar> < float_limit then Inr (Fin (of_int i)) else Inl OverflowError)
      | PBool b \<Rightarrow> Inr (Fin (if b then 1 else 0))
      | PFloat f \<Rightarrow> Inr f
      | _ \<Rightarrow> Inr (Fin 0))"

fun float_integer :: "pyfloat \<Rightarrow> bool" where
  "float_integer (Fin r) = (r = of_int \<lfloor>r\<rfloor>)"
| "float_integer _ = False"

definition plain :: "(pyval \<Rightarrow> string) \<Rightarrow> pyfloat \<Rightarrow> string" where
  "plain shw f =
     (case f of
        Fin r \<Rightarrow> if float_integer f then show_int \<lfloor>r\<rfloor> else shw (PFloat f)
      | _ \<Rightarrow> shw (PFloat f))"

text \<open>The ratio is rounded; a quotient that is not finite cannot be.\<close>

definition tier_ratio_pct :: "pyfloat \<Rightarrow> pyfloat \<Rightarrow> int res" where
  "tier_ratio_pct tier ram =
     (if fle ram (Fin 0) then Inr 0
      else case tier of
        NaN \<Rightarrow> Inl ValueError
      | Fin a \<Rightarrow>
          (case ram of
             Fin b \<Rightarrow> Inr (round_half_even (a / b * 100))
           | NaN \<Rightarrow> Inl ValueError
           | _ \<Rightarrow> Inr 0)
      | _ \<Rightarrow>
          (case ram of
             Fin b \<Rightarrow> Inl OverflowError
           | _ \<Rightarrow> Inl ValueError))"

section \<open>Selectors\<close>

definition disk_path_prefix :: string where
  "disk_path_prefix = ''/vmfs/devices/disks/''"

definition stable_disk_re :: rx where
  "stable_disk_re =
     cats [Bos, opt (lit disk_path_prefix), alts [lit ''t10.'', lit ''eui.'', lit ''naa.''],
           plus (Cls (\<lambda>c. \<not> is_space c)), Eos]"

definition runtime_disk_re :: rx where
  "runtime_disk_re =
     Alt (cats [Bos, opt (liti disk_path_prefix), opt (liti ''mpx.''), liti ''vmhba'', plus (Cls is_digit),
                liti '':C'', plus (Cls is_digit), liti '':T'', plus (Cls is_digit), liti '':L'',
                plus (Cls is_digit), Eos])
         (cats [Bos, opt (liti disk_path_prefix), liti ''mpx.''])"

definition stable_disk :: "string \<Rightarrow> bool" where
  "stable_disk s = (re_match stable_disk_re s \<noteq> None)"

definition runtime_disk :: "string \<Rightarrow> bool" where
  "runtime_disk s = (re_match runtime_disk_re s \<noteq> None)"

definition device_key :: "string \<Rightarrow> string" where
  "device_key s = (if startswith s disk_path_prefix then drop (length disk_path_prefix) s else s)"

definition device_path :: "string \<Rightarrow> string" where
  "device_path s = (if startswith s disk_path_prefix then s else disk_path_prefix @ s)"

definition boot_disk_finding :: "string \<Rightarrow> string \<Rightarrow> string \<Rightarrow> finding option" where
  "boot_disk_finding selector path host =
     (if startswith selector ''--firstdisk'' then
        Some (finding_for ''VCF-PROV-BOOT-DISK-FIRSTDISK'' path [(''host'', PStr host), (''selector'', PStr selector)])
      else if runtime_disk selector then
        Some (finding_for ''VCF-PROV-BOOT-DISK-RUNTIME-NAME'' path [(''host'', PStr host), (''selector'', PStr selector)])
      else if \<not> stable_disk selector then
        Some (finding_for ''VCF-PROV-BOOT-DISK-NOT-STABLE'' path [(''host'', PStr host), (''selector'', PStr selector)])
      else None)"

fun collision_loop :: "(string \<times> string) list \<Rightarrow> (string \<times> string) list \<Rightarrow> string \<Rightarrow> string \<Rightarrow> finding option" where
  "collision_loop [] seen path host = None"
| "collision_loop ((field, selector) # roles) seen path host =
     (case map_of seen (device_key selector) of
        Some first \<Rightarrow>
          Some (finding_for ''VCF-PROV-DEVICE-COLLISION'' path
            [(''host'', PStr host), (''device'', PStr selector), (''first'', PStr first), (''second'', PStr field)])
      | None \<Rightarrow> collision_loop roles ((device_key selector, field) # seen) path host)"

definition collision_finding :: "(string \<times> string) list \<Rightarrow> string \<Rightarrow> string \<Rightarrow> finding option" where
  "collision_finding roles path host = collision_loop roles [] path host"

section \<open>Memory tiering\<close>

definition max_tier_ratio_pct :: int where
  "max_tier_ratio_pct = 400"

definition min_tier_ratio_pct :: int where
  "min_tier_ratio_pct = 1"

definition tiering_device :: "(pyval \<Rightarrow> string) \<Rightarrow> pydict \<Rightarrow> string" where
  "tiering_device shw hw =
     (let v = dget hw ''memoryTieringDevice'' in if truthy v then py_text shw v else [])"

definition tiering_findings :: "(pyval \<Rightarrow> string) \<Rightarrow> pydict \<Rightarrow> string \<Rightarrow> string \<Rightarrow> finding list res" where
  "tiering_findings shw hw path host =
     bind_res (to_float (dget hw ''memoryTieringGb'')) (\<lambda>tier.
       if fle tier (Fin 0) then Inr []
       else
         let device = tiering_device shw hw in
         if device = [] then
           Inr [finding_for ''VCF-PROV-NO-TIERING-DEVICE'' path [(''host'', PStr host), (''tier'', PStr (plain shw tier))]]
         else if \<not> stable_disk device then
           Inr [finding_for ''VCF-PROV-TIERING-DEVICE-NOT-STABLE'' (path @ ''/memoryTieringDevice'')
                  [(''host'', PStr host), (''selector'', PStr device)]]
         else
           bind_res (to_float (dget hw ''ramGb'')) (\<lambda>ram.
           bind_res (tier_ratio_pct tier ram) (\<lambda>ratio.
             if min_tier_ratio_pct \<le> ratio \<and> ratio \<le> max_tier_ratio_pct then Inr []
             else Inr [finding_for ''VCF-PROV-TIERING-RATIO-UNSUPPORTED'' (path @ ''/memoryTieringGb'')
                         [(''host'', PStr host), (''ratio'', PInt ratio), (''tier'', PStr (plain shw tier)),
                          (''ram'', PStr (plain shw ram))]])))"

section \<open>Every host\<close>

definition device_roles :: "(pyval \<Rightarrow> string) \<Rightarrow> pydict \<Rightarrow> pydict \<Rightarrow> (string \<times> string) list" where
  "device_roles shw host hw =
     List.map_filter (\<lambda>(field, v). if truthy v then Some (field, py_text shw v) else None)
       [(''bootDisk'', dget host ''bootDisk''), (''vsanDevice'', dget hw ''vsanDevice''),
        (''memoryTieringDevice'', dget hw ''memoryTieringDevice'')]"

definition boot_disk_of :: "(pyval \<Rightarrow> string) \<Rightarrow> pydict \<Rightarrow> string" where
  "boot_disk_of shw host = (let v = dget host ''bootDisk'' in if truthy v then py_text shw v else [])"

definition host_device_findings :: "(pyval \<Rightarrow> string) \<Rightarrow> nat \<Rightarrow> pydict \<Rightarrow> finding list res" where
  "host_device_findings shw i host =
     (let name = py_text shw (dget_or host ''name'' (PStr []));
          path = ''/hosts/'' @ show_nat i;
          hw = as_mapping (dget host ''hardware'');
          boot = boot_disk_of shw host;
          f1 = (if boot = [] then [finding_for ''VCF-PROV-NO-BOOT-DISK'' path [(''host'', PStr name)]]
                else (case boot_disk_finding boot (path @ ''/bootDisk'') name of None \<Rightarrow> [] | Some f \<Rightarrow> [f]));
          f2 = (case collision_finding (device_roles shw host hw) path name of None \<Rightarrow> [] | Some f \<Rightarrow> [f])
      in bind_res (tiering_findings shw hw (path @ ''/hardware'') name) (\<lambda>f3. Inr (f1 @ f2 @ f3)))"

definition device_findings :: "(pyval \<Rightarrow> string) \<Rightarrow> pydict \<Rightarrow> finding list res" where
  "device_findings shw invt =
     bind_res (map_res (\<lambda>(i, h). host_device_findings shw i (as_mapping h))
                 (enumerate 0 (as_sequence (dget invt ''hosts''))))
       (\<lambda>fss. Inr (concat fss))"

section \<open>What passes\<close>

definition boot_disk_safe :: "string \<Rightarrow> bool" where
  "boot_disk_safe s = (\<not> startswith s ''--firstdisk'' \<and> \<not> runtime_disk s \<and> stable_disk s)"

lemma boot_disk_finding_None: "boot_disk_finding s path host = None \<longleftrightarrow> boot_disk_safe s"
  unfolding boot_disk_finding_def boot_disk_safe_def by simp

lemma collision_loop_None:
  "collision_loop roles seen path host = None \<longleftrightarrow>
     distinct (map (device_key \<circ> snd) roles) \<and>
     (\<forall>r \<in> set roles. device_key (snd r) \<notin> fst ` set seen)"
  by (induction roles seen path host rule: collision_loop.induct)
     (auto split: option.splits simp: map_of_eq_None_iff dest!: map_of_SomeD intro: rev_image_eqI)

lemma collision_finding_None:
  "collision_finding roles path host = None \<longleftrightarrow> distinct (map (device_key \<circ> snd) roles)"
  by (simp add: collision_finding_def collision_loop_None)

text \<open>A path and a bare identifier of one device have one key.\<close>

lemma device_key_path: "device_key (device_path s) = device_key s"
  by (simp add: device_key_def device_path_def)

lemma cp_newline:
  assumes "cp c = 10"
  shows "c = CHR 0x0A"
proof -
  have "char_of (cp c) = c" by (rule char_of_char)
  moreover have "char_of (10 :: nat) = CHR 0x0A" by code_simp
  ultimately show ?thesis using assms by simp
qed

lemma may_eat_lit: "may_eat (lit w) c \<longleftrightarrow> c \<in> set w"
  by (induction w) auto

lemma stable_disk_chars:
  assumes "stable_disk s"
  shows "\<exists>t. (s = t \<or> s = t @ [CHR 0x0A]) \<and> t \<noteq> [] \<and> list_all (\<lambda>c. \<not> is_space c) t"
proof -
  from assms obtain st where st: "st \<in> set (mt stable_disk_re (mstart s))"
    by (auto simp: stable_disk_def re_match_def split: list.splits)
  have eats: "eats (may_eat stable_disk_re) (min_len stable_disk_re) (mstart s) st"
    by (rule mt_eats [OF st])
  have "at_end_dollar st" by (rule ends_eos_end [OF _ st]) (simp add: stable_disk_re_def)
  then have tail: "ahead st = [] \<or> ahead st = [CHR 0x0A]"
    by (auto simp: at_end_dollar_def length_Suc_conv dest: cp_newline)
  have no_space: "list_all (\<lambda>c. \<not> is_space c) (disk_path_prefix @ ''t10.eui.naa.'')" by code_simp
  have "c \<in> set (disk_path_prefix @ ''t10.eui.naa.'') \<or> \<not> is_space c" if "may_eat stable_disk_re c" for c
    using that by (auto simp: stable_disk_re_def may_eat_lit)
  with no_space have chars: "\<not> is_space c" if "may_eat stable_disk_re c" for c
    using that by (auto simp: list_all_iff)
  have len: "0 < min_len stable_disk_re"
    by (simp add: stable_disk_re_def disk_path_prefix_def)
  from eats obtain w where w: "s = w @ ahead st" "list_all (may_eat stable_disk_re) w"
      "min_len stable_disk_re \<le> length w"
    by (auto simp: eats_def mstart_def)
  have "w \<noteq> []" using w(3) len by auto
  moreover have "list_all (\<lambda>c. \<not> is_space c) w" using w(2) chars by (auto simp: list_all_iff)
  ultimately show ?thesis using w(1) tail by auto
qed

end
