(* ===== verification/VcfNet.thy ===== *)
theory VcfNet
  imports VcfDoc WebFetch
begin

text \<open>
  The network rules of \<^verbatim>\<open>vcfspec/rules/network.py\<close> over an inventory that may have failed its
  schema: gateways, overlapping subnets, reused VLANs, the fabric MTU, host addresses and the sizes
  of the address pools. Addresses and networks are read the way Python's \<^verbatim>\<open>ipaddress\<close> reads them.
\<close>

section \<open>Reading addresses and networks\<close>

definition parse_octet :: "string \<Rightarrow> nat option" where
  "parse_octet s =
     (if s = [] \<or> \<not> list_all is_digit s \<or> length s > 3 \<or> (s \<noteq> ''0'' \<and> hd s = CHR ''0'') then None
      else if nat_of_digits s > 255 then None else Some (nat_of_digits s))"

definition parse_ip4 :: "string \<Rightarrow> (32 word) option" where
  "parse_ip4 s =
     (case map parse_octet (split_char (CHR ''.'') s) of
        [Some a, Some b, Some c, Some d] \<Rightarrow>
          Some (word_of_int (int (((a * 256 + b) * 256 + c) * 256 + d)))
      | _ \<Rightarrow> None)"

definition hex_digit :: "char \<Rightarrow> nat option" where
  "hex_digit c =
     (if is_digit c then Some (cp c - 48)
      else if 97 \<le> cp c \<and> cp c \<le> 102 then Some (cp c - 87)
      else if 65 \<le> cp c \<and> cp c \<le> 70 then Some (cp c - 55) else None)"

definition parse_hextet :: "string \<Rightarrow> nat option" where
  "parse_hextet s =
     (if s = [] \<or> length s > 4 \<or> \<not> list_all (\<lambda>c. hex_digit c \<noteq> None) s then None
      else Some (foldl (\<lambda>n c. n * 16 + the (hex_digit c)) 0 s))"

text \<open>The hextets of the parts, an IPv4 tail in the last part giving two.\<close>

definition ip6_parts :: "string list \<Rightarrow> (string + nat) list option" where
  "ip6_parts parts =
     (if List.member (last parts) (CHR ''.'') then
        (case parse_ip4 (last parts) of
           None \<Rightarrow> None
         | Some w \<Rightarrow> Some (map Inl (butlast parts) @
             [Inr (unat (drop_bit 16 w)), Inr (unat w mod 65536)]))
      else Some (map Inl parts))"

fun part_value :: "string + nat \<Rightarrow> nat option" where
  "part_value (Inl s) = parse_hextet s"
| "part_value (Inr n) = Some n"

definition parts_value :: "(string + nat) list \<Rightarrow> nat option" where
  "parts_value ps =
     (if list_all (\<lambda>p. part_value p \<noteq> None) ps
      then Some (foldl (\<lambda>n p. n * 65536 + the (part_value p)) 0 ps) else None)"

definition empty_part :: "string + nat \<Rightarrow> bool" where
  "empty_part p = (p = Inl [])"

definition parse_ip6 :: "string \<Rightarrow> (128 word) option" where
  "parse_ip6 s =
     (let parts = split_char (CHR '':'') s in
      if length parts < 3 then None
      else case ip6_parts parts of
        None \<Rightarrow> None
      | Some ps \<Rightarrow>
          if length ps > 9 then None
          else case filter (\<lambda>i. empty_part (ps ! i)) [1..<length ps - 1] of
            [] \<Rightarrow>
              if length ps \<noteq> 8 then None
              else map_option (\<lambda>n. word_of_int (int n)) (parts_value ps)
          | [i] \<Rightarrow>
              let lead = take i ps; tail = drop (Suc i) ps;
                  hi = (if empty_part (hd ps) then butlast lead else lead);
                  lo = (if empty_part (last ps) then butlast tail else tail)
              in if (empty_part (hd ps) \<and> hi \<noteq> []) \<or> (empty_part (last ps) \<and> lo \<noteq> [])
                    \<or> length hi + length lo > 7 then None
                 else (case (parts_value hi, parts_value lo) of
                         (Some a, Some b) \<Rightarrow>
                           Some (word_of_int (int (a * 2 ^ (16 * (8 - length hi)) + b)))
                       | _ \<Rightarrow> None)
          | _ \<Rightarrow> None)"

text \<open>A scope after \<^verbatim>\<open>%\<close> is dropped; it may be neither empty nor hold another \<^verbatim>\<open>%\<close>.\<close>

definition parse_ip6_scoped :: "string \<Rightarrow> (128 word) option" where
  "parse_ip6_scoped s =
     (case partition_char (CHR ''%'') s of
        (addr, found, scope) \<Rightarrow>
          if List.member s (CHR ''/'') then None
          else if \<not> found then parse_ip6 addr
          else if scope = [] \<or> List.member scope (CHR ''%'') then None
          else parse_ip6 addr)"

definition int_address :: "int \<Rightarrow> ip option" where
  "int_address i =
     (if 0 \<le> i \<and> i < 2 ^ 32 then Some (V4 (word_of_int i))
      else if 0 \<le> i \<and> i < 2 ^ 128 then Some (V6 (word_of_int i)) else None)"

definition as_address :: "pyval \<Rightarrow> ip option" where
  "as_address v =
     (case v of
        PStr s \<Rightarrow>
          (case parse_ip4 s of
             Some w \<Rightarrow> Some (V4 w)
           | None \<Rightarrow> map_option V6 (parse_ip6_scoped s))
      | PInt i \<Rightarrow> int_address i
      | PBool b \<Rightarrow> int_address (if b then 1 else 0)
      | _ \<Rightarrow> None)"

fun ip_int :: "ip \<Rightarrow> int" where
  "ip_int (V4 w) = uint w"
| "ip_int (V6 w) = uint w"

fun ip_bits :: "ip \<Rightarrow> nat" where
  "ip_bits (V4 _) = 32"
| "ip_bits (V6 _) = 128"

definition parse_prefix :: "nat \<Rightarrow> string \<Rightarrow> nat option" where
  "parse_prefix bits s =
     (if s = [] \<or> \<not> list_all is_digit s \<or> nat_of_digits s > bits then None else Some (nat_of_digits s))"

text \<open>The prefix a netmask stands for, or a host mask.\<close>

definition mask4 :: "nat \<Rightarrow> 32 word" where
  "mask4 p = push_bit (32 - p) (- 1)"

definition prefix_of_mask :: "32 word \<Rightarrow> nat option" where
  "prefix_of_mask m =
     (case find (\<lambda>p. mask4 p = m) [0..<33] of
        Some p \<Rightarrow> Some p
      | None \<Rightarrow> find (\<lambda>p. mask4 p = NOT m) [0..<33])"

definition prefix4 :: "string \<Rightarrow> nat option" where
  "prefix4 s =
     (case parse_prefix 32 s of
        Some p \<Rightarrow> Some p
      | None \<Rightarrow> (case parse_ip4 s of None \<Rightarrow> None | Some m \<Rightarrow> prefix_of_mask m))"

text \<open>The network of an address: its host bits are cleared.\<close>

fun net_of :: "ip \<Rightarrow> nat \<Rightarrow> net" where
  "net_of (V4 w) p = (V4 (push_bit (32 - p) (drop_bit (32 - p) w)), p)"
| "net_of (V6 w) p = (V6 (push_bit (128 - p) (drop_bit (128 - p) w)), p)"

definition parse_net :: "string \<Rightarrow> net option" where
  "parse_net s =
     (let parts = split_char (CHR ''/'') s;
          read4 = (case parts of
              [a] \<Rightarrow> (case parse_ip4 a of Some w \<Rightarrow> Some (net_of (V4 w) 32) | None \<Rightarrow> None)
            | [a, m] \<Rightarrow> (case (parse_ip4 a, prefix4 m) of
                            (Some w, Some p) \<Rightarrow> Some (net_of (V4 w) p) | _ \<Rightarrow> None)
            | _ \<Rightarrow> None)
      in case read4 of
           Some n \<Rightarrow> Some n
         | None \<Rightarrow>
             (case parts of
                [a] \<Rightarrow> (case parse_ip6_scoped a of Some w \<Rightarrow> Some (net_of (V6 w) 128) | None \<Rightarrow> None)
              | [a, m] \<Rightarrow> (case (parse_ip6_scoped a, parse_prefix 128 m) of
                              (Some w, Some p) \<Rightarrow> Some (net_of (V6 w) p) | _ \<Rightarrow> None)
              | _ \<Rightarrow> None))"

definition as_network :: "pyval \<Rightarrow> net option" where
  "as_network v =
     (case v of
        PStr s \<Rightarrow> parse_net s
      | PInt i \<Rightarrow> map_option (\<lambda>a. net_of a (ip_bits a)) (int_address i)
      | PBool b \<Rightarrow> map_option (\<lambda>a. net_of a (ip_bits a)) (int_address (if b then 1 else 0))
      | _ \<Rightarrow> None)"

fun broadcast :: "net \<Rightarrow> ip" where
  "broadcast (V4 w, p) = V4 (w OR mask (32 - p))"
| "broadcast (V6 w, p) = V6 (w OR mask (128 - p))"

definition net_overlaps :: "net \<Rightarrow> net \<Rightarrow> bool" where
  "net_overlaps m n =
     (in_net (fst n) m \<or> in_net (broadcast n) m \<or> in_net (fst m) n \<or> in_net (broadcast m) n)"

section \<open>Comparing and sorting keys\<close>

text \<open>
  A dictionary key or a set member: numbers that compare equal are one key, and a list or a
  dictionary cannot be one.
\<close>

definition hash_key :: "pyval \<Rightarrow> pyval res" where
  "hash_key v =
     (case v of
        PBool b \<Rightarrow> Inr (PInt (if b then 1 else 0))
      | PFloat (Fin r) \<Rightarrow> Inr (if r = of_int \<lfloor>r\<rfloor> then PInt \<lfloor>r\<rfloor> else v)
      | PList _ \<Rightarrow> Inl TypeError
      | PDict _ \<Rightarrow> Inl TypeError
      | _ \<Rightarrow> Inr v)"

fun num_key :: "pyval \<Rightarrow> rat option" where
  "num_key (PInt i) = Some (of_int i)"
| "num_key (PBool b) = Some (if b then 1 else 0)"
| "num_key (PFloat (Fin r)) = Some r"
| "num_key _ = None"

text \<open>
  \<^verbatim>\<open>sorted\<close> of items with distinct keys: texts sort among themselves and numbers among
  themselves; any other pair of keys cannot be compared.
\<close>

definition sorted_items :: "(pyval \<times> 'a) list \<Rightarrow> (pyval \<times> 'a) list res" where
  "sorted_items items =
     (if length items \<le> 1 then Inr items
      else if list_all (\<lambda>p. is_pstr (fst p)) items then Inr (sort_key (\<lambda>p. the (as_str (fst p))) items)
      else if list_all (\<lambda>p. num_key (fst p) \<noteq> None) items
           then Inr (sort_key (\<lambda>p. the (num_key (fst p))) items)
      else Inl TypeError)"

lemma sorted_items_set: "sorted_items items = Inr ys \<Longrightarrow> set ys = set items \<and> length ys = length items"
  by (auto simp: sorted_items_def split: if_splits)

section \<open>The usable networks\<close>

definition tep_mtu_min :: int where
  "tep_mtu_min = 1600"

definition teps_per_host :: int where
  "teps_per_host = 2"

definition ip_pool_required :: "string list" where
  "ip_pool_required = [''vmotion'', ''vsan'']"

definition excluded_last_octets :: "int list" where
  "excluded_last_octets = [0, 255]"

record usable_net =
  un_net :: net
  un_vlan :: pyval
  un_gateway :: pyval
  un_subnet :: pyval

type_synonym usable = "(pyval \<times> usable_net) list"

definition usable_networks :: "pydict \<Rightarrow> usable" where
  "usable_networks invt =
     (let out = List.map_filter (\<lambda>(purpose, entry).
                 (case entry of
                    PDict e \<Rightarrow>
                      (case as_network (dget e ''subnet'') of
                         None \<Rightarrow> None
                       | Some n \<Rightarrow> Some (purpose, \<lparr>un_net = n, un_vlan = dget e ''vlan'',
                                     un_gateway = dget e ''gateway'', un_subnet = dget e ''subnet''\<rparr>))
                  | _ \<Rightarrow> None)) (as_mapping (dget invt ''networks''));
          nsx = as_mapping (dget invt ''nsx'');
          tep = as_mapping (dget nsx ''tepPool'')
      in case as_network (dget tep ''cidr'') of
           None \<Rightarrow> out
         | Some n \<Rightarrow> alist_put (PStr ''nsx.tepPool'')
                       \<lparr>un_net = n, un_vlan = dget nsx ''transportVlanId'', un_gateway = dget tep ''gateway'',
                        un_subnet = dget tep ''cidr''\<rparr> out)"

section \<open>The rules\<close>

definition gateway_rules :: "(pyval \<Rightarrow> string) \<Rightarrow> usable \<Rightarrow> finding list res" where
  "gateway_rules show nets =
     bind_res (sorted_items nets) (\<lambda>items. Inr (List.map_filter (\<lambda>(purpose, e).
       (case as_address (un_gateway e) of
          None \<Rightarrow> None
        | Some g \<Rightarrow>
            if in_net g (un_net e) then None
            else Some (finding_for ''VCF-NET-GATEWAY-OUTSIDE-SUBNET''
                   (''/networks/'' @ py_text show purpose @ ''/gateway'')
                   [(''gateway'', un_gateway e), (''subnet'', un_subnet e), (''purpose'', purpose)]))) items))"

fun overlap_pairs :: "(pyval \<Rightarrow> string) \<Rightarrow> usable \<Rightarrow> finding list" where
  "overlap_pairs show [] = []"
| "overlap_pairs show ((purpose, e) # items) =
     List.map_filter (\<lambda>(other, o').
       if net_overlaps (un_net e) (un_net o') then
         Some (finding_for ''VCF-NET-SUBNET-OVERLAP'' (''/networks/'' @ py_text show purpose @ ''/subnet'')
           [(''purpose'', purpose), (''subnet'', un_subnet e), (''other'', other), (''other_subnet'', un_subnet o')])
       else None) items @ overlap_pairs show items"

definition overlap_rules :: "(pyval \<Rightarrow> string) \<Rightarrow> usable \<Rightarrow> finding list res" where
  "overlap_rules show nets = bind_res (sorted_items nets) (\<lambda>items. Inr (overlap_pairs show items))"

text \<open>A VLAN that is not a number equal to itself is never found again.\<close>

fun vlan_loop :: "(pyval \<Rightarrow> string) \<Rightarrow> usable \<Rightarrow> (pyval \<times> pyval) list \<Rightarrow> finding list res" where
  "vlan_loop show [] seen = Inr []"
| "vlan_loop show ((purpose, e) # items) seen =
     (if un_vlan e = PNone then vlan_loop show items seen
      else bind_res (hash_key (un_vlan e)) (\<lambda>k.
        case (if k = PFloat NaN then None else map_of seen k) of
          Some other \<Rightarrow>
            bind_res (vlan_loop show items seen) (\<lambda>fs.
              Inr (finding_for ''VCF-NET-VLAN-REUSED'' (''/networks/'' @ py_text show purpose @ ''/vlan'')
                [(''vlan'', un_vlan e), (''purpose'', purpose), (''other'', other)] # fs))
        | None \<Rightarrow> vlan_loop show items ((k, purpose) # seen)))"

definition vlan_rules :: "(pyval \<Rightarrow> string) \<Rightarrow> usable \<Rightarrow> finding list res" where
  "vlan_rules show nets = bind_res (sorted_items nets) (\<lambda>items. vlan_loop show items [])"

fun int_of :: "pyval \<Rightarrow> int option" where
  "int_of (PInt i) = Some i"
| "int_of (PBool b) = Some (if b then 1 else 0)"
| "int_of _ = None"

definition mtu_rules :: "pydict \<Rightarrow> finding list" where
  "mtu_rules invt =
     (let mtu = dget (as_mapping (dget invt ''nsx'')) ''fabricMtu'' in
      case int_of mtu of
        None \<Rightarrow> []
      | Some i \<Rightarrow> if i < tep_mtu_min
                   then [finding_for ''VCF-NSX-FABRIC-MTU-TOO-LOW'' ''/nsx/fabricMtu'' [(''mtu'', mtu)]] else [])"

text \<open>The hosts with their positions.\<close>

definition hosts_of :: "pydict \<Rightarrow> (nat \<times> pyval) list" where
  "hosts_of invt = enumerate 0 (as_sequence (dget invt ''hosts''))"

definition host_label :: "nat \<Rightarrow> pydict \<Rightarrow> pyval" where
  "host_label i h = dget_or h ''name'' (PStr (''hosts['' @ show_nat i @ '']''))"

text \<open>The findings of one host's address, and the names that gave an address.\<close>

fun host_loop :: "(pyval \<Rightarrow> string) \<Rightarrow> usable_net option \<Rightarrow> (nat \<times> pyval) list \<Rightarrow> (string \<times> pyval list) list
    \<Rightarrow> finding list \<times> (string \<times> pyval list) list" where
  "host_loop show mgmt [] seen = ([], seen)"
| "host_loop show mgmt ((i, hv) # hs) seen =
     (case hv of
        PDict h \<Rightarrow>
          (case as_address (dget h ''mgmtIp'') of
             None \<Rightarrow> host_loop show mgmt hs seen
           | Some a \<Rightarrow>
               let ip = dget h ''mgmtIp''; name = host_label i h; key = py_text show ip;
                   seen' = alist_put key ((case map_of seen key of None \<Rightarrow> [] | Some ns \<Rightarrow> ns) @ [name]) seen;
                   out = (case mgmt of
                       None \<Rightarrow> []
                     | Some e \<Rightarrow> if in_net a (un_net e) then []
                                 else [finding_for ''VCF-NET-HOST-IP-OUTSIDE-SUBNET''
                                         (''/hosts/'' @ show_nat i @ ''/mgmtIp'')
                                         [(''name'', name), (''ip'', ip), (''subnet'', un_subnet e)]]);
                   rest = host_loop show mgmt hs seen'
               in (out @ fst rest, snd rest))
      | _ \<Rightarrow> host_loop show mgmt hs seen)"

text \<open>The names are sorted and joined, which only texts allow.\<close>

fun dup_rules :: "(string \<times> pyval list) list \<Rightarrow> finding list res" where
  "dup_rules [] = Inr []"
| "dup_rules ((ip, owners) # rest) =
     (if length owners > 1 then
        (if list_all is_pstr owners then
           bind_res (dup_rules rest) (\<lambda>fs.
             Inr (finding_for ''VCF-NET-DUPLICATE-IP'' ''/hosts''
                [(''ip'', PStr ip), (''where'', PStr (join '', '' (sort (map (\<lambda>v. the (as_str v)) owners))))] # fs))
         else Inl TypeError)
      else dup_rules rest)"

definition host_rules :: "(pyval \<Rightarrow> string) \<Rightarrow> pydict \<Rightarrow> usable \<Rightarrow> finding list res" where
  "host_rules show invt nets =
     (let (out, seen) = host_loop show (map_of nets (PStr ''management'')) (hosts_of invt) [] in
      bind_res (dup_rules (sort_key fst seen)) (\<lambda>fs. Inr (out @ fs)))"

definition host_count :: "pydict \<Rightarrow> int" where
  "host_count invt = int (length (as_sequence (dget invt ''hosts'')))"

definition range_size :: "pyval \<Rightarrow> int" where
  "range_size entry =
     (case entry of
        PDict e \<Rightarrow>
          (case (as_address (dget e ''start''), as_address (dget e ''end'')) of
             (Some s, Some t) \<Rightarrow> if ip_int t < ip_int s then 0 else ip_int t - ip_int s + 1
           | _ \<Rightarrow> 0)
      | _ \<Rightarrow> 0)"

definition tep_pool_rules :: "pydict \<Rightarrow> finding list" where
  "tep_pool_rules invt =
     (let pool = as_mapping (dget (as_mapping (dget invt ''nsx'')) ''tepPool'');
          ranges = (case dget pool ''ranges'' of PList rs \<Rightarrow> rs | _ \<Rightarrow> []);
          hosts = host_count invt;
          size = sum_list (map range_size ranges);
          needed = hosts * teps_per_host
      in if hosts \<noteq> 0 \<and> size < needed
         then [finding_for ''VCF-NSX-TEP-POOL-TOO-SMALL'' ''/nsx/tepPool/ranges''
                 [(''size'', PInt size), (''hosts'', PInt hosts), (''needed'', PInt needed)]]
         else [])"

definition count_congruent :: "int \<Rightarrow> int \<Rightarrow> int \<Rightarrow> int \<Rightarrow> int" where
  "count_congruent low high modulus remainder =
     (let first = low + (remainder - low) mod modulus in
      if first > high then 0 else (high - first) div modulus + 1)"

definition usable_pool_size :: "ip \<Rightarrow> ip \<Rightarrow> int" where
  "usable_pool_size start end =
     (let s = ip_int start; e = ip_int end in
      if e < s then 0
      else foldl (\<lambda>total octet. total - count_congruent s e 256 octet) (e - s + 1) excluded_last_octets)"

definition upper_char :: "char \<Rightarrow> char" where
  "upper_char c = (if is_lower_az c then char_of (cp c - 32) else c)"

text \<open>The upper case of the two purposes, plain letters.\<close>

definition upper :: "string \<Rightarrow> string" where
  "upper s = map upper_char s"

definition ip_pool_rule :: "pydict \<Rightarrow> int \<Rightarrow> string \<Rightarrow> finding option" where
  "ip_pool_rule nets hosts purpose =
     (let entry = as_mapping (dget nets purpose) in
      if entry = [] then None
      else
        let pool = as_mapping (dget entry ''pool'');
            path = ''/networks/'' @ purpose @ ''/pool'';
            names = [(''purpose'', PStr purpose), (''purpose_upper'', PStr (upper purpose))]
        in case (as_address (dget pool ''start''), as_address (dget pool ''end'')) of
             (Some s, Some t) \<Rightarrow>
               (let size = usable_pool_size s t in
                if hosts \<noteq> 0 \<and> size < hosts
                then Some (finding_for ''VCF-NET-IP-POOL-TOO-SMALL'' path
                             (names @ [(''size'', PInt size), (''hosts'', PInt hosts)]))
                else None)
           | _ \<Rightarrow> Some (finding_for ''VCF-NET-IP-POOL-MISSING'' path names))"

definition ip_pool_rules :: "pydict \<Rightarrow> finding list" where
  "ip_pool_rules invt =
     List.map_filter (ip_pool_rule (as_mapping (dget invt ''networks'')) (host_count invt)) ip_pool_required"

definition check_networks :: "(pyval \<Rightarrow> string) \<Rightarrow> pydict \<Rightarrow> finding list res" where
  "check_networks show invt =
     (let nets = usable_networks invt in
      bind_res (gateway_rules show nets) (\<lambda>f1.
      bind_res (overlap_rules show nets) (\<lambda>f2.
      bind_res (vlan_rules show nets) (\<lambda>f3.
      bind_res (host_rules show invt nets) (\<lambda>f5.
        Inr (f1 @ f2 @ f3 @ mtu_rules invt @ f5 @ tep_pool_rules invt @ ip_pool_rules invt))))))"

section \<open>Counting the addresses of a pool\<close>

lemma count_congruent_card:
  assumes m: "0 < m"
  shows "count_congruent low high m r = int (card {x \<in> {low..high}. x mod m = r mod m})"
proof -
  define first where "first = low + (r - low) mod m"
  have first_mod: "first mod m = r mod m"
    by (simp add: first_def mod_add_right_eq)
  have first_ge: "low \<le> first" and first_lt: "first < low + m"
    using m by (simp_all add: first_def)
  have set_eq: "{x \<in> {low..high}. x mod m = r mod m} = (\<lambda>k. first + k * m) ` {0..(high - first) div m}"
    if le: "first \<le> high"
  proof (intro equalityI subsetI)
    fix x assume x: "x \<in> {x \<in> {low..high}. x mod m = r mod m}"
    then have "(x - first) mod m = 0" using first_mod by (simp add: mod_diff_eq [symmetric])
    then obtain k where k: "x = first + k * m"
      by (metis add.commute diff_add_cancel dvd_def mod_0_imp_dvd mult.commute)
    have "- 1 < k"
    proof (rule ccontr)
      assume "\<not> - 1 < k"
      then have "k * m \<le> - 1 * m" using m by (intro mult_right_mono) auto
      with k x first_lt show False by auto
    qed
    moreover have "k \<le> (high - first) div m"
    proof -
      have "k * m \<le> high - first" using x k by simp
      then have "k * m div m \<le> (high - first) div m" using m by (rule zdiv_mono1)
      then show ?thesis using m by simp
    qed
    ultimately show "x \<in> (\<lambda>k. first + k * m) ` {0..(high - first) div m}" using k by auto
  next
    fix x assume "x \<in> (\<lambda>k. first + k * m) ` {0..(high - first) div m}"
    then obtain k where k: "x = first + k * m" "0 \<le> k" "k \<le> (high - first) div m"
      by (metis (mono_tags, lifting) atLeastAtMost_iff imageE)
    have "k * m \<le> (high - first) div m * m" using k(3) m by (intro mult_right_mono) simp_all
    also have "\<dots> \<le> high - first" using m by (simp add: minus_mod_eq_div_mult [symmetric])
    finally have "k * m \<le> high - first" .
    moreover have "0 \<le> k * m" using k(2) m by simp
    ultimately show "x \<in> {x \<in> {low..high}. x mod m = r mod m}"
      using k(1) first_ge first_mod by simp
  qed
  show ?thesis
  proof (cases "first \<le> high")
    case True
    have inj: "inj_on (\<lambda>k. first + k * m) {0..(high - first) div m}"
      using m by (auto simp: inj_on_def)
    have "0 \<le> (high - first) div m" using True m by (simp add: pos_imp_zdiv_nonneg_iff)
    moreover have "card {x \<in> {low..high}. x mod m = r mod m} = card {0..(high - first) div m}"
      unfolding set_eq [OF True] by (rule card_image [OF inj])
    ultimately show ?thesis
      using True by (simp only: count_congruent_def first_def [symmetric] Let_def) simp
  next
    case False
    have none: "x < low \<or> x \<ge> first" if "x mod m = r mod m" for x
    proof (rule ccontr)
      assume "\<not> (x < low \<or> x \<ge> first)"
      then have lt: "0 < first - x" "first - x < m" using first_lt by auto
      have "(first - x) mod m = 0" using that first_mod by (simp add: mod_diff_eq [symmetric])
      with lt show False by simp
    qed
    then have "{x \<in> {low..high}. x mod m = r mod m} = {}" using False by fastforce
    then show ?thesis using False by (simp only: count_congruent_def first_def [symmetric] Let_def) simp
  qed
qed

text \<open>The addresses of a pool the installer counts.\<close>

definition pool_addresses :: "ip \<Rightarrow> ip \<Rightarrow> int set" where
  "pool_addresses s t = {x \<in> {ip_int s..ip_int t}. x mod 256 \<noteq> 0 \<and> x mod 256 \<noteq> 255}"

lemma usable_pool_size_card: "usable_pool_size s t = int (card (pool_addresses s t))"
proof (cases "ip_int t < ip_int s")
  case True
  then show ?thesis by (simp add: usable_pool_size_def pool_addresses_def)
next
  case False
  let ?I = "{ip_int s..ip_int t}"
  let ?A = "{x \<in> ?I. x mod 256 = 0}" and ?B = "{x \<in> ?I. x mod 256 = 255}"
  have split: "?I = pool_addresses s t \<union> (?A \<union> ?B)"
    by (auto simp: pool_addresses_def)
  have fin: "finite (pool_addresses s t)" "finite ?A" "finite ?B"
    by (auto intro: finite_subset [of _ ?I] simp: pool_addresses_def)
  have "card ?I = card (pool_addresses s t) + card (?A \<union> ?B)"
    by (subst split, rule card_Un_disjoint) (use fin in \<open>auto simp: pool_addresses_def\<close>)
  also have "card (?A \<union> ?B) = card ?A + card ?B"
    by (rule card_Un_disjoint) (use fin in auto)
  finally have "card ?I = card (pool_addresses s t) + (card ?A + card ?B)" .
  moreover have "int (card ?I) = ip_int t - ip_int s + 1" using False by simp
  moreover have "count_congruent (ip_int s) (ip_int t) 256 0 = int (card ?A)"
    and "count_congruent (ip_int s) (ip_int t) 256 255 = int (card ?B)"
    by (simp_all add: count_congruent_card)
  ultimately show ?thesis
    using False by (simp add: usable_pool_size_def excluded_last_octets_def Let_def)
qed

section \<open>Overlapping networks share an address\<close>

lemma drop_bit_coarser:
  fixes a b :: "'w::len word"
  assumes "drop_bit m a = drop_bit m b" "m \<le> n"
  shows "drop_bit n a = drop_bit n b"
proof -
  have "drop_bit n a = drop_bit (n - m) (drop_bit m a)" "drop_bit n b = drop_bit (n - m) (drop_bit m b)"
    using assms(2) by (simp_all add: drop_bit_drop_bit)
  with assms(1) show ?thesis by simp
qed

lemma drop_bit_or_mask: "drop_bit m (w OR mask m) = drop_bit m (w :: 'w::len word)"
  by (simp add: bit_eq_iff bit_simps del: drop_bit_or)

lemma in_net_self: "in_net (fst n) n"
  by (cases n rule: broadcast.cases) simp_all

lemma in_net_broadcast: "in_net (broadcast n) n"
  by (cases n rule: broadcast.cases) (simp_all add: drop_bit_or_mask del: drop_bit_or)

lemma in_net_coarse:
  assumes "in_net a m" and "in_net a n" and "snd m \<le> snd n"
  shows "in_net (fst n) m"
proof -
  obtain x p y q where mn: "m = (x, p)" "n = (y, q)" by (cases m, cases n) auto
  have le: "32 - q \<le> 32 - p" "128 - q \<le> 128 - p" using assms(3) mn by auto
  have four: "drop_bit (32 - p) u = drop_bit (32 - p) v" if "drop_bit (32 - q) u = drop_bit (32 - q) v"
    for u v :: "32 word" using that le(1) by (rule drop_bit_coarser)
  have six: "drop_bit (128 - p) u = drop_bit (128 - p) v" if "drop_bit (128 - q) u = drop_bit (128 - q) v"
    for u v :: "128 word" using that le(2) by (rule drop_bit_coarser)
  show ?thesis
  proof (cases a)
    case (V4 u)
    with assms mn obtain u1 u2 where "x = V4 u1" "y = V4 u2" by (cases x; cases y) auto
    with assms mn V4 four [of u u2] show ?thesis by simp
  next
    case (V6 u)
    with assms mn obtain u1 u2 where "x = V6 u1" "y = V6 u2" by (cases x; cases y) auto
    with assms mn V6 six [of u u2] show ?thesis by simp
  qed
qed

lemma net_overlaps_iff: "net_overlaps m n \<longleftrightarrow> (\<exists>a. in_net a m \<and> in_net a n)"
proof
  assume "net_overlaps m n"
  then show "\<exists>a. in_net a m \<and> in_net a n"
    using in_net_self in_net_broadcast unfolding net_overlaps_def by blast
next
  assume "\<exists>a. in_net a m \<and> in_net a n"
  then obtain a where a: "in_net a m" "in_net a n" by blast
  show "net_overlaps m n"
  proof (cases "snd m \<le> snd n")
    case True
    then show ?thesis using in_net_coarse [OF a] by (simp add: net_overlaps_def)
  next
    case False
    then show ?thesis using in_net_coarse [OF a(2,1)] by (simp add: net_overlaps_def)
  qed
qed

section \<open>What an accepted inventory has\<close>

lemma map_filter_Nil: "List.map_filter f xs = [] \<longleftrightarrow> (\<forall>x \<in> set xs. f x = None)"
  by (induction xs) (auto simp: List.map_filter_simps split: option.splits)

lemma in_map_filter: "y \<in> set (List.map_filter f xs) \<longleftrightarrow> (\<exists>x \<in> set xs. f x = Some y)"
  by (induction xs) (auto simp: List.map_filter_simps split: option.splits)

lemma result_valid_append [simp]: "result_valid (fs @ gs) \<longleftrightarrow> result_valid fs \<and> result_valid gs"
  by (simp add: result_valid_def)

lemma result_valid_Nil [simp]: "result_valid []"
  by (simp add: result_valid_def)

lemma result_valid_Cons:
  "result_valid (f # fs) \<longleftrightarrow> vf_severity f \<noteq> SevCritical \<and> vf_severity f \<noteq> SevError \<and> result_valid fs"
  by (auto simp: result_valid_def blocking_def)

lemma result_valid_in: "result_valid fs \<Longrightarrow> f \<in> set fs \<Longrightarrow> vf_severity f \<noteq> SevError"
  by (auto simp: result_valid_def blocking_def list_ex_iff)

lemma net_severities:
  "the (map_of catalogue ''VCF-NET-GATEWAY-OUTSIDE-SUBNET'') = SevError"
  "the (map_of catalogue ''VCF-NET-SUBNET-OVERLAP'') = SevError"
  "the (map_of catalogue ''VCF-NET-VLAN-REUSED'') = SevError"
  "the (map_of catalogue ''VCF-NET-HOST-IP-OUTSIDE-SUBNET'') = SevError"
  "the (map_of catalogue ''VCF-NET-DUPLICATE-IP'') = SevError"
  "the (map_of catalogue ''VCF-NET-IP-POOL-MISSING'') = SevError"
  "the (map_of catalogue ''VCF-NET-IP-POOL-TOO-SMALL'') = SevError"
  by code_simp+

lemma finding_for_severity: "vf_severity (finding_for c p a) = the (map_of catalogue c)"
  by (simp add: finding_for_def)

lemma gateway_rules_ok:
  assumes "gateway_rules shw nets = Inr fs" and "result_valid fs"
    and "(purpose, e) \<in> set nets" and "as_address (un_gateway e) = Some g"
  shows "in_net g (un_net e)"
proof (rule ccontr)
  assume out: "\<not> in_net g (un_net e)"
  from assms(1) obtain items where items: "sorted_items nets = Inr items"
    by (auto simp: gateway_rules_def bind_res_Inr_iff)
  then have mem: "(purpose, e) \<in> set items" using assms(3) sorted_items_set by blast
  have "\<exists>f \<in> set fs. vf_severity f = SevError"
    using assms(1) items mem assms(4) out
    by (force simp: gateway_rules_def in_map_filter finding_for_severity net_severities)
  with assms(2) show False using result_valid_in by blast
qed

lemma overlap_pairs_ok:
  assumes "result_valid (overlap_pairs shw items)" and "i < j" and "j < length items"
  shows "\<not> net_overlaps (un_net (snd (items ! i))) (un_net (snd (items ! j)))"
  using assms
proof (induction items arbitrary: i j)
  case Nil
  then show ?case by simp
next
  case (Cons a items)
  obtain purpose e where a: "a = (purpose, e)" by (cases a)
  show ?case
  proof (cases i)
    case 0
    have mem: "items ! (j - 1) \<in> set items" using Cons.prems by (intro nth_mem) simp
    show ?thesis
    proof
      assume "net_overlaps (un_net (snd ((a # items) ! i))) (un_net (snd ((a # items) ! j)))"
      then have ov: "net_overlaps (un_net e) (un_net (snd (items ! (j - 1))))"
        using 0 Cons.prems(2) by (simp add: a nth_Cons')
      obtain other e' where o: "items ! (j - 1) = (other, e')" by (cases "items ! (j - 1)")
      have "\<exists>f \<in> set (overlap_pairs shw (a # items)). vf_severity f = SevError"
        using mem ov unfolding o
        by (force simp: a in_map_filter finding_for_severity net_severities)
      with Cons.prems(1) show False using result_valid_in by blast
    qed
  next
    case (Suc k)
    have "result_valid (overlap_pairs shw items)" using Cons.prems(1) by (simp add: a)
    then show ?thesis using Cons.IH [of k "j - 1"] Cons.prems(2,3) Suc by (simp add: nth_Cons')
  qed
qed

lemma overlap_rules_ok:
  assumes "overlap_rules shw nets = Inr fs" and "result_valid fs"
    and "(p, e) \<in> set nets" and "(q, e') \<in> set nets" and "p \<noteq> q"
  shows "\<not> (\<exists>a. in_net a (un_net e) \<and> in_net a (un_net e'))"
proof -
  from assms(1) obtain items where items: "sorted_items nets = Inr items" and fs: "fs = overlap_pairs shw items"
    by (auto simp: overlap_rules_def bind_res_Inr_iff)
  from assms(3,4) items have "(p, e) \<in> set items" "(q, e') \<in> set items"
    using sorted_items_set by blast+
  then obtain i j where ij: "i < length items" "items ! i = (p, e)" "j < length items" "items ! j = (q, e')"
    by (auto simp: in_set_conv_nth)
  then have "i < j \<or> j < i" using assms(5) by (metis linorder_neqE_nat prod.inject)
  then have "\<not> net_overlaps (un_net e) (un_net e')"
    using overlap_pairs_ok [of shw items i j] overlap_pairs_ok [of shw items j i] assms(2) ij
    by (auto simp: fs net_overlaps_def)
  then show ?thesis by (simp add: net_overlaps_iff)
qed

lemma ip_pool_rule_ok:
  assumes "ip_pool_rule nets hosts purpose = None \<or> result_valid (ip_pool_rules invt)"
    and "nets = as_mapping (dget invt ''networks'')" and "hosts = host_count invt"
    and "purpose \<in> set ip_pool_required" and "as_mapping (dget nets purpose) \<noteq> []"
  shows "\<exists>s t. as_address (dget (as_mapping (dget (as_mapping (dget nets purpose)) ''pool'')) ''start'') = Some s \<and>
      as_address (dget (as_mapping (dget (as_mapping (dget nets purpose)) ''pool'')) ''end'') = Some t \<and>
      hosts \<le> int (card (pool_addresses s t))"
proof -
  have none: "ip_pool_rule nets hosts purpose = None"
  proof (rule ccontr)
    assume "ip_pool_rule nets hosts purpose \<noteq> None"
    then obtain f where f: "ip_pool_rule nets hosts purpose = Some f" by blast
    then have "vf_severity f = SevError"
      by (auto simp: ip_pool_rule_def Let_def finding_for_severity net_severities split: if_splits option.splits)
    moreover have "f \<in> set (ip_pool_rules invt)"
      using f assms(2-4) by (auto simp: ip_pool_rules_def in_map_filter)
    ultimately show False using assms(1) f by (auto dest: result_valid_in)
  qed
  have "0 \<le> int (card A)" for A :: "int set" by simp
  then show ?thesis
    using none assms(5)
    by (auto simp: ip_pool_rule_def Let_def usable_pool_size_card split: if_splits option.splits)
qed

lemma host_loop_ok:
  assumes "result_valid (fst (host_loop shw (Some e) hs seen))"
    and "(i, PDict h) \<in> set hs" and "as_address (dget h ''mgmtIp'') = Some a"
  shows "in_net a (un_net e)"
  using assms
proof (induction shw "Some e" hs seen rule: host_loop.induct)
  case (2 sh j hv hs seen)
  show ?case
  proof (cases "(i, PDict h) = (j, hv)")
    case True
    then show ?thesis
      using "2.prems" by (auto simp: Let_def result_valid_Cons finding_for_severity net_severities split: if_splits)
  next
    case False
    with "2.prems" have mem: "(i, PDict h) \<in> set hs" by auto
    show ?thesis
    proof (cases hv)
      case (PDict d)
      then show ?thesis
        using 2 mem by (auto simp: Let_def split: option.splits if_splits)
    qed (use 2 mem in auto)
  qed
qed simp

section \<open>The property\<close>

text \<open>
  C22: When the network rules answer and nothing they report blocks, any two usable networks share no
  address, every readable gateway lies in its network, every readable host address lies in the management network,
  and the pools of vMotion and vSAN hold, not counting addresses ending in 0 or 255, one address per host.
\<close>

theorem accepted_networks:
  assumes "check_networks shw invt = Inr fs" and "result_valid fs"
  shows "(\<forall>(p, e) \<in> set (usable_networks invt). \<forall>(q, e') \<in> set (usable_networks invt).
            p \<noteq> q \<longrightarrow> \<not> (\<exists>a. in_net a (un_net e) \<and> in_net a (un_net e'))) \<and>
    (\<forall>(p, e) \<in> set (usable_networks invt). \<forall>g.
            as_address (un_gateway e) = Some g \<longrightarrow> in_net g (un_net e)) \<and>
    (\<forall>e i h a. map_of (usable_networks invt) (PStr ''management'') = Some e \<longrightarrow>
            (i, PDict h) \<in> set (hosts_of invt) \<longrightarrow> as_address (dget h ''mgmtIp'') = Some a \<longrightarrow> in_net a (un_net e)) \<and>
    (\<forall>purpose \<in> set ip_pool_required.
            as_mapping (dget (as_mapping (dget invt ''networks'')) purpose) \<noteq> [] \<longrightarrow>
            (\<exists>s t. let pool = as_mapping (dget (as_mapping (dget (as_mapping (dget invt ''networks'')) purpose)) ''pool'') in
               as_address (dget pool ''start'') = Some s \<and> as_address (dget pool ''end'') = Some t \<and>
               host_count invt \<le> int (card (pool_addresses s t))))"
proof -
  from assms(1) obtain f1 f2 f3 f5 where
      f1: "gateway_rules shw (usable_networks invt) = Inr f1" and
      f2: "overlap_rules shw (usable_networks invt) = Inr f2" and
      f5: "host_rules shw invt (usable_networks invt) = Inr f5" and
      fs: "fs = f1 @ f2 @ f3 @ mtu_rules invt @ f5 @ tep_pool_rules invt @ ip_pool_rules invt"
    by (auto simp: check_networks_def Let_def bind_res_Inr_iff)
  note ok = assms(2) [unfolded fs, simplified]
  obtain out seen where loop: "host_loop shw (map_of (usable_networks invt) (PStr ''management'')) (hosts_of invt) [] = (out, seen)"
    by fastforce
  have "result_valid out" using f5 ok loop by (auto simp: host_rules_def bind_res_Inr_iff)
  then have hosts: "in_net a (un_net e)"
    if "map_of (usable_networks invt) (PStr ''management'') = Some e"
      and "(i, PDict h) \<in> set (hosts_of invt)" and "as_address (dget h ''mgmtIp'') = Some a" for e i h a
    using host_loop_ok [of shw e "hosts_of invt" "[]" i h a] that loop by simp
  have o2: "result_valid f2" and o1: "result_valid f1" and o7: "result_valid (ip_pool_rules invt)"
    using ok by blast+
  show ?thesis
  proof (intro conjI)
    show "\<forall>(p, e) \<in> set (usable_networks invt). \<forall>(q, e') \<in> set (usable_networks invt).
        p \<noteq> q \<longrightarrow> \<not> (\<exists>a. in_net a (un_net e) \<and> in_net a (un_net e'))"
      by (intro ballI, clarify) (metis overlap_rules_ok [OF f2 o2])
    show "\<forall>(p, e) \<in> set (usable_networks invt). \<forall>g.
        as_address (un_gateway e) = Some g \<longrightarrow> in_net g (un_net e)"
      by (intro ballI, clarify) (metis gateway_rules_ok [OF f1 o1])
  qed (use hosts in blast, use ip_pool_rule_ok [OF disjI2 [OF o7] refl refl] in \<open>simp add: Let_def\<close>)
qed

lemma sample_octets:
  "map parse_octet (split_char (CHR ''.'') ''10.0.1.0'') = [Some 10, Some 0, Some 1, Some 0]"
  "map parse_octet (split_char (CHR ''.'') ''10.0.1.1'') = [Some 10, Some 0, Some 1, Some 1]"
  "map parse_octet (split_char (CHR ''.'') ''10.0.2.0'') = [Some 10, Some 0, Some 2, Some 0]"
  "map parse_octet (split_char (CHR ''.'') ''10.0.2.1'') = [Some 10, Some 0, Some 2, Some 1]"
  "map parse_octet (split_char (CHR ''.'') ''10.0.2.10'') = [Some 10, Some 0, Some 2, Some 10]"
  "split_char (CHR ''/'') ''10.0.1.0/24'' = [''10.0.1.0'', ''24'']"
  "split_char (CHR ''/'') ''10.0.2.0/24'' = [''10.0.2.0'', ''24'']"
  "parse_prefix 32 ''24'' = Some 24"
  by code_simp+

lemma sample_networks:
  "as_network (PStr ''10.0.1.0/24'') = Some (V4 0x0a000100, 24)"
  "as_network (PStr ''10.0.2.0/24'') = Some (V4 0x0a000200, 24)"
  by (simp_all only: as_network_def pyval.case parse_net_def parse_ip4_def prefix4_def sample_octets Let_def) (simp_all add: sample_octets)

lemma as_network_none: "as_network PNone = None"
  by (simp add: as_network_def)

lemma as_address_none: "as_address PNone = None"
  by (simp add: as_address_def)

lemma sample_addresses:
  "as_address (PStr ''10.0.1.1'') = Some (V4 0x0a000101)"
  "as_address (PStr ''10.0.2.1'') = Some (V4 0x0a000201)"
  "as_address (PStr ''10.0.2.10'') = Some (V4 0x0a00020a)"
  by (simp_all only: as_address_def pyval.case parse_ip4_def sample_octets) (simp_all add: sample_octets)

definition net_sample :: pydict where
  "net_sample =
     [(PStr ''networks'', PDict
         [(PStr ''management'', PDict [(PStr ''vlan'', PInt 10), (PStr ''subnet'', PStr ''10.0.1.0/24''),
             (PStr ''gateway'', PStr ''10.0.1.1''), (PStr ''mtu'', PInt 1500)]),
          (PStr ''vmotion'', PDict [(PStr ''vlan'', PInt 20), (PStr ''subnet'', PStr ''10.0.2.0/24''),
             (PStr ''gateway'', PStr ''10.0.2.1''), (PStr ''mtu'', PInt 9000),
             (PStr ''pool'', PDict [(PStr ''start'', PStr ''10.0.2.10''), (PStr ''end'', PStr ''10.0.2.10'')])])])]"

lemma net_sample_dict:
  "as_mapping (dget net_sample ''networks'') =
     [(PStr ''management'', PDict [(PStr ''vlan'', PInt 10), (PStr ''subnet'', PStr ''10.0.1.0/24''),
             (PStr ''gateway'', PStr ''10.0.1.1''), (PStr ''mtu'', PInt 1500)]),
          (PStr ''vmotion'', PDict [(PStr ''vlan'', PInt 20), (PStr ''subnet'', PStr ''10.0.2.0/24''),
             (PStr ''gateway'', PStr ''10.0.2.1''), (PStr ''mtu'', PInt 9000),
             (PStr ''pool'', PDict [(PStr ''start'', PStr ''10.0.2.10''), (PStr ''end'', PStr ''10.0.2.10'')])])]"
  "dget net_sample ''nsx'' = PNone" "dget net_sample ''hosts'' = PNone"
  by (simp_all add: net_sample_def dget_def dlook_def as_mapping_def)

lemma dget_empty: "dget [] k = PNone"
  by (simp add: dget_def dlook_def)

lemma net_sample_hosts: "host_count net_sample = 0" "hosts_of net_sample = []"
  by (simp_all add: host_count_def hosts_of_def net_sample_dict as_sequence_def)

lemma net_sample_usable:
  "usable_networks net_sample =
     [(PStr ''management'', \<lparr>un_net = (V4 0x0a000100, 24), un_vlan = PInt 10, un_gateway = PStr ''10.0.1.1'',
         un_subnet = PStr ''10.0.1.0/24''\<rparr>),
      (PStr ''vmotion'', \<lparr>un_net = (V4 0x0a000200, 24), un_vlan = PInt 20, un_gateway = PStr ''10.0.2.1'',
         un_subnet = PStr ''10.0.2.0/24''\<rparr>)]"
  unfolding usable_networks_def net_sample_dict
  by (simp add: Let_def List.map_filter_simps sample_networks dget_def dlook_def as_mapping_def as_network_none)

lemma net_sample_sorted: "sorted_items (usable_networks net_sample) = Inr (usable_networks net_sample)"
  by (simp add: sorted_items_def sort_key_def net_sample_usable)

lemma net_sample_rules:
  "gateway_rules sh (usable_networks net_sample) = Inr []"
  "overlap_rules sh (usable_networks net_sample) = Inr []"
  "vlan_rules sh (usable_networks net_sample) = Inr []"
  "host_rules sh net_sample (usable_networks net_sample) = Inr []"
  "mtu_rules net_sample = []"
  "tep_pool_rules net_sample = []"
  unfolding gateway_rules_def overlap_rules_def vlan_rules_def net_sample_sorted
  by (simp_all add: net_sample_usable net_sample_dict net_sample_hosts List.map_filter_simps sample_addresses net_overlaps_def
      mask_eq_exp_minus_1 hash_key_def host_rules_def mtu_rules_def tep_pool_rules_def
      as_mapping_def as_sequence_def dget_empty Let_def)

lemma net_sample_pool: "ip_pool_rules net_sample = []"
  unfolding ip_pool_rules_def net_sample_dict
  by (simp add: ip_pool_required_def ip_pool_rule_def net_sample_hosts List.map_filter_simps
      sample_addresses dget_def dlook_def as_mapping_def as_sequence_def Let_def)

lemma net_sample_ok: "check_networks sh net_sample = Inr []"
  by (simp add: check_networks_def Let_def net_sample_rules net_sample_pool)

theorem accepted_networks_witness:
  "\<not> (\<exists>a. in_net a (V4 0x0a000100, 24) \<and> in_net a (V4 0x0a000200, 24))"
  using accepted_networks [OF net_sample_ok [of "\<lambda>_. []"]] by (simp add: net_sample_usable)

end
