(* ===== verification/VcfTexts.thy ===== *)
theory VcfTexts
  imports PyStr
begin

text \<open>
  The texts of \<^verbatim>\<open>vcfspec/firstboot.py\<close> and \<^verbatim>\<open>vcfspec/provision.py\<close>: the head of a kickstart, the blocks of its
  first-boot script and the notes of the manifest, each a list of pieces with the names of the fields that
  are filled in.
\<close>

datatype piece = Lit string | Ch char | Nl | Fld string

fun piece_text :: "(string \<times> string) list \<Rightarrow> piece \<Rightarrow> string" where
  "piece_text flds (Lit s) = s"
| "piece_text flds (Ch c) = [c]"
| "piece_text flds Nl = [CHR 0x0A]"
| "piece_text flds (Fld f) = the (map_of flds f)"

definition fill :: "piece list \<Rightarrow> (string \<times> string) list \<Rightarrow> string" where
  "fill ps flds = concat (map (piece_text flds) ps)"

fun fields :: "piece list \<Rightarrow> string list" where
  "fields [] = []"
| "fields (Fld f # ps) = f # fields ps"
| "fields (_ # ps) = fields ps"

section \<open>The texts\<close>

definition kickstart_head :: "piece list" where
  "kickstart_head =
     [Lit ''# ESX kickstart for '', Fld ''fqdn'', Nl,
      Lit ''# Generated by vcfspec from the lab inventory. Do not hand-edit: regenerate.'', Nl,
      Lit ''#'', Nl,
      Lit ''# The root credential below is a ${'', Lit ''reference}'', Lit '' to a SHA-512 crypt hash, not a'', Nl,
      Lit ''# password. Substitute it when you publish this file. The file sits on an'', Nl,
      Lit ''# unauthenticated HTTP server that every host on the provisioning VLAN can'', Nl,
      Lit ''# read, so a hash is the only acceptable thing to put here.'', Nl,
      Lit ''vmaccepteula'', Nl,
      Lit ''rootpw --iscrypted '', Fld ''root_hash'', Nl,
      Fld ''paranoid_line'', Lit ''install --disk='', Fld ''boot_disk'', Lit '' '', Fld ''vmfs_opt'', Fld ''overwritevsan_opt'', Nl,
      Lit ''network --bootproto=static --device='', Fld ''mac'', Lit '' --ip='', Fld ''ip'', Lit '' --netmask='', Fld ''netmask'', Lit '' --gateway='', Fld ''gateway'', Lit '' --nameserver='', Fld ''nameservers'', Lit '' --hostname='', Fld ''fqdn'', Lit '' --addvmportgroup=0'', Fld ''vlan_opt'', Nl,
      Lit ''reboot'', Nl,
      Nl]"

definition preamble :: "piece list" where
  "preamble =
     [Lit ''%firstboot --interpreter=busybox'', Nl,
      Lit ''# NOTE: %firstboot is silently skipped when UEFI Secure Boot is enabled. None'', Nl,
      Lit ''# of the following runs, kickstart.log records the skip, and the host looks'', Nl,
      Lit ''# installed. Secure Boot must be OFF for the install and turned back on after.'', Nl,
      Lit ''#'', Nl,
      Lit ''# Enough to make the host commissionable by VCF; everything else is the'', Nl,
      Lit ''# Installer'', Ch (CHR 0x27), Lit ''s job once it takes over.'', Nl,
      Lit ''#'', Nl,
      Lit ''# Structure ported from William Lam'', Ch (CHR 0x27), Lit ''s vcf-91-in-box, config/KS-ESX01.CFG'', Nl,
      Lit ''# (https://github.com/lamw/vcf-91-in-box): wait for hostd, enter maintenance'', Nl,
      Lit ''# mode, do the work, leave maintenance mode, reboot. The earlier version of'', Nl,
      Lit ''# this block started issuing commands immediately, which races hostd -- every'', Nl,
      Lit ''# vim-cmd below fails if it wins that race, and on a host with no BMC a'', Nl,
      Lit ''# half-configured install is invisible until commissioning rejects it.'', Nl,
      Nl,
      Lit ''# hostd is not up when %firstboot starts. runtimeinfo is the cheapest call'', Nl,
      Lit ''# that keeps failing until it is, so this loop is the gate for everything'', Nl,
      Lit ''# after it. There is deliberately no attempt limit: a host that never brings'', Nl,
      Lit ''# hostd up is broken in a way a timeout cannot improve, and looping leaves the'', Nl,
      Lit ''# evidence in kickstart.log instead of continuing into a pile of failures.'', Nl,
      Lit ''while ! vim-cmd hostsvc/runtimeinfo > /dev/null 2>&1; do'', Nl,
      Lit ''  sleep 10'', Nl,
      Lit ''done'', Nl,
      Nl,
      Lit ''# Maintenance mode. Not merely tidy: ESX 9.1 stopped requiring a reboot to'', Nl,
      Lit ''# apply NVMe memory tiering and requires maintenance mode instead, so the'', Nl,
      Lit ''# tiering block below will not apply without this. Exited further down,'', Nl,
      Lit ''# before the reboot, because VCF refuses to commission a host that is in it.'', Nl,
      Lit ''esxcli system maintenanceMode set -e true'', Nl,
      Nl]"

definition services :: "piece list" where
  "services =
     [Lit ''# SSH: the operator'', Ch (CHR 0x27), Lit ''s only way in on a host with no BMC.'', Nl,
      Lit ''#'', Nl,
      Lit ''# NOT for VCF'', Ch (CHR 0x27), Lit ''s benefit. An earlier version of this comment claimed SSH is'', Nl,
      Lit ''# '', Ch (CHR 0x22), Lit ''how VCF reaches it during commissioning'', Ch (CHR 0x22), Lit ''; that is wrong. Observed'', Nl,
      Lit ''# 2026-09-22: a VCF Installer validation run turned SSH off on all three'', Nl,
      Lit ''# hosts without rebooting them -- its Security Configuration check disables'', Nl,
      Lit ''# it. VCF reaches the host over 443/902 and the hostd SDK, which is also why'', Nl,
      Lit ''# a host with SSH shut still passes VCF'', Ch (CHR 0x27), Lit ''s host-connect check.'', Nl,
      Lit ''#'', Nl,
      Lit ''# All three commands are needed, and the third is the one that was missing.'', Nl,
      Lit ''# enable_ssh/start_ssh change the RUNNING state; the service'', Ch (CHR 0x27), Lit ''s startup POLICY'', Nl,
      Lit ''# is separate and defaults to off. This block is followed by a reboot, so'', Nl,
      Lit ''# without chkconfig the host comes back with SSH shut -- which is exactly what'', Nl,
      Lit ''# happened on all three lab hosts, and it fails VCF'', Ch (CHR 0x27), Lit ''s host-connect check'', Nl,
      Lit ''# during commissioning while ICMP and the SDK still answer, so it does not'', Nl,
      Lit ''# look like an SSH problem. Verified on a live 9.1.1 host: the chkconfig line'', Nl,
      Lit ''# below is what makes `chkconfig --list` report the service on after a reboot.'', Nl,
      Lit ''vim-cmd hostsvc/enable_ssh'', Nl,
      Lit ''vim-cmd hostsvc/start_ssh'', Nl,
      Lit ''chkconfig SSH on'', Nl,
      Lit ''# Enabling SSH raises a permanent host warning. On one host that is cosmetic;'', Nl,
      Lit ''# on three it is three standing yellow alarms in vCenter that hide real ones.'', Nl,
      Lit ''# NOT enabling the ESXi Shell, which Lam'', Ch (CHR 0x27), Lit ''s script does alongside this: with no'', Nl,
      Lit ''# BMC there is no remote console to use a local shell from, so it would be'', Nl,
      Lit ''# attack surface with no operator benefit here.'', Nl,
      Lit ''esxcli system settings advanced set -o /UserVars/SuppressShellWarning -i 1'', Nl,
      Lit ''esxcli system ntp set --enabled=yes '', Fld ''ntp_opts'', Nl,
      Lit ''# The line above configures the server and starts the daemon; it does NOT set'', Nl,
      Lit ''# the service'', Ch (CHR 0x27), Lit ''s startup POLICY, and VCF validates the policy. Without this a'', Nl,
      Lit ''# bring-up validation reports, on every host:'', Nl,
      Lit ''#   service ntpd policy is not configured to '', Ch (CHR 0x22), Lit ''Start and stop with host'', Ch (CHR 0x22), Nl,
      Lit ''# Note this is a DIFFERENT property from the one `chkconfig ntpd on` writes:'', Nl,
      Lit ''# after chkconfig alone the vSphere API still reports policy '', Ch (CHR 0x22), Lit ''off'', Ch (CHR 0x22), Lit '', which is'', Nl,
      Lit ''# what VCF reads -- measured on all three hosts 2026-09-26, where chkconfig'', Nl,
      Lit ''# said '', Ch (CHR 0x22), Lit ''on'', Ch (CHR 0x22), Lit '' and the warning persisted until setpolicy was used.'', Nl,
      Lit ''vim-cmd hostsvc/service/setpolicy ntpd on'', Nl,
      Nl,
      Fld ''datastore_rename'', Lit ''# A coredump target. Without one a PSOD leaves nothing to read afterwards, and'', Nl,
      Lit ''# with no BMC the screen it painted is the only other copy -- which means a'', Nl,
      Lit ''# photograph, if anyone happened to be in the room. -s picks the best existing'', Nl,
      Lit ''# dump file rather than assuming a path the installer may not have used.'', Nl,
      Lit ''esxcli system coredump file set -s -e true'', Nl,
      Nl,
      Lit ''# vSwitch0 and vmk0 MTU, from networks.management.mtu ('', Fld ''mtu'', Lit '') and deliberately'', Nl,
      Lit ''# NOT from nsx.fabricMtu. vmk0 is the management vmkernel and must match the'', Nl,
      Lit ''# MTU the management VLAN actually carries; pinning it to the 9000 fabric MTU'', Nl,
      Lit ''# (as Lam'', Ch (CHR 0x27), Lit ''s script hardcodes) would black-hole exactly the commissioning'', Nl,
      Lit ''# traffic this host exists to receive. nsx.fabricMtu describes the NSX'', Nl,
      Lit ''# transport fabric on the VDS that VCF builds during commissioning -- vSwitch0'', Nl,
      Lit ''# is replaced at that point and never carries a fabric frame.'', Nl,
      Lit ''esxcli network vswitch standard set -m '', Fld ''mtu'', Lit '' -v vSwitch0'', Nl,
      Lit ''esxcli network ip interface set -i vmk0 -m '', Fld ''mtu'', Nl,
      Nl,
      Lit ''# No '', Ch (CHR 0x22), Lit ''VM Network'', Ch (CHR 0x22), Lit '' portgroup VLAN line here, deliberately. Lam'', Ch (CHR 0x27), Lit ''s script sets'', Nl,
      Lit ''# one because his install line asks the installer to create that portgroup;'', Nl,
      Lit ''# ours does not, so no such portgroup exists and the command would fail on'', Nl,
      Lit ''# every host. vmk0'', Ch (CHR 0x27), Lit ''s own portgroup takes its VLAN from the `network`'', Nl,
      Lit ''# directive in the kickstart above, which is the only VLAN tag this host needs'', Nl,
      Lit ''# before VCF replaces vSwitch0 with a VDS. (The tag itself is deliberately not'', Nl,
      Lit ''# repeated in this comment: a generated file that merely mentions a VLAN'', Nl,
      Lit ''# option is indistinguishable, to a grep, from one that sets it.)'', Nl,
      Nl]"

definition ssh_key_text :: "piece list" where
  "ssh_key_text =
     [Lit ''# Operator SSH public key (provisioning.sshPublicKey). A public key is not a'', Nl,
      Lit ''# credential: it authenticates its holder to this host and discloses nothing'', Nl,
      Lit ''# to anyone who reads it off the boot server. Without it the only way in is'', Nl,
      Lit ''# the root password, which is the thing this file works hardest not to carry.'', Nl,
      Lit ''mkdir -p /etc/ssh/keys-root'', Nl,
      Lit ''echo '', Ch (CHR 0x27), Fld ''ssh_public_key'', Ch (CHR 0x27), Lit '' > /etc/ssh/keys-root/authorized_keys'', Nl,
      Lit ''chmod 600 /etc/ssh/keys-root/authorized_keys'', Nl,
      Nl]"

definition memory_tiering :: "piece list" where
  "memory_tiering =
     [Lit ''# NVMe memory tiering (hardware.memoryTieringDevice, hardware.memoryTieringGb).'', Nl,
      Lit ''# ESX 9.1 form: one command, applied in maintenance mode, no reboot. The'', Nl,
      Lit ''# three-command 9.0 sequence it replaced -- a kernel memory-tiering flag, a'', Nl,
      Lit ''# /Mem percentage, and a separate tier-device creation -- is NOT emitted, and'', Nl,
      Lit ''# neither is the `vmware` version probe that would have to choose between'', Nl,
      Lit ''# them. See the block comment above this template in firstboot.py.'', Nl,
      Lit ''#'', Nl,
      Lit ''# (None of the 9.0 command names appear above on purpose: a generated file'', Nl,
      Lit ''# that merely mentions a command is indistinguishable, to a grep, from one'', Nl,
      Lit ''# that runs it.)'', Nl,
      Lit ''#'', Nl,
      Lit ''# -r is the tier size as a percentage of DRAM, derived from the inventory'', Nl,
      Lit ''# rather than pinned at Lam'', Ch (CHR 0x27), Lit ''s flat 100: '', Fld ''tier_gb'', Lit '' GB tier against '', Fld ''ram_gb'', Lit '' GB'', Nl,
      Lit ''# DRAM = '', Fld ''ratio'', Lit ''%. The device is normally larger than the tier that ratio asks'', Nl,
      Lit ''# for, and the ratio is what decides how much of it gets used -- which is what'', Nl,
      Lit ''# makes hardware.memoryTieringGb load-bearing here rather than a number only'', Nl,
      Lit ''# the capacity rules ever read.'', Nl,
      Lit ''#'', Nl,
      Lit ''# This host'', Ch (CHR 0x27), Lit ''s capacity plan depends on this line: without it the host boots'', Nl,
      Lit ''# with DRAM only, every capacity figure that counted tiered memory is wrong,'', Nl,
      Lit ''# and nothing says so until a VM fails to power on.'', Nl,
      Lit ''esxcli memtier enable -d '', Fld ''tiering_device'', Lit '' -r '', Fld ''ratio'', Nl,
      Nl]"

definition consumer_amd_workarounds :: "piece list" where
  "consumer_amd_workarounds =
     [Lit ''# Consumer-AMD host workarounds (provisioning.hostWorkarounds: consumer-amd).'', Nl,
      Lit ''# William Lam, VCF 9.1 comprehensive ESX configuration workarounds for lab'', Nl,
      Lit ''# deployments:'', Nl,
      Lit ''# https://williamlam.com/2026/05/vcf-9-1-comprehensive-esx-configuration-workarounds-for-lab-deployments.html'', Nl,
      Lit ''#'', Nl,
      Lit ''# NSX Edge/VNA deployment fails on consumer AMD: a DPDK vendor check rejects'', Nl,
      Lit ''# the real Ryzen brand string. The value below exists to satisfy that check,'', Nl,
      Lit ''# not to describe this host honestly -- it is not this host'', Ch (CHR 0x27), Lit ''s real CPU. No'', Nl,
      Lit ''# reboot needed.'', Nl,
      Lit ''echo '', Ch (CHR 0x27), Lit ''cpuid.brandstring = '', Ch (CHR 0x22), Fld ''brand'', Ch (CHR 0x22), Ch (CHR 0x27), Lit '' >> /etc/vmware/config'', Nl,
      Lit ''# NVMe memory tiering cannot power on VMs on AMD Ryzen without this. Needs a'', Nl,
      Lit ''# reboot, served by the one below.'', Nl,
      Lit ''echo '', Ch (CHR 0x27), Lit ''monitor_control.disable_apichv ='', Ch (CHR 0x22), Lit ''TRUE'', Ch (CHR 0x22), Ch (CHR 0x27), Lit '' >> /etc/vmware/config'', Nl,
      Lit ''# Zen 4/5 entropy. entropySources is a BITMASK, not a count, and 2 NARROWS'', Nl,
      Lit ''# the VMkernel to RDRAND only -- it does not widen anything. The host'', Ch (CHR 0x27), Lit ''s own'', Nl,
      Lit ''# help states it: '', Ch (CHR 0x22), Lit ''0=defaults, otherwise bitmask values: 1=interrupts,'', Nl,
      Lit ''# 2=RDRAND, 4=RDSEED, 8=entropyd'', Ch (CHR 0x22), Lit ''. 2 is the right value for a PHYSICAL host;'', Nl,
      Lit ''# 1 (interrupt jitter) is the value for a NESTED one, and several third-party'', Nl,
      Lit ''# summaries quote 1 indiscriminately. Zen4/5 executes RDSEED ~50x slower than'', Nl,
      Lit ''# Zen3 with a high failure rate, so the default path -- which prefers RDSEED'', Nl,
      Lit ''# -- burns CPU. Needs a reboot, served by the one below.'', Nl,
      Lit ''#'', Nl,
      Lit ''# This deliberately REDUCES entropy quality and will fail the DISA STIG'', Nl,
      Lit ''# entropy check (ESXI-80-000245). Acceptable in a lab; do not copy into'', Nl,
      Lit ''# anything audited.'', Nl,
      Lit ''esxcli system settings kernel set -s entropySources -v 2'', Nl,
      Lit ''# The host-side setting above does nothing for GUESTS: it only changes what'', Nl,
      Lit ''# the VMkernel itself consumes. Guest userspace (OpenSSL 3.x, JVMs, anything'', Nl,
      Lit ''# in FIPS mode) spins on RDSEED directly, which is where the NSX and VCFA'', Nl,
      Lit ''# high-CPU reports come from. Masking CPUID leaf 7, EBX bit 18 hides RDSEED'', Nl,
      Lit ''# from guests so they fall back to something that is not pathologically slow.'', Nl,
      Lit ''# The 32 characters are bits 31..0 left to right; the 0 sits at index 13, so'', Nl,
      Lit ''# 31-13 = bit 18 = RDSEED. Reboot required, served by the one below.'', Nl,
      Lit ''# https://williamlam.com/2026/09/vcf-9-1-1-reducing-cpu-utilization-on-amd-ryzen-zen4-zen5-by-masking-the-rdseed-instruction.html'', Nl,
      Lit ''echo '', Ch (CHR 0x27), Lit ''cpuid.7.ebx = '', Ch (CHR 0x22), Lit ''-------------0------------------'', Ch (CHR 0x22), Ch (CHR 0x27), Lit '' >> /etc/vmware/config'', Nl,
      Lit ''# vSAN'', Ch (CHR 0x27), Lit ''s default compression (Zstd) costs more CPU on this hardware than'', Nl,
      Lit ''# LZ4. No reboot needed.'', Nl,
      Lit ''esxcli system settings advanced set -o /VSAN/Vsan2ZdomCompZstd -i 0'', Nl,
      Nl]"

definition tail_text :: "piece list" where
  "tail_text =
     [Lit ''# ESX generates its certificates before the hostname is configured, so a'', Nl,
      Lit ''# freshly installed host presents CN=localhost.localdomain. VCF Installer'', Nl,
      Lit ''# compares the certificate common name against the FQDN it is commissioning'', Nl,
      Lit ''# and rejects the host. Set the FQDN, regenerate, then reboot so hostd'', Nl,
      Lit ''# actually serves the new certificate.'', Nl,
      Lit ''esxcli system hostname set --fqdn='', Fld ''fqdn'', Nl,
      Lit ''/sbin/generate-certificates'', Nl,
      Nl,
      Lit ''# Out of maintenance mode before the reboot, not after: VCF will not'', Nl,
      Lit ''# commission a host that is in it, nothing below needs it, and a host that'', Nl,
      Lit ''# reboots while still in maintenance mode comes back still in it.'', Nl,
      Lit ''esxcli system maintenanceMode set -e false'', Nl,
      Nl,
      Lit ''# `reboot`, NOT `esxcli system shutdown reboot`. Its own help says '', Ch (CHR 0x22), Lit ''The host'', Nl,
      Lit ''# must be in maintenance mode'', Ch (CHR 0x22), Lit '', and the line above has just left maintenance'', Nl,
      Lit ''# mode -- so the esxcli form fails silently and the host never restarts. Both'', Nl,
      Lit ''# decisions above are individually right and together they cancelled out.'', Nl,
      Lit ''#'', Nl,
      Lit ''# The consequence is not a missing reboot, it is a WRONG CERTIFICATE. ESX'', Nl,
      Lit ''# generates a cert at boot, generate-certificates above makes a second one'', Nl,
      Lit ''# seconds later, and hostd keeps serving the first through its API while'', Nl,
      Lit ''# rhttpproxy presents the second on the wire. The vCSA CLI installer asks the'', Nl,
      Lit ''# API, pins that thumbprint, connects, and gets the other one:'', Nl,
      Lit ''#   Failed to obtain vc thumbprint ... Fingerprints did not match.'', Nl,
      Lit ''#   Expected '', Ch (CHR 0x22), Lit ''5e9d5b51...'', Ch (CHR 0x22), Lit '', got '', Ch (CHR 0x22), Lit ''ff1e247e...'', Ch (CHR 0x22), Nl,
      Lit ''# That killed a 9.1.1 bring-up at Datacenter Creation twice on 2026-09-26,'', Nl,
      Lit ''# with two certs 18 seconds apart and a host whose uptime proved it had never'', Nl,
      Lit ''# rebooted. Verified against esxcli'', Ch (CHR 0x27), Lit ''s own help text on a live 9.1.1 host.'', Nl,
      Lit ''reboot'', Nl]"

definition datastore_rename :: "piece list" where
  "datastore_rename =
     [Lit ''# Rename the local VMFS datastore. Every ESX install names it '', Ch (CHR 0x22), Lit ''datastore1'', Ch (CHR 0x22), Lit '', so'', Nl,
      Lit ''# three hosts arrive at vCenter with three datastores of the same name and'', Nl,
      Lit ''# vCenter disambiguates them by appending (1)/(2) in registration order --'', Nl,
      Lit ''# which is not stable, so the suffix a host gets is not either. Named from the'', Nl,
      Lit ''# host, not from storage.datastoreName: that field names the vSAN datastore'', Nl,
      Lit ''# this cluster is about to build, and reusing it here would collide with it.'', Nl,
      Lit ''vim-cmd hostsvc/datastore/rename datastore1 '', Fld ''local_datastore'', Nl,
      Nl]"

definition datastore_preserved :: "piece list" where
  "datastore_preserved =
     [Lit ''# The local VMFS datastore was preserved by the install (--preservevmfs) and'', Nl,
      Lit ''# keeps its existing label, so it is not renamed.'', Nl,
      Nl]"

definition manifest_head :: "piece list" where
  "manifest_head =
     [Lit ''# ESX provisioning artifacts -- ESX '', Fld ''esx_version'', Nl,
      Lit ''# Publish all of these under '', Fld ''boot_url'', Lit ''/'', Nl,
      Lit ''#'', Nl,
      Lit ''# BEFORE PUBLISHING: substitute the ${reference} in each kickstart'', Ch (CHR 0x27), Lit ''s'', Nl,
      Lit ''# rootpw line with a SHA-512 crypt hash (openssl passwd -6). These'', Nl,
      Lit ''# files are served over unauthenticated HTTP and the ESX installer'', Nl,
      Lit ''# does not validate TLS, so anything on the provisioning VLAN can'', Nl,
      Lit ''# read whatever you put here. A hash, never a password.'', Nl,
      Lit ''#'', Nl,
      Lit ''# esxRoot and esxRootHash MUST be the same password. Nothing here can'', Nl,
      Lit ''# check that: the tool holds neither value, only the references. If'', Nl,
      Lit ''# they diverge the host installs with one password and VCF commissions'', Nl,
      Lit ''# with another -- a clean install followed by a credential failure,'', Nl,
      Lit ''# which is the expensive shape of this mistake. Verify before you'', Nl,
      Lit ''# publish, using the salt from your own hash:'', Nl,
      Lit ''#   openssl passwd -6 -salt '', Ch (CHR 0x22), Lit ''$(printf %s '', Ch (CHR 0x22), Lit ''$HASH'', Ch (CHR 0x22), Lit '' | cut -d$ -f3)'', Ch (CHR 0x22), Lit '' '', Ch (CHR 0x22), Lit ''$PLAINTEXT'', Ch (CHR 0x22), Nl,
      Lit ''# and confirm it reproduces $HASH exactly.'', Nl,
      Lit ''#'', Nl,
      Lit ''# Unpack the ESX '', Fld ''esx_version'', Lit '' ISO to '', Fld ''payload_url'', Lit ''/ and place'', Nl,
      Lit ''# the UEFI loader at '', Fld ''boot_url'', Lit ''/. Each 01-<mac>/boot.cfg below is a'', Nl,
      Lit ''# sibling of that loader, not of the kickstarts.'', Nl,
      Lit ''#'', Nl,
      Lit ''# The loader ships as EFI/BOOT/BOOTX64.EFI -- there is no file named'', Nl,
      Lit ''# mboot.efi on the ISO, though the docs call it that. BOOTX64.EFI is'', Nl,
      Lit ''# the multiboot loader they mean. MBOOT.C32 is the BIOS/syslinux'', Nl,
      Lit ''# variant and is NOT it.'', Nl,
      Lit ''# Publish it as '', Fld ''boot_url'', Lit ''/bootx64.efi -- the HTTP script'', Ch (CHR 0x27), Lit ''s `chain`'', Nl,
      Lit ''# line below must name that same path.'', Nl,
      Lit ''#'', Nl,
      Lit ''# THE BOOT CHAIN IS PXE -> iPXE -> HTTP. Not UEFI HTTP Boot: this'', Nl,
      Lit ''# firmware class does not have it. On the Minisforum BD795i SE the'', Nl,
      Lit ''# HTTP Boot setup items are compiled into the image but their IFR is'', Nl,
      Lit ''# `suppressif <uint64 constant 1>`, so they are unconditionally hidden'', Nl,
      Lit ''# and only IPv4/IPv6 PXE remain. Look at Advanced > Network Stack'', Nl,
      Lit ''# Configuration before assuming your board differs.'', Nl,
      Lit ''#'', Nl,
      Lit ''# TFTP then creates a second problem, because mboot resolves prefix='', Nl,
      Lit ''# using the transport IT was loaded over -- an http:// prefix is only'', Nl,
      Lit ''# legal if the loader itself arrived over HTTP. Chainloading iPXE is'', Nl,
      Lit ''# what reconciles the two: a small file over TFTP, everything else'', Nl,
      Lit ''# over HTTP.'', Nl,
      Lit ''#'', Nl,
      Lit ''#   DHCP:  next-server    = a TFTP server on the client'', Ch (CHR 0x27), Lit ''s OWN subnet'', Nl,
      Lit ''#          boot-file-name = snponly.efi'', Nl,
      Lit ''#   TFTP:  serve iPXE'', Ch (CHR 0x27), Lit ''s snponly.efi. Debian'', Ch (CHR 0x27), Lit ''s `ipxe` package ships it'', Nl,
      Lit ''#          prebuilt at ~278 KiB (boot.ipxe.org no longer serves'', Nl,
      Lit ''#          binaries). snponly binds the firmware'', Ch (CHR 0x27), Lit ''s own SNP rather'', Nl,
      Lit ''#          than needing a native iPXE driver for your NIC.'', Nl,
      Lit ''#   iPXE:  build with EMBED= a script that only chains to a script on'', Nl,
      Lit ''#          THIS server, so changing boot logic never means rebuilding'', Nl,
      Lit ''#          and reflashing the binary.'', Nl,
      Lit ''#'', Nl,
      Lit ''# That HTTP script must PROBE for the per-MAC boot.cfg before chaining:'', Nl,
      Lit ''#     imgfetch --name probe <cfg> || goto nopending'', Nl,
      Lit ''#     imgfree probe'', Nl,
      Lit ''#     chain <loader> -c <cfg> || goto nopending'', Nl,
      Lit ''# `chain` reports success the moment the binary loads, so a missing -c'', Nl,
      Lit ''# config is NOT caught by `||`. mboot takes control, iPXE is already'', Nl,
      Lit ''# gone, and the host dies with '', Ch (CHR 0x27), Lit ''Fatal error: 15 (Not found)'', Ch (CHR 0x27), Lit '' with'', Nl,
      Lit ''# nothing left able to hand back to the firmware. The probe is the'', Nl,
      Lit ''# only reason the fall-through below works.'', Nl,
      Lit ''#'', Nl,
      Lit ''# VLANs: PXE firmware sends UNTAGGED frames. If management is a tagged'', Nl,
      Lit ''# VLAN -- it usually is -- the firmware'', Ch (CHR 0x27), Lit ''s DHCP lands in whatever the'', Nl,
      Lit ''# switch port'', Ch (CHR 0x27), Lit ''s PVID is and never reaches your server, while the'', Nl,
      Lit ''# installed ESX works fine on the same cable because ESX tags. Give the'', Nl,
      Lit ''# host ports a dedicated untagged PROVISIONING VLAN as their PVID and'', Nl,
      Lit ''# leave management tagged on those same ports. boot.cfg'', Ch (CHR 0x27), Lit ''s kernelopt'', Nl,
      Lit ''# vlanid=/ip= then moves the INSTALLER onto the tagged management VLAN'', Nl,
      Lit ''# in time to fetch the kickstart, so management never goes native.'', Nl,
      Lit ''#'', Nl,
      Lit ''# BIOS pass, once per chassis, before the install:'', Nl,
      Lit ''#   - UEFI mode (not legacy/CSM)'', Nl,
      Lit ''#   - Network stack + IPv4 PXE enabled (HTTP Boot will not be there)'', Nl,
      Lit ''#   - Secure Boot OFF  <-- load-bearing: %firstboot is silently'', Nl,
      Lit ''#     skipped when Secure Boot is on. SSH, NTP and the certificate'', Nl,
      Lit ''#     regeneration below simply do not run, kickstart.log records the'', Nl,
      Lit ''#     skip, and the host looks installed but fails commissioning.'', Nl,
      Lit ''#   - NIC ahead of disk in boot order -- and LEAVE it there, see below'', Nl,
      Lit ''#   - AC recovery = always on'', Nl,
      Lit ''#'', Nl,
      Lit ''# AFTER each host installs, while the installer is still running:'', Nl,
      Lit ''#   - Remove '', Fld ''boot_url'', Lit ''/01-<mac>/ for that host. That directory IS the'', Nl,
      Lit ''#     install switch: present means install, absent means the HTTP'', Nl,
      Lit ''#     stage exits and the firmware falls through to the local disk.'', Nl,
      Lit ''#     The kickstart ends in `reboot` and the NIC is still first, so'', Nl,
      Lit ''#     leaving it in place reinstalls the host forever and %firstboot'', Nl,
      Lit ''#     never gets to run. Remove it once the kickstart has been fetched'', Nl,
      Lit ''#     -- the running install does not need it any more.'', Nl,
      Lit ''#   - Do NOT reorder the boot devices instead. Leaving the NIC first is'', Nl,
      Lit ''#     what keeps a later rebuild a mkdir on this server rather than a'', Nl,
      Lit ''#     trip to a chassis that has no BMC.'', Nl,
      Lit ''#   - Secure Boot stays OFF unless your platform'', Ch (CHR 0x27), Lit ''s TPM is FIFO/TIS.'', Nl,
      Lit ''#     The Minisforum fTPM is CRB-only, which ESX does not support, so'', Nl,
      Lit ''#     turning it back on buys no attestation and re-arms the'', Nl,
      Lit ''#     %firstboot skip for the next rebuild.'', Nl,
      Nl]"

end
