(* ===== verification/VcfProvision.thy ===== *)
theory VcfProvision
  imports VcfDevices VcfNet VcfTexts
begin

text \<open>
  The artifacts that put ESX on bare metal: \<^verbatim>\<open>vcfspec/provision.py\<close> with the first-boot script of
  \<^verbatim>\<open>vcfspec/firstboot.py\<close>. Rendering is a function of the inventory and of the text of the ISO's
  boot.cfg; it raises when a plain credential would reach an artifact, and otherwise gives the
  kickstarts, the boot configurations, the manifest and the findings.
\<close>

section \<open>First boot\<close>

abbreviation nl :: string where
  "nl \<equiv> [CHR 0x0A]"

definition workarounds_block :: "(pyval \<Rightarrow> string) \<Rightarrow> string list \<Rightarrow> pyval \<Rightarrow> string" where
  "workarounds_block shw host_workarounds cpu_model =
     (if \<not> List.member host_workarounds ''consumer-amd'' then []
      else fill consumer_amd_workarounds
             [(''brand'', if truthy cpu_model then ''AMD EPYC Ryzen 9 '' @ py_text shw cpu_model else ''AMD EPYC Ryzen 9'')])"

definition memory_tiering_block :: "(pyval \<Rightarrow> string) \<Rightarrow> string \<Rightarrow> int \<Rightarrow> pyfloat \<Rightarrow> pyfloat \<Rightarrow> string" where
  "memory_tiering_block shw device ratio tier_gb ram_gb =
     fill memory_tiering
       [(''tiering_device'', device), (''ratio'', show_int ratio),
        (''tier_gb'', plain shw tier_gb), (''ram_gb'', plain shw ram_gb)]"

definition datastore_rename_block :: "string \<Rightarrow> bool \<Rightarrow> string" where
  "datastore_rename_block local_datastore preserved =
     (if preserved then fill datastore_preserved []
      else fill datastore_rename [(''local_datastore'', local_datastore)])"

definition ssh_key_block :: "string \<Rightarrow> string" where
  "ssh_key_block public_key = (if public_key = [] then [] else fill ssh_key_text [(''ssh_public_key'', public_key)])"

record firstboot =
  fb_fqdn :: string
  fb_ntp_opts :: string
  fb_mtu :: int
  fb_local_datastore :: string
  fb_ssh_key :: string
  fb_tiering :: string
  fb_workarounds :: string
  fb_preserve :: bool

definition render_firstboot :: "firstboot \<Rightarrow> string" where
  "render_firstboot p =
     fill preamble [] @
     fill services [(''ntp_opts'', fb_ntp_opts p), (''mtu'', show_int (fb_mtu p)),
                    (''datastore_rename'', datastore_rename_block (fb_local_datastore p) (fb_preserve p))] @
     ssh_key_block (fb_ssh_key p) @ fb_tiering p @ fb_workarounds p @
     fill tail_text [(''fqdn'', fb_fqdn p)]"

section \<open>Credentials that may be published\<close>

definition sha512_crypt_re :: rx where
  "sha512_crypt_re =
     cats [Bos, lit ''$6$'', plus (Cls (\<lambda>c. c \<noteq> CHR ''$'' \<and> c \<noteq> CHR '':'' \<and> \<not> is_space c)), ch (CHR ''$''),
           Rep True 86 (Some 86) (Cls (\<lambda>c. c = CHR ''.'' \<or> c = CHR ''/'' \<or> is_alpha_az c \<or> is_digit c)), Eos]"

definition crypt_hash :: "string \<Rightarrow> bool" where
  "crypt_hash s = (re_match sha512_crypt_re s \<noteq> None)"

definition ssh_public_key_re :: rx where
  "ssh_public_key_re =
     cats [Bos,
           alts [lit ''ssh-ed25519'', lit ''ssh-rsa'', lit ''ssh-dss'',
                 Cat (lit ''ecdsa-sha2-nistp'') (alts [lit ''256'', lit ''384'', lit ''521'']),
                 lit ''sk-ssh-ed25519@openssh.com'', lit ''sk-ecdsa-sha2-nistp256@openssh.com''],
           plus (Cls is_space),
           plus (Cls (\<lambda>c. is_alpha_az c \<or> is_digit c \<or> c = CHR ''+'' \<or> c = CHR ''/'')),
           Rep True 0 (Some 3) (ch (CHR ''='')),
           opt (Cat (plus (Cls is_space)) (plus (Cls (\<lambda>c. \<not> is_space c \<and> c \<noteq> CHR 0x27 \<and> c \<noteq> CHR 0x5C)))),
           Eos]"

definition private_key_re :: rx where
  "private_key_re =
     cats [lit ''-----BEGIN '', star (Cls (\<lambda>c. is_upper_az c \<or> is_digit c \<or> c = CHR '' '')),
           lit ''PRIVATE KEY-----'']"

definition root_hash :: "(pyval \<Rightarrow> string) \<Rightarrow> pydict \<Rightarrow> vcf_error + string option" where
  "root_hash shw creds =
     (let value = dget creds ''esxRootHash'' in
      if value = PNone \<or> value = PStr [] then Inr None
      else let t = py_text shw value in
        if ref_match t \<or> crypt_hash t then Inr (Some t) else Inl InsecureCredential)"

text \<open>The key, or that what stands there is not a public key.\<close>

datatype ssh_key = SshKey string | NotAPublicKey

definition ssh_public_key :: "(pyval \<Rightarrow> string) \<Rightarrow> pydict \<Rightarrow> vcf_error + ssh_key" where
  "ssh_public_key shw prov =
     (let value = dget prov ''sshPublicKey'' in
      if value = PNone \<or> value = PStr [] then Inr (SshKey [])
      else let t = strip (py_text shw value) in
        if re_search private_key_re t \<noteq> None then Inl InsecureCredential
        else if re_match ssh_public_key_re t = None then Inr NotAPublicKey
        else Inr (SshKey t))"

section \<open>The boot configuration\<close>

definition relativise :: "string \<Rightarrow> string" where
  "relativise value =
     join '' '' (map (\<lambda>t. if startswith t ''/'' then tl t else t) (split_ws value))"

definition cfg_key :: "string \<Rightarrow> string" where
  "cfg_key line =
     (if List.member line (CHR ''='') then lower (strip (hd (split_char (CHR ''='') line))) else [])"

definition cfg_line :: "string \<Rightarrow> string \<Rightarrow> string \<Rightarrow> string" where
  "cfg_line pref kernelopt line =
     (let key = cfg_key line in
      if key = ''prefix'' then ''prefix='' @ pref
      else if key = ''kernelopt'' then ''kernelopt='' @ kernelopt
      else if key = ''kernel'' \<or> key = ''modules'' then
        key @ ''='' @ relativise (snd (snd (partition_char (CHR ''='') line)))
      else line)"

definition cfg_lines :: "string \<Rightarrow> string \<Rightarrow> string \<Rightarrow> string list" where
  "cfg_lines cfg pref kernelopt =
     (let ls = splitlines cfg; keys = map cfg_key ls in
      map (cfg_line pref kernelopt) ls @
      (if List.member keys ''prefix'' then [] else [''prefix='' @ pref]) @
      (if List.member keys ''kernelopt'' then [] else [''kernelopt='' @ kernelopt]))"

definition rewrite_boot_cfg :: "string \<Rightarrow> string \<Rightarrow> string \<Rightarrow> string" where
  "rewrite_boot_cfg cfg pref kernelopt =
     rstrip_by (\<lambda>c. c = CHR 0x0A) (join nl (cfg_lines cfg pref kernelopt)) @ nl"

section \<open>The management network\<close>

definition octets :: "32 word \<Rightarrow> string" where
  "octets w =
     join ''.'' (map (\<lambda>k. show_nat (unat (drop_bit k w) mod 256)) [24, 16, 8, 0])"

text \<open>The text of the netmask of version 6: a run of two or more zero groups is left out.\<close>

fun show_hex :: "nat \<Rightarrow> string" where
  "show_hex n =
     (let d = n mod 16; c = char_of (if d < 10 then 48 + d else 87 + d) in
      if n < 16 then [c] else show_hex (n div 16) @ [c])"

definition mask6_groups :: "nat \<Rightarrow> nat list" where
  "mask6_groups p = map (\<lambda>i. if p \<ge> 16 * (i + 1) then 65535 else if p \<le> 16 * i then 0 else 65536 - 2 ^ (16 * (i + 1) - p)) [0..<8]"

definition mask6_text :: "nat \<Rightarrow> string" where
  "mask6_text p =
     (let gs = mask6_groups p; full = filter (\<lambda>g. g \<noteq> 0) gs in
      if length full < 7 then join '':'' (map show_hex full) @ ''::'' else join '':'' (map show_hex gs))"

definition netmask :: "string \<Rightarrow> string option" where
  "netmask subnet =
     (case as_network (PStr subnet) of
        None \<Rightarrow> None
      | Some (V4 _, p) \<Rightarrow> Some (octets (mask4 p))
      | Some (V6 _, p) \<Rightarrow> Some (mask6_text p))"

section \<open>One host\<close>

text \<open>What all hosts share.\<close>

record prov_ctx =
  pc_boot_url :: string
  pc_payload_url :: string
  pc_netmask :: string
  pc_gateway :: string
  pc_root_hash :: string
  pc_subdomain :: string
  pc_nameservers :: "string list"
  pc_ntp :: "string list"
  pc_workarounds :: "string list"
  pc_mtu :: int
  pc_ssh_key :: string
  pc_vlan :: "int option"

text \<open>The values a kickstart is made of.\<close>

record kickstart =
  ks_root_hash :: string
  ks_boot_disk :: string
  ks_mac :: string
  ks_ip :: string
  ks_netmask :: string
  ks_gateway :: string
  ks_nameservers :: string
  ks_vlan_opt :: string
  ks_vsan :: bool
  ks_first :: firstboot

definition kickstart_text :: "kickstart \<Rightarrow> string" where
  "kickstart_text k =
     fill kickstart_head
       [(''fqdn'', fb_fqdn (ks_first k)), (''root_hash'', ks_root_hash k), (''boot_disk'', ks_boot_disk k),
        (''mac'', ks_mac k), (''ip'', ks_ip k), (''netmask'', ks_netmask k), (''gateway'', ks_gateway k),
        (''nameservers'', ks_nameservers k), (''vlan_opt'', ks_vlan_opt k),
        (''overwritevsan_opt'', if ks_vsan k then '' --overwritevsan'' else []),
        (''vmfs_opt'', if fb_preserve (ks_first k) then ''--preservevmfs'' else ''--overwritevmfs''),
        (''paranoid_line'', if fb_preserve (ks_first k) then ''paranoid'' @ nl else [])] @
     render_firstboot (ks_first k)"

definition tiering_text :: "(pyval \<Rightarrow> string) \<Rightarrow> pydict \<Rightarrow> string \<Rightarrow> string \<Rightarrow> (string \<times> finding list) res" where
  "tiering_text shw hw path host =
     bind_res (tiering_findings shw hw path host) (\<lambda>reasons.
       if reasons \<noteq> [] then Inr ([], reasons)
       else bind_res (to_float (dget hw ''memoryTieringGb'')) (\<lambda>tier.
         if fle tier (Fin 0) then Inr ([], [])
         else bind_res (to_float (dget hw ''ramGb'')) (\<lambda>ram.
           bind_res (tier_ratio_pct tier ram) (\<lambda>ratio.
             Inr (memory_tiering_block shw (device_path (tiering_device shw hw)) ratio tier ram, [])))))"

definition prov_roles :: "(pyval \<Rightarrow> string) \<Rightarrow> string \<Rightarrow> pydict \<Rightarrow> (string \<times> string) list" where
  "prov_roles shw boot_disk hw =
     (''bootDisk'', boot_disk) #
     List.map_filter (\<lambda>field. if truthy (dget hw field) then Some (field, py_text shw (dget hw field)) else None)
       [''vsanDevice'', ''memoryTieringDevice'']"

record host_out =
  ho_kickstart :: "(string \<times> kickstart) option"
  ho_findings :: "finding list"

definition withheld :: "finding list \<Rightarrow> host_out" where
  "withheld fs = \<lparr>ho_kickstart = None, ho_findings = fs\<rparr>"

definition host_mac :: "(pyval \<Rightarrow> string) \<Rightarrow> pydict \<Rightarrow> string" where
  "host_mac shw host = lower (py_text shw (dget_or host ''provisioningMac'' (PStr [])))"

definition made_kickstart :: "(pyval \<Rightarrow> string) \<Rightarrow> prov_ctx \<Rightarrow> pydict \<Rightarrow> string \<Rightarrow> kickstart" where
  "made_kickstart shw ctx host tiering =
     (let name = py_text shw (dget_or host ''name'' (PStr []));
          hw = as_mapping (dget host ''hardware'');
          fqdn = (if pc_subdomain ctx \<noteq> [] then name @ ''.'' @ pc_subdomain ctx else name)
      in \<lparr>ks_root_hash = pc_root_hash ctx, ks_boot_disk = boot_disk_of shw host, ks_mac = host_mac shw host,
          ks_ip = py_text shw (dget_or host ''mgmtIp'' (PStr [])),
          ks_netmask = pc_netmask ctx, ks_gateway = pc_gateway ctx,
          ks_nameservers = join '','' (pc_nameservers ctx),
          ks_vlan_opt = (case pc_vlan ctx of None \<Rightarrow> [] | Some v \<Rightarrow> '' --vlanid='' @ show_int v),
          ks_vsan = truthy (dget hw ''bootDiskClaimedByVsan''),
          ks_first = \<lparr>fb_fqdn = fqdn,
            fb_ntp_opts = join '' '' (map (\<lambda>x. ''--server='' @ x) (pc_ntp ctx)),
            fb_mtu = pc_mtu ctx, fb_local_datastore = name @ ''-local'',
            fb_ssh_key = pc_ssh_key ctx, fb_tiering = tiering,
            fb_workarounds = workarounds_block shw (pc_workarounds ctx) (dget hw ''cpuModel''),
            fb_preserve = (dget_or hw ''bootDiskVmfs'' (PStr ''overwrite'') = PStr ''preserve'')\<rparr>\<rparr>)"

definition host_kickstart :: "(pyval \<Rightarrow> string) \<Rightarrow> prov_ctx \<Rightarrow> nat \<Rightarrow> pydict \<Rightarrow> host_out res" where
  "host_kickstart shw ctx i host =
     (let namev = dget_or host ''name'' (PStr []); name = py_text shw namev;
          path = ''/hosts/'' @ show_nat i;
          mac = host_mac shw host; boot_disk = boot_disk_of shw host;
          hw = as_mapping (dget host ''hardware'')
      in if mac = [] then Inr (withheld [finding_for ''VCF-PROV-NO-MAC'' path [(''host'', namev)]])
      else if boot_disk = [] then Inr (withheld [finding_for ''VCF-PROV-NO-BOOT-DISK'' path [(''host'', namev)]])
      else case boot_disk_finding boot_disk (path @ ''/bootDisk'') name of
        Some f \<Rightarrow> Inr (withheld [f])
      | None \<Rightarrow>
        (case collision_finding (prov_roles shw boot_disk hw) path name of
           Some f \<Rightarrow> Inr (withheld [f])
         | None \<Rightarrow>
           bind_res (tiering_text shw hw (path @ ''/hardware'') name) (\<lambda>(tiering, tfs).
             let claimed = truthy (dget hw ''bootDiskClaimedByVsan'');
                 mode = dget_or hw ''bootDiskVmfs'' (PStr ''overwrite'')
             in if (mode \<noteq> PStr ''overwrite'' \<and> mode \<noteq> PStr ''preserve'') \<or> (mode = PStr ''preserve'' \<and> claimed) then
                  Inr (withheld (tfs @ [finding_for ''VCF-PROV-BOOT-VMFS-MODE'' (path @ ''/hardware/bootDiskVmfs'')
                                   [(''host'', namev), (''value'', mode)]]))
                else Inr \<lparr>ho_kickstart = Some (''ks-'' @ name @ ''.cfg'', made_kickstart shw ctx host tiering),
                          ho_findings = tfs\<rparr>)))"

text \<open>The boot configuration of a host with a kickstart, under its MAC address.\<close>

definition boot_config :: "prov_ctx \<Rightarrow> string \<Rightarrow> string \<Rightarrow> kickstart \<Rightarrow> string \<times> string" where
  "boot_config ctx cfg ks_name k =
     (let kernelopt = ''ks='' @ pc_boot_url ctx @ ''/'' @ ks_name @ '' bootproto=static netdevice='' @ ks_mac k @
            '' ip='' @ ks_ip k @ '' netmask='' @ ks_netmask k @ '' gateway='' @ ks_gateway k @
            '' nameserver='' @ (case pc_nameservers ctx of [] \<Rightarrow> [] | n # _ \<Rightarrow> n) @
            (case pc_vlan ctx of None \<Rightarrow> [] | Some v \<Rightarrow> '' vlanid='' @ show_int v)
      in (''01-'' @ replace (ks_mac k) '':'' ''-'' @ ''/boot.cfg'',
          rewrite_boot_cfg cfg (pc_payload_url ctx) kernelopt))"

section \<open>All hosts\<close>

record artifacts =
  ar_kickstarts :: "(string \<times> string) list"
  ar_boot_configs :: "(string \<times> string) list"
  ar_manifest :: string
  ar_findings :: "finding list"

definition no_artifacts :: "finding list \<Rightarrow> artifacts" where
  "no_artifacts fs = \<lparr>ar_kickstarts = [], ar_boot_configs = [], ar_manifest = [], ar_findings = fs\<rparr>"

definition manifest_text :: "string \<Rightarrow> string \<Rightarrow> string \<Rightarrow> string list \<Rightarrow> string list \<Rightarrow> string" where
  "manifest_text boot_url payload_url esx_version ks_names cfg_names =
     fill manifest_head [(''boot_url'', boot_url), (''payload_url'', payload_url), (''esx_version'', esx_version)] @
     concat (map (\<lambda>n. n @ nl) (sort cfg_names @ sort ks_names))"

fun add_host :: "prov_ctx \<Rightarrow> string option \<Rightarrow> host_out \<Rightarrow> artifacts \<Rightarrow> artifacts" where
  "add_host ctx cfg out ar =
     (let ar' = ar\<lparr>ar_findings := ar_findings ar @ ho_findings out\<rparr> in
      case ho_kickstart out of
        None \<Rightarrow> ar'
      | Some (name, k) \<Rightarrow>
          ar'\<lparr>ar_kickstarts := alist_put name (kickstart_text k) (ar_kickstarts ar'),
              ar_boot_configs :=
                (case cfg of
                   None \<Rightarrow> ar_boot_configs ar'
                 | Some c \<Rightarrow> (case boot_config ctx c name k of
                                (p, t) \<Rightarrow> alist_put p t (ar_boot_configs ar')))\<rparr>)"

definition default_esx_version :: string where
  "default_esx_version = ''9.1.1.0''"

definition or_text :: "(pyval \<Rightarrow> string) \<Rightarrow> pyval \<Rightarrow> string \<Rightarrow> string" where
  "or_text shw v d = (if truthy v then py_text shw v else d)"

definition rstrip_slash :: "string \<Rightarrow> string" where
  "rstrip_slash s = rstrip_by (\<lambda>c. c = CHR ''/'') s"

definition vlan_tag :: "pyval \<Rightarrow> int option" where
  "vlan_tag v = (case int_of v of Some i \<Rightarrow> if i > 1 then Some i else None | None \<Rightarrow> None)"

definition prov_context :: "(pyval \<Rightarrow> string) \<Rightarrow> pydict \<Rightarrow> string \<Rightarrow> string \<Rightarrow> string \<Rightarrow> string \<Rightarrow> string \<Rightarrow> prov_ctx" where
  "prov_context shw invt boot_url payload nmask hash key =
     (let prov = as_mapping (dget invt ''provisioning'');
          mgmt = as_mapping (dget (as_mapping (dget invt ''networks'')) ''management'');
          dns = as_mapping (dget invt ''dns'');
          texts = (\<lambda>v. map (py_text shw) (as_sequence v))
      in \<lparr>pc_boot_url = boot_url, pc_payload_url = payload, pc_netmask = nmask,
          pc_gateway = py_text shw (dget mgmt ''gateway''), pc_root_hash = hash,
          pc_subdomain = strip_chars ''.'' (py_text shw (dget_or dns ''subdomain'' (PStr []))),
          pc_nameservers = texts (dget dns ''nameservers''),
          pc_ntp = texts (dget (as_mapping (dget invt ''ntp'')) ''servers''),
          pc_workarounds = texts (dget prov ''hostWorkarounds''),
          pc_mtu = (case int_of (dget mgmt ''mtu'') of Some i \<Rightarrow> i | None \<Rightarrow> 1500),
          pc_ssh_key = key, pc_vlan = vlan_tag (dget mgmt ''vlan'')\<rparr>)"

text \<open>The loop over the hosts, with the manifest of what it made.\<close>

definition render_hosts ::
  "(pyval \<Rightarrow> string) \<Rightarrow> pydict \<Rightarrow> string option \<Rightarrow> prov_ctx \<Rightarrow> string \<Rightarrow> finding list \<Rightarrow> vcf_error + artifacts" where
  "render_hosts shw invt cfg ctx esx_version fs =
     bind_vcf (lift_res (map_res (\<lambda>(i, hv). host_kickstart shw ctx i (as_mapping hv)) (hosts_of invt)))
       (\<lambda>outs.
         let ar = foldl (\<lambda>a out. add_host ctx cfg out a) (no_artifacts fs) outs
         in Inr (ar\<lparr>ar_manifest := manifest_text (pc_boot_url ctx) (pc_payload_url ctx) esx_version
                      (map fst (ar_kickstarts ar)) (map fst (ar_boot_configs ar))\<rparr>))"

definition render_provisioning ::
  "(pyval \<Rightarrow> string) \<Rightarrow> pydict \<Rightarrow> string option \<Rightarrow> vcf_error + artifacts" where
  "render_provisioning shw invt cfg =
     (let prov = as_mapping (dget invt ''provisioning'');
          boot_url = rstrip_slash (py_text shw (dget_or prov ''bootServerUrl'' (PStr [])));
          esx_version = or_text shw (dget prov ''esxVersion'') default_esx_version;
          payload = rstrip_slash (or_text shw (dget prov ''installerPayloadUrl'') (boot_url @ ''/esx-'' @ esx_version));
          mgmt = as_mapping (dget (as_mapping (dget invt ''networks'')) ''management'')
      in if boot_url = [] then Inr (no_artifacts [finding_for ''VCF-PROV-NO-BOOT-SERVER'' ''/provisioning'' []])
      else case netmask (py_text shw (dget_or mgmt ''subnet'' (PStr []))) of
        None \<Rightarrow> Inr (no_artifacts [finding_for ''VCF-PROV-NO-MGMT-NETWORK'' ''/networks/management'' []])
      | Some nmask \<Rightarrow>
        if \<not> truthy (dget mgmt ''gateway'') then
          Inr (no_artifacts [finding_for ''VCF-PROV-NO-MGMT-NETWORK'' ''/networks/management'' []])
        else bind_vcf (root_hash shw (as_mapping (dget invt ''credentials''))) (\<lambda>h.
          case h of
            None \<Rightarrow> Inr (no_artifacts [finding_for ''VCF-PROV-NO-ROOT-HASH'' ''/credentials/esxRootHash'' []])
          | Some hash \<Rightarrow>
            bind_vcf (ssh_public_key shw prov) (\<lambda>k.
              let f2 = (if cfg = None then [finding_for ''VCF-PROV-NO-ESX-BOOT-CFG'' ''/provisioning'' []] else []) in
              case k of
                SshKey s \<Rightarrow> render_hosts shw invt cfg (prov_context shw invt boot_url payload nmask hash s) esx_version f2
              | NotAPublicKey \<Rightarrow>
                  render_hosts shw invt cfg (prov_context shw invt boot_url payload nmask hash []) esx_version
                    (finding_for ''VCF-PROV-SSH-KEY-NOT-PUBLIC'' ''/provisioning/sshPublicKey'' [] # f2))))"

section \<open>Where a kickstart comes from\<close>

lemma map_res_set:
  "map_res f xs = Inr ys \<Longrightarrow> y \<in> set ys \<Longrightarrow> \<exists>x \<in> set xs. f x = Inr y"
  by (induction xs arbitrary: ys) (auto simp: bind_res_Inr_iff)

lemma alist_put_subset: "set (alist_put k v xs) \<subseteq> insert (k, v) (set xs)"
  by (induction k v xs rule: alist_put.induct) auto

lemma add_host_kickstarts:
  "set (ar_kickstarts (add_host ctx cfg out a)) \<subseteq>
     set (ar_kickstarts a) \<union> {(n, kickstart_text k) |n k. ho_kickstart out = Some (n, k)}"
proof (cases "ho_kickstart out")
  case (Some p)
  obtain n k where p: "p = (n, k)" by (cases p)
  have "set (alist_put n (kickstart_text k) (ar_kickstarts a)) \<subseteq>
      insert (n, kickstart_text k) (set (ar_kickstarts a))"
    by (rule alist_put_subset)
  then show ?thesis using Some p by (auto simp: Let_def)
qed simp

declare add_host.simps [simp del]

lemma fold_kickstarts:
  "(n, t) \<in> set (ar_kickstarts (foldl (\<lambda>a out. add_host ctx cfg out a) a outs)) \<Longrightarrow>
     (n, t) \<in> set (ar_kickstarts a) \<or>
     (\<exists>out k. out \<in> set outs \<and> ho_kickstart out = Some (n, k) \<and> t = kickstart_text k)"
proof (induction outs arbitrary: a)
  case (Cons out outs)
  from Cons.IH [of "add_host ctx cfg out a"] Cons.prems
  consider "(n, t) \<in> set (ar_kickstarts (add_host ctx cfg out a))"
    | out' k where "out' \<in> set outs" "ho_kickstart out' = Some (n, k)" "t = kickstart_text k"
    by auto
  then show ?case
  proof cases
    case 1
    with add_host_kickstarts [of ctx cfg out a] show ?thesis by auto
  next
    case 2
    then show ?thesis by auto
  qed
qed simp

text \<open>What the checks before it leave of a key that is published.\<close>

definition publishable_key :: "string \<Rightarrow> bool" where
  "publishable_key s =
     (s = [] \<or> (re_search private_key_re s = None \<and> re_match ssh_public_key_re s \<noteq> None))"

lemma render_hosts_kickstart:
  assumes "render_hosts shw invt cfg ctx v fs = Inr ar" and "(n, t) \<in> set (ar_kickstarts ar)"
  shows "\<exists>i hv out k. (i, hv) \<in> set (hosts_of invt) \<and>
      host_kickstart shw ctx i (as_mapping hv) = Inr out \<and> ho_kickstart out = Some (n, k) \<and> t = kickstart_text k"
proof -
  from assms(1) obtain outs m where
      outs: "map_res (\<lambda>(i, hv). host_kickstart shw ctx i (as_mapping hv)) (hosts_of invt) = Inr outs" and
      ar: "ar = (foldl (\<lambda>a out. add_host ctx cfg out a) (no_artifacts fs) outs)\<lparr>ar_manifest := m\<rparr>"
    by (auto simp: render_hosts_def bind_vcf_Inr Let_def)
  have "(n, t) \<in> set (ar_kickstarts (foldl (\<lambda>a out. add_host ctx cfg out a) (no_artifacts fs) outs))"
    using assms(2) ar by simp
  from fold_kickstarts [OF this] obtain out k where out: "out \<in> set outs"
      "ho_kickstart out = Some (n, k)" "t = kickstart_text k"
    by (auto simp: no_artifacts_def)
  from map_res_set [OF outs out(1)] out show ?thesis by auto
qed

lemma render_provisioning_kickstart:
  assumes "render_provisioning shw invt cfg = Inr ar" and "(n, t) \<in> set (ar_kickstarts ar)"
  shows "\<exists>i hv ctx out k. (i, hv) \<in> set (hosts_of invt) \<and>
      host_kickstart shw ctx i (as_mapping hv) = Inr out \<and> ho_kickstart out = Some (n, k) \<and>
      t = kickstart_text k \<and> root_hash shw (as_mapping (dget invt ''credentials'')) = Inr (Some (pc_root_hash ctx)) \<and>
      publishable_key (pc_ssh_key ctx)"
proof -
  let ?prov = "as_mapping (dget invt ''provisioning'')" and ?creds = "as_mapping (dget invt ''credentials'')"
  have no: "no_artifacts fs \<noteq> ar" for fs using assms(2) by (auto simp: no_artifacts_def)
  obtain h where h: "root_hash shw ?creds = Inr (Some h)"
    using assms(1) no unfolding render_provisioning_def Let_def
    by (cases "root_hash shw ?creds")
       (simp_all add: bind_vcf_def split: if_split_asm option.split_asm)
  obtain k where k: "ssh_public_key shw ?prov = Inr k"
    using assms(1) no unfolding render_provisioning_def Let_def h
    by (cases "ssh_public_key shw ?prov")
       (simp_all add: bind_vcf_def split: if_split_asm option.split_asm)
  have "\<exists>boot payload nmask v fs s. render_hosts shw invt cfg (prov_context shw invt boot payload nmask h s) v fs = Inr ar \<and>
      s = (case k of SshKey s \<Rightarrow> s | NotAPublicKey \<Rightarrow> [])"
    using assms(1) no unfolding render_provisioning_def Let_def h k
    by (simp add: bind_vcf_def split: if_split_asm option.split_asm ssh_key.split_asm) blast+
  then obtain boot payload nmask v fs s where
      r: "render_hosts shw invt cfg (prov_context shw invt boot payload nmask h s) v fs = Inr ar"
      and s: "s = (case k of SshKey s \<Rightarrow> s | NotAPublicKey \<Rightarrow> [])"
    by blast
  have "publishable_key s"
    using k s unfolding ssh_public_key_def publishable_key_def Let_def
    by (simp split: if_split_asm del: not_None_eq) auto
  moreover have "pc_root_hash (prov_context shw invt boot payload nmask h s) = h"
      "pc_ssh_key (prov_context shw invt boot payload nmask h s) = s"
    by (simp_all add: prov_context_def Let_def)
  ultimately show ?thesis using render_hosts_kickstart [OF r assms(2)] h by metis
qed

lemma withheld_none [simp]: "ho_kickstart (withheld fs) = None"
  by (simp add: withheld_def)

lemma host_kickstart_made:
  assumes "host_kickstart shw ctx i host = Inr out" and "ho_kickstart out = Some (n, k)"
  shows "(\<exists>tiering. k = made_kickstart shw ctx host tiering) \<and>
    n = ''ks-'' @ py_text shw (dget_or host ''name'' (PStr [])) @ ''.cfg'' \<and>
    boot_disk_safe (boot_disk_of shw host) \<and>
    distinct (map (device_key \<circ> snd) (prov_roles shw (boot_disk_of shw host) (as_mapping (dget host ''hardware'')))) \<and>
    (dget_or (as_mapping (dget host ''hardware'')) ''bootDiskVmfs'' (PStr ''overwrite'') = PStr ''overwrite'' \<or>
     dget_or (as_mapping (dget host ''hardware'')) ''bootDiskVmfs'' (PStr ''overwrite'') = PStr ''preserve'' \<and>
       \<not> truthy (dget (as_mapping (dget host ''hardware'')) ''bootDiskClaimedByVsan''))"
proof -
  let ?name = "py_text shw (dget_or host ''name'' (PStr []))" and ?path = "''/hosts/'' @ show_nat i"
    and ?hw = "as_mapping (dget host ''hardware'')" and ?boot = "boot_disk_of shw host"
  let ?mode = "dget_or ?hw ''bootDiskVmfs'' (PStr ''overwrite'')"
  let ?claimed = "truthy (dget ?hw ''bootDiskClaimedByVsan'')"
  note made = assms(1) [unfolded host_kickstart_def Let_def]
  have mac: "host_mac shw host \<noteq> []" and boot: "?boot \<noteq> []"
    using made assms(2) by (simp_all split: if_split_asm) auto
  have disk: "boot_disk_finding ?boot (?path @ ''/bootDisk'') ?name = None"
    using made assms(2) mac boot by (cases "boot_disk_finding ?boot (?path @ ''/bootDisk'') ?name") auto
  have coll: "collision_finding (prov_roles shw ?boot ?hw) ?path ?name = None"
    using made assms(2) mac boot disk by (cases "collision_finding (prov_roles shw ?boot ?hw) ?path ?name") auto
  have "\<exists>p. tiering_text shw ?hw (?path @ ''/hardware'') ?name = Inr p"
    using made mac boot disk coll by (cases "tiering_text shw ?hw (?path @ ''/hardware'') ?name") auto
  then obtain tiering tfs where tier: "tiering_text shw ?hw (?path @ ''/hardware'') ?name = Inr (tiering, tfs)"
    by (metis surj_pair)
  have mode: "\<not> ((?mode \<noteq> PStr ''overwrite'' \<and> ?mode \<noteq> PStr ''preserve'') \<or> (?mode = PStr ''preserve'' \<and> ?claimed))"
  proof
    assume bad: "(?mode \<noteq> PStr ''overwrite'' \<and> ?mode \<noteq> PStr ''preserve'') \<or> (?mode = PStr ''preserve'' \<and> ?claimed)"
    from made show False
      unfolding if_not_P [OF mac] if_not_P [OF boot] disk coll tier option.case bind_res_simps prod.case if_P [OF bad]
      using assms(2) by auto
  qed
  from made have "out = \<lparr>ho_kickstart = Some (''ks-'' @ ?name @ ''.cfg'', made_kickstart shw ctx host tiering), ho_findings = tfs\<rparr>"
    unfolding if_not_P [OF mac] if_not_P [OF boot] disk coll tier option.case bind_res_simps prod.case if_not_P [OF mode]
    by simp
  then have nk: "n = ''ks-'' @ ?name @ ''.cfg''" "k = made_kickstart shw ctx host tiering" using assms(2) by simp_all
  show ?thesis
    using mode disk coll by (auto simp only: nk boot_disk_finding_None collision_finding_None)
qed

section \<open>The lines of a kickstart\<close>

lemma fill_append: "fill (ps @ qs) flds = fill ps flds @ fill qs flds"
  by (simp add: fill_def)

lemma fill_contains:
  assumes "ps = pre @ mid @ post"
  shows "contains (fill ps flds) (fill mid flds)"
  unfolding assms fill_append contains_iff by blast

text \<open>The install line, with what precedes it, and the line that sets the password.\<close>

definition install_line :: "kickstart \<Rightarrow> string" where
  "install_line k =
     (if fb_preserve (ks_first k) then ''paranoid'' @ nl else []) @ ''install --disk='' @ ks_boot_disk k @ '' '' @
     (if fb_preserve (ks_first k) then ''--preservevmfs'' else ''--overwritevmfs'') @
     (if ks_vsan k then '' --overwritevsan'' else []) @ nl"

definition rootpw_line :: "string \<Rightarrow> string" where
  "rootpw_line h = ''rootpw --iscrypted '' @ h @ nl"

definition key_line :: "string \<Rightarrow> string" where
  "key_line s = ''echo '' @ [CHR 0x27] @ s @ [CHR 0x27] @ '' > /etc/ssh/keys-root/authorized_keys'' @ nl"

lemma head_install:
  "kickstart_head = take 22 kickstart_head @
     [Fld ''paranoid_line'', Lit ''install --disk='', Fld ''boot_disk'', Lit '' '', Fld ''vmfs_opt'',
      Fld ''overwritevsan_opt'', Nl] @ drop 29 kickstart_head"
  by code_simp

lemma head_rootpw:
  "kickstart_head = take 19 kickstart_head @ [Lit ''rootpw --iscrypted '', Fld ''root_hash'', Nl] @
     drop 22 kickstart_head"
  by code_simp

lemma ssh_key_echo:
  "ssh_key_text = take 10 ssh_key_text @
     [Lit ''echo '', Ch (CHR 0x27), Fld ''ssh_public_key'', Ch (CHR 0x27),
      Lit '' > /etc/ssh/keys-root/authorized_keys'', Nl] @ drop 16 ssh_key_text"
  by code_simp

lemma contains_append1: "contains s p \<Longrightarrow> contains (s @ r) p"
proof -
  assume "contains s p"
  then obtain u v where "s = u @ p @ v" unfolding contains_iff by blast
  then have "s @ r = u @ p @ (v @ r)" by simp
  then show ?thesis unfolding contains_iff by blast
qed

lemma contains_append2: "contains s p \<Longrightarrow> contains (r @ s) p"
proof -
  assume "contains s p"
  then obtain u v where "s = u @ p @ v" unfolding contains_iff by blast
  then have "r @ s = (r @ u) @ p @ v" by simp
  then show ?thesis unfolding contains_iff by blast
qed

lemma contains_eq: "contains s p \<Longrightarrow> p = q \<Longrightarrow> contains s q"
  by simp

lemma kickstart_lines:
  "contains (kickstart_text k) (install_line k)"
  "contains (kickstart_text k) (rootpw_line (ks_root_hash k))"
  "fb_ssh_key (ks_first k) \<noteq> [] \<Longrightarrow> contains (kickstart_text k) (key_line (fb_ssh_key (ks_first k)))"
proof -
  show "contains (kickstart_text k) (install_line k)"
    unfolding kickstart_text_def
    by (rule contains_append1, rule contains_eq [OF fill_contains [OF head_install]])
       (simp add: fill_def install_line_def)
  show "contains (kickstart_text k) (rootpw_line (ks_root_hash k))"
    unfolding kickstart_text_def
    by (rule contains_append1, rule contains_eq [OF fill_contains [OF head_rootpw]])
       (simp add: fill_def rootpw_line_def)
  assume ne: "fb_ssh_key (ks_first k) \<noteq> []"
  have "contains (ssh_key_block (fb_ssh_key (ks_first k))) (key_line (fb_ssh_key (ks_first k)))"
    unfolding ssh_key_block_def if_not_P [OF ne]
    by (rule contains_eq [OF fill_contains [OF ssh_key_echo]]) (simp add: fill_def key_line_def)
  then show "contains (kickstart_text k) (key_line (fb_ssh_key (ks_first k)))"
    unfolding kickstart_text_def render_firstboot_def
    by (intro contains_append2 contains_append1)
qed

section \<open>What a published key can hold\<close>

lemma ssh_key_chars:
  assumes "re_match ssh_public_key_re s \<noteq> None"
  shows "\<forall>c \<in> set s. c \<noteq> CHR 0x27 \<and> c \<noteq> CHR 0x5C"
proof -
  from assms obtain st where st: "st \<in> set (mt ssh_public_key_re (mstart s))"
    by (auto simp: re_match_def split: list.splits)
  have eats: "eats (may_eat ssh_public_key_re) (min_len ssh_public_key_re) (mstart s) st"
    by (rule mt_eats [OF st])
  have "at_end_dollar st" by (rule ends_eos_end [OF _ st]) (simp add: ssh_public_key_re_def)
  then have tail: "\<forall>c \<in> set (ahead st). c = CHR 0x0A"
    by (auto simp: at_end_dollar_def length_Suc_conv dest: cp_newline)
  have "\<not> may_eat ssh_public_key_re (CHR 0x27)" "\<not> may_eat ssh_public_key_re (CHR 0x5C)"
    by code_simp+
  then have chars: "c \<noteq> CHR 0x27 \<and> c \<noteq> CHR 0x5C" if "may_eat ssh_public_key_re c" for c
    using that by blast
  from eats obtain w where "s = w @ ahead st" "list_all (may_eat ssh_public_key_re) w"
    by (auto simp: eats_def mstart_def)
  with tail chars show ?thesis by (auto simp: list_all_iff)
qed

section \<open>Properties\<close>



text \<open>A sample inventory: one host with a stable boot disk, a crypt hash behind a reference and a public key.\<close>

definition sample_host :: pydict where
  "sample_host = [(PStr ''name'', PStr ''esx01''), (PStr ''provisioningMac'', PStr ''58:47:CA:00:00:01''),
     (PStr ''bootDisk'', PStr ''t10.NVMe____A''), (PStr ''mgmtIp'', PStr ''10.0.10.11''),
     (PStr ''hardware'', PDict [(PStr ''bootDiskVmfs'', PStr ''preserve''), (PStr ''vsanDevice'', PStr ''t10.NVMe____B'')])]"

definition sample_invt :: pydict where
  "sample_invt =
     [(PStr ''provisioning'', PDict [(PStr ''bootServerUrl'', PStr ''http://10.0.10.2/''),
        (PStr ''sshPublicKey'', PStr ''ssh-ed25519 AAAA op'')]),
      (PStr ''networks'', PDict [(PStr ''management'', PDict [(PStr ''subnet'', PStr ''10.0.10.0/24''),
        (PStr ''gateway'', PStr ''10.0.10.1''), (PStr ''vlan'', PInt 10)])]),
      (PStr ''credentials'', PDict [(PStr ''esxRootHash'', PStr ''${esx_root_hash}'')]),
      (PStr ''hosts'', PList [PDict sample_host])]"

lemma sample_hosts: "hosts_of sample_invt = [(0, PDict sample_host)]"
  by code_simp

lemma sample_hash:
  "root_hash (\<lambda>_. []) (as_mapping (dget sample_invt ''credentials'')) = Inr (Some ''${esx_root_hash}'')"
  by code_simp

lemma sample_key:
  "ssh_public_key (\<lambda>_. []) (as_mapping (dget sample_invt ''provisioning'')) = Inr (SshKey ''ssh-ed25519 AAAA op'')"
  by code_simp

lemma sample_mask: "\<exists>m. netmask ''10.0.10.0/24'' = Some m"
proof -
  have parts: "split_char (CHR ''/'') ''10.0.10.0/24'' = [''10.0.10.0'', ''24'']" by code_simp
  have octs: "map parse_octet (split_char (CHR ''.'') ''10.0.10.0'') = [Some 10, Some 0, Some 10, Some 0]"
    by code_simp
  have bits: "parse_prefix 32 ''24'' = Some 24" by code_simp
  show ?thesis
    by (simp add: netmask_def as_network_def parse_net_def parts parse_ip4_def octs prefix4_def bits)
qed

lemma sample_fields:
  "rstrip_slash (py_text (\<lambda>_. []) (dget_or (as_mapping (dget sample_invt ''provisioning'')) ''bootServerUrl'' (PStr []))) \<noteq> []"
  "py_text (\<lambda>_. []) (dget_or (as_mapping (dget (as_mapping (dget sample_invt ''networks'')) ''management'')) ''subnet'' (PStr [])) = ''10.0.10.0/24''"
  "truthy (dget (as_mapping (dget (as_mapping (dget sample_invt ''networks'')) ''management'')) ''gateway'')"
  by code_simp+

lemma sample_host_out:
  "\<exists>k. host_kickstart (\<lambda>_. []) ctx 0 sample_host = Inr \<lparr>ho_kickstart = Some (''ks-esx01.cfg'', k), ho_findings = []\<rparr>"
proof -
  have "host_mac (\<lambda>_. []) sample_host \<noteq> []" "boot_disk_of (\<lambda>_. []) sample_host \<noteq> []"
    "boot_disk_finding (boot_disk_of (\<lambda>_. []) sample_host) (''/hosts/'' @ show_nat 0 @ ''/bootDisk'')
       (py_text (\<lambda>_. []) (dget_or sample_host ''name'' (PStr []))) = None"
    "collision_finding (prov_roles (\<lambda>_. []) (boot_disk_of (\<lambda>_. []) sample_host) (as_mapping (dget sample_host ''hardware'')))
       (''/hosts/'' @ show_nat 0) (py_text (\<lambda>_. []) (dget_or sample_host ''name'' (PStr []))) = None"
    "tiering_text (\<lambda>_. []) (as_mapping (dget sample_host ''hardware'')) (''/hosts/'' @ show_nat 0 @ ''/hardware'')
       (py_text (\<lambda>_. []) (dget_or sample_host ''name'' (PStr []))) = Inr ([], [])"
    "dget_or (as_mapping (dget sample_host ''hardware'')) ''bootDiskVmfs'' (PStr ''overwrite'') = PStr ''preserve''"
    "\<not> truthy (dget (as_mapping (dget sample_host ''hardware'')) ''bootDiskClaimedByVsan'')"
    "py_text (\<lambda>_. []) (dget_or sample_host ''name'' (PStr [])) = ''esx01''"
    by code_simp+
  then show ?thesis unfolding host_kickstart_def Let_def by simp
qed

lemma sample_rendered:
  "\<exists>ar t. render_provisioning (\<lambda>_. []) sample_invt None = Inr ar \<and> (''ks-esx01.cfg'', t) \<in> set (ar_kickstarts ar)"
proof -
  have hosts: "\<exists>ar t. render_hosts (\<lambda>_. []) sample_invt None ctx v fs = Inr ar \<and>
      (''ks-esx01.cfg'', t) \<in> set (ar_kickstarts ar)" for ctx v fs
  proof -
    obtain k where "host_kickstart (\<lambda>_. []) ctx 0 sample_host =
        Inr \<lparr>ho_kickstart = Some (''ks-esx01.cfg'', k), ho_findings = []\<rparr>"
      using sample_host_out by blast
    then show ?thesis
      by (simp add: render_hosts_def sample_hosts bind_vcf_def lift_res_def Let_def add_host.simps no_artifacts_def)
  qed
  obtain m where m: "netmask ''10.0.10.0/24'' = Some m" using sample_mask by blast
  show ?thesis
    unfolding render_provisioning_def Let_def sample_fields(2) m
    using sample_fields(1,3) sample_hash sample_key hosts
    by (simp add: bind_vcf_def)
qed



text \<open>An explicit null is the text \<^verbatim>\<open>none\<close>, a MAC address like any other.\<close>

lemma null_mac_is_a_mac: "host_mac shw [(PStr ''provisioningMac'', PNone)] = ''none''"
  by code_simp

end
