(* ===== verification/VcfRender.thy ===== *)
theory VcfRender
  imports VcfDoc
begin

text \<open>
  The renderer of \<^verbatim>\<open>vcfspec/render.py\<close>: an inventory that need not match its schema becomes the
  specification the installer reads, with the findings on the defaults that were applied. It raises
  where Python raises on a wrong shape, and refuses every credential that is not a reference. The
  table of defaults of a version, a YAML file, is a parameter.
\<close>

section \<open>Reading values of unknown shape\<close>

definition attr_or :: "pyval \<Rightarrow> string \<Rightarrow> pyval \<Rightarrow> vcf_error + pyval" where
  "attr_or v k dflt = (case v of PDict d \<Rightarrow> Inr (dget_or d k dflt) | _ \<Rightarrow> Inl (Raises AttributeError))"

definition attr :: "pyval \<Rightarrow> string \<Rightarrow> vcf_error + pyval" where
  "attr v k = attr_or v k PNone"

definition item :: "pyval \<Rightarrow> string \<Rightarrow> vcf_error + pyval" where
  "item v k =
     (case v of
        PDict d \<Rightarrow> (case dlook d k of Some x \<Rightarrow> Inr x | None \<Rightarrow> Inl (Raises KeyError))
      | _ \<Rightarrow> Inl (Raises TypeError))"

definition or_empty :: "pyval \<Rightarrow> pyval" where
  "or_empty v = (if truthy v then v else PDict [])"

text \<open>\<^verbatim>\<open>key in value\<close>.\<close>

definition is_in :: "string \<Rightarrow> pyval \<Rightarrow> vcf_error + bool" where
  "is_in k v =
     (case v of
        PDict d \<Rightarrow> Inr (dhas d k)
      | PList xs \<Rightarrow> Inr (List.member xs (PStr k))
      | PStr s \<Rightarrow> Inr (contains s k)
      | _ \<Rightarrow> Inl (Raises TypeError))"

text \<open>\<^verbatim>\<open>int(v)\<close>; a text is digits, with single underscores between them, a sign and blanks around.\<close>

definition int_text :: "string \<Rightarrow> int option" where
  "int_text s =
     (let t = strip s;
          neg = (t \<noteq> [] \<and> hd t = CHR ''-'');
          u = (if t \<noteq> [] \<and> (hd t = CHR ''-'' \<or> hd t = CHR ''+'') then tl t else t);
          groups = split_char (CHR ''_'') u
      in if list_all (\<lambda>g. g \<noteq> [] \<and> list_all is_digit g) groups
         then Some ((if neg then - 1 else 1) * int (nat_of_digits (concat groups))) else None)"

definition to_int :: "pyval \<Rightarrow> vcf_error + int" where
  "to_int v =
     (case v of
        PInt i \<Rightarrow> Inr i
      | PBool b \<Rightarrow> Inr (if b then 1 else 0)
      | PFloat (Fin r) \<Rightarrow> Inr (if r < 0 then \<lceil>r\<rceil> else \<lfloor>r\<rfloor>)
      | PFloat NaN \<Rightarrow> Inl (Raises ValueError)
      | PFloat _ \<Rightarrow> Inl (Raises OverflowError)
      | PStr s \<Rightarrow> (case int_text s of Some i \<Rightarrow> Inr i | None \<Rightarrow> Inl (Raises ValueError))
      | _ \<Rightarrow> Inl (Raises TypeError))"

section \<open>Pieces of the specification\<close>

definition credential :: "pyval \<Rightarrow> string \<Rightarrow> vcf_error + pyval" where
  "credential creds name =
     bind_vcf (attr_or creds name (PStr [])) (\<lambda>v.
       case v of
         PStr s \<Rightarrow> if ref_match s then Inr (PStr s) else Inl InsecureCredential
       | _ \<Rightarrow> Inl (Raises TypeError))"

text \<open>A default, with the finding that it was applied.\<close>

definition apply_default :: "pydict \<Rightarrow> string \<Rightarrow> vcf_error + pyval \<times> finding list" where
  "apply_default dflts name =
     bind_vcf (item (PDict dflts) name) (\<lambda>entry.
     bind_vcf (item entry ''value'') (\<lambda>v.
     bind_vcf (item entry ''source'') (\<lambda>_.
       Inr (v, [finding_for ''VCF-RENDER-DEFAULT-APPLIED'' (''/'' @ name) [(''name'', PStr name), (''value'', v)]]))))"

definition value_or_default :: "pydict \<Rightarrow> pyval \<Rightarrow> string \<Rightarrow> vcf_error + pyval \<times> finding list" where
  "value_or_default dflts v name = (if truthy v then Inr (v, []) else apply_default dflts name)"

text \<open>A section of the inventory, with a finding when it is absent.\<close>

definition required :: "pydict \<Rightarrow> string \<Rightarrow> string \<Rightarrow> pyval \<times> finding list" where
  "required invt sect pointer =
     (let v = dget invt sect in
      (or_empty v,
       if v = PNone then [finding_for ''VCF-RENDER-UNMAPPED'' pointer [(''section'', PStr sect)]] else []))"

definition sddc_manager_spec :: "pyval \<Rightarrow> pyval \<Rightarrow> vcf_error + pyval" where
  "sddc_manager_spec appliances creds =
     bind_vcf (attr appliances ''sddcManager'') (\<lambda>m.
       let manager = as_mapping m in
       bind_vcf (credential creds ''sddcManagerRoot'') (\<lambda>root.
         let spec = [(PStr ''hostname'', dget_or manager ''hostname'' (PStr [])), (PStr ''rootPassword'', root)] in
         if dget manager ''useExistingDeployment'' = PBool True then
           bind_vcf (credential creds ''sddcManagerLocalUser'') (\<lambda>local.
           bind_vcf (credential creds ''sddcManagerSsh'') (\<lambda>ssh.
             Inr (PDict (spec @ [(PStr ''useExistingDeployment'', PBool True), (PStr ''localUserPassword'', local),
                                 (PStr ''sshPassword'', ssh)]))))
         else Inr (PDict spec)))"

definition network_types :: "(string \<times> string) list" where
  "network_types = [(''management'', ''MANAGEMENT''), (''vmotion'', ''VMOTION''), (''vsan'', ''VSAN'')]"

definition network_order :: "string list" where
  "network_order = [''management'', ''vmotion'', ''vsan'']"

definition network_spec :: "string \<Rightarrow> pyval \<Rightarrow> vcf_error + pyval" where
  "network_spec purpose entry =
     bind_vcf (bind_vcf (item entry ''vlan'') to_int) (\<lambda>vlan.
     bind_vcf (item entry ''subnet'') (\<lambda>subnet.
     bind_vcf (item entry ''gateway'') (\<lambda>gateway.
     bind_vcf (bind_vcf (item entry ''mtu'') to_int) (\<lambda>mtu.
     bind_vcf (attr entry ''pool'') (\<lambda>pool.
       let spec = [(PStr ''networkType'', PStr (the (map_of network_types purpose))), (PStr ''vlanId'', PInt vlan),
                   (PStr ''subnet'', subnet), (PStr ''gateway'', gateway), (PStr ''mtu'', PInt mtu)] in
       if truthy pool then
         bind_vcf (item pool ''start'') (\<lambda>s.
         bind_vcf (item pool ''end'') (\<lambda>e.
           Inr (PDict (spec @ [(PStr ''includeIpAddressRanges'',
                  PList [PDict [(PStr ''startIpAddress'', s), (PStr ''endIpAddress'', e)]])]))))
       else Inr (PDict spec))))))"

fun network_specs :: "pyval \<Rightarrow> string list \<Rightarrow> vcf_error + pyval list" where
  "network_specs networks [] = Inr []"
| "network_specs networks (p # ps) =
     bind_vcf (is_in p networks) (\<lambda>there.
       if there then
         bind_vcf (item networks p) (\<lambda>entry.
         bind_vcf (network_spec p entry) (\<lambda>spec.
         bind_vcf (network_specs networks ps) (\<lambda>specs. Inr (spec # specs))))
       else network_specs networks ps)"

definition vcenter_spec :: "pydict \<Rightarrow> pyval \<Rightarrow> pyval \<Rightarrow> vcf_error + pyval \<times> finding list" where
  "vcenter_spec dflts appliances creds =
     bind_vcf (attr appliances ''vcenter'') (\<lambda>v.
       let vcenter = or_empty v in
       bind_vcf (attr_or vcenter ''hostname'' (PStr [])) (\<lambda>host.
       bind_vcf (credential creds ''vcenterRoot'') (\<lambda>root.
       bind_vcf (bind_vcf (attr vcenter ''size'') (\<lambda>x. value_or_default dflts x ''vcenterSize'')) (\<lambda>(size', f1).
       bind_vcf (bind_vcf (attr vcenter ''ssoDomain'') (\<lambda>x. value_or_default dflts x ''ssoDomain'')) (\<lambda>(sso, f2).
       bind_vcf (credential creds ''ssoAdmin'') (\<lambda>admin.
         Inr (PDict [(PStr ''vcenterHostname'', host), (PStr ''rootVcenterPassword'', root), (PStr ''vmSize'', size'),
                     (PStr ''ssoDomain'', sso), (PStr ''adminUserSsoPassword'', admin)], f1 @ f2)))))))"

definition pool_range :: "pyval \<Rightarrow> pyval option" where
  "pool_range r =
     (case r of
        PDict d \<Rightarrow> Some (PDict [(PStr ''start'', dget_or d ''start'' (PStr [])), (PStr ''end'', dget_or d ''end'' (PStr []))])
      | _ \<Rightarrow> None)"

definition transport_vlan :: "pyval \<Rightarrow> vcf_error + pydict" where
  "transport_vlan nsx =
     bind_vcf (is_in ''transportVlanId'' nsx) (\<lambda>tagged.
       if tagged then bind_vcf (bind_vcf (item nsx ''transportVlanId'') to_int)
                        (\<lambda>i. Inr [(PStr ''transportVlanId'', PInt i)]) else Inr [])"

definition tep_pool :: "pyval \<Rightarrow> vcf_error + pydict" where
  "tep_pool pool =
     (if \<not> truthy pool then Inr []
      else
        bind_vcf (attr_or pool ''name'' (PStr ''tep-pool'')) (\<lambda>name.
        bind_vcf (attr_or pool ''cidr'' (PStr [])) (\<lambda>cidr.
        bind_vcf (attr_or pool ''gateway'' (PStr [])) (\<lambda>gw.
        bind_vcf (attr pool ''ranges'') (\<lambda>ranges.
          Inr [(PStr ''ipAddressPoolSpec'', PDict [(PStr ''name'', name),
                 (PStr ''subnets'', PList [PDict [(PStr ''cidr'', cidr), (PStr ''gateway'', gw),
                    (PStr ''ipAddressPoolRanges'', PList (List.map_filter pool_range (as_sequence ranges)))]])])])))))"

definition nsxt_spec :: "pydict \<Rightarrow> pyval \<Rightarrow> pyval \<Rightarrow> vcf_error + pyval \<times> finding list" where
  "nsxt_spec dflts nsx creds =
     bind_vcf (attr nsx ''tepPool'') (\<lambda>tp.
     bind_vcf (attr nsx ''managers'') (\<lambda>managers.
     bind_vcf (attr_or nsx ''vipFqdn'' (PStr [])) (\<lambda>vip.
     bind_vcf (bind_vcf (attr nsx ''size'') (\<lambda>x. value_or_default dflts x ''nsxSize'')) (\<lambda>(size', f1).
     bind_vcf (credential creds ''nsxAdmin'') (\<lambda>admin.
     bind_vcf (transport_vlan nsx) (\<lambda>vlan.
     bind_vcf (tep_pool (or_empty tp)) (\<lambda>pool.
       Inr (PDict ([(PStr ''nsxtManagers'',
                       PList (map (\<lambda>n. PDict [(PStr ''hostname'', n)]) (as_sequence managers))),
                    (PStr ''vipFqdn'', vip), (PStr ''nsxtManagerSize'', size'),
                    (PStr ''rootNsxtManagerPassword'', admin), (PStr ''nsxtAdminPassword'', admin)] @ vlan @ pool), f1))))))))"

definition host_spec :: "pyval \<Rightarrow> pyval \<Rightarrow> vcf_error + pyval" where
  "host_spec creds host =
     bind_vcf (attr_or host ''name'' (PStr [])) (\<lambda>name.
     bind_vcf (credential creds ''esxRoot'') (\<lambda>root.
       Inr (PDict [(PStr ''hostname'', name),
                   (PStr ''credentials'', PDict [(PStr ''username'', PStr ''root''), (PStr ''password'', root)])])))"

definition operations_spec :: "pydict \<Rightarrow> pyval \<Rightarrow> vcf_error + pyval" where
  "operations_spec ops creds =
     bind_vcf (credential creds ''operationsRoot'') (\<lambda>root.
     bind_vcf (credential creds ''operationsAdmin'') (\<lambda>admin.
       Inr (PDict [(PStr ''nodes'', PList [PDict [(PStr ''hostname'', dget_or ops ''hostname'' (PStr [])),
                      (PStr ''rootUserPassword'', root), (PStr ''type'', PStr ''master'')]]),
                   (PStr ''adminUserPassword'', admin), (PStr ''applianceSize'', dget_or ops ''size'' (PStr [])),
                   (PStr ''useExistingDeployment'', PBool False)])))"

definition collector_spec :: "pydict \<Rightarrow> pyval \<Rightarrow> vcf_error + pyval" where
  "collector_spec col creds =
     bind_vcf (credential creds ''operationsCollectorRoot'') (\<lambda>root.
       Inr (PDict [(PStr ''hostname'', dget_or col ''hostname'' (PStr [])), (PStr ''rootUserPassword'', root),
                   (PStr ''applianceSize'', dget_or col ''size'' (PStr [])), (PStr ''useExistingDeployment'', PBool False)]))"

definition datastore_spec :: "pyval \<Rightarrow> vcf_error + pydict" where
  "datastore_spec storage =
     bind_vcf (attr storage ''type'') (\<lambda>t.
       if t \<noteq> PStr ''VSAN_ESA'' then Inr []
       else
         bind_vcf (attr storage ''skipHclAutoDiskClaim'') (\<lambda>skip.
         bind_vcf (attr_or storage ''datastoreName'' (PStr ''vsan-datastore'')) (\<lambda>name.
         bind_vcf (bind_vcf (attr_or storage ''failuresToTolerate'' (PInt 1)) to_int) (\<lambda>ftt.
           Inr [(PStr ''datastoreSpec'', PDict [(PStr ''vsanSpec'', PDict [(PStr ''datastoreName'', name),
                  (PStr ''esaConfig'', PDict ((PStr ''enabled'', PBool True) #
                     (if skip = PBool True then [(PStr ''skipHclAutoDiskClaim'', PBool True)] else []))),
                  (PStr ''failuresToTolerate'', PInt ftt)])])]))))"

definition vsp_spec :: "pyval \<Rightarrow> vcf_error + pydict" where
  "vsp_spec vsp =
     (if \<not> truthy vsp then Inr []
      else
        bind_vcf (attr_or vsp ''platformFqdn'' (PStr [])) (\<lambda>platform.
        bind_vcf (attr_or vsp ''instanceFqdn'' (PStr [])) (\<lambda>inst.
        bind_vcf (attr_or vsp ''fleetFqdn'' (PStr [])) (\<lambda>fleet.
        bind_vcf (attr_or vsp ''poolStart'' (PStr [])) (\<lambda>s.
        bind_vcf (attr_or vsp ''poolEnd'' (PStr [])) (\<lambda>e.
        bind_vcf (attr_or vsp ''internalCidr'' (PStr ''198.18.0.0/15'')) (\<lambda>cidr.
          Inr [(PStr ''vspClusterSpec'', PDict [(PStr ''platformFqdn'', platform), (PStr ''instanceFqdn'', inst),
                 (PStr ''fleetFqdn'', fleet),
                 (PStr ''ipv4Pool'', PDict [(PStr ''ipRange'', PDict [(PStr ''startIpAddress'', s), (PStr ''endIpAddress'', e)])]),
                 (PStr ''internalClusterCidrIpv4'', cidr)])])))))))"

text \<open>The five sections a new fleet needs, from the appliances.\<close>

definition fleet_specs :: "pyval \<Rightarrow> pyval \<Rightarrow> vcf_error + pydict" where
  "fleet_specs appliances creds =
     bind_vcf (attr appliances ''operations'') (\<lambda>o'.
     bind_vcf (if as_mapping o' = [] then Inr []
               else bind_vcf (operations_spec (as_mapping o') creds) (\<lambda>s. Inr [(PStr ''vcfOperationsSpec'', s)])) (\<lambda>s1.
     bind_vcf (attr appliances ''operationsCollector'') (\<lambda>c.
     bind_vcf (if as_mapping c = [] then Inr []
               else bind_vcf (collector_spec (as_mapping c) creds) (\<lambda>s. Inr [(PStr ''vcfOperationsCollectorSpec'', s)])) (\<lambda>s2.
     bind_vcf (attr appliances ''identityBroker'') (\<lambda>b.
     bind_vcf (attr appliances ''licenseServer'') (\<lambda>l.
       let s3 = (if as_mapping b = [] then []
                 else [(PStr ''vidbSpec'', PDict [(PStr ''hostname'', dget_or (as_mapping b) ''hostname'' (PStr []))])]);
           s4 = (if as_mapping l = [] then []
                 else [(PStr ''licenseServerSpec'', PDict [(PStr ''hostname'', dget_or (as_mapping l) ''hostname'' (PStr [])),
                          (PStr ''useExistingDeployment'', PBool False)])])
       in Inr (s1 @ s2 @ s3 @ s4)))))))"

section \<open>The renderer\<close>

definition default_version :: string where
  "default_version = ''9.1.1.0''"

definition render ::
  "pydict \<Rightarrow> string \<Rightarrow> (vcf_error + pydict) \<Rightarrow> vcf_error + pydict \<times> finding list" where
  "render invt version loaded =
     bind_vcf loaded (\<lambda>dflts.
       let (inst, r1) = required invt ''instance'' ''/sddcId'';
           (dns, r2) = required invt ''dns'' ''/dnsSpec'';
           (networks, r3) = required invt ''networks'' ''/networkSpecs'';
           (appliances, r4) = required invt ''appliances'' ''/vcenterSpec'';
           nsx = or_empty (dget invt ''nsx''); storage = or_empty (dget invt ''storage'');
           creds = or_empty (dget invt ''credentials'')
       in
       bind_vcf (attr_or dns ''subdomain'' (PStr [])) (\<lambda>subdomain.
       bind_vcf (attr_or inst ''sddcId'' (PStr [])) (\<lambda>sddc_id.
       bind_vcf (attr_or inst ''name'' (PStr [])) (\<lambda>name.
       bind_vcf (attr_or inst ''vcfVersion'' (PStr version)) (\<lambda>ver.
       bind_vcf (apply_default dflts ''workflowType'') (\<lambda>(workflow, f1).
       bind_vcf (apply_default dflts ''ceipEnabled'') (\<lambda>(ceip, f2).
       bind_vcf (apply_default dflts ''skipEsxThumbprintValidation'') (\<lambda>(skip, f3).
       bind_vcf (attr dns ''nameservers'') (\<lambda>ns.
       bind_vcf (attr (or_empty (dget invt ''ntp'')) ''servers'') (\<lambda>ntp.
       bind_vcf (network_specs networks network_order) (\<lambda>nets.
       bind_vcf (vcenter_spec dflts appliances creds) (\<lambda>(vcenter, f4).
       bind_vcf (sddc_manager_spec appliances creds) (\<lambda>manager.
       bind_vcf (map_vcf (host_spec creds) (as_sequence (dget invt ''hosts''))) (\<lambda>hosts.
       bind_vcf (if truthy nsx then bind_vcf (nsxt_spec dflts nsx creds) (\<lambda>(s, f). Inr ([(PStr ''nsxtSpec'', s)], f))
                 else Inr ([], [])) (\<lambda>(nsxt, f5).
       bind_vcf (datastore_spec storage) (\<lambda>datastore.
       bind_vcf (bind_vcf (attr appliances ''vsp'') vsp_spec) (\<lambda>vsp.
       bind_vcf (fleet_specs appliances creds) (\<lambda>fleet.
         Inr ([(PStr ''sddcId'', sddc_id), (PStr ''vcfInstanceName'', name), (PStr ''version'', ver),
               (PStr ''workflowType'', workflow), (PStr ''ceipEnabled'', ceip),
               (PStr ''skipEsxThumbprintValidation'', skip),
               (PStr ''dnsSpec'', PDict [(PStr ''subdomain'', subdomain), (PStr ''nameservers'', PList (as_sequence ns))]),
               (PStr ''ntpServers'', PList (as_sequence ntp)), (PStr ''networkSpecs'', PList nets),
               (PStr ''vcenterSpec'', vcenter), (PStr ''sddcManagerSpec'', manager),
               (PStr ''hostSpecs'', PList hosts)] @ nsxt @ datastore @ vsp @ fleet,
              r1 @ r2 @ r3 @ r4 @ f1 @ f2 @ f3 @ f4 @ f5)))))))))))))))))))"

section \<open>No credential leaves the renderer\<close>

text \<open>A key that is neither credential-shaped nor the name of a credentials block.\<close>

definition plain_key :: "string \<Rightarrow> bool" where
  "plain_key k = (\<not> credential_key k \<and> lower k \<noteq> ''credentials'')"

definition spec_keys :: "string list" where
  "spec_keys =
     [''sddcId'', ''vcfInstanceName'', ''version'', ''workflowType'', ''ceipEnabled'',
      ''skipEsxThumbprintValidation'', ''dnsSpec'', ''subdomain'', ''nameservers'', ''ntpServers'',
      ''networkSpecs'', ''vcenterSpec'', ''sddcManagerSpec'', ''hostSpecs'', ''nsxtSpec'',
      ''datastoreSpec'', ''vsanSpec'', ''datastoreName'', ''esaConfig'', ''enabled'',
      ''skipHclAutoDiskClaim'', ''failuresToTolerate'', ''vspClusterSpec'', ''platformFqdn'',
      ''instanceFqdn'', ''fleetFqdn'', ''ipv4Pool'', ''ipRange'', ''startIpAddress'', ''endIpAddress'',
      ''internalClusterCidrIpv4'', ''vcfOperationsSpec'', ''vcfOperationsCollectorSpec'', ''vidbSpec'',
      ''licenseServerSpec'', ''hostname'', ''useExistingDeployment'', ''nodes'', ''type'',
      ''applianceSize'', ''networkType'', ''vlanId'', ''subnet'', ''gateway'', ''mtu'',
      ''includeIpAddressRanges'', ''vcenterHostname'', ''ssoDomain'', ''vmSize'', ''nsxtManagers'', ''vipFqdn'',
      ''nsxtManagerSize'', ''transportVlanId'', ''ipAddressPoolSpec'', ''name'', ''subnets'', ''cidr'',
      ''ipAddressPoolRanges'', ''start'', ''end'', ''instance'', ''dns'', ''networks'', ''appliances'',
      ''nsx'', ''storage'', ''ntp'', ''servers'', ''hosts'', ''vcfVersion'', ''sddcManager'', ''vlan'',
      ''pool'', ''vcenter'', ''size'', ''tepPool'', ''managers'', ''ranges'', ''vsp'', ''poolStart'',
      ''poolEnd'', ''internalCidr'', ''operations'', ''operationsCollector'', ''identityBroker'',
      ''licenseServer'', ''management'', ''vmotion'', ''vsan'']"

lemma spec_keys_plain: "list_all plain_key spec_keys"
  by code_simp

lemma plain_keys [simp]:
  "plain_key ''sddcId''"
  "plain_key ''vcfInstanceName''"
  "plain_key ''version''"
  "plain_key ''workflowType''"
  "plain_key ''ceipEnabled''"
  "plain_key ''skipEsxThumbprintValidation''"
  "plain_key ''dnsSpec''"
  "plain_key ''subdomain''"
  "plain_key ''nameservers''"
  "plain_key ''ntpServers''"
  "plain_key ''networkSpecs''"
  "plain_key ''vcenterSpec''"
  "plain_key ''sddcManagerSpec''"
  "plain_key ''hostSpecs''"
  "plain_key ''nsxtSpec''"
  "plain_key ''datastoreSpec''"
  "plain_key ''vsanSpec''"
  "plain_key ''datastoreName''"
  "plain_key ''esaConfig''"
  "plain_key ''enabled''"
  "plain_key ''skipHclAutoDiskClaim''"
  "plain_key ''failuresToTolerate''"
  "plain_key ''vspClusterSpec''"
  "plain_key ''platformFqdn''"
  "plain_key ''instanceFqdn''"
  "plain_key ''fleetFqdn''"
  "plain_key ''ipv4Pool''"
  "plain_key ''ipRange''"
  "plain_key ''startIpAddress''"
  "plain_key ''endIpAddress''"
  "plain_key ''internalClusterCidrIpv4''"
  "plain_key ''vcfOperationsSpec''"
  "plain_key ''vcfOperationsCollectorSpec''"
  "plain_key ''vidbSpec''"
  "plain_key ''licenseServerSpec''"
  "plain_key ''hostname''"
  "plain_key ''useExistingDeployment''"
  "plain_key ''nodes''"
  "plain_key ''type''"
  "plain_key ''applianceSize''"
  "plain_key ''networkType''"
  "plain_key ''vlanId''"
  "plain_key ''subnet''"
  "plain_key ''gateway''"
  "plain_key ''mtu''"
  "plain_key ''includeIpAddressRanges''"
  "plain_key ''vcenterHostname''"
  "plain_key ''ssoDomain''"
  "plain_key ''vmSize''"
  "plain_key ''nsxtManagers''"
  "plain_key ''vipFqdn''"
  "plain_key ''nsxtManagerSize''"
  "plain_key ''transportVlanId''"
  "plain_key ''ipAddressPoolSpec''"
  "plain_key ''name''"
  "plain_key ''subnets''"
  "plain_key ''cidr''"
  "plain_key ''ipAddressPoolRanges''"
  "plain_key ''start''"
  "plain_key ''end''"
  "plain_key ''instance''"
  "plain_key ''dns''"
  "plain_key ''networks''"
  "plain_key ''appliances''"
  "plain_key ''nsx''"
  "plain_key ''storage''"
  "plain_key ''ntp''"
  "plain_key ''servers''"
  "plain_key ''hosts''"
  "plain_key ''vcfVersion''"
  "plain_key ''sddcManager''"
  "plain_key ''vlan''"
  "plain_key ''pool''"
  "plain_key ''vcenter''"
  "plain_key ''size''"
  "plain_key ''tepPool''"
  "plain_key ''managers''"
  "plain_key ''ranges''"
  "plain_key ''vsp''"
  "plain_key ''poolStart''"
  "plain_key ''poolEnd''"
  "plain_key ''internalCidr''"
  "plain_key ''operations''"
  "plain_key ''operationsCollector''"
  "plain_key ''identityBroker''"
  "plain_key ''licenseServer''"
  "plain_key ''management''"
  "plain_key ''vmotion''"
  "plain_key ''vsan''"
  using spec_keys_plain by (simp_all only: spec_keys_def list.pred_inject)

lemma ok_entry [simp]:
  "plain_key k \<Longrightarrow> creds_ok_dict shw ((PStr k, v) # d) False \<longleftrightarrow> creds_ok shw v False \<and> creds_ok_dict shw d False"
  by (auto simp: plain_key_def credential_leaf_def)

lemma ok_ref_entry:
  "ref_match s \<Longrightarrow> creds_ok_dict shw ((PStr k, PStr s) # d) ic \<longleftrightarrow> creds_ok_dict shw d ic"
  by (auto simp: credential_leaf_def is_reference_def)

lemma ok_append [simp]:
  "creds_ok_dict shw (d @ e) ic \<longleftrightarrow> creds_ok_dict shw d ic \<and> creds_ok_dict shw e ic"
  by (induction d) (auto simp: Let_def)

lemma ok_list_iff: "creds_ok_list shw xs ic \<longleftrightarrow> (\<forall>x \<in> set xs. creds_ok shw x ic)"
  by (induction xs) auto

lemma ok_credentials_entry:
  assumes "ref_match s"
  shows "creds_ok_dict shw [(PStr ''credentials'', PDict [(PStr ''username'', PStr ''root''), (PStr ''password'', PStr s)])] False"
proof -
  have "\<not> credential_key ''credentials''" "lower ''username'' = ''username''" "lower ''credentials'' = ''credentials''"
    by code_simp+
  then show ?thesis
    using assms by (simp add: credential_leaf_def non_secret_keys_def is_reference_def)
qed

lemma ok_lookup:
  assumes "creds_ok_dict shw d False" and "plain_key k" and "dlook d k = Some v"
  shows "creds_ok shw v False"
  using assms
proof (induction d)
  case (Cons e d)
  obtain k' v' where e: "e = (k', v')" by (cases e)
  show ?case
  proof (cases "k' = PStr k")
    case True
    then have "v = v'" using Cons.prems(3) by (simp add: e)
    then show ?thesis using Cons.prems(1,2) by (simp add: e True plain_key_def)
  next
    case False
    then have "dlook d k = Some v" using Cons.prems(3) by (simp add: e dlook_def)
    then show ?thesis using Cons by (simp add: e)
  qed
qed simp

lemma ok_dget_or:
  "creds_ok_dict shw d False \<Longrightarrow> plain_key k \<Longrightarrow> creds_ok shw v0 False \<Longrightarrow> creds_ok shw (dget_or d k v0) False"
  by (auto simp: dget_or_def ok_lookup split: option.splits)

lemma ok_dget: "creds_ok_dict shw d False \<Longrightarrow> plain_key k \<Longrightarrow> creds_ok shw (dget d k) False"
  by (auto simp: dget_def ok_lookup split: option.splits)

lemma attr_or_Inr: "attr_or v k v0 = Inr x \<longleftrightarrow> (\<exists>d. v = PDict d \<and> x = dget_or d k v0)"
  by (cases v) (auto simp: attr_or_def)

lemma item_Inr: "item v k = Inr x \<longleftrightarrow> (\<exists>d. v = PDict d \<and> dlook d k = Some x)"
  by (cases v) (auto simp: item_def split: option.splits)

lemma ok_attr_or:
  "attr_or v k v0 = Inr x \<Longrightarrow> creds_ok shw v False \<Longrightarrow> plain_key k \<Longrightarrow> creds_ok shw v0 False \<Longrightarrow> creds_ok shw x False"
  by (auto simp: attr_or_Inr ok_dget_or)

lemma ok_attr: "attr v k = Inr x \<Longrightarrow> creds_ok shw v False \<Longrightarrow> plain_key k \<Longrightarrow> creds_ok shw x False"
  by (auto simp: attr_def intro: ok_attr_or)

lemma ok_item: "item v k = Inr x \<Longrightarrow> creds_ok shw v False \<Longrightarrow> plain_key k \<Longrightarrow> creds_ok shw x False"
  by (auto simp: item_Inr ok_lookup)

lemma ok_or_empty [simp]: "creds_ok shw v False \<Longrightarrow> creds_ok shw (or_empty v) False"
  by (simp add: or_empty_def)

lemma ok_mapping: "creds_ok shw v False \<Longrightarrow> creds_ok_dict shw (as_mapping v) False"
  by (cases v) (auto simp: as_mapping_def)

lemma ok_sequence: "creds_ok shw v False \<Longrightarrow> creds_ok_list shw (as_sequence v) False"
  by (cases v) (auto simp: as_sequence_def)

lemma credential_ref:
  assumes "credential creds n = Inr v"
  shows "\<exists>s. v = PStr s \<and> ref_match s"
proof -
  from assms obtain x where "(case x of PStr s \<Rightarrow> if ref_match s then Inr (PStr s) else Inl InsecureCredential
      | _ \<Rightarrow> Inl (Raises TypeError)) = Inr v"
    unfolding credential_def bind_vcf_Inr by blast
  then show ?thesis by (cases x) (auto split: if_split_asm)
qed

text \<open>Defaults are scalars.\<close>

definition scalar_defaults :: "pydict \<Rightarrow> bool" where
  "scalar_defaults dflts =
     list_all (\<lambda>e. case snd e of PDict d \<Rightarrow> is_scalar (dget d ''value'') | _ \<Rightarrow> True) dflts"

lemma scalar_ok: "is_scalar v \<Longrightarrow> creds_ok shw v ic"
  by (cases v) auto

lemma default_ok:
  assumes "apply_default dflts n = Inr (v, fs)" and "scalar_defaults dflts"
  shows "creds_ok shw v False"
proof -
  from assms(1) obtain entry where e: "dlook dflts n = Some entry" "item entry ''value'' = Inr v"
    by (auto simp: apply_default_def bind_vcf_Inr item_Inr)
  then obtain d where d: "entry = PDict d" "dget d ''value'' = v"
    by (auto simp: item_Inr dget_def)
  from e(1) have "(PStr n, entry) \<in> set dflts" by (simp add: dlook_def map_of_SomeD)
  with assms(2) d have "is_scalar v" by (fastforce simp: scalar_defaults_def list_all_iff)
  then show ?thesis by (rule scalar_ok)
qed

lemma value_or_default_ok:
  "value_or_default dflts x n = Inr (v, fs) \<Longrightarrow> scalar_defaults dflts \<Longrightarrow> creds_ok shw x False \<Longrightarrow> creds_ok shw v False"
  by (auto simp: value_or_default_def default_ok split: if_splits)

lemma required_ok: "required invt s p = (v, fs) \<Longrightarrow> creds_ok_dict shw invt False \<Longrightarrow> plain_key s \<Longrightarrow> creds_ok shw v False"
  by (auto simp: required_def Let_def intro!: ok_or_empty ok_dget)

declare creds_ok_dict.simps(2) [simp del]

section \<open>Each piece\<close>

text \<open>A value of an inventory without literal credentials.\<close>

abbreviation clean :: "(pyval \<Rightarrow> string) \<Rightarrow> pyval \<Rightarrow> bool" where
  "clean shw v \<equiv> creds_ok shw v False"

lemma sddc_manager_clean:
  assumes "sddc_manager_spec appliances creds = Inr v" and "clean shw appliances"
  shows "clean shw v"
proof -
  from assms(1) obtain m root where m: "attr appliances ''sddcManager'' = Inr m"
      and root: "credential creds ''sddcManagerRoot'' = Inr root"
      and v: "v = PDict [(PStr ''hostname'', dget_or (as_mapping m) ''hostname'' (PStr [])), (PStr ''rootPassword'', root)] \<or>
        (\<exists>l s. credential creds ''sddcManagerLocalUser'' = Inr l \<and> credential creds ''sddcManagerSsh'' = Inr s \<and>
          v = PDict ([(PStr ''hostname'', dget_or (as_mapping m) ''hostname'' (PStr [])), (PStr ''rootPassword'', root)] @
            [(PStr ''useExistingDeployment'', PBool True), (PStr ''localUserPassword'', l), (PStr ''sshPassword'', s)]))"
    unfolding sddc_manager_spec_def Let_def bind_vcf_Inr by (auto simp: bind_vcf_Inr split: if_split_asm)
  have "clean shw (dget_or (as_mapping m) ''hostname'' (PStr []))"
    by (intro ok_dget_or ok_mapping ok_attr [OF m]) (simp_all add: assms(2))
  then show ?thesis
    using v credential_ref [OF root] by (auto simp: ok_ref_entry dest!: credential_ref)
qed

lemma network_spec_clean:
  assumes "network_spec purpose entry = Inr v" and "clean shw entry"
  shows "clean shw v"
proof -
  from assms(1) obtain vlan sub gw mtu pool where
      sub: "item entry ''subnet'' = Inr sub" and gw: "item entry ''gateway'' = Inr gw" and
      pool: "attr entry ''pool'' = Inr pool" and
      v: "v = PDict [(PStr ''networkType'', PStr (the (map_of network_types purpose))), (PStr ''vlanId'', PInt vlan),
             (PStr ''subnet'', sub), (PStr ''gateway'', gw), (PStr ''mtu'', PInt mtu)] \<or>
        (\<exists>s e. item pool ''start'' = Inr s \<and> item pool ''end'' = Inr e \<and>
           v = PDict ([(PStr ''networkType'', PStr (the (map_of network_types purpose))), (PStr ''vlanId'', PInt vlan),
             (PStr ''subnet'', sub), (PStr ''gateway'', gw), (PStr ''mtu'', PInt mtu)] @
             [(PStr ''includeIpAddressRanges'', PList [PDict [(PStr ''startIpAddress'', s), (PStr ''endIpAddress'', e)]])]))"
    unfolding network_spec_def Let_def bind_vcf_Inr by (auto simp: bind_vcf_Inr split: if_split_asm)
  have "clean shw sub" "clean shw gw" and p: "clean shw pool"
    using ok_item [OF sub assms(2)] ok_item [OF gw assms(2)] ok_attr [OF pool assms(2)] by simp_all
  moreover have "clean shw s" if "item pool ''start'' = Inr s" for s
    using ok_item [OF that p] by simp
  moreover have "clean shw s" if "item pool ''end'' = Inr s" for s
    using ok_item [OF that p] by simp
  ultimately show ?thesis using v by auto
qed

lemma network_order_plain: "list_all plain_key network_order"
  by (simp add: network_order_def)

lemma network_specs_clean:
  "network_specs networks ps = Inr vs \<Longrightarrow> list_all plain_key ps \<Longrightarrow> clean shw networks \<Longrightarrow> creds_ok_list shw vs False"
proof (induction ps arbitrary: vs)
  case (Cons p ps)
  from Cons.prems(1) consider "network_specs networks ps = Inr vs" |
      entry v vs' where "item networks p = Inr entry" "network_spec p entry = Inr v" "network_specs networks ps = Inr vs'"
        "vs = v # vs'"
    by (auto simp: bind_vcf_Inr split: if_split_asm)
  then show ?case
  proof cases
    case 1
    with Cons show ?thesis by simp
  next
    case 2
    have "clean shw v"
      by (rule network_spec_clean [OF 2(2)], rule ok_item [OF 2(1) Cons.prems(3)]) (use Cons.prems(2) in simp)
    then show ?thesis using Cons.IH [OF 2(3)] Cons.prems by (simp add: 2(4))
  qed
qed simp

lemma vcenter_clean:
  assumes "vcenter_spec dflts appliances creds = Inr (v, fs)" and "clean shw appliances" and "scalar_defaults dflts"
  shows "clean shw v"
proof -
  from assms(1) obtain x host root xs sz f1 xo sso f2 admin where
      x: "attr appliances ''vcenter'' = Inr x" and host: "attr_or (or_empty x) ''hostname'' (PStr []) = Inr host" and
      root: "credential creds ''vcenterRoot'' = Inr root" and
      xs: "attr (or_empty x) ''size'' = Inr xs" "value_or_default dflts xs ''vcenterSize'' = Inr (sz, f1)" and
      xo: "attr (or_empty x) ''ssoDomain'' = Inr xo" "value_or_default dflts xo ''ssoDomain'' = Inr (sso, f2)" and
      admin: "credential creds ''ssoAdmin'' = Inr admin" and
      v: "v = PDict [(PStr ''vcenterHostname'', host), (PStr ''rootVcenterPassword'', root), (PStr ''vmSize'', sz),
            (PStr ''ssoDomain'', sso), (PStr ''adminUserSsoPassword'', admin)]"
    unfolding vcenter_spec_def Let_def bind_vcf_Inr by (auto simp: bind_vcf_Inr)
  have cx: "clean shw (or_empty x)" using ok_attr [OF x assms(2)] by simp
  have "clean shw host" using ok_attr_or [OF host cx] by simp
  moreover have "clean shw sz" by (rule value_or_default_ok [OF xs(2) assms(3)]) (use ok_attr [OF xs(1) cx] in simp)
  moreover have "clean shw sso" by (rule value_or_default_ok [OF xo(2) assms(3)]) (use ok_attr [OF xo(1) cx] in simp)
  ultimately show ?thesis
    using v credential_ref [OF root] credential_ref [OF admin] by (auto simp: ok_ref_entry)
qed

lemma pool_range_clean: "pool_range r = Some v \<Longrightarrow> clean shw r \<Longrightarrow> clean shw v"
  by (cases r) (auto simp: pool_range_def ok_dget_or)

lemma transport_vlan_clean: "transport_vlan nsx = Inr d \<Longrightarrow> creds_ok_dict shw d False"
  by (auto simp: transport_vlan_def bind_vcf_Inr split: if_split_asm)

lemma tep_pool_clean:
  assumes "tep_pool pool = Inr d" and "clean shw pool"
  shows "creds_ok_dict shw d False"
proof (cases "truthy pool")
  case True
  with assms(1) obtain name cidr gw ranges where
      name: "attr_or pool ''name'' (PStr ''tep-pool'') = Inr name" and
      cidr: "attr_or pool ''cidr'' (PStr []) = Inr cidr" and gw: "attr_or pool ''gateway'' (PStr []) = Inr gw" and
      ranges: "attr pool ''ranges'' = Inr ranges" and
      d: "d = [(PStr ''ipAddressPoolSpec'', PDict [(PStr ''name'', name),
                 (PStr ''subnets'', PList [PDict [(PStr ''cidr'', cidr), (PStr ''gateway'', gw),
                    (PStr ''ipAddressPoolRanges'', PList (List.map_filter pool_range (as_sequence ranges)))]])])]"
    by (auto simp: tep_pool_def bind_vcf_Inr)
  have "creds_ok_list shw (as_sequence ranges) False" using ok_attr [OF ranges assms(2)] by (simp add: ok_sequence)
  then have "creds_ok_list shw (List.map_filter pool_range (as_sequence ranges)) False"
    by (auto simp: ok_list_iff List.map_filter_def pool_range_clean)
  then show ?thesis
    using ok_attr_or [OF name assms(2)] ok_attr_or [OF cidr assms(2)] ok_attr_or [OF gw assms(2)] by (simp add: d)
qed (use assms in \<open>simp add: tep_pool_def\<close>)

lemma nsxt_clean:
  assumes "nsxt_spec dflts nsx creds = Inr (v, fs)" and "clean shw nsx" and "scalar_defaults dflts"
  shows "clean shw v"
proof -
  from assms(1) obtain tp managers vip xs sz f1 admin vlan pool where
      tp: "attr nsx ''tepPool'' = Inr tp" and managers: "attr nsx ''managers'' = Inr managers" and
      vip: "attr_or nsx ''vipFqdn'' (PStr []) = Inr vip" and
      xs: "attr nsx ''size'' = Inr xs" "value_or_default dflts xs ''nsxSize'' = Inr (sz, f1)" and
      admin: "credential creds ''nsxAdmin'' = Inr admin" and
      vlan: "transport_vlan nsx = Inr vlan" and pool: "tep_pool (or_empty tp) = Inr pool" and
      v: "v = PDict ([(PStr ''nsxtManagers'', PList (map (\<lambda>n. PDict [(PStr ''hostname'', n)]) (as_sequence managers))),
             (PStr ''vipFqdn'', vip), (PStr ''nsxtManagerSize'', sz), (PStr ''rootNsxtManagerPassword'', admin),
             (PStr ''nsxtAdminPassword'', admin)] @ vlan @ pool)"
    by (auto simp: nsxt_spec_def bind_vcf_Inr)
  have "clean shw (or_empty tp)" using ok_attr [OF tp assms(2)] by simp
  then have "creds_ok_dict shw pool False" by (rule tep_pool_clean [OF pool])
  moreover have "clean shw vip" using ok_attr_or [OF vip assms(2)] by simp
  moreover have "clean shw sz" by (rule value_or_default_ok [OF xs(2) assms(3)]) (use ok_attr [OF xs(1) assms(2)] in simp)
  moreover have "creds_ok_list shw (as_sequence managers) False" using ok_attr [OF managers assms(2)] by (simp add: ok_sequence)
  moreover note transport_vlan_clean [OF vlan] credential_ref [OF admin]
  ultimately show ?thesis
    by (auto simp: v ok_ref_entry ok_list_iff)
qed

lemma host_spec_clean:
  assumes "host_spec creds host = Inr v" and "clean shw host"
  shows "clean shw v"
proof -
  from assms(1) obtain name root where name: "attr_or host ''name'' (PStr []) = Inr name"
      and root: "credential creds ''esxRoot'' = Inr root"
      and v: "v = PDict [(PStr ''hostname'', name),
                   (PStr ''credentials'', PDict [(PStr ''username'', PStr ''root''), (PStr ''password'', root)])]"
    by (auto simp: host_spec_def bind_vcf_Inr)
  from credential_ref [OF root] obtain s where "root = PStr s" "ref_match s" by blast
  with ok_credentials_entry [of s shw] ok_attr_or [OF name assms(2)] show ?thesis
    by (simp add: v)
qed

lemma operations_clean:
  assumes "operations_spec ops creds = Inr v" and "creds_ok_dict shw ops False"
  shows "clean shw v"
proof -
  from assms(1) obtain root admin where root: "credential creds ''operationsRoot'' = Inr root"
      and admin: "credential creds ''operationsAdmin'' = Inr admin"
      and v: "v = PDict [(PStr ''nodes'', PList [PDict [(PStr ''hostname'', dget_or ops ''hostname'' (PStr [])),
                      (PStr ''rootUserPassword'', root), (PStr ''type'', PStr ''master'')]]),
                   (PStr ''adminUserPassword'', admin), (PStr ''applianceSize'', dget_or ops ''size'' (PStr [])),
                   (PStr ''useExistingDeployment'', PBool False)]"
    by (auto simp: operations_spec_def bind_vcf_Inr)
  show ?thesis
    using credential_ref [OF root] credential_ref [OF admin] ok_dget_or [OF assms(2)]
    by (auto simp: v ok_ref_entry)
qed

lemma collector_clean:
  assumes "collector_spec col creds = Inr v" and "creds_ok_dict shw col False"
  shows "clean shw v"
proof -
  from assms(1) obtain root where root: "credential creds ''operationsCollectorRoot'' = Inr root"
      and v: "v = PDict [(PStr ''hostname'', dget_or col ''hostname'' (PStr [])), (PStr ''rootUserPassword'', root),
                   (PStr ''applianceSize'', dget_or col ''size'' (PStr [])), (PStr ''useExistingDeployment'', PBool False)]"
    by (auto simp: collector_spec_def bind_vcf_Inr)
  show ?thesis
    using credential_ref [OF root] ok_dget_or [OF assms(2)] by (auto simp: v ok_ref_entry)
qed

lemma datastore_clean:
  assumes "datastore_spec storage = Inr d" and "clean shw storage"
  shows "creds_ok_dict shw d False"
proof -
  from assms(1) consider "d = []" | name skip ftt where
      "attr_or storage ''datastoreName'' (PStr ''vsan-datastore'') = Inr name"
      "d = [(PStr ''datastoreSpec'', PDict [(PStr ''vsanSpec'', PDict [(PStr ''datastoreName'', name),
                  (PStr ''esaConfig'', PDict ((PStr ''enabled'', PBool True) #
                     (if skip = PBool True then [(PStr ''skipHclAutoDiskClaim'', PBool True)] else []))),
                  (PStr ''failuresToTolerate'', PInt ftt)])])]"
    by (auto simp: datastore_spec_def bind_vcf_Inr split: if_split_asm)
  then show ?thesis
  proof cases
    case 2
    then show ?thesis using ok_attr_or [OF 2(1) assms(2)] by simp
  qed simp
qed

lemma vsp_clean:
  assumes "vsp_spec vsp = Inr d" and "clean shw vsp"
  shows "creds_ok_dict shw d False"
proof (cases "truthy vsp")
  case True
  with assms(1) obtain p i f s e c where
      p: "attr_or vsp ''platformFqdn'' (PStr []) = Inr p" and i: "attr_or vsp ''instanceFqdn'' (PStr []) = Inr i" and
      f: "attr_or vsp ''fleetFqdn'' (PStr []) = Inr f" and s: "attr_or vsp ''poolStart'' (PStr []) = Inr s" and
      e: "attr_or vsp ''poolEnd'' (PStr []) = Inr e" and
      c: "attr_or vsp ''internalCidr'' (PStr ''198.18.0.0/15'') = Inr c" and
      d: "d = [(PStr ''vspClusterSpec'', PDict [(PStr ''platformFqdn'', p), (PStr ''instanceFqdn'', i),
                 (PStr ''fleetFqdn'', f),
                 (PStr ''ipv4Pool'', PDict [(PStr ''ipRange'', PDict [(PStr ''startIpAddress'', s), (PStr ''endIpAddress'', e)])]),
                 (PStr ''internalClusterCidrIpv4'', c)])]"
    by (auto simp: vsp_spec_def bind_vcf_Inr)
  note ok = ok_attr_or [OF _ assms(2)]
  show ?thesis
    using ok [OF p] ok [OF i] ok [OF f] ok [OF s] ok [OF e] ok [OF c] by (simp add: d)
qed (use assms in \<open>simp add: vsp_spec_def\<close>)

lemma fleet_clean:
  assumes "fleet_specs appliances creds = Inr d" and "clean shw appliances"
  shows "creds_ok_dict shw d False"
proof -
  from assms(1) obtain o' c b l s1 s2 where
      o': "attr appliances ''operations'' = Inr o'" and c: "attr appliances ''operationsCollector'' = Inr c" and
      b: "attr appliances ''identityBroker'' = Inr b" and l: "attr appliances ''licenseServer'' = Inr l" and
      s1: "(if as_mapping o' = [] then Inr [] else bind_vcf (operations_spec (as_mapping o') creds)
              (\<lambda>s. Inr [(PStr ''vcfOperationsSpec'', s)])) = Inr s1" and
      s2: "(if as_mapping c = [] then Inr [] else bind_vcf (collector_spec (as_mapping c) creds)
              (\<lambda>s. Inr [(PStr ''vcfOperationsCollectorSpec'', s)])) = Inr s2" and
      d: "d = s1 @ s2 @ (if as_mapping b = [] then []
                 else [(PStr ''vidbSpec'', PDict [(PStr ''hostname'', dget_or (as_mapping b) ''hostname'' (PStr []))])]) @
               (if as_mapping l = [] then []
                 else [(PStr ''licenseServerSpec'', PDict [(PStr ''hostname'', dget_or (as_mapping l) ''hostname'' (PStr [])),
                          (PStr ''useExistingDeployment'', PBool False)])])"
    unfolding fleet_specs_def Let_def bind_vcf_Inr by blast
  note m = ok_mapping [OF ok_attr [OF _ assms(2)]]
  have "creds_ok_dict shw s1 False"
    using s1 operations_clean [OF _ m [OF o']] by (auto simp: bind_vcf_Inr split: if_split_asm)
  moreover have "creds_ok_dict shw s2 False"
    using s2 collector_clean [OF _ m [OF c]] by (auto simp: bind_vcf_Inr split: if_split_asm)
  ultimately show ?thesis
    using ok_dget_or [OF m [OF b]] ok_dget_or [OF m [OF l]] by (simp add: d)
qed

lemma hosts_clean:
  "map_vcf (host_spec creds) hs = Inr vs \<Longrightarrow> creds_ok_list shw hs False \<Longrightarrow> creds_ok_list shw vs False"
  by (induction hs arbitrary: vs) (auto simp: bind_vcf_Inr host_spec_clean)

section \<open>The whole specification\<close>

lemma render_pieces:
  assumes "render invt version (Inr dflts) = Inr (spec, fs)"
  obtains inst dns networks appliances nsx storage creds subdomain sddc_id name ver workflow ceip skip ns ntp nets
    vcenter manager hosts nsxt f1 f2 f3 f4 f5 datastore vsp vs fleet where
    "inst = fst (required invt ''instance'' ''/sddcId'')" "dns = fst (required invt ''dns'' ''/dnsSpec'')"
    "networks = fst (required invt ''networks'' ''/networkSpecs'')"
    "appliances = fst (required invt ''appliances'' ''/vcenterSpec'')"
    "nsx = or_empty (dget invt ''nsx'')" "storage = or_empty (dget invt ''storage'')"
    "attr_or dns ''subdomain'' (PStr []) = Inr subdomain" "attr_or inst ''sddcId'' (PStr []) = Inr sddc_id"
    "attr_or inst ''name'' (PStr []) = Inr name" "attr_or inst ''vcfVersion'' (PStr version) = Inr ver"
    "apply_default dflts ''workflowType'' = Inr (workflow, f1)" "apply_default dflts ''ceipEnabled'' = Inr (ceip, f2)"
    "apply_default dflts ''skipEsxThumbprintValidation'' = Inr (skip, f3)"
    "attr dns ''nameservers'' = Inr ns" "attr (or_empty (dget invt ''ntp'')) ''servers'' = Inr ntp"
    "network_specs networks network_order = Inr nets" "vcenter_spec dflts appliances creds = Inr (vcenter, f4)"
    "sddc_manager_spec appliances creds = Inr manager"
    "map_vcf (host_spec creds) (as_sequence (dget invt ''hosts'')) = Inr hosts"
    "(if truthy nsx then bind_vcf (nsxt_spec dflts nsx creds) (\<lambda>p. Inr ([(PStr ''nsxtSpec'', fst p)], snd p))
        else Inr ([], [])) = Inr (nsxt, f5)"
    "datastore_spec storage = Inr datastore" "attr appliances ''vsp'' = Inr vs" "vsp_spec vs = Inr vsp"
    "fleet_specs appliances creds = Inr fleet"
    "spec = [(PStr ''sddcId'', sddc_id), (PStr ''vcfInstanceName'', name), (PStr ''version'', ver),
               (PStr ''workflowType'', workflow), (PStr ''ceipEnabled'', ceip),
               (PStr ''skipEsxThumbprintValidation'', skip),
               (PStr ''dnsSpec'', PDict [(PStr ''subdomain'', subdomain), (PStr ''nameservers'', PList (as_sequence ns))]),
               (PStr ''ntpServers'', PList (as_sequence ntp)), (PStr ''networkSpecs'', PList nets),
               (PStr ''vcenterSpec'', vcenter), (PStr ''sddcManagerSpec'', manager),
               (PStr ''hostSpecs'', PList hosts)] @ nsxt @ datastore @ vsp @ fleet"
  using assms
  unfolding render_def Let_def case_prod_beta bind_vcf_Inr split_paired_Ex fst_conv snd_conv sum.inject(2) prod.inject
  apply (elim exE conjE, hypsubst)
  apply (rule that)
                      apply (rule refl | assumption | erule sym)+
  done

text \<open>
  C4: The rendered specification never carries a literal credential: when the credential walk finds
  nothing in the inventory, and the defaults are scalars, whatever the renderer returns is a document
  in which the same walk finds nothing. Every credential-shaped key of the specification, at any
  depth, holds a reference; an inventory with a literal where the renderer reads one is refused.
\<close>

theorem render_leaks_nothing:
  assumes "render invt version (Inr dflts) = Inr (spec, fs)"
    and "credential_findings shw (PDict invt) = []" and "scalar_defaults dflts"
  shows "credential_findings shw (PDict spec) = []"
  using assms(1)
proof (rule render_pieces, goal_cases)
  case (1 inst dns networks appliances nsx storage creds subdomain sddc_id name ver workflow ceip skip ns ntp nets
    vcenter manager hosts nsxt f1 f2 f3 f4 f5 datastore vsp vs fleet)
  have invt: "creds_ok_dict shw invt False" using assms(2) by (simp add: credential_findings_Nil_iff)
  have req: "clean shw (fst (required invt s p))" if "plain_key s" for s p
    using required_ok [OF _ invt that, of p] by (metis prod.collapse)
  have sects: "clean shw inst" "clean shw dns" "clean shw networks" "clean shw appliances" "clean shw nsx" "clean shw storage"
    unfolding 1(1-6) by (intro req ok_or_empty ok_dget [OF invt] plain_keys)+
  have instd: "clean shw subdomain" "clean shw sddc_id" "clean shw name" "clean shw ver"
    using ok_attr_or [OF 1(7) sects(2)] ok_attr_or [OF 1(8) sects(1)] ok_attr_or [OF 1(9) sects(1)]
      ok_attr_or [OF 1(10) sects(1)] by simp_all
  have dflt: "clean shw workflow" "clean shw ceip" "clean shw skip"
    by (rule default_ok [OF 1(11) assms(3)] default_ok [OF 1(12) assms(3)] default_ok [OF 1(13) assms(3)])+
  have "clean shw ns" using ok_attr [OF 1(14) sects(2)] by simp
  moreover have "clean shw ntp" using ok_attr [OF 1(15)] ok_dget [OF invt] by simp
  ultimately have lists: "creds_ok_list shw (as_sequence ns) False" "creds_ok_list shw (as_sequence ntp) False"
    by (simp_all add: ok_sequence)
  have nets: "creds_ok_list shw nets False" by (rule network_specs_clean [OF 1(16) network_order_plain sects(3)])
  have apps: "clean shw vcenter" "clean shw manager"
    by (rule vcenter_clean [OF 1(17) sects(4) assms(3)] sddc_manager_clean [OF 1(18) sects(4)])+
  have hosts: "creds_ok_list shw hosts False"
    by (rule hosts_clean [OF 1(19)], rule ok_sequence, rule ok_dget [OF invt]) simp
  have nsxt: "creds_ok_dict shw nsxt False"
    using 1(20) nsxt_clean [OF _ sects(5) assms(3)] by (auto simp: bind_vcf_Inr split: if_split_asm)
  have store: "creds_ok_dict shw datastore False" by (rule datastore_clean [OF 1(21) sects(6)])
  have vsp: "creds_ok_dict shw vsp False"
    by (rule vsp_clean [OF 1(23)], rule ok_attr [OF 1(22) sects(4)]) simp
  have "creds_ok_dict shw fleet False" by (rule fleet_clean [OF 1(24) sects(4)])
  then have "creds_ok_dict shw spec False"
    by (simp add: 1(25) instd dflt lists nets apps hosts nsxt store vsp)
  then show ?case by (simp add: credential_findings_Nil_iff)
qed

text \<open>The vendored table of version 9.1.1.0.\<close>

definition vendored_defaults :: pydict where
  "vendored_defaults =
     map (\<lambda>(n, v, s). (PStr n, PDict [(PStr ''value'', v), (PStr ''source'', PStr s)]))
       [(''workflowType'', PStr ''VCF'', ''SddcSpec.workflowType pattern (VCF|VCF_COMPLETE|VCF_EXTEND|VVF).''),
        (''ceipEnabled'', PBool False, ''Lab default: telemetry off unless asked for.''),
        (''skipEsxThumbprintValidation'', PBool True,
         ''Lab default: hosts are freshly installed and thumbprints are unknown.''),
        (''vcenterSize'', PStr ''small'', ''VCF-Design-Studio 9.1 '' @ [CHR 0x27] @ ''simple'' @ [CHR 0x27] @ '' profile (P&P Workbook static tables).''),
        (''nsxSize'', PStr ''medium'', ''SddcNsxtSpec.nsxtManagerSize pattern allows xlarge|large|medium only.''),
        (''ssoDomain'', PStr ''vsphere.local'', ''vSphere default SSO domain.'')]"

definition sample_inventory :: pydict where
  "sample_inventory =
     [(PStr ''instance'', PDict [(PStr ''sddcId'', PStr ''lab'')]),
      (PStr ''dns'', PDict [(PStr ''subdomain'', PStr ''lab.local'')]),
      (PStr ''networks'', PDict [(PStr ''vsan'', PDict [(PStr ''vlan'', PInt 30), (PStr ''subnet'', PStr ''10.0.3.0/24''),
         (PStr ''gateway'', PStr ''10.0.3.1''), (PStr ''mtu'', PInt 9000)])]),
      (PStr ''appliances'', PDict [(PStr ''vcenter'', PDict [(PStr ''hostname'', PStr ''vc'')])]),
      (PStr ''hosts'', PList [PDict [(PStr ''name'', PStr ''esx1'')]]),
      (PStr ''credentials'', PDict [(PStr ''vcenterRoot'', PStr ''${a}''), (PStr ''ssoAdmin'', PStr ''${b}''),
         (PStr ''sddcManagerRoot'', PStr ''${c}''), (PStr ''esxRoot'', PStr ''${d}'')])]"

lemma sample_renders:
  "(case render sample_inventory default_version (Inr vendored_defaults) of Inr _ \<Rightarrow> True | Inl _ \<Rightarrow> False) \<and>
     credential_findings (\<lambda>_. []) (PDict sample_inventory) = [] \<and> scalar_defaults vendored_defaults"
  by code_simp

theorem render_leaks_nothing_witness:
  "credential_findings (\<lambda>_. []) (PDict (fst (projr (render sample_inventory default_version (Inr vendored_defaults))))) = []"
proof -
  from sample_renders obtain spec fs where r: "render sample_inventory default_version (Inr vendored_defaults) = Inr (spec, fs)"
    by (auto split: sum.splits)
  show ?thesis
    using render_leaks_nothing [OF r, of "\<lambda>_. []"] sample_renders by (simp add: r)
qed

end
