(* ===== verification/Spec2Isabelle.thy ===== *)
theory Spec2Isabelle
  imports Prelude PyStr PyVal PyRegex Admission Lane TtlCache VisionGuard AccessKeys Brief Ledger Escalation Aliases ChatRoute Redaction RegexShape DispatchText Dispatch WebFetch ToolLoop RouterKeys SwapWebhook WfLoops WfReview WfPipeline WfGrade LiveTracker LiveParse LiveHub LiveHistory RagPlan RagRefresh RagText RagSources RagTools VcfDoc VcfDevices VcfNet VcfTexts VcfProvision VcfRender
begin

text \<open>
  A verification development of the local GPU cluster: the router that fronts the chat server, the
  work-queue runner, the workforce harness, the live dashboard, the corpus refresh and the VCF
  specification tools, all Python. Each theory models named files under \<^verbatim>\<open>src/\<close>; a definition has the name
  of the function, class or constant it models, or stands for the part of it its text names.

  \<^bold>\<open>Shared layer.\<close> \<open>Prelude\<close>: the exceptions a Python function can raise (\<open>exn\<close>), results that are an exception
  or a value (\<open>'a res\<close>, \<open>bind_res\<close>), dictionaries as association lists in insertion order. \<open>PyStr\<close>: \<^verbatim>\<open>str\<close> methods on
  Latin-1 text. \<open>PyVal\<close>: JSON and YAML values (\<open>pyval\<close>), floats as rationals with the three special
  values. \<open>PyRegex\<close>: a backtracking matcher that lists the matches in the order Python tries them;
  \<open>RegexShape\<close>: what a pattern guarantees of its matches. In the matcher the number of iterations of a
  repetition is bounded by its lower bound plus the length of the text ahead: each further iteration
  must consume, so the bound is never what ends it; \<open>re_sub\<close> and \<open>re_findall\<close> have the length of the text
  as fuel for the same reason.

  \<^bold>\<open>The router\<close> (\<^verbatim>\<open>scripts/files/router-app.py\<close> and its modules). \<open>Admission\<close> (\<^verbatim>\<open>stream_admission.py\<close>): the gate is
  a record of its counter and limits; a streamed response is a small automaton that owns one slot; one
  gate with any number of responses is an \<open>inductive\<close> step relation whose invariant accounts for every
  slot. \<open>Lane\<close> (\<^verbatim>\<open>workforce_lane.py\<close>) puts a second gate before the first, and its steps are those of the
  pair; the owner's progress and the cap on scoped requests are read off the invariant. \<open>TtlCache\<close>
  (\<^verbatim>\<open>tavily_cache.py\<close> and the search route), \<open>VisionGuard\<close> (\<^verbatim>\<open>vision_guard.py\<close>, \<^verbatim>\<open>embed_admission.py\<close>), \<open>AccessKeys\<close>
  (\<^verbatim>\<open>access_keys.py\<close> and the bearer middleware), \<open>RouterKeys\<close> (\<^verbatim>\<open>router-keys.py\<close>, whose files the key store of
  \<open>AccessKeys\<close> reads: the properties on issuing and revoking compose the two), \<open>Aliases\<close> (\<^verbatim>\<open>alias_defaults.py\<close>
  and the alias table), \<open>ChatRoute\<close> (the routes as decisions: refuse, escalate, or forward a body),
  \<open>WebFetch\<close> (\<^verbatim>\<open>web_fetch_guard.py\<close>), \<open>ToolLoop\<close> (the tools and both multi-turn loops) and \<open>SwapWebhook\<close>
  (\<^verbatim>\<open>swap-webhook.py\<close>, with its threads as a step relation). The escalation broker \<^verbatim>\<open>escalation.py\<close> is three
  theories: \<open>Brief\<close> (texts), \<open>Ledger\<close> (configuration, attempts, reservations, caps) and \<open>Escalation\<close> (one
  upstream call, and the handler cut at its await, so that concurrent calls interleave at the ledger).
  The ledger is stated against an abstract budget of spent and reserved money, and the concurrent
  handler refines it. A coroutine runs undisturbed between two awaits, so the code between awaits is
  one function; which coroutine goes next is open.

  \<^bold>\<open>The runner\<close> (\<^verbatim>\<open>scripts/files/agent_runner_dispatch.py\<close>). \<open>Redaction\<close> (secrets and patterns), \<open>DispatchText\<close> (what
  is read from issues, logs and reports) and \<open>Dispatch\<close>: GitHub is a hub of labels and comments, and an
  oracle indexed by the calls made so far decides which of them fail or apply in part.

  \<^bold>\<open>The workforce harness\<close> (\<^verbatim>\<open>scripts/tools/workforce\<close>). \<open>WfLoops\<close> (the loop metric; its inner loop is a
  \<open>partial_function\<close>, and that it returns where the scan calls it is proved), \<open>WfReview\<close> (verdicts and the
  packet), \<open>WfPipeline\<close> (turns, and the threads as a step relation with a measure that bounds a run) and
  \<open>WfGrade\<close> (what is graded and when it passes).

  \<^bold>\<open>The live dashboard\<close> (\<^verbatim>\<open>scripts/files/live_dashboard\<close>). \<open>LiveTracker\<close> (\<^verbatim>\<open>tracker.py\<close>), \<open>LiveParse\<close> (\<^verbatim>\<open>parsers.py\<close>),
  \<open>LiveHub\<close> (\<^verbatim>\<open>collectors.py\<close>) and \<open>LiveHistory\<close> (\<^verbatim>\<open>history.py\<close>): the hub drives the tracker and hands its closed rows
  to the history, whose writer meets an open SQLite.

  \<^bold>\<open>The corpus refresh\<close> (\<^verbatim>\<open>scripts/rag\<close>). \<open>RagPlan\<close> (the diff and the budget), \<open>RagRefresh\<close> (one source),
  \<open>RagText\<close> and \<open>RagSources\<close> (the handlers), \<open>RagTools\<close> (all sources and the one-off tools).

  \<^bold>\<open>Parameters.\<close> Code outside the repository is an argument: SHA-256, fresh tokens, clocks, the network, git,
  SQLite, the file system, JSON, XML and URL parsers, subprocesses. Where a property needs something of
  one (an injective printer, a resolver that answers), it is a named hypothesis, and a witness runs the
  property at a concrete instance. What may fail is an open outcome in every step, so the properties
  hold however it fails.

  \<^bold>\<open>Bounds.\<close> Text outside Latin-1 and the rounding of floats to 53 bits are outside the model; the money and
  times of the source are rationals, rounded where the source rounds. Python integers are unbounded,
  as \<open>int\<close> and \<open>nat\<close> are; addresses are words. Loops that a network answer can prolong carry the source's own
  limits (redirect hops, turns of a tool loop, retries), which are their fuel, so running out of it is
  the source's own refusal.

  \<^bold>\<open>Not modelled.\<close> Servers and command lines (argument parsing, HTTP plumbing, page rendering), access
  logs and metrics, the readings of GPUs and fans, the calls that only run a subprocess (git, containers, the swap script), the
  evaluation and benchmark scripts under \<^verbatim>\<open>scripts/tools\<close>, the copies of code under \<^verbatim>\<open>docs\<close>, and the tests. The
  components of the manifest list them with the reason.
\<close>

end
